(* ===== verification/Prelude.thy ===== *)
theory Prelude
  imports Main "HOL-Library.Word"
begin

text \<open>
  Shared vocabulary of the development: the C integer types as machine words, the outcome
  of a kernel routine (return, panic, leave the kernel, undefined behaviour) with its
  sequencing operator, linked lists threaded through a link field (the page free list and
  the environment free list), and the word lemmas about page frames and permission bits
  that every memory component uses.
\<close>

unbundle bit_operations_syntax

section \<open>C types\<close>

type_synonym u8 = "8 word"
type_synonym u16 = "16 word"
type_synonym u32 = "32 word"
type_synonym u64 = "64 word"

named_theorems layout_defs \<open>constants of the memory layout\<close>
named_theorems kernel_defs \<open>small accessors and updaters of the kernel state\<close>

section \<open>Outcomes of kernel routines\<close>

text \<open>
  A kernel routine returns a value and a new state, or stops in a panic, or leaves the
  kernel for good (it drops to user mode, halts the CPU, or stays in the kernel monitor),
  or runs into behaviour C leaves undefined (a dereferenced null pointer), or loops forever.
\<close>

datatype leave = RunEnv nat | HaltCpu | MonitorForever

datatype ('s, 'a) outcome =
    Return 'a 's
  | Panic string
  | Leave leave 's
  | Fault string
  | Diverge

fun obind :: "('s, 'a) outcome \<Rightarrow> ('a \<Rightarrow> 's \<Rightarrow> ('s, 'b) outcome) \<Rightarrow> ('s, 'b) outcome" where
  "obind (Return a s) f = f a s"
| "obind (Panic m) f = Panic m"
| "obind (Leave l s) f = Leave l s"
| "obind (Fault m) f = Fault m"
| "obind Diverge f = Diverge"

text \<open>A C \<open>assert\<close>: panics with its own text when the condition is false.\<close>

definition assert_that :: "bool \<Rightarrow> string \<Rightarrow> 's \<Rightarrow> ('s, unit) outcome" where
  "assert_that b msg s = (if b then Return () s else Panic msg)"

lemma assert_that_simps [simp]:
  "assert_that True msg s = Return () s"
  "assert_that False msg s = Panic msg"
  by (simp_all add: assert_that_def)

lemma obind_Return_iff:
  "obind m f = Return b t \<longleftrightarrow> (\<exists>a s. m = Return a s \<and> f a s = Return b t)"
  by (cases m) auto

lemma obind_assoc: "obind (obind m f) g = obind m (\<lambda>a s. obind (f a s) g)"
  by (cases m) auto

lemma obind_cong [fundef_cong]:
  "m = m' \<Longrightarrow> (\<And>a s. m' = Return a s \<Longrightarrow> f a s = f' a s) \<Longrightarrow> obind m f = obind m' f'"
  by (cases m') auto

text \<open>A \<open>for\<close> loop over a list of index values whose body may fail.\<close>

primrec ofold :: "('b \<Rightarrow> 's \<Rightarrow> ('s, unit) outcome) \<Rightarrow> 'b list \<Rightarrow> 's \<Rightarrow> ('s, unit) outcome" where
  "ofold f [] s = Return () s"
| "ofold f (x # xs) s = obind (f x s) (\<lambda>_ s. ofold f xs s)"

lemma ofold_append: "ofold f (xs @ ys) s = obind (ofold f xs s) (\<lambda>_ s. ofold f ys s)"
  by (induction xs arbitrary: s) (simp_all add: obind_assoc)

text \<open>A loop whose body returns from every state of the invariant returns, with the invariant.\<close>

lemma ofold_invariant:
  assumes "P 0 s" and "\<And>i t. i < length xs \<Longrightarrow> P i t \<Longrightarrow> \<exists>u. f (xs ! i) t = Return () u \<and> P (Suc i) u"
  shows "\<exists>t. ofold f xs s = Return () t \<and> P (length xs) t"
  using assms
proof (induction xs arbitrary: s P)
  case Nil
  then show ?case by simp
next
  case (Cons x xs)
  obtain u where u: "f x s = Return () u" "P 1 u" using Cons.prems(1) Cons.prems(2) [of 0 s] by auto
  have "\<exists>t. ofold f xs u = Return () t \<and> P (Suc (length xs)) t"
  proof (rule Cons.IH [of "\<lambda>i. P (Suc i)"])
    show "P (Suc 0) u" using u(2) by simp
    show "\<exists>w. f (xs ! i) v = Return () w \<and> P (Suc (Suc i)) w" if "i < length xs" "P (Suc i) v" for i v
      using Cons.prems(2) [of "Suc i" v] that by simp
  qed
  then show ?case using u(1) by simp
qed

text \<open>The state an outcome carries, when it carries one.\<close>

fun ostate :: "('s, 'a) outcome \<Rightarrow> 's option" where
  "ostate (Return a s) = Some s"
| "ostate (Leave l s) = Some s"
| "ostate (Panic m) = None"
| "ostate (Fault m) = None"
| "ostate Diverge = None"

text \<open>\<open>holds P m\<close>: whatever state the routine ends in satisfies \<open>P\<close>.\<close>

definition holds :: "('s \<Rightarrow> bool) \<Rightarrow> ('s, 'a) outcome \<Rightarrow> bool" where
  "holds P m = (case ostate m of None \<Rightarrow> True | Some s \<Rightarrow> P s)"

lemma holds_simps [simp]:
  "holds P (Return a s) = P s"
  "holds P (Leave l s) = P s"
  "holds P (Panic e)"
  "holds P (Fault e)"
  "holds P Diverge"
  by (simp_all add: holds_def)

lemma holds_obind:
  assumes "holds P m" and "\<And>a s. m = Return a s \<Longrightarrow> P s \<Longrightarrow> holds P (f a s)"
  shows "holds P (obind m f)"
  using assms by (cases m) auto

lemma holds_assert [simp]: "P s \<Longrightarrow> holds P (assert_that b msg s)"
  by (simp add: assert_that_def)

section \<open>State machines\<close>

text \<open>A predicate that every step keeps holds along every run.\<close>

locale kept_by_steps =
  fixes step :: "'s \<Rightarrow> 's \<Rightarrow> bool"
    and inv :: "'s \<Rightarrow> bool"
  assumes keeps: "step x y \<Longrightarrow> inv x \<Longrightarrow> inv y"
begin

lemma run: "step\<^sup>*\<^sup>* x y \<Longrightarrow> inv x \<Longrightarrow> inv y"
  by (induction rule: rtranclp_induct) (auto intro: keeps)

end

section \<open>Linked lists through a link field\<close>

text \<open>
  Both allocators of the kernel keep their free objects on a list threaded through a
  field of the objects (\<open>pp_link\<close>, \<open>env_link\<close>). \<open>chain lk p xs\<close>: following
  \<open>lk\<close> from \<open>p\<close> visits exactly \<open>xs\<close> and ends in NULL.
\<close>

primrec chain :: "('i \<Rightarrow> 'i option) \<Rightarrow> 'i option \<Rightarrow> 'i list \<Rightarrow> bool" where
  "chain lk p [] = (p = None)"
| "chain lk p (x # xs) = (p = Some x \<and> chain lk (lk x) xs)"

lemma chain_None [simp]: "chain lk None xs = (xs = [])"
  by (cases xs) auto

lemma chain_Some: "chain lk (Some x) xs = (\<exists>ys. xs = x # ys \<and> chain lk (lk x) ys)"
  by (cases xs) auto

lemma chain_cong:
  "(\<And>x. x \<in> set xs \<Longrightarrow> lk x = lk' x) \<Longrightarrow> chain lk p xs = chain lk' p xs"
  by (induction xs arbitrary: p) auto

lemma chain_upd [simp]: "x \<notin> set xs \<Longrightarrow> chain (lk(x := v)) p xs = chain lk p xs"
  by (rule chain_cong) auto

lemma chain_unique: "chain lk p xs \<Longrightarrow> chain lk p ys \<Longrightarrow> xs = ys"
proof (induction xs arbitrary: p ys)
  case Nil
  then show ?case by simp
next
  case (Cons x xs)
  then obtain zs where "ys = x # zs" "chain lk (lk x) zs" by (auto simp: chain_Some)
  with Cons show ?case by auto
qed

lemma chain_append:
  "chain lk p (xs @ y # ys) \<Longrightarrow> chain lk (Some y) (y # ys)"
  by (induction xs arbitrary: p) auto

lemma chain_distinct: "chain lk p xs \<Longrightarrow> distinct xs"
proof (induction xs arbitrary: p)
  case Nil
  then show ?case by simp
next
  case (Cons x xs)
  then have tl: "chain lk (lk x) xs" and "distinct xs" by auto
  have "x \<notin> set xs"
  proof
    assume "x \<in> set xs"
    then obtain as bs where xs: "xs = as @ x # bs" by (auto simp: in_set_conv_decomp)
    with tl have "chain lk (lk x) bs" using chain_append [of lk "lk x" as x bs] by simp
    with tl have "xs = bs" by (rule chain_unique)
    with xs show False by simp
  qed
  with \<open>distinct xs\<close> show ?case by simp
qed

text \<open>
  Walking such a list to count its elements, as the C loops do: \<open>None\<close> when the walk
  does not end (the links form a cycle).
\<close>

partial_function (option) list_count :: "('i \<Rightarrow> 'i option) \<Rightarrow> 'i option \<Rightarrow> nat \<Rightarrow> nat option"
  where
  "list_count lk p n = (case p of None \<Rightarrow> Some n | Some x \<Rightarrow> list_count lk (lk x) (Suc n))"

lemma list_count_chain: "chain lk p xs \<Longrightarrow> list_count lk p n = Some (n + length xs)"
  by (induction xs arbitrary: p n) (simp_all add: list_count.simps)

section \<open>Allocators that keep their free objects on such a list\<close>

text \<open>
  The contract both allocators meet: taking the first object moves the head to its link
  and changes no other link; giving an object back makes it the head, linked to the old
  head. What a client can rely on follows from these four laws.
\<close>

locale list_allocator =
  fixes link :: "'s \<Rightarrow> 'i \<Rightarrow> 'i option"
    and head :: "'s \<Rightarrow> 'i option"
    and take_head :: "'s \<Rightarrow> 's"
    and give :: "'i \<Rightarrow> 's \<Rightarrow> 's"
  assumes head_take: "head s = Some x \<Longrightarrow> head (take_head s) = link s x"
    and link_take: "head s = Some x \<Longrightarrow> y \<noteq> x \<Longrightarrow> link (take_head s) y = link s y"
    and head_give: "head (give x s) = Some x"
    and link_give: "link (give x s) = (link s)(x := head s)"
begin

definition on_list :: "'s \<Rightarrow> 'i list \<Rightarrow> bool" where
  "on_list s xs = chain (link s) (head s) xs"

lemma on_list_empty: "head s = None \<Longrightarrow> on_list s xs \<longleftrightarrow> xs = []"
  by (simp add: on_list_def)

lemma on_list_distinct: "on_list s xs \<Longrightarrow> distinct xs"
  by (auto simp: on_list_def dest: chain_distinct)

lemma take_on_list:
  assumes "on_list s (x # xs)"
  shows "on_list (take_head s) xs"
proof -
  from assms have hd: "head s = Some x" and tl: "chain (link s) (link s x) xs"
    by (simp_all add: on_list_def)
  from assms have "x \<notin> set xs" using chain_distinct [of "link s" "head s" "x # xs"]
    by (simp add: on_list_def)
  then have "chain (link (take_head s)) (link s x) xs = chain (link s) (link s x) xs"
    by (intro chain_cong) (metis hd link_take)
  with tl show ?thesis by (simp add: on_list_def head_take [OF hd])
qed

lemma give_on_list: "on_list s xs \<Longrightarrow> x \<notin> set xs \<Longrightarrow> on_list (give x s) (x # xs)"
  by (simp add: on_list_def head_give link_give)

text \<open>Giving back an object that is still on the list closes a cycle: the list is lost.\<close>

lemma give_twice_cycle:
  assumes "on_list s xs" and "x \<in> set xs"
  shows "\<not> on_list (give x s) ys"
proof
  assume "on_list (give x s) ys"
  then obtain zs where ys: "ys = x # zs" and zs: "chain ((link s)(x := head s)) (head s) zs"
    by (auto simp: on_list_def head_give link_give chain_Some)
  have "distinct ys"
    using \<open>on_list (give x s) ys\<close> by (auto simp: on_list_def dest: chain_distinct)
  with ys have "x \<notin> set zs" by simp
  with zs have "chain (link s) (head s) zs" by simp
  with assms have "xs = zs" by (auto simp: on_list_def intro: chain_unique)
  with \<open>x \<notin> set zs\<close> assms(2) show False by simp
qed

text \<open>First in, last out: what was given back last is taken next.\<close>

lemma take_give: "head (take_head (give x s)) = head s"
  by (simp add: head_take [OF head_give] link_give)

end

section \<open>Words\<close>

lemma unat_u32: "unat (a :: u32) < 4294967296"
  using unsigned_less [of a, where 'a = nat] by simp

lemma unat_u16: "unat (a :: u16) < 65536"
  using unsigned_less [of a, where 'a = nat] by simp

lemma drop_bit_small: "(p :: u32) < 4096 \<Longrightarrow> drop_bit 12 p = 0"
  by (simp add: drop_bit_eq_div word_less_nat_alt word_unat_eq_iff unat_div)

lemma less_4096_bits:
  assumes "(p :: u32) < 4096" and "bit p n"
  shows "n < 12"
proof (rule ccontr)
  assume "\<not> n < 12"
  then have "n = 12 + (n - 12)" by simp
  then have "bit (drop_bit 12 p) (n - 12)"
    using assms(2) by (simp add: bit_drop_bit_eq)
  then show False using drop_bit_small [OF assms(1)] by simp
qed

lemma or_eq_0_word [simp]: "(a OR b = (0 :: u32)) \<longleftrightarrow> a = 0 \<and> b = 0"
  by (auto simp: bit_eq_iff bit_or_iff)

text \<open>Signed readings, and environment ids: a multiple of 1024 with an index in its low bits.\<close>

lemma bit31_unat: "bit (w :: u32) 31 \<longleftrightarrow> 2 ^ 31 \<le> unat w"
proof -
  have lt: "unat w < 2 ^ 32" using unsigned_less [of w, where 'a = nat] by simp
  have "bit w 31 \<longleftrightarrow> bit (unat w) 31" by (simp add: bit_unsigned_iff)
  also have "\<dots> \<longleftrightarrow> odd (unat w div 2 ^ 31)" by (simp add: bit_iff_odd)
  also have "\<dots> \<longleftrightarrow> 2 ^ 31 \<le> unat w"
  proof (cases "2 ^ 31 \<le> unat w")
    case True
    then have "unat w div 2 ^ 31 = 1" using lt by auto
    then show ?thesis using True by simp
  next
    case False
    then have "unat w div 2 ^ 31 = 0" by simp
    then show ?thesis using False by simp
  qed
  finally show ?thesis .
qed

lemma sint_neg_unat: "sint (w :: u32) < 0 \<longleftrightarrow> 2 ^ 31 \<le> unat w"
  using bit_last_iff [of w] by (simp add: bit31_unat)

lemma sint_pos_unat: "0 < sint (w :: u32) \<longleftrightarrow> 0 < unat w \<and> unat w < 2 ^ 31"
proof -
  have "sint w = 0 \<longleftrightarrow> unat w = 0" by (metis signed_0 signed_word_eqI unsigned_0 unat_eq_zero)
  then show ?thesis using sint_neg_unat [of w] by linarith
qed

lemma and_not_mask10: "unat ((w :: u32) AND NOT 1023) = 1024 * (unat w div 1024)"
proof -
  have "w AND NOT (mask 10) = push_bit 10 (drop_bit 10 w)"
    by (rule bit_eqI) (auto simp: bit_and_iff bit_not_iff bit_push_bit_iff bit_drop_bit_eq bit_mask_iff dest: bit_imp_le_length)
  moreover have "unat (push_bit 10 (drop_bit 10 w)) = 1024 * (unat w div 1024)"
    using unsigned_less [of w, where 'a = nat]
    by (simp add: push_bit_eq_mult drop_bit_eq_div unat_word_ariths unat_div)
  moreover have "(mask 10 :: u32) = 1023" by (simp add: mask_eq_exp_minus_1)
  ultimately show ?thesis by simp
qed

lemma or_low:
  assumes "unat (g :: u32) = 1024 * a" "e < 1024"
  shows "unat (g OR of_nat e) = 1024 * a + e" "(g OR of_nat e) AND 1023 = of_nat e"
proof -
  have ue: "unat (of_nat e :: u32) = e" using assms(2) by (simp add: unat_of_nat)
  have dj: "g AND of_nat e = 0"
  proof (rule bit_eqI)
    fix n
    have "\<not> bit g n" if "n < 10"
    proof -
      have "bit g n \<longleftrightarrow> bit (unat g) n" using that by (simp add: bit_unsigned_iff)
      also have "unat g = push_bit 10 a" using assms(1) by (simp add: push_bit_eq_mult)
      finally show ?thesis using that by (simp add: bit_push_bit_iff)
    qed
    moreover have "\<not> bit (of_nat e :: u32) n" if "10 \<le> n"
    proof -
      have "e < 2 ^ n" using assms(2) power_increasing [OF that, of "2 :: nat"] by simp
      then have "\<not> bit e n" by (simp add: bit_iff_odd)
      then show ?thesis by (simp add: bit_of_nat_iff)
    qed
    ultimately show "bit (g AND of_nat e) n \<longleftrightarrow> bit 0 n" by (cases "n < 10") (auto simp: bit_and_iff)
  qed
  have "g OR of_nat e = g + of_nat e" using dj by (simp add: disjunctive_add_eq_or)
  moreover have "unat (g + of_nat e) = 1024 * a + e"
    using unsigned_less [of g, where 'a = nat] assms by (simp add: unat_word_ariths ue)
  ultimately show u: "unat (g OR of_nat e) = 1024 * a + e" by simp
  have "(mask 10 :: u32) = 1023" by (simp add: mask_eq_exp_minus_1)
  then have "(g OR of_nat e) AND 1023 = take_bit 10 (g OR of_nat e)" by (simp add: take_bit_eq_mask)
  also have "unat \<dots> = e" using assms(2) by (simp add: take_bit_eq_mod unat_mod u)
  finally show "(g OR of_nat e) AND 1023 = of_nat e" using ue by (simp add: word_unat_eq_iff)
qed

section \<open>Byte-addressed memory\<close>

type_synonym mem = "u32 \<Rightarrow> u8"

definition read32 :: "mem \<Rightarrow> u32 \<Rightarrow> u32" where
  "read32 b a = ucast (b a) OR push_bit 8 (ucast (b (a + 1))) OR push_bit 16 (ucast (b (a + 2)))
     OR push_bit 24 (ucast (b (a + 3)))"

definition read16 :: "mem \<Rightarrow> u32 \<Rightarrow> u16" where
  "read16 b a = ucast (b a) OR push_bit 8 (ucast (b (a + 1)))"

definition get_byte :: "u32 \<Rightarrow> nat \<Rightarrow> u8" where
  "get_byte w k = ucast (drop_bit (8 * k) w)"

end
