(* ===== verification/Layout.thy ===== *)
theory Layout
  imports Prelude
begin

text \<open>
  The memory layout and the x86 paging macros: \<^verbatim>\<open>inc/mmu.h\<close>, \<^verbatim>\<open>inc/memlayout.h\<close>,
  \<^verbatim>\<open>inc/types.h\<close> (rounding) and the address conversions of \<^verbatim>\<open>kern/pmap.h\<close>. All
  addresses are 32-bit words. The lemmas are the algebra of linear addresses and page
  table entries: decomposition and recomposition, rounding, and what the permission bits
  of a stored entry are.
\<close>

section \<open>Constants\<close>

definition NPDENTRIES :: u32 where [layout_defs]: "NPDENTRIES = 1024"
definition NPTENTRIES :: u32 where [layout_defs]: "NPTENTRIES = 1024"
definition PGSIZE :: u32 where [layout_defs]: "PGSIZE = 4096"
definition PGSHIFT :: nat where [layout_defs]: "PGSHIFT = 12"
definition PTSIZE :: u32 where [layout_defs]: "PTSIZE = PGSIZE * NPTENTRIES"
definition PTXSHIFT :: nat where [layout_defs]: "PTXSHIFT = 12"
definition PDXSHIFT :: nat where [layout_defs]: "PDXSHIFT = 22"

definition PTE_P :: u32 where [layout_defs]: "PTE_P = 0x001"
definition PTE_W :: u32 where [layout_defs]: "PTE_W = 0x002"
definition PTE_U :: u32 where [layout_defs]: "PTE_U = 0x004"
definition PTE_PWT :: u32 where [layout_defs]: "PTE_PWT = 0x008"
definition PTE_PCD :: u32 where [layout_defs]: "PTE_PCD = 0x010"
definition PTE_PS :: u32 where [layout_defs]: "PTE_PS = 0x080"
definition PTE_AVAIL :: u32 where [layout_defs]: "PTE_AVAIL = 0xE00"
definition PTE_MAPPED :: u32 where [layout_defs]: "PTE_MAPPED = 0x200"
definition PTE_SYSCALL :: u32 where [layout_defs]:
  "PTE_SYSCALL = PTE_AVAIL OR PTE_P OR PTE_W OR PTE_U"

definition FL_IF :: u32 where [layout_defs]: "FL_IF = 0x200"

definition GD_KT :: u16 where [layout_defs]: "GD_KT = 0x08"
definition GD_KD :: u16 where [layout_defs]: "GD_KD = 0x10"
definition GD_UT :: u16 where [layout_defs]: "GD_UT = 0x18"
definition GD_UD :: u16 where [layout_defs]: "GD_UD = 0x20"
definition GD_TSS0 :: u16 where [layout_defs]: "GD_TSS0 = 0x28"

definition KERNBASE :: u32 where [layout_defs]: "KERNBASE = 0xF0000000"
definition IOPHYSMEM :: u32 where [layout_defs]: "IOPHYSMEM = 0x0A0000"
definition EXTPHYSMEM :: u32 where [layout_defs]: "EXTPHYSMEM = 0x100000"
definition KSTACKTOP :: u32 where [layout_defs]: "KSTACKTOP = KERNBASE"
definition KSTKSIZE :: u32 where [layout_defs]: "KSTKSIZE = 8 * PGSIZE"
definition KSTKGAP :: u32 where [layout_defs]: "KSTKGAP = 8 * PGSIZE"
definition MMIOLIM :: u32 where [layout_defs]: "MMIOLIM = KSTACKTOP - PTSIZE"
definition MMIOBASE :: u32 where [layout_defs]: "MMIOBASE = MMIOLIM - PTSIZE"
definition ULIM :: u32 where [layout_defs]: "ULIM = MMIOBASE"
definition UVPT :: u32 where [layout_defs]: "UVPT = ULIM - PTSIZE"
definition UPAGES :: u32 where [layout_defs]: "UPAGES = UVPT - PTSIZE"
definition UENVS :: u32 where [layout_defs]: "UENVS = UPAGES - PTSIZE"
definition UTOP :: u32 where [layout_defs]: "UTOP = UENVS"
definition UXSTACKTOP :: u32 where [layout_defs]: "UXSTACKTOP = UTOP"
definition USTACKTOP :: u32 where [layout_defs]: "USTACKTOP = UTOP - 2 * PGSIZE"
definition UTEXT :: u32 where [layout_defs]: "UTEXT = 2 * PTSIZE"
definition UTEMP :: u32 where [layout_defs]: "UTEMP = PTSIZE"
definition VGA_USER :: u32 where [layout_defs]: "VGA_USER = UTEMP + PGSIZE"
definition USTABDATA :: u32 where [layout_defs]: "USTABDATA = PTSIZE div 2"
definition MPENTRY_PADDR :: u32 where [layout_defs]: "MPENTRY_PADDR = 0x7000"

section \<open>Macros\<close>

definition PGNUM :: "u32 \<Rightarrow> u32" where "PGNUM la = drop_bit PTXSHIFT la"
definition PDX :: "u32 \<Rightarrow> u32" where "PDX la = drop_bit PDXSHIFT la AND 0x3FF"
definition PTX :: "u32 \<Rightarrow> u32" where "PTX la = drop_bit PTXSHIFT la AND 0x3FF"
definition PGOFF :: "u32 \<Rightarrow> u32" where "PGOFF la = la AND 0xFFF"
definition PGADDR :: "u32 \<Rightarrow> u32 \<Rightarrow> u32 \<Rightarrow> u32" where
  "PGADDR d t off = push_bit PDXSHIFT d OR push_bit PTXSHIFT t OR off"
definition PTE_ADDR :: "u32 \<Rightarrow> u32" where "PTE_ADDR pte = pte AND NOT 0xFFF"

definition ROUNDDOWN :: "u32 \<Rightarrow> u32 \<Rightarrow> u32" where
  "ROUNDDOWN a n = a - a mod n"
definition ROUNDUP :: "u32 \<Rightarrow> u32 \<Rightarrow> u32" where
  "ROUNDUP a n = ROUNDDOWN (a + n - 1) n"

text \<open>
  \<open>pages\<close> is an array of page descriptors, one per physical page: a
  \<^verbatim>\<open>struct PageInfo *\<close> is represented by its index \<open>pp - pages\<close>.
\<close>

definition page2pa :: "nat \<Rightarrow> u32" where
  "page2pa pp = push_bit PGSHIFT (of_nat pp)"

section \<open>The algebra of linear addresses\<close>

text \<open>The bits of the macro results.\<close>

lemma bit_0x3FF: "bit (0x3FF :: u32) n \<longleftrightarrow> n < 10"
proof -
  have "(0x3FF :: u32) = mask 10" by (simp add: mask_eq_exp_minus_1)
  then show ?thesis by (simp only: bit_mask_iff) auto
qed

lemma bit_0xFFF: "bit (0xFFF :: u32) n \<longleftrightarrow> n < 12"
proof -
  have "(0xFFF :: u32) = mask 12" by (simp add: mask_eq_exp_minus_1)
  then show ?thesis by (simp only: bit_mask_iff) auto
qed

lemma bit_PGNUM: "bit (PGNUM a) n = bit a (12 + n)"
  by (simp add: PGNUM_def PTXSHIFT_def bit_drop_bit_eq)

lemma bit_PDX: "bit (PDX a) n = (bit a (22 + n) \<and> n < 10)"
  by (simp only: PDX_def PDXSHIFT_def bit_and_iff bit_drop_bit_eq comp_apply bit_0x3FF)

lemma bit_PTX: "bit (PTX a) n = (bit a (12 + n) \<and> n < 10)"
  by (simp only: PTX_def PTXSHIFT_def bit_and_iff bit_drop_bit_eq comp_apply bit_0x3FF)

lemma bit_PGOFF: "bit (PGOFF a) n = (bit a n \<and> n < 12)"
  by (simp only: PGOFF_def bit_and_iff bit_0xFFF)

lemma bit_PTE_ADDR: "bit (PTE_ADDR a) n = (bit a n \<and> 12 \<le> n)"
  by (auto simp only: PTE_ADDR_def bit_and_iff bit_not_iff bit_0xFFF not_less dest: bit_imp_possible_bit)

lemma bit_PGADDR:
  "bit (PGADDR d t off) n =
     (n < 32 \<and> (22 \<le> n \<and> bit d (n - 22) \<or> 12 \<le> n \<and> bit t (n - 12) \<or> bit off n))"
  by (auto simp: PGADDR_def PDXSHIFT_def PTXSHIFT_def bit_or_iff bit_push_bit_iff
           dest: bit_imp_le_length)

lemmas macro_bits = bit_PGNUM bit_PDX bit_PTX bit_PGOFF bit_PTE_ADDR bit_PGADDR

lemma PDX_bound: "unat (PDX a) < 1024"
proof -
  have "PDX a = take_bit 10 (PDX a)"
    by (rule bit_eqI) (auto simp: bit_take_bit_iff bit_PDX)
  then have "unat (PDX a) < 2 ^ 10" by (metis unsigned_take_bit_eq take_bit_nat_less_exp)
  then show ?thesis by simp
qed

lemma PTX_bound: "unat (PTX a) < 1024"
proof -
  have "PTX a = take_bit 10 (PTX a)"
    by (rule bit_eqI) (auto simp: bit_take_bit_iff bit_PTX)
  then have "unat (PTX a) < 2 ^ 10" by (metis unsigned_take_bit_eq take_bit_nat_less_exp)
  then show ?thesis by simp
qed

text \<open>A linear address is recomposed from its three parts, and the parts of a composed one.\<close>

lemma PGADDR_parts: "PGADDR (PDX a) (PTX a) (PGOFF a) = a"
proof (rule bit_eqI)
  fix n assume "possible_bit TYPE(u32) n"
  then have n: "n < 32" by simp
  consider "n < 12" | "12 \<le> n" "n < 22" | "22 \<le> n" by linarith
  then show "bit (PGADDR (PDX a) (PTX a) (PGOFF a)) n = bit a n"
    using n by cases (auto simp: macro_bits)
qed

lemma small_bits: "(d :: u32) < 1024 \<Longrightarrow> bit d n \<Longrightarrow> n < 10"
proof -
  assume "d < 1024" "bit d n"
  have "d = take_bit 10 d"
    using \<open>d < 1024\<close> by (simp add: take_bit_eq_mod word_less_nat_alt word_unat_eq_iff unat_mod)
  with \<open>bit d n\<close> show "n < 10" by (metis bit_take_bit_iff)
qed

lemma PDX_PGADDR: "d < 1024 \<Longrightarrow> t < 1024 \<Longrightarrow> off < 4096 \<Longrightarrow> PDX (PGADDR d t off) = d"
  by (rule bit_eqI) (auto simp: macro_bits dest: small_bits less_4096_bits)

lemma PTX_PGADDR: "t < 1024 \<Longrightarrow> off < 4096 \<Longrightarrow> PTX (PGADDR d t off) = t"
  by (rule bit_eqI) (auto simp: macro_bits dest: small_bits less_4096_bits)

lemma PGOFF_PGADDR: "off < 4096 \<Longrightarrow> PGOFF (PGADDR d t off) = off"
  by (rule bit_eqI) (auto simp: macro_bits dest: less_4096_bits)

text \<open>Two addresses are on the same page iff both table indices agree.\<close>

lemma PGNUM_eq_iff: "PGNUM a = PGNUM b \<longleftrightarrow> PDX a = PDX b \<and> PTX a = PTX b"
proof
  assume eq: "PGNUM a = PGNUM b"
  have *: "bit a (12 + n) = bit b (12 + n)" for n
    using eq by (metis bit_PGNUM)
  have "bit a (22 + n) = bit b (22 + n)" for n
    using * [of "10 + n"] by simp
  with * show "PDX a = PDX b \<and> PTX a = PTX b"
    by (auto intro!: bit_eqI simp: macro_bits)
next
  assume eq: "PDX a = PDX b \<and> PTX a = PTX b"
  show "PGNUM a = PGNUM b"
  proof (rule bit_eqI)
    fix n assume "possible_bit TYPE(u32) n"
    then have "n < 32" by simp
    show "bit (PGNUM a) n = bit (PGNUM b) n"
    proof (cases "n < 10")
      case True
      then show ?thesis using eq by (metis bit_PGNUM bit_PTX)
    next
      case False
      then have n: "12 + n = 22 + (n - 10)" by simp
      show ?thesis
      proof (cases "n < 20")
        case True
        then have "n - 10 < 10" by simp
        then have "bit a (22 + (n - 10)) = bit b (22 + (n - 10))"
          using eq by (metis bit_PDX)
        with n show ?thesis by (simp only: bit_PGNUM)
      next
        case False
        then show ?thesis by (auto simp: bit_PGNUM dest: bit_imp_le_length)
      qed
    qed
  qed
qed

section \<open>Page table entries\<close>

lemma PGNUM_unat: "unat (PGNUM a) = unat a div 4096"
  by (simp add: PGNUM_def PTXSHIFT_def drop_bit_eq_div unat_div)

lemma PGNUM_bound: "unat (PGNUM a) < 2 ^ 20"
  using unat_u32 [of a] by (simp add: PGNUM_unat less_mult_imp_div_less)

lemma bit_page2pa: "bit (page2pa pp) n \<longleftrightarrow> n < 32 \<and> 12 \<le> n \<and> bit pp (n - 12)"
  by (auto simp: page2pa_def PGSHIFT_def bit_push_bit_iff bit_of_nat_iff dest: bit_imp_le_length)

lemma unat_page2pa: "pp < 2 ^ 20 \<Longrightarrow> unat (page2pa pp) = 4096 * pp"
  by (simp add: page2pa_def PGSHIFT_def push_bit_eq_mult unat_word_ariths unat_of_nat)

lemma PGNUM_page2pa [simp]: "pp < 2 ^ 20 \<Longrightarrow> unat (PGNUM (page2pa pp)) = pp"
  by (simp add: PGNUM_unat unat_page2pa)

lemma page2pa_inj: "pp < 2 ^ 20 \<Longrightarrow> qq < 2 ^ 20 \<Longrightarrow> page2pa pp = page2pa qq \<longleftrightarrow> pp = qq"
  by (metis PGNUM_page2pa)

lemma PGNUM_or_perm: "p < 4096 \<Longrightarrow> PGNUM (x OR p) = PGNUM x"
  by (rule bit_eqI) (auto simp: bit_PGNUM bit_or_iff dest: less_4096_bits)

lemma PGNUM_PTE_ADDR [simp]: "PGNUM (PTE_ADDR x) = PGNUM x"
  by (rule bit_eqI) (auto simp: macro_bits)

lemma PTE_ADDR_or_perm: "p < 4096 \<Longrightarrow> PTE_ADDR (page2pa pp OR p) = page2pa pp"
  by (rule bit_eqI) (auto simp: macro_bits bit_or_iff bit_page2pa dest: less_4096_bits)

lemma page2pa_PGNUM: "page2pa (unat (PGNUM x)) = PTE_ADDR x"
  by (rule bit_eqI)
     (auto simp: page2pa_def PGSHIFT_def bit_push_bit_iff macro_bits dest: bit_imp_le_length)

lemma page2pa_and_flags: "q < 4096 \<Longrightarrow> page2pa pp AND q = 0"
  by (rule bit_eqI) (auto simp: bit_and_iff bit_page2pa dest: less_4096_bits)

lemma pte_flags [simp]: "q < 4096 \<Longrightarrow> (page2pa pp OR p) AND q = p AND q"
  by (simp add: bit.conj_disj_distrib2 page2pa_and_flags)

lemma or_perm_bound: "(p :: u32) < 4096 \<Longrightarrow> q < 4096 \<Longrightarrow> p OR q < 4096"
proof -
  assume "p < 4096" "q < 4096"
  have "take_bit 12 (p OR q) = p OR q"
    by (rule bit_eqI)
       (auto simp: bit_take_bit_iff bit_or_iff
             dest: less_4096_bits [OF \<open>p < 4096\<close>] less_4096_bits [OF \<open>q < 4096\<close>])
  then have "unat (p OR q) = take_bit 12 (unat (p OR q))"
    by (metis unsigned_take_bit_eq)
  then have "unat (p OR q) < 2 ^ 12" by (metis take_bit_nat_less_exp)
  then show ?thesis by (simp add: word_less_nat_alt)
qed

lemma present_flag [simp]: "((x :: u32) OR PTE_P) AND PTE_P = PTE_P"
  by (simp add: word_bw_comms word_ao_absorbs)

lemma PTE_flags_nonzero [simp]: "PTE_P \<noteq> 0" "PTE_W \<noteq> 0" "PTE_U \<noteq> 0"
  by (simp_all add: layout_defs)

section \<open>Rounding\<close>

lemma unat_ROUNDDOWN: "unat (ROUNDDOWN a PGSIZE) = unat a div 4096 * 4096"
proof -
  have le: "a mod 4096 \<le> a" by (simp add: word_le_nat_alt unat_mod)
  have "unat (a - a mod 4096) = unat a - unat a mod 4096"
    by (simp add: unat_sub [OF le] unat_mod)
  then show ?thesis by (simp add: ROUNDDOWN_def PGSIZE_def minus_mod_eq_div_mult)
qed

lemma ROUNDDOWN_PGNUM: "ROUNDDOWN a PGSIZE = PTE_ADDR a"
proof -
  have "unat (PTE_ADDR a) = unat a div 4096 * 4096"
    using PGNUM_bound [of a]
    by (simp flip: page2pa_PGNUM add: unat_page2pa PGNUM_unat)
  then show ?thesis by (simp add: word_unat_eq_iff unat_ROUNDDOWN)
qed

lemma unat_ROUNDUP:
  assumes "unat a + 4095 < 2 ^ 32"
  shows "unat (ROUNDUP a PGSIZE) = (unat a + 4095) div 4096 * 4096"
proof -
  have "unat (a + 4096 - 1) = unat a + 4095"
    using assms by (simp add: unat_word_ariths)
  then show ?thesis
    using unat_ROUNDDOWN [of "a + PGSIZE - 1"] by (simp add: ROUNDUP_def PGSIZE_def)
qed

lemma ROUNDUP_wraps:
  assumes "2 ^ 32 \<le> unat a + 4095"
  shows "ROUNDUP a PGSIZE = 0"
proof -
  have "unat (a + 4095) = (unat a + 4095) mod 4294967296" by (simp add: unat_word_ariths)
  also have "\<dots> = unat a + 4095 - 4294967296"
    using assms unat_u32 [of a] by (simp add: le_mod_geq)
  finally have "unat (a + 4095) < 4096" using unat_u32 [of a] by simp
  then have "unat (ROUNDUP a PGSIZE) = 0"
    using unat_ROUNDDOWN [of "a + PGSIZE - 1"] by (simp add: ROUNDUP_def PGSIZE_def add.commute)
  then show ?thesis by (simp add: unat_eq_zero)
qed

section \<open>The user part of the address space\<close>

lemma PDX_unat: "unat (PDX a) = unat a div 2 ^ 22"
proof -
  have "unat a div 2 ^ 22 < 2 ^ 10" using unat_u32 [of a] by (simp add: less_mult_imp_div_less)
  have "(0x3FF :: u32) = mask 10" by (simp add: mask_eq_exp_minus_1)
  then have "PDX a = take_bit 10 (drop_bit 22 a)"
    by (simp add: PDX_def PDXSHIFT_def take_bit_eq_mask)
  with \<open>unat a div 2 ^ 22 < 2 ^ 10\<close> show ?thesis
    by (simp add: unat_mod unat_div take_bit_eq_mod drop_bit_eq_div)
qed

lemma PDX_UTOP: "unat (PDX UTOP) = 955"
  by (simp add: PDX_unat layout_defs)

lemma UTOP_PDX: "va < UTOP \<longleftrightarrow> unat (PDX va) < 955"
proof -
  have "unat UTOP = 955 * 2 ^ 22" by (simp add: layout_defs)
  moreover have "unat va < 955 * 2 ^ 22 \<longleftrightarrow> unat va div 2 ^ 22 < 955"
    by (simp add: div_less_iff_less_mult)
  ultimately show ?thesis by (simp only: word_less_nat_alt PDX_unat)
qed

end
