(* ===== verification/KState.thy ===== *)
theory KState
  imports Layout
begin

text \<open>
  The data of the kernel: \<^verbatim>\<open>struct PageInfo\<close> (inc/memlayout.h), \<^verbatim>\<open>struct PushRegs\<close> and
  \<^verbatim>\<open>struct Trapframe\<close> (inc/trap.h), \<^verbatim>\<open>struct Env\<close> (inc/env.h), \<^verbatim>\<open>struct CpuInfo\<close>
  (kern/cpu.h), \<^verbatim>\<open>struct spinlock\<close> (kern/spinlock.h) and the global variables, collected
  in one record \<open>kstate\<close>.

  Representation. The arrays \<open>pages\<close>, \<open>envs\<close> and \<open>cpus\<close> are functions from indices;
  a pointer into one of them is its index, and NULL is \<open>None\<close>. Physical memory is
  \<open>pmem f i\<close>, the 32-bit word \<open>i\<close> of page frame \<open>f\<close>: the kernel sees all of it
  at \<open>KERNBASE\<close>, so a page-aligned kernel pointer (a \<^verbatim>\<open>pde_t *\<close>) is the number of the
  frame it points to and a \<^verbatim>\<open>pte_t *\<close> a pair of frame and entry index. The translation
  look-aside buffer is part of the state, as a map from page numbers to cached entries.
\<close>

section \<open>Structures\<close>

record PageInfo =
  pp_link :: "nat option"
  pp_ref :: u16

record PushRegs =
  reg_edi :: u32
  reg_esi :: u32
  reg_ebp :: u32
  reg_oesp :: u32
  reg_ebx :: u32
  reg_edx :: u32
  reg_ecx :: u32
  reg_eax :: u32

record Trapframe =
  tf_regs :: PushRegs
  tf_es :: u16
  tf_padding1 :: u16
  tf_ds :: u16
  tf_padding2 :: u16
  tf_trapno :: u32
  tf_err :: u32
  tf_eip :: u32
  tf_cs :: u16
  tf_padding3 :: u16
  tf_eflags :: u32
  tf_esp :: u32
  tf_ss :: u16
  tf_padding4 :: u16

datatype EnvStatus = ENV_FREE | ENV_DYING | ENV_RUNNABLE | ENV_RUNNING | ENV_NOT_RUNNABLE

datatype EnvType = ENV_TYPE_USER

type_synonym envid_t = u32

record Env =
  env_tf :: Trapframe
  env_link :: "nat option"
  env_id :: envid_t
  env_parent_id :: envid_t
  env_type :: EnvType
  env_status :: EnvStatus
  env_runs :: u32
  env_cpunum :: nat
  env_pgdir :: "nat option"
  env_pgfault_upcall :: u32
  env_ipc_recving :: bool
  env_ipc_dstva :: u32
  env_ipc_value :: u32
  env_ipc_from :: envid_t
  env_ipc_perm :: u32

datatype CpuStatus = CPU_UNUSED | CPU_STARTED | CPU_HALTED

record Taskstate =
  ts_esp0 :: u32
  ts_ss0 :: u16
  ts_iomb :: u16

record CpuInfo =
  cpu_id :: u8
  cpu_status :: CpuStatus
  cpu_env :: "nat option"
  cpu_ts :: Taskstate

record spinlock =
  locked :: u32
  lk_name :: string
  lk_cpu :: "nat option"
  pcs :: "u32 list"

definition LOG2NENV :: nat where [layout_defs]: "LOG2NENV = 10"
definition NENV :: nat where [layout_defs]: "NENV = 2 ^ LOG2NENV"
definition NCPU :: nat where [layout_defs]: "NCPU = 8"

lemma NENV_eq: "NENV = 1024"
  by (simp add: layout_defs)

text \<open>Error codes (inc/error.h); a failing call returns the negated code.\<close>

definition E_UNSPECIFIED :: u32 where [layout_defs]: "E_UNSPECIFIED = 1"
definition E_BAD_ENV :: u32 where [layout_defs]: "E_BAD_ENV = 2"
definition E_INVAL :: u32 where [layout_defs]: "E_INVAL = 3"
definition E_NO_MEM :: u32 where [layout_defs]: "E_NO_MEM = 4"
definition E_NO_FREE_ENV :: u32 where [layout_defs]: "E_NO_FREE_ENV = 5"
definition E_FAULT :: u32 where [layout_defs]: "E_FAULT = 6"
definition E_IPC_NOT_RECV :: u32 where [layout_defs]: "E_IPC_NOT_RECV = 7"
definition E_EOF :: u32 where [layout_defs]: "E_EOF = 8"

section \<open>The global state\<close>

record kstate =
  npages :: nat
  npages_basemem :: nat
  kern_pgdir :: nat
  pages :: "nat \<Rightarrow> PageInfo"
  page_free_list :: "nat option"
  nextfree :: u32
  mmio_next :: u32
  pmem :: "nat \<Rightarrow> nat \<Rightarrow> u32"
  tlb :: "u32 \<Rightarrow> u32 option"
  cr3 :: u32
  user_mem_check_addr :: u32
  envs :: "nat \<Rightarrow> Env"
  env_free_list :: "nat option"
  cpus :: "nat \<Rightarrow> CpuInfo"
  this_cpu :: nat
  kernel_lock :: spinlock
  panicstr :: bool

type_synonym 'a kres = "(kstate, 'a) outcome"

text \<open>A page table entry pointer: frame of the table and index of the entry.\<close>

type_synonym pte_ptr = "nat \<times> nat"

section \<open>Accessors\<close>

definition curenv :: "kstate \<Rightarrow> nat option" where
  "curenv s = cpu_env (cpus s (this_cpu s))"

definition set_curenv :: "nat option \<Rightarrow> kstate \<Rightarrow> kstate" where
  "set_curenv e s = s\<lparr>cpus := (cpus s)(this_cpu s := (cpus s (this_cpu s))\<lparr>cpu_env := e\<rparr>)\<rparr>"

definition set_cpu_status :: "CpuStatus \<Rightarrow> kstate \<Rightarrow> kstate" where
  "set_cpu_status st s =
     s\<lparr>cpus := (cpus s)(this_cpu s := (cpus s (this_cpu s))\<lparr>cpu_status := st\<rparr>)\<rparr>"

definition upd_page :: "nat \<Rightarrow> (PageInfo \<Rightarrow> PageInfo) \<Rightarrow> kstate \<Rightarrow> kstate" where
  "upd_page pp f s = s\<lparr>pages := (pages s)(pp := f (pages s pp))\<rparr>"

definition upd_env :: "nat \<Rightarrow> (Env \<Rightarrow> Env) \<Rightarrow> kstate \<Rightarrow> kstate" where
  "upd_env e f s = s\<lparr>envs := (envs s)(e := f (envs s e))\<rparr>"

definition load_pte :: "pte_ptr \<Rightarrow> kstate \<Rightarrow> u32" where
  "load_pte p s = pmem s (fst p) (snd p)"

definition store_pte :: "pte_ptr \<Rightarrow> u32 \<Rightarrow> kstate \<Rightarrow> kstate" where
  "store_pte p v s = s\<lparr>pmem := (pmem s)(fst p := (pmem s (fst p))(snd p := v))\<rparr>"

text \<open>\<open>memset(page, c, PGSIZE)\<close> of a page frame with a word pattern.\<close>

definition fill_frame :: "nat \<Rightarrow> u32 \<Rightarrow> kstate \<Rightarrow> kstate" where
  "fill_frame f w s = s\<lparr>pmem := (pmem s)(f := (\<lambda>_. w))\<rparr>"

text \<open>Hardware: loading cr3 flushes the TLB, \<open>invlpg\<close> drops one entry.\<close>

definition lcr3 :: "u32 \<Rightarrow> kstate \<Rightarrow> kstate" where
  "lcr3 v s = s\<lparr>cr3 := v, tlb := Map.empty\<rparr>"

definition invlpg :: "u32 \<Rightarrow> kstate \<Rightarrow> kstate" where
  "invlpg va s = s\<lparr>tlb := (tlb s)(PGNUM va := None)\<rparr>"

lemma upd_page_simps [simp]:
  "pages (upd_page pp f s) = (pages s)(pp := f (pages s pp))"
  "page_free_list (upd_page pp f s) = page_free_list s"
  "npages (upd_page pp f s) = npages s"
  "pmem (upd_page pp f s) = pmem s"
  "tlb (upd_page pp f s) = tlb s"
  "envs (upd_page pp f s) = envs s"
  "env_free_list (upd_page pp f s) = env_free_list s"
  "cpus (upd_page pp f s) = cpus s"
  "this_cpu (upd_page pp f s) = this_cpu s"
  "kern_pgdir (upd_page pp f s) = kern_pgdir s"
  "cr3 (upd_page pp f s) = cr3 s"
  "kernel_lock (upd_page pp f s) = kernel_lock s"
  "curenv (upd_page pp f s) = curenv s"
  by (simp_all add: upd_page_def curenv_def)

lemma store_pte_simps [simp]:
  "pages (store_pte p v s) = pages s"
  "page_free_list (store_pte p v s) = page_free_list s"
  "npages (store_pte p v s) = npages s"
  "pmem (store_pte p v s) = (pmem s)(fst p := (pmem s (fst p))(snd p := v))"
  "tlb (store_pte p v s) = tlb s"
  "envs (store_pte p v s) = envs s"
  "env_free_list (store_pte p v s) = env_free_list s"
  "cpus (store_pte p v s) = cpus s"
  "this_cpu (store_pte p v s) = this_cpu s"
  "kern_pgdir (store_pte p v s) = kern_pgdir s"
  "cr3 (store_pte p v s) = cr3 s"
  "kernel_lock (store_pte p v s) = kernel_lock s"
  "curenv (store_pte p v s) = curenv s"
  by (simp_all add: store_pte_def curenv_def)

lemma fill_frame_simps [simp]:
  "pages (fill_frame p v s) = pages s"
  "page_free_list (fill_frame p v s) = page_free_list s"
  "npages (fill_frame p v s) = npages s"
  "pmem (fill_frame p v s) = (pmem s)(p := (\<lambda>_. v))"
  "tlb (fill_frame p v s) = tlb s"
  "envs (fill_frame p v s) = envs s"
  "env_free_list (fill_frame p v s) = env_free_list s"
  "cpus (fill_frame p v s) = cpus s"
  "this_cpu (fill_frame p v s) = this_cpu s"
  "kern_pgdir (fill_frame p v s) = kern_pgdir s"
  "cr3 (fill_frame p v s) = cr3 s"
  "kernel_lock (fill_frame p v s) = kernel_lock s"
  "curenv (fill_frame p v s) = curenv s"
  by (simp_all add: fill_frame_def curenv_def)

lemma upd_env_simps [simp]:
  "envs (upd_env e f s) = (envs s)(e := f (envs s e))"
  "pages (upd_env e f s) = pages s"
  "page_free_list (upd_env e f s) = page_free_list s"
  "npages (upd_env e f s) = npages s"
  "pmem (upd_env e f s) = pmem s"
  "tlb (upd_env e f s) = tlb s"
  "env_free_list (upd_env e f s) = env_free_list s"
  "cpus (upd_env e f s) = cpus s"
  "this_cpu (upd_env e f s) = this_cpu s"
  "kern_pgdir (upd_env e f s) = kern_pgdir s"
  "cr3 (upd_env e f s) = cr3 s"
  "kernel_lock (upd_env e f s) = kernel_lock s"
  "curenv (upd_env e f s) = curenv s"
  by (simp_all add: upd_env_def curenv_def)

lemma set_curenv_simps [simp]:
  "envs (set_curenv e s) = envs s"
  "pages (set_curenv e s) = pages s"
  "page_free_list (set_curenv e s) = page_free_list s"
  "npages (set_curenv e s) = npages s"
  "pmem (set_curenv e s) = pmem s"
  "tlb (set_curenv e s) = tlb s"
  "env_free_list (set_curenv e s) = env_free_list s"
  "this_cpu (set_curenv e s) = this_cpu s"
  "kern_pgdir (set_curenv e s) = kern_pgdir s"
  "cr3 (set_curenv e s) = cr3 s"
  "kernel_lock (set_curenv e s) = kernel_lock s"
  "curenv (set_curenv e s) = e"
  "cpus (set_curenv e s) = (cpus s)(this_cpu s := (cpus s (this_cpu s))\<lparr>cpu_env := e\<rparr>)"
  by (simp_all add: set_curenv_def curenv_def)

lemma lcr3_simps [simp]:
  "envs (lcr3 v s) = envs s"
  "pages (lcr3 v s) = pages s"
  "page_free_list (lcr3 v s) = page_free_list s"
  "npages (lcr3 v s) = npages s"
  "pmem (lcr3 v s) = pmem s"
  "tlb (lcr3 v s) = Map.empty"
  "env_free_list (lcr3 v s) = env_free_list s"
  "cpus (lcr3 v s) = cpus s"
  "this_cpu (lcr3 v s) = this_cpu s"
  "kern_pgdir (lcr3 v s) = kern_pgdir s"
  "cr3 (lcr3 v s) = v"
  "kernel_lock (lcr3 v s) = kernel_lock s"
  "curenv (lcr3 v s) = curenv s"
  by (simp_all add: lcr3_def curenv_def)

lemma invlpg_simps [simp]:
  "envs (invlpg v s) = envs s"
  "pages (invlpg v s) = pages s"
  "page_free_list (invlpg v s) = page_free_list s"
  "npages (invlpg v s) = npages s"
  "pmem (invlpg v s) = pmem s"
  "tlb (invlpg v s) = (tlb s)(PGNUM v := None)"
  "env_free_list (invlpg v s) = env_free_list s"
  "cpus (invlpg v s) = cpus s"
  "this_cpu (invlpg v s) = this_cpu s"
  "kern_pgdir (invlpg v s) = kern_pgdir s"
  "cr3 (invlpg v s) = cr3 s"
  "kernel_lock (invlpg v s) = kernel_lock s"
  "curenv (invlpg v s) = curenv s"
  by (simp_all add: invlpg_def curenv_def)

section \<open>The state after the BSS is cleared\<close>

definition zero_regs :: PushRegs where
  "zero_regs = \<lparr>reg_edi = 0, reg_esi = 0, reg_ebp = 0, reg_oesp = 0,
                reg_ebx = 0, reg_edx = 0, reg_ecx = 0, reg_eax = 0\<rparr>"

definition zero_tf :: Trapframe where
  "zero_tf = \<lparr>tf_regs = zero_regs, tf_es = 0, tf_padding1 = 0, tf_ds = 0, tf_padding2 = 0,
              tf_trapno = 0, tf_err = 0, tf_eip = 0, tf_cs = 0, tf_padding3 = 0,
              tf_eflags = 0, tf_esp = 0, tf_ss = 0, tf_padding4 = 0\<rparr>"

definition zero_env :: Env where
  "zero_env = \<lparr>env_tf = zero_tf, env_link = None, env_id = 0, env_parent_id = 0,
               env_type = ENV_TYPE_USER, env_status = ENV_FREE, env_runs = 0,
               env_cpunum = 0, env_pgdir = None, env_pgfault_upcall = 0,
               env_ipc_recving = False, env_ipc_dstva = 0, env_ipc_value = 0,
               env_ipc_from = 0, env_ipc_perm = 0\<rparr>"

definition zero_page :: PageInfo where
  "zero_page = \<lparr>pp_link = None, pp_ref = 0\<rparr>"

definition zero_cpu :: CpuInfo where
  "zero_cpu = \<lparr>cpu_id = 0, cpu_status = CPU_UNUSED, cpu_env = None,
               cpu_ts = \<lparr>ts_esp0 = 0, ts_ss0 = 0, ts_iomb = 0\<rparr>\<rparr>"

definition bss_state :: kstate where
  "bss_state = \<lparr>npages = 0, npages_basemem = 0, kern_pgdir = 0, pages = (\<lambda>_. zero_page),
     page_free_list = None, nextfree = 0, mmio_next = MMIOBASE, pmem = (\<lambda>_ _. 0),
     tlb = Map.empty, cr3 = 0, user_mem_check_addr = 0, envs = (\<lambda>_. zero_env),
     env_free_list = None, cpus = (\<lambda>_. zero_cpu), this_cpu = 0,
     kernel_lock = \<lparr>locked = 0, lk_name = ''kernel_lock'', lk_cpu = None, pcs = replicate 10 0\<rparr>,
     panicstr = False\<rparr>"

end
