(* ===== verification/PageAlloc.thy ===== *)
theory PageAlloc
  imports KState
begin

text \<open>
  The physical page allocator of \<^verbatim>\<open>kern/pmap.c\<close>: memory detection, the boot-time bump
  allocator, \<open>page_init\<close>, \<open>page_alloc\<close>, \<open>page_free\<close>, \<open>page_decref\<close>, and the kernel's
  own self-tests \<open>check_page_alloc\<close> and \<open>check_page_free_list\<close>. The allocator is an
  instance of the list allocator contract; its invariant \<open>free_list\<close> says which pages
  are on the list and that no other page has a link.
\<close>

section \<open>Addresses\<close>

definition PADDR :: "u32 \<Rightarrow> kstate \<Rightarrow> u32 kres" where
  "PADDR kva s =
     (if kva < KERNBASE then Panic ''PADDR called with invalid kva''
      else Return (kva - KERNBASE) s)"

definition KADDR :: "u32 \<Rightarrow> kstate \<Rightarrow> u32 kres" where
  "KADDR pa s =
     (if npages s \<le> unat (PGNUM pa) then Panic ''KADDR called with invalid pa''
      else Return (pa + KERNBASE) s)"

definition pa2page :: "u32 \<Rightarrow> kstate \<Rightarrow> nat kres" where
  "pa2page pa s =
     (if npages s \<le> unat (PGNUM pa) then Panic ''pa2page called with invalid pa''
      else Return (unat (PGNUM pa)) s)"

definition page2kva :: "nat \<Rightarrow> kstate \<Rightarrow> u32 kres" where
  "page2kva pp s = KADDR (page2pa pp) s"

text \<open>The frame a kernel virtual address points into.\<close>

definition kva_frame :: "u32 \<Rightarrow> nat" where
  "kva_frame kva = unat (PGNUM (kva - KERNBASE))"

section \<open>Detecting memory\<close>

text \<open>The CMOS is hardware: \<open>cmos\<close> is the byte the clock chip returns for a register.\<close>

definition nvram_read :: "(nat \<Rightarrow> u8) \<Rightarrow> nat \<Rightarrow> u32" where
  "nvram_read cmos r = ucast (cmos r) OR push_bit 8 (ucast (cmos (r + 1)))"

definition NVRAM_BASELO :: nat where "NVRAM_BASELO = 0x15"
definition NVRAM_EXTLO :: nat where "NVRAM_EXTLO = 0x17"
definition NVRAM_EXT16LO :: nat where "NVRAM_EXT16LO = 0x34"

definition i386_detect_memory :: "(nat \<Rightarrow> u8) \<Rightarrow> kstate \<Rightarrow> kstate" where
  "i386_detect_memory cmos s =
     (let basemem = nvram_read cmos NVRAM_BASELO;
          extmem = nvram_read cmos NVRAM_EXTLO;
          ext16mem = nvram_read cmos NVRAM_EXT16LO * 64;
          totalmem = (if ext16mem \<noteq> 0 then 16 * 1024 + ext16mem
                      else if extmem \<noteq> 0 then 1 * 1024 + extmem
                      else basemem)
      in s\<lparr>npages := unat (totalmem div (PGSIZE div 1024)),
           npages_basemem := unat (basemem div (PGSIZE div 1024))\<rparr>)"

section \<open>The boot allocator\<close>

text \<open>\<open>kend\<close> is the linker symbol \<^verbatim>\<open>end\<close>; \<open>nextfree\<close> is the static variable.\<close>

definition boot_alloc :: "u32 \<Rightarrow> u32 \<Rightarrow> kstate \<Rightarrow> u32 kres" where
  "boot_alloc kend n s =
     (let s = (if nextfree s = 0 then s\<lparr>nextfree := ROUNDUP kend PGSIZE\<rparr> else s)
      in if n = 0 then Return (nextfree s) s
         else let result = nextfree s;
                  s = s\<lparr>nextfree := nextfree s + ROUNDUP n PGSIZE\<rparr>
              in obind (PADDR (nextfree s) s) (\<lambda>pa s.
                   if pa > of_nat (npages s) * PGSIZE then Panic ''not enough memory''
                   else Return result s))"

section \<open>The free list\<close>

definition page_init_step :: "nat \<Rightarrow> nat \<Rightarrow> nat \<Rightarrow> kstate \<Rightarrow> kstate" where
  "page_init_step lim_inf_IO lim_sup_kernmem i s =
     (if lim_inf_IO \<le> i \<and> i < lim_sup_kernmem \<or> i = unat (PGNUM MPENTRY_PADDR)
      then upd_page i (\<lambda>p. p\<lparr>pp_ref := 1\<rparr>) s
      else (upd_page i (\<lambda>p. p\<lparr>pp_ref := 0, pp_link := page_free_list s\<rparr>) s)
             \<lparr>page_free_list := Some i\<rparr>)"

definition page_init :: "u32 \<Rightarrow> kstate \<Rightarrow> unit kres" where
  "page_init kend s =
     (let lim_inf_IO = unat (PGNUM IOPHYSMEM)
      in obind (boot_alloc kend 0 s) (\<lambda>kva s.
           obind (PADDR kva s) (\<lambda>pa s.
             let lim_sup_kernmem = unat (PGNUM pa)
             in Return () (fold (page_init_step lim_inf_IO lim_sup_kernmem) [1..<npages s] s))))"

definition ALLOC_ZERO :: u32 where [layout_defs]: "ALLOC_ZERO = 1"

text \<open>The two assignments of \<open>page_alloc\<close> that unlink the first page.\<close>

definition page_unlink :: "kstate \<Rightarrow> kstate" where
  "page_unlink s =
     (case page_free_list s of None \<Rightarrow> s
      | Some pag \<Rightarrow>
          upd_page pag (\<lambda>p. p\<lparr>pp_link := None\<rparr>) (s\<lparr>page_free_list := pp_link (pages s pag)\<rparr>))"

definition page_alloc :: "u32 \<Rightarrow> kstate \<Rightarrow> nat option kres" where
  "page_alloc alloc_flags s =
     (case page_free_list s of
        None \<Rightarrow> Return None s
      | Some pag \<Rightarrow>
          let s = page_unlink s
          in if alloc_flags AND ALLOC_ZERO \<noteq> 0
             then obind (page2kva pag s) (\<lambda>kva s.
                    Return (Some pag) (fill_frame (kva_frame kva) 0 s))
             else Return (Some pag) s)"

text \<open>The two assignments of \<open>page_free\<close> that put the page on the list.\<close>

definition page_relink :: "nat \<Rightarrow> kstate \<Rightarrow> kstate" where
  "page_relink pp s =
     (upd_page pp (\<lambda>p. p\<lparr>pp_link := page_free_list s\<rparr>) s)\<lparr>page_free_list := Some pp\<rparr>"

definition page_free :: "nat \<Rightarrow> kstate \<Rightarrow> unit kres" where
  "page_free pp s =
     (if pp_ref (pages s pp) \<noteq> 0 then Panic ''page still in use!''
      else if pp_link (pages s pp) \<noteq> None
      then Panic ''page has non-NULL pp_link (already freed?)''
      else Return () (page_relink pp s))"

definition page_decref :: "nat \<Rightarrow> kstate \<Rightarrow> unit kres" where
  "page_decref pp s =
     (let s = upd_page pp (\<lambda>p. p\<lparr>pp_ref := pp_ref p - 1\<rparr>) s
      in if pp_ref (pages s pp) = 0 then page_free pp s else Return () s)"

section \<open>The kernel's self-test of the allocator\<close>

definition assert_page_alloc :: "kstate \<Rightarrow> nat kres" where
  "assert_page_alloc s =
     obind (page_alloc 0 s) (\<lambda>r s.
       case r of None \<Rightarrow> Panic ''assertion failed: pp = page_alloc(0)'' | Some pp \<Rightarrow> Return pp s)"

definition assert_no_page :: "kstate \<Rightarrow> unit kres" where
  "assert_no_page s =
     obind (page_alloc 0 s) (\<lambda>r s. assert_that (r = None) ''assertion failed: !page_alloc(0)'' s)"

definition three_distinct :: "nat \<Rightarrow> nat \<Rightarrow> nat \<Rightarrow> bool" where
  "three_distinct pp0 pp1 pp2 \<longleftrightarrow> pp1 \<noteq> pp0 \<and> pp2 \<noteq> pp1 \<and> pp2 \<noteq> pp0"

definition in_memory :: "nat \<Rightarrow> kstate \<Rightarrow> bool" where
  "in_memory pp s \<longleftrightarrow> unat (page2pa pp) < npages s * 4096"

definition check_page_alloc :: "kstate \<Rightarrow> unit kres" where
  "check_page_alloc s =
   (case list_count (\<lambda>p. pp_link (pages s p)) (page_free_list s) 0 of None \<Rightarrow> Diverge | Some nfree \<Rightarrow>
    obind (assert_page_alloc s) (\<lambda>pp0 s.
    obind (assert_page_alloc s) (\<lambda>pp1 s.
    obind (assert_page_alloc s) (\<lambda>pp2 s.
    obind (assert_that (three_distinct pp0 pp1 pp2) ''assertion failed: distinct'' s) (\<lambda>_ s.
    obind (assert_that (in_memory pp0 s \<and> in_memory pp1 s \<and> in_memory pp2 s)
             ''assertion failed: page2pa(pp) < npages*PGSIZE'' s) (\<lambda>_ s.
    let fl = page_free_list s; s = s\<lparr>page_free_list := None\<rparr> in
    obind (assert_no_page s) (\<lambda>_ s.
    obind (page_free pp0 s) (\<lambda>_ s.
    obind (page_free pp1 s) (\<lambda>_ s.
    obind (page_free pp2 s) (\<lambda>_ s.
    obind (assert_page_alloc s) (\<lambda>pp0 s.
    obind (assert_page_alloc s) (\<lambda>pp1 s.
    obind (assert_page_alloc s) (\<lambda>pp2 s.
    obind (assert_that (three_distinct pp0 pp1 pp2) ''assertion failed: distinct'' s) (\<lambda>_ s.
    obind (assert_no_page s) (\<lambda>_ s.
    obind (page2kva pp0 s) (\<lambda>kva s.
    let s = fill_frame (kva_frame kva) 0x01010101 s in
    obind (page_free pp0 s) (\<lambda>_ s.
    obind (page_alloc ALLOC_ZERO s) (\<lambda>r s.
    obind (assert_that (r = Some pp0) ''assertion failed: pp && pp0 == pp'' s) (\<lambda>_ s.
    obind (page2kva pp0 s) (\<lambda>c s.
    obind (assert_that (list_all (\<lambda>i. pmem s (kva_frame c) i = 0) [0..<1024])
             ''assertion failed: c[i] == 0'' s) (\<lambda>_ s.
    let s = s\<lparr>page_free_list := fl\<rparr> in
    obind (page_free pp0 s) (\<lambda>_ s.
    obind (page_free pp1 s) (\<lambda>_ s.
    obind (page_free pp2 s) (\<lambda>_ s.
    case list_count (\<lambda>p. pp_link (pages s p)) (page_free_list s) 0 of None \<Rightarrow> Diverge
    | Some n \<Rightarrow> assert_that (n = nfree) ''assertion failed: nfree == 0'' s
    ))))))))))))))))))))))))"

section \<open>The contract\<close>

abbreviation pg_link :: "kstate \<Rightarrow> nat \<Rightarrow> nat option" where
  "pg_link s \<equiv> \<lambda>p. pp_link (pages s p)"

lemma page_link_upd: "(\<lambda>p. pp_link ((f(x := v)) p)) = (\<lambda>p. pp_link (f p))(x := pp_link v)"
  by auto

interpretation pglist: list_allocator pg_link page_free_list page_unlink page_relink
  by unfold_locales
     (auto simp: page_unlink_def page_relink_def page_link_upd)

text \<open>The allocator invariant: which pages are on the list, and that only they have links.\<close>

definition free_list :: "kstate \<Rightarrow> nat list \<Rightarrow> bool" where
  "free_list s xs \<longleftrightarrow>
     pglist.on_list s xs \<and>
     (\<forall>x \<in> set xs. x < npages s \<and> pp_ref (pages s x) = 0) \<and>
     (\<forall>p. p \<notin> set xs \<longrightarrow> pp_link (pages s p) = None)"

definition mem_ok :: "kstate \<Rightarrow> bool" where
  "mem_ok s \<longleftrightarrow> npages s \<le> 2 ^ 20"

lemma free_list_distinct: "free_list s xs \<Longrightarrow> distinct xs"
  by (auto simp: free_list_def pglist.on_list_def dest: chain_distinct)

lemma free_list_unique: "free_list s xs \<Longrightarrow> free_list s ys \<Longrightarrow> xs = ys"
  by (auto simp: free_list_def pglist.on_list_def intro: chain_unique)

lemma free_list_head: "free_list s xs \<Longrightarrow> page_free_list s = (case xs of [] \<Rightarrow> None | x # _ \<Rightarrow> Some x)"
  by (cases xs) (auto simp: free_list_def pglist.on_list_def)

lemma kva_frame_page: "pp < 2 ^ 20 \<Longrightarrow> kva_frame (page2pa pp + KERNBASE) = pp"
  by (simp add: kva_frame_def)

lemma page_unlink_simps [simp]:
  "npages (page_unlink s) = npages s"
  "pmem (page_unlink s) = pmem s"
  "tlb (page_unlink s) = tlb s"
  "envs (page_unlink s) = envs s"
  "env_free_list (page_unlink s) = env_free_list s"
  "cpus (page_unlink s) = cpus s"
  "this_cpu (page_unlink s) = this_cpu s"
  "curenv (page_unlink s) = curenv s"
  "kern_pgdir (page_unlink s) = kern_pgdir s"
  "cr3 (page_unlink s) = cr3 s"
  "kernel_lock (page_unlink s) = kernel_lock s"
  "pp_ref (pages (page_unlink s) p) = pp_ref (pages s p)"
  by (auto simp: page_unlink_def curenv_def split: option.splits)

lemma page_unlink_free_list:
  assumes "free_list s (x # xs)"
  shows "free_list (page_unlink s) xs"
proof -
  from assms have "page_free_list s = Some x" by (simp add: free_list_head)
  moreover from assms have "x \<notin> set xs" using free_list_distinct by fastforce
  ultimately show ?thesis
    using assms pglist.take_on_list [of s x xs]
    by (auto simp: free_list_def page_unlink_def)
qed

text \<open>
  The allocator on every branch: NULL exactly when the list is empty, otherwise the first
  page, taken off the list, zeroed when asked for, with no reference counted.
\<close>

lemma page_alloc_empty: "free_list s [] \<Longrightarrow> page_alloc fl s = Return None s"
  by (simp add: page_alloc_def free_list_head)

lemma page_alloc_Cons:
  assumes "free_list s (x # xs)" and "mem_ok s"
  shows "page_alloc fl s =
    Return (Some x) (if fl AND ALLOC_ZERO \<noteq> 0 then fill_frame x 0 (page_unlink s)
                     else page_unlink s)"
proof -
  from assms(1) have x: "x < npages s" by (simp add: free_list_def)
  with assms(2) have "x < 2 ^ 20" by (simp add: mem_ok_def)
  with x show ?thesis
    by (simp add: page_alloc_def free_list_head [OF assms(1)] page2kva_def KADDR_def kva_frame_page)
qed

lemma free_list_fill [simp]: "free_list (fill_frame f w s) xs = free_list s xs"
  by (simp add: free_list_def pglist.on_list_def)

text \<open>Counting references changes no link.\<close>

lemma pg_link_ref: "pg_link (upd_page x (\<lambda>p. p\<lparr>pp_ref := f p\<rparr>) s) = pg_link s"
  by auto

lemma free_list_ref:
  "x \<notin> set xs \<Longrightarrow> free_list (upd_page x (\<lambda>p. p\<lparr>pp_ref := f p\<rparr>) s) xs = free_list s xs"
  unfolding free_list_def pglist.on_list_def pg_link_ref by auto

lemma page_relink_simps [simp]:
  "npages (page_relink p s) = npages s"
  "pmem (page_relink p s) = pmem s"
  "tlb (page_relink p s) = tlb s"
  "envs (page_relink p s) = envs s"
  "env_free_list (page_relink p s) = env_free_list s"
  "cpus (page_relink p s) = cpus s"
  "this_cpu (page_relink p s) = this_cpu s"
  "curenv (page_relink p s) = curenv s"
  "kern_pgdir (page_relink p s) = kern_pgdir s"
  "cr3 (page_relink p s) = cr3 s"
  "kernel_lock (page_relink p s) = kernel_lock s"
  "pp_ref (pages (page_relink p s) q) = pp_ref (pages s q)"
  by (auto simp: page_relink_def curenv_def)

lemma page_relink_free_list:
  assumes "free_list s xs" and "x \<notin> set xs" and "x < npages s" and "pp_ref (pages s x) = 0"
  shows "free_list (page_relink x s) (x # xs)"
proof -
  have "pglist.on_list (page_relink x s) (x # xs)"
    using assms(1,2) by (auto simp: free_list_def intro: pglist.give_on_list)
  moreover have "pp_link (pages (page_relink x s) p) = None" if "p \<notin> set (x # xs)" for p
    using that assms(1) by (auto simp: free_list_def page_relink_def)
  ultimately show ?thesis
    using assms by (auto simp: free_list_def)
qed

lemma page_free_Return:
  assumes "free_list s xs" and "x \<notin> set xs" and "pp_ref (pages s x) = 0"
  shows "page_free x s = Return () (page_relink x s)"
  using assms by (auto simp: page_free_def free_list_def)

section \<open>What page_init puts on the list\<close>

text \<open>The pages \<open>page_init\<close> leaves for allocation: not the IO hole and the kernel, not the AP entry page.\<close>

definition allocatable :: "nat \<Rightarrow> nat \<Rightarrow> nat \<Rightarrow> bool" where
  "allocatable lim_inf lim_sup i \<longleftrightarrow>
     \<not> (lim_inf \<le> i \<and> i < lim_sup) \<and> i \<noteq> unat (PGNUM MPENTRY_PADDR)"

lemma page_init_step_simps [simp]:
  "npages (page_init_step a b i s) = npages s"
  by (auto simp: page_init_step_def)

lemma page_init_step_other: "i \<noteq> j \<Longrightarrow> pages (page_init_step a b j s) i = pages s i"
  by (simp add: page_init_step_def)

lemma page_init_step_ref: "\<not> allocatable a b i \<Longrightarrow> pp_ref (pages (page_init_step a b i s) i) = 1"
  by (auto simp: page_init_step_def allocatable_def)

lemma npages_fold_init [simp]: "npages (fold (page_init_step a b) is s) = npages s"
  by (induction "is" arbitrary: s) auto

lemma page_init_step_reserved:
  assumes "free_list s xs" and "i \<notin> set xs" and "\<not> allocatable a b i"
  shows "free_list (page_init_step a b i s) xs"
  using assms by (auto simp: page_init_step_def allocatable_def free_list_ref)

lemma page_init_step_free:
  assumes "free_list s xs" and "i \<notin> set xs" and "i < npages s" and "allocatable a b i"
  shows "free_list (page_init_step a b i s) (i # xs)"
proof -
  have "chain (pg_link (page_init_step a b i s)) (page_free_list s) xs =
        chain (pg_link s) (page_free_list s) xs"
    by (rule chain_cong) (use assms in \<open>auto simp: page_init_step_def allocatable_def\<close>)
  then have "pglist.on_list (page_init_step a b i s) (i # xs)"
    using assms by (auto simp: pglist.on_list_def page_init_step_def allocatable_def free_list_def)
  then show ?thesis
    using assms by (auto simp: free_list_def page_init_step_def allocatable_def)
qed

lemma page_init_fold:
  assumes "free_list s []" and "1 \<le> k" and "k \<le> npages s"
  shows "free_list (fold (page_init_step a b) [1..<k] s) (rev (filter (allocatable a b) [1..<k]))"
  using assms(2,3)
proof (induction k rule: dec_induct)
  case base
  then show ?case using assms(1) by simp
next
  case (step k)
  let ?t = "fold (page_init_step a b) [1..<k] s"
  let ?xs = "rev (filter (allocatable a b) [1..<k])"
  have IH: "free_list ?t ?xs" using step by simp
  have k: "k \<notin> set ?xs" "k < npages ?t" using step by auto
  show ?case
  proof (cases "allocatable a b k")
    case True
    with page_init_step_free [OF IH k] show ?thesis using step by simp
  next
    case False
    with page_init_step_reserved [OF IH k(1)] show ?thesis using step by simp
  qed
qed

lemma page_init_fold_reserved:
  assumes "1 \<le> i" and "i < k" and "\<not> allocatable a b i"
  shows "pp_ref (pages (fold (page_init_step a b) [1..<k] s) i) = 1"
  using assms
proof (induction k)
  case 0
  then show ?case by simp
next
  case (Suc k)
  have k: "1 \<le> k" using Suc.prems by simp
  show ?case
  proof (cases "i = k")
    case True
    then show ?thesis using k Suc.prems by (simp add: page_init_step_ref)
  next
    case False
    then have "pp_ref (pages (fold (page_init_step a b) [1..<k] s) i) = 1"
      using Suc by simp
    with False show ?thesis using k by (simp add: page_init_step_other)
  qed
qed

lemma pp_link_same: "pp_link p = v \<Longrightarrow> p\<lparr>pp_link := v\<rparr> = p"
  by (cases p) simp

text \<open>A small machine for the examples: eight pages, three of them free.\<close>

definition three_pages :: kstate where
  "three_pages = bss_state\<lparr>npages := 8, page_free_list := Some 3,
     pages := (\<lambda>_. zero_page)(3 := \<lparr>pp_link = Some 2, pp_ref = 0\<rparr>, 2 := \<lparr>pp_link = Some 1, pp_ref = 0\<rparr>)\<rparr>"

lemma three_pages_free_list: "free_list three_pages [3, 2, 1]"
  by (auto simp: free_list_def pglist.on_list_def three_pages_def zero_page_def bss_state_def)

lemma three_pages_mem_ok: "mem_ok three_pages"
  by (simp add: mem_ok_def three_pages_def)

lemma decref_free_list:
  assumes "free_list s xs" and "pp \<notin> set xs" and "pp < npages s" and "pp_ref (pages s pp) = 1"
  shows "\<exists>t. page_decref pp s = Return () t \<and> free_list t (pp # xs) \<and> pmem t = pmem s \<and> npages t = npages s"
proof -
  let ?s = "upd_page pp (\<lambda>p. p\<lparr>pp_ref := pp_ref p - 1\<rparr>) s"
  have fl: "free_list ?s xs" using assms by (simp add: free_list_ref)
  have "page_decref pp s = Return () (page_relink pp ?s)"
    using assms page_free_Return [OF fl assms(2)] by (simp add: page_decref_def)
  moreover have "free_list (page_relink pp ?s) (pp # xs)"
    using assms by (intro page_relink_free_list [OF fl]) simp_all
  ultimately show ?thesis by simp
qed

section \<open>Properties\<close>

lemma page_init_fold_zero: "pages (fold (page_init_step a b) [1..<k] s) 0 = pages s 0"
proof (induction k)
  case (Suc k)
  then show ?case by (cases "1 \<le> k") (auto simp: page_init_step_def)
qed simp

text \<open>
  C27. \<open>page_init\<close> succeeds and leaves on the free list, once each, exactly the pages
  from 1 up that are neither in the IO hole or the kernel image and boot allocations
  (from \<open>IOPHYSMEM\<close> to the boot allocator's mark) nor the AP entry page. Every page from 1 up that it
  keeps back has its reference count set to 1. Page 0 is kept off the list too, but it is not marked as in use: the
  loop begins at 1, and the \<open>PageInfo\<close> of page 0 stays as it was (with no references after boot).
\<close>

theorem page_init_correct:
  assumes "free_list s []" and "nextfree s \<noteq> 0" and "KERNBASE \<le> nextfree s" and "1 \<le> npages s"
    and kmem: "kmem = unat (PGNUM (nextfree s - KERNBASE))"
  shows "\<exists>t. page_init kend s = Return () t \<and>
    free_list t (rev (filter (allocatable 160 kmem) [1..<npages s])) \<and>
    (\<forall>i. 1 \<le> i \<longrightarrow> i < npages s \<longrightarrow> \<not> allocatable 160 kmem i \<longrightarrow> pp_ref (pages t i) = 1) \<and>
    pages t 0 = pages s 0"
proof -
  have io: "unat (PGNUM IOPHYSMEM) = 160" by (simp add: PGNUM_unat IOPHYSMEM_def)
  let ?t = "fold (page_init_step 160 kmem) [1..<npages s] s"
  have "page_init kend s = Return () ?t"
    using assms by (simp add: page_init_def boot_alloc_def PADDR_def io Let_def linorder_not_less)
  moreover have "free_list ?t (rev (filter (allocatable 160 kmem) [1..<npages s]))"
    using assms by (intro page_init_fold) auto
  moreover have "\<forall>i. 1 \<le> i \<longrightarrow> i < npages s \<longrightarrow> \<not> allocatable 160 kmem i \<longrightarrow> pp_ref (pages ?t i) = 1"
    by (blast intro: page_init_fold_reserved)
  ultimately show ?thesis using page_init_fold_zero by blast
qed

theorem page_init_correct_witness:
  "\<exists>t. page_init 0 (bss_state\<lparr>npages := 300, nextfree := 0xF0118000\<rparr>) = Return () t \<and>
    free_list t (rev (filter (allocatable 160 280) [1..<300])) \<and> pp_ref (pages t 200) = 1 \<and> pp_ref (pages t 0) = 0"
proof -
  let ?s = "bss_state\<lparr>npages := 300, nextfree := 0xF0118000\<rparr>"
  have "free_list ?s []"
    by (simp add: free_list_def pglist.on_list_def bss_state_def zero_page_def)
  moreover have "280 = unat (PGNUM (nextfree ?s - KERNBASE))"
    by (simp add: PGNUM_unat KERNBASE_def)
  moreover have "\<not> allocatable 160 280 200" by (simp add: allocatable_def)
  moreover have "pp_ref (pages ?s 0) = 0" by (simp add: bss_state_def zero_page_def)
  ultimately show ?thesis
    using page_init_correct [of ?s 280 0] by (fastforce simp: KERNBASE_def)
qed

text \<open>
  The kernel's own test \<open>check_page_alloc\<close> passes on every state whose free list is
  intact and has at least three pages, and gives every page back: afterwards the
  allocator is exactly as before, and only the third page's contents were cleared.
\<close>

lemma check_page_alloc_passes:
  assumes "free_list s (a # b # c # xs)" and "mem_ok s"
  shows "check_page_alloc s = Return () (fill_frame c 0 s)"
proof -
  have d: "a \<noteq> b" "a \<noteq> c" "b \<noteq> c" "b \<noteq> a" "c \<noteq> a" "c \<noteq> b"
    using free_list_distinct [OF assms(1)] by auto
  have ch: "page_free_list s = Some a" "pp_link (pages s a) = Some b"
      "pp_link (pages s b) = Some c" "chain (pg_link s) (pp_link (pages s c)) xs"
    using assms(1) by (auto simp: free_list_def pglist.on_list_def)
  have n: "a < npages s" "b < npages s" "c < npages s"
    and r: "pp_ref (pages s a) = 0" "pp_ref (pages s b) = 0" "pp_ref (pages s c) = 0"
    using assms(1) by (auto simp: free_list_def)
  have n20: "a < 2 ^ 20" "b < 2 ^ 20" "c < 2 ^ 20"
    using n assms(2) by (auto simp: mem_ok_def)
  have cnt: "list_count (pg_link s) (Some a) 0 = Some (length xs + 3)"
    using assms(1) ch list_count_chain [of "pg_link s" "Some a" "a # b # c # xs" 0] by simp
  have same: "(pages s a)\<lparr>pp_link := Some b\<rparr> = pages s a" "(pages s b)\<lparr>pp_link := Some c\<rparr> = pages s b"
    using ch by (auto intro: pp_link_same)
  have if_a: "(\<lambda>p. pp_link (if p = a then pages s a else pages s p)) = pg_link s" by auto
  have "s\<lparr>page_free_list := Some a\<rparr> = s" using ch(1) by (cases s) simp
  then show ?thesis
    using d ch n r n20 cnt
    by (simp add: same if_a fill_frame_def check_page_alloc_def assert_page_alloc_def assert_no_page_def page_alloc_def
        page_unlink_def page_free_def page_relink_def three_distinct_def in_memory_def
        unat_page2pa page2kva_def KADDR_def kva_frame_page Let_def upd_page_def ALLOC_ZERO_def
        list_all_iff)
qed

lemma check_page_alloc_passes_witness:
  "check_page_alloc three_pages = Return () (fill_frame 1 0 three_pages)"
  by (rule check_page_alloc_passes [OF three_pages_free_list three_pages_mem_ok])

text \<open>
  Allocating a page and freeing it again restores the state exactly.
\<close>

lemma page_alloc_free_roundtrip:
  assumes "free_list s (x # xs)" and "mem_ok s"
  shows "\<exists>t. page_alloc 0 s = Return (Some x) t \<and> page_free x t = Return () s"
proof -
  have hd: "page_free_list s = Some x" and r: "pp_ref (pages s x) = 0"
    using assms(1) by (auto simp: pglist.on_list_def free_list_def)
  have "page_alloc 0 s = Return (Some x) (page_unlink s)"
    using page_alloc_Cons [OF assms, of 0] by simp
  moreover have "page_relink x (page_unlink s) = s"
  proof -
    have "s\<lparr>pages := pages s, page_free_list := Some x\<rparr> = s" using hd by (cases s) simp
    then show ?thesis by (simp add: page_relink_def page_unlink_def hd upd_page_def pp_link_same)
  qed
  ultimately show ?thesis
    using r by (simp add: page_free_def page_unlink_def hd)
qed

lemma page_alloc_free_roundtrip_witness:
  "\<exists>t. page_alloc 0 three_pages = Return (Some 3) t \<and> page_free 3 t = Return () three_pages"
  by (rule page_alloc_free_roundtrip [OF three_pages_free_list three_pages_mem_ok])

text \<open>
  C29. A double free is detected except for the page at the end of the list, whose link is
  NULL although it is free: freeing that page again succeeds and closes the list into a
  cycle, so that no finite list of free pages is left.
\<close>

theorem page_free_double:
  assumes "free_list s xs" and "x \<in> set xs"
  shows "if x = last xs then page_free x s = Return () (page_relink x s) \<and>
           \<not> (\<exists>ys. free_list (page_relink x s) ys)
         else page_free x s = Panic ''page has non-NULL pp_link (already freed?)''"
proof -
  have r: "pp_ref (pages s x) = 0" using assms by (simp add: free_list_def)
  obtain as bs where xs: "xs = as @ x # bs"
    using assms(2) by (auto simp: in_set_conv_decomp)
  then have ch: "chain (pg_link s) (pp_link (pages s x)) bs"
    using assms(1) chain_append [of "pg_link s" "page_free_list s" as x bs]
    by (auto simp: free_list_def pglist.on_list_def)
  have "\<not> pglist.on_list (page_relink x s) ys" for ys
    using pglist.give_twice_cycle assms by (auto simp: free_list_def)
  then have cyc: "\<not> (\<exists>ys. free_list (page_relink x s) ys)" by (simp add: free_list_def)
  show ?thesis
  proof (cases bs)
    case Nil
    with ch r cyc xs show ?thesis by (simp add: page_free_def)
  next
    case (Cons b cs)
    then have "last xs \<in> set bs" using xs by simp
    then have "x \<noteq> last xs" using free_list_distinct [OF assms(1)] xs by auto
    with ch r Cons show ?thesis by (simp add: page_free_def)
  qed
qed

theorem page_free_double_witness:
  "page_free 1 three_pages = Return () (page_relink 1 three_pages) \<and>
   \<not> (\<exists>ys. free_list (page_relink 1 three_pages) ys) \<and>
   page_free 2 three_pages = Panic ''page has non-NULL pp_link (already freed?)''"
  using page_free_double [OF three_pages_free_list, of 1]
    page_free_double [OF three_pages_free_list, of 2] by simp

text \<open>
  Dropping a reference: a page with more references just loses one; the last reference
  puts the page on the free list; and a count that is already 0 wraps to 65535 and frees
  nothing.
\<close>

lemma page_decref_cases:
  assumes "free_list s xs" and "pp \<notin> set xs" and "pp < npages s"
  shows "(pp_ref (pages s pp) > 1 \<longrightarrow>
            (\<exists>t. page_decref pp s = Return () t \<and> free_list t xs \<and>
                 unat (pp_ref (pages t pp)) = unat (pp_ref (pages s pp)) - 1)) \<and>
         (pp_ref (pages s pp) = 1 \<longrightarrow>
            (\<exists>t. page_decref pp s = Return () t \<and> free_list t (pp # xs))) \<and>
         (pp_ref (pages s pp) = 0 \<longrightarrow>
            (\<exists>t. page_decref pp s = Return () t \<and> free_list t xs \<and> pp_ref (pages t pp) = 65535))"
proof (intro conjI impI)
  let ?s = "upd_page pp (\<lambda>p. p\<lparr>pp_ref := pp_ref p - 1\<rparr>) s"
  have fl: "free_list ?s xs" using assms by (simp add: free_list_ref)
  {
    assume gt: "pp_ref (pages s pp) > 1"
    then have "pp_ref (pages s pp) - 1 \<noteq> 0" by auto
    moreover have "unat (pp_ref (pages s pp) - 1) = unat (pp_ref (pages s pp)) - 1"
      using gt by (intro unat_minus_one) auto
    ultimately show "\<exists>t. page_decref pp s = Return () t \<and> free_list t xs \<and>
        unat (pp_ref (pages t pp)) = unat (pp_ref (pages s pp)) - 1"
      using fl by (intro exI [of _ ?s]) (simp add: page_decref_def)
  next
    assume "pp_ref (pages s pp) = 1"
    then show "\<exists>t. page_decref pp s = Return () t \<and> free_list t (pp # xs)"
      using decref_free_list [OF assms] by blast
  next
    assume "pp_ref (pages s pp) = 0"
    then show "\<exists>t. page_decref pp s = Return () t \<and> free_list t xs \<and> pp_ref (pages t pp) = 65535"
      using fl by (intro exI [of _ ?s]) (simp add: page_decref_def)
  }
qed

lemma page_decref_cases_witness:
  "\<exists>t. page_decref 5 (three_pages\<lparr>pages := (pages three_pages)(5 := \<lparr>pp_link = None, pp_ref = 1\<rparr>)\<rparr>)
        = Return () t \<and> free_list t [5, 3, 2, 1]"
proof -
  let ?s = "three_pages\<lparr>pages := (pages three_pages)(5 := \<lparr>pp_link = None, pp_ref = 1\<rparr>)\<rparr>"
  have "free_list ?s [3, 2, 1]"
    by (auto simp: free_list_def pglist.on_list_def three_pages_def zero_page_def bss_state_def)
  then show ?thesis
    using page_decref_cases [of ?s "[3, 2, 1]" 5] by (simp add: three_pages_def)
qed

end
