(* ===== verification/PageTable.thy ===== *)
theory PageTable
  imports PageAlloc
begin

text \<open>
  The two-level page tables of \<^verbatim>\<open>kern/pmap.c\<close>: \<open>pgdir_walk\<close>, \<open>boot_map_region\<close>,
  \<open>page_insert\<close>, \<open>page_lookup\<close>, \<open>page_remove\<close>, \<open>tlb_invalidate\<close>,
  \<open>mmio_map_region\<close>, the part of \<open>mem_init\<close> that lays out the kernel's address space,
  and the software walk \<open>check_va2pa\<close>. The lemmas give each operation's effect on one
  table entry (a slot): page directory, directory index, table index.
\<close>

section \<open>Operations\<close>

abbreviation pdx :: "u32 \<Rightarrow> nat" where "pdx va \<equiv> unat (PDX va)"
abbreviation ptx :: "u32 \<Rightarrow> nat" where "ptx va \<equiv> unat (PTX va)"

definition pgdir_walk :: "nat \<Rightarrow> u32 \<Rightarrow> bool \<Rightarrow> kstate \<Rightarrow> pte_ptr option kres" where
  "pgdir_walk pgdir va create s =
     (let pde = pmem s pgdir (pdx va) in
      obind (KADDR (PTE_ADDR pde) s) (\<lambda>pte s.
      if pde AND PTE_P \<noteq> 0 then Return (Some (kva_frame pte, ptx va)) s
      else if \<not> create then Return None s
      else obind (page_alloc ALLOC_ZERO s) (\<lambda>page s.
        case page of None \<Rightarrow> Return None s
        | Some page \<Rightarrow>
            let pt_start = page2pa page;
                s = upd_page page (\<lambda>p. p\<lparr>pp_ref := pp_ref p + 1\<rparr>) s;
                s = store_pte (pgdir, pdx va) (pt_start OR PTE_P OR PTE_U OR PTE_W) s
            in obind (KADDR pt_start s) (\<lambda>kva s. Return (Some (kva_frame kva, ptx va)) s))))"

definition tlb_invalidate :: "nat \<Rightarrow> u32 \<Rightarrow> kstate \<Rightarrow> kstate" where
  "tlb_invalidate pgdir va s =
     (case curenv s of
        None \<Rightarrow> invlpg va s
      | Some e \<Rightarrow> if env_pgdir (envs s e) = Some pgdir then invlpg va s else s)"

text \<open>The result of \<open>page_lookup\<close> and the entry pointer it stores in \<open>*pte_store\<close>.\<close>

definition page_lookup :: "nat \<Rightarrow> u32 \<Rightarrow> kstate \<Rightarrow> (nat option \<times> pte_ptr option) kres" where
  "page_lookup pgdir va s =
     obind (pgdir_walk pgdir va False s) (\<lambda>pte s.
       case pte of None \<Rightarrow> Return (None, None) s
       | Some p \<Rightarrow>
           if load_pte p s AND PTE_P = 0 then Return (None, Some p) s
           else obind (pa2page (PTE_ADDR (load_pte p s)) s) (\<lambda>pg s. Return (Some pg, Some p) s))"

definition page_remove :: "nat \<Rightarrow> u32 \<Rightarrow> kstate \<Rightarrow> unit kres" where
  "page_remove pgdir va s =
     obind (page_lookup pgdir va s) (\<lambda>r s.
       case r of
         (Some page, Some pte) \<Rightarrow>
           obind (page_decref page s) (\<lambda>_ s.
             Return () (tlb_invalidate pgdir va (store_pte pte 0 s)))
       | _ \<Rightarrow> Return () s)"

text \<open>
  \<open>page_insert\<close> with a NULL page: the code increments \<open>pp->pp_ref\<close> without a check, the word at address 4
  of the address space that is loaded. Without a page there that is a fault of the kernel; a user program may have mapped page 0,
  and then the code goes on with a frame number that is computed from NULL. What it does then is not modelled:
  \<open>Fault\<close> stands for the dereference of the NULL pointer.
\<close>

definition page_insert :: "nat \<Rightarrow> nat option \<Rightarrow> u32 \<Rightarrow> u32 \<Rightarrow> kstate \<Rightarrow> u32 kres" where
  "page_insert pgdir pp va perm s =
     obind (pgdir_walk pgdir va True s) (\<lambda>pte s.
       case pte of None \<Rightarrow> Return (- E_NO_MEM) s
       | Some p \<Rightarrow>
         (case pp of None \<Rightarrow> Fault ''page_insert: NULL page''
          | Some pp \<Rightarrow>
              let s = upd_page pp (\<lambda>q. q\<lparr>pp_ref := pp_ref q + 1\<rparr>) s in
              obind (if load_pte p s AND PTE_P \<noteq> 0 then page_remove pgdir va s else Return () s)
                (\<lambda>_ s. Return 0 (store_pte p (page2pa pp OR perm OR PTE_P) s))))"

text \<open>
  \<open>boot_map_region\<close> asserts that \<open>size\<close> is a multiple of the page size and then maps one
  page per iteration while \<open>size\<close> is not 0: exactly \<open>size div PGSIZE\<close> iterations.
\<close>

primrec boot_map_pages :: "nat \<Rightarrow> nat \<Rightarrow> u32 \<Rightarrow> u32 \<Rightarrow> u32 \<Rightarrow> kstate \<Rightarrow> unit kres" where
  "boot_map_pages 0 pgdir va pa perm s = Return () s"
| "boot_map_pages (Suc n) pgdir va pa perm s =
     obind (pgdir_walk pgdir va True s) (\<lambda>pte s.
       case pte of None \<Rightarrow> Fault ''boot_map_region: NULL pte''
       | Some p \<Rightarrow>
           boot_map_pages n pgdir (va + PGSIZE) (pa + PGSIZE) perm
             (store_pte p (pa OR perm OR PTE_P) s))"

definition boot_map_region :: "nat \<Rightarrow> u32 \<Rightarrow> u32 \<Rightarrow> u32 \<Rightarrow> u32 \<Rightarrow> kstate \<Rightarrow> unit kres" where
  "boot_map_region pgdir va sz pa perm s =
     obind (assert_that (va mod PGSIZE = 0) ''assertion failed: va % PGSIZE == 0'' s) (\<lambda>_ s.
     obind (assert_that (pa mod PGSIZE = 0) ''assertion failed: pa % PGSIZE == 0'' s) (\<lambda>_ s.
     obind (assert_that (sz mod PGSIZE = 0) ''assertion failed: size % PGSIZE == 0'' s) (\<lambda>_ s.
       boot_map_pages (unat (sz div PGSIZE)) pgdir va pa perm s)))"

text \<open>\<open>mmio_next\<close> is the static variable \<open>base\<close> of \<open>mmio_map_region\<close>.\<close>

definition mmio_map_region :: "u32 \<Rightarrow> u32 \<Rightarrow> kstate \<Rightarrow> u32 kres" where
  "mmio_map_region pa sz s =
     (let mult_size = ROUNDUP sz PGSIZE; base = mmio_next s in
      if base + mult_size > MMIOLIM then Panic ''Overflowing MMIOLIM''
      else obind (boot_map_region (kern_pgdir s) base mult_size pa
                    (PTE_P OR PTE_PWT OR PTE_PCD OR PTE_W) s) (\<lambda>_ s.
           Return base (s\<lparr>mmio_next := base + mult_size\<rparr>)))"

definition check_va2pa :: "nat \<Rightarrow> u32 \<Rightarrow> kstate \<Rightarrow> u32 kres" where
  "check_va2pa pgdir va s =
     (let pde = pmem s pgdir (pdx va) in
      if pde AND PTE_P = 0 then Return (-1) s
      else if pde AND PTE_PS \<noteq> 0 then Return (PGADDR (PDX pde) (PTX va) (PGOFF va)) s
      else obind (KADDR (PTE_ADDR pde) s) (\<lambda>p s.
        if pmem s (kva_frame p) (ptx va) AND PTE_P = 0 then Return (-1) s
        else Return (PTE_ADDR (pmem s (kva_frame p) (ptx va))) s))"

section \<open>Slots\<close>

text \<open>
  A slot \<open>(d, i, k)\<close> is entry \<open>k\<close> of the table that entry \<open>i\<close> of directory \<open>d\<close>
  points to; it reads 0 while there is no such table.
\<close>

type_synonym slot = "nat \<times> nat \<times> nat"

definition present :: "kstate \<Rightarrow> nat \<Rightarrow> nat \<Rightarrow> bool" where
  "present s d i \<longleftrightarrow> pmem s d i AND PTE_P \<noteq> 0"

definition table :: "kstate \<Rightarrow> nat \<Rightarrow> nat \<Rightarrow> nat" where
  "table s d i = unat (PGNUM (pmem s d i))"

definition slot :: "kstate \<Rightarrow> slot \<Rightarrow> u32" where
  "slot s x = (case x of (d, i, k) \<Rightarrow> if present s d i then pmem s (table s d i) k else 0)"

text \<open>The slot of a virtual address.\<close>

definition va_slot :: "nat \<Rightarrow> u32 \<Rightarrow> slot" where
  "va_slot d va = (d, pdx va, ptx va)"

text \<open>
  The tables of the directories \<open>D\<close> at the indices \<open>I\<close>: every table is a frame of
  its own, none is a directory, and no directory or table is a free page. Directory
  entries name existing frames, so that \<open>KADDR\<close> never panics on them.
\<close>

definition tables_ok :: "nat set \<Rightarrow> nat set \<Rightarrow> nat list \<Rightarrow> kstate \<Rightarrow> bool" where
  "tables_ok I D xs s \<longleftrightarrow>
     (\<forall>d \<in> D. d < npages s \<and> d \<notin> set xs \<and> (\<forall>i \<in> I. table s d i < npages s)) \<and>
     (\<forall>d \<in> D. \<forall>i \<in> I. present s d i \<longrightarrow> table s d i \<notin> D \<and> table s d i \<notin> set xs) \<and>
     (\<forall>d \<in> D. \<forall>i \<in> I. \<forall>e \<in> D. \<forall>j \<in> I. present s d i \<longrightarrow> present s e j \<longrightarrow>
        table s d i = table s e j \<longrightarrow> d = e \<and> i = j)"

lemma tables_okD:
  assumes "tables_ok I D xs s" and "d \<in> D"
  shows "d < npages s" "d \<notin> set xs" "i \<in> I \<Longrightarrow> table s d i < npages s"
    "i \<in> I \<Longrightarrow> present s d i \<Longrightarrow> table s d i \<notin> D"
    "i \<in> I \<Longrightarrow> present s d i \<Longrightarrow> table s d i \<notin> set xs"
    "i \<in> I \<Longrightarrow> e \<in> D \<Longrightarrow> j \<in> I \<Longrightarrow> present s d i \<Longrightarrow> present s e j \<Longrightarrow>
       table s d i = table s e j \<Longrightarrow> d = e \<and> i = j"
  using assms by (auto simp: tables_ok_def)

text \<open>Writing one slot changes that slot only.\<close>

lemma store_slot_present:
  assumes "tables_ok I D xs s" "d \<in> D" "i \<in> I" "present s d i" "e \<in> D"
  shows "present (store_pte (table s d i, k) v s) e j = present s e j"
    and "table (store_pte (table s d i, k) v s) e j = table s e j"
proof -
  have "table s d i \<noteq> e" using tables_okD(4) [OF assms(1,2,3,4)] assms(5) by blast
  then show "present (store_pte (table s d i, k) v s) e j = present s e j"
    and "table (store_pte (table s d i, k) v s) e j = table s e j"
    by (simp_all add: present_def table_def)
qed

lemma store_slot:
  assumes "tables_ok I D xs s" "d \<in> D" "i \<in> I" "present s d i" "e \<in> D" "j \<in> I"
  shows "slot (store_pte (table s d i, k) v s) (e, j, l) =
           (if (e, j, l) = (d, i, k) then v else slot s (e, j, l))"
  using store_slot_present [OF assms(1-5), of k v j] tables_okD(6) [OF assms(1,2,3,5,6,4)] assms(4)
  by (auto simp: slot_def)

lemma store_tables_ok:
  assumes "tables_ok I D xs s" "d \<in> D" "i \<in> I" "present s d i"
  shows "tables_ok I D xs (store_pte (table s d i, k) v s)"
  using assms(1) store_slot_present [OF assms] unfolding tables_ok_def by simp

text \<open>Only page contents and the free list matter to the tables.\<close>

lemma tables_ok_cong:
  "pmem t = pmem s \<Longrightarrow> npages t = npages s \<Longrightarrow> set ys \<subseteq> set xs \<Longrightarrow>
   tables_ok I D xs s \<Longrightarrow> tables_ok I D ys t"
  unfolding tables_ok_def present_def table_def by auto

lemma tables_ok_free:
  assumes "tables_ok I D xs s" and "pmem t = pmem s" "npages t = npages s"
    and "q \<notin> D" and "\<And>d i. d \<in> D \<Longrightarrow> i \<in> I \<Longrightarrow> present s d i \<Longrightarrow> table s d i \<noteq> q"
  shows "tables_ok I D (q # xs) t"
  using assms unfolding tables_ok_def present_def table_def by auto

lemma slot_cong: "pmem t = pmem s \<Longrightarrow> slot t x = slot s x"
  by (simp add: slot_def present_def table_def split: prod.splits)

section \<open>Walking\<close>

lemma kaddr_table:
  assumes "table s d i < npages s" and "mem_ok s"
  shows "KADDR (PTE_ADDR (pmem s d i)) s = Return (PTE_ADDR (pmem s d i) + KERNBASE) s"
    and "kva_frame (PTE_ADDR (pmem s d i) + KERNBASE) = table s d i"
  using assms by (simp_all add: KADDR_def table_def kva_frame_def)

lemma walk_present:
  assumes "table s d (pdx va) < npages s" "mem_ok s" "present s d (pdx va)"
  shows "pgdir_walk d va create s = Return (Some (table s d (pdx va), ptx va)) s"
  using assms by (simp add: pgdir_walk_def kaddr_table present_def)

lemma walk_absent:
  assumes "table s d (pdx va) < npages s" "mem_ok s" "\<not> present s d (pdx va)"
  shows "pgdir_walk d va False s = Return None s"
  using assms by (simp add: pgdir_walk_def kaddr_table present_def)

lemma walk_no_memory:
  assumes "table s d (pdx va) < npages s" "mem_ok s" "\<not> present s d (pdx va)" "free_list s []"
  shows "pgdir_walk d va True s = Return None s"
  using assms by (simp add: pgdir_walk_def kaddr_table present_def page_alloc_empty)

text \<open>The state after the walk creates a table in page \<open>x\<close>.\<close>

definition with_table :: "nat \<Rightarrow> nat \<Rightarrow> nat \<Rightarrow> kstate \<Rightarrow> kstate" where
  "with_table d i x s =
     store_pte (d, i) (page2pa x OR PTE_P OR PTE_U OR PTE_W)
       (upd_page x (\<lambda>p. p\<lparr>pp_ref := pp_ref p + 1\<rparr>) (fill_frame x 0 (page_unlink s)))"

lemma walk_create:
  assumes "table s d (pdx va) < npages s" "mem_ok s" "\<not> present s d (pdx va)"
    and "free_list s (x # xs)"
  shows "pgdir_walk d va True s = Return (Some (x, ptx va)) (with_table d (pdx va) x s)"
proof -
  have x: "x < npages s" using assms(4) by (simp add: free_list_def)
  then have "x < 2 ^ 20" using assms(2) by (simp add: mem_ok_def)
  moreover have "unat (PGNUM (pmem s d (pdx va))) < npages s" using assms(1) by (simp add: table_def)
  ultimately show ?thesis
    using x assms
    by (simp add: pgdir_walk_def kaddr_table present_def page_alloc_Cons with_table_def
        ALLOC_ZERO_def KADDR_def kva_frame_page Let_def)
qed

lemma with_table_simps [simp]:
  "npages (with_table d i x s) = npages s"
  "curenv (with_table d i x s) = curenv s"
  "envs (with_table d i x s) = envs s"
  "tlb (with_table d i x s) = tlb s"
  "pp_ref (pages (with_table d i x s) q) = (if q = x then pp_ref (pages s x) + 1 else pp_ref (pages s q))"
  by (simp_all add: with_table_def)

lemma table_flags: "PTE_P OR PTE_U OR PTE_W < 4096"
  by (simp add: layout_defs)

lemma with_table_pde:
  assumes "x < 2 ^ 20"
  shows "present (with_table d i x s) d i" "table (with_table d i x s) d i = x"
proof -
  have "page2pa x OR PTE_P OR PTE_U OR PTE_W = page2pa x OR (PTE_P OR PTE_U OR PTE_W)"
    by (simp add: or.assoc)
  then show "present (with_table d i x s) d i" "table (with_table d i x s) d i = x"
    using assms table_flags
    by (simp_all add: present_def table_def with_table_def PGNUM_or_perm or.assoc)
       (simp add: layout_defs)
qed

lemma with_table_other:
  assumes "tables_ok I D (x # xs) s" "e \<in> D" "(e, j) \<noteq> (d, i)"
  shows "present (with_table d i x s) e j = present s e j"
    and "table (with_table d i x s) e j = table s e j"
proof -
  have "e \<noteq> x" using assms(1,2) by (auto simp: tables_ok_def)
  then show "present (with_table d i x s) e j = present s e j"
    and "table (with_table d i x s) e j = table s e j"
    using assms(3) by (auto simp: present_def table_def with_table_def)
qed

lemma with_table_dir:
  assumes "tables_ok I D (x # xs) s" "x < 2 ^ 20" "e \<in> D"
  shows "present (with_table d i x s) e j = (present s e j \<or> (e, j) = (d, i))"
    "table (with_table d i x s) e j = (if (e, j) = (d, i) then x else table s e j)"
  using with_table_pde [OF assms(2), of d i s] with_table_other [OF assms(1,3), of j d i]
  by (auto split: if_splits)

lemma with_table_free_list:
  assumes "free_list s (x # xs)"
  shows "free_list (with_table d i x s) xs"
proof -
  have "x \<notin> set xs" using free_list_distinct [OF assms] by simp
  then have "free_list (upd_page x (\<lambda>p. p\<lparr>pp_ref := pp_ref p + 1\<rparr>) (fill_frame x 0 (page_unlink s))) xs"
    using page_unlink_free_list [OF assms] by (simp add: free_list_ref)
  then show ?thesis
    by (simp add: with_table_def free_list_def pglist.on_list_def)
qed

text \<open>A new table changes no slot: it is zeroed, and an absent table reads as zero.\<close>

lemma with_table_slot:
  assumes ok: "tables_ok I D (x # xs) s" and x: "x < 2 ^ 20"
    and d: "d \<in> D" "i \<in> I" "\<not> present s d i" and e: "e \<in> D" "j \<in> I"
  shows "slot (with_table d i x s) (e, j, k) = slot s (e, j, k)"
proof (cases "(e, j) = (d, i)")
  case True
  have "x \<noteq> d" using ok d(1) by (auto simp: tables_ok_def)
  then have "slot (with_table d i x s) (d, i, k) = 0"
    by (simp add: slot_def with_table_pde [OF x]) (simp add: with_table_def)
  with True d(3) show ?thesis by (simp add: slot_def)
next
  case False
  show ?thesis
  proof (cases "present s e j")
    case True
    have "table s e j \<noteq> x" "table s e j \<notin> D" using ok e True by (auto simp: tables_ok_def)
    then have "pmem (with_table d i x s) (table s e j) k = pmem s (table s e j) k"
      using d(1) by (auto simp: with_table_def)
    with True show ?thesis
      by (simp add: slot_def with_table_other [OF ok e(1) False])
  next
    case absent: False
    then show ?thesis by (simp add: slot_def with_table_other [OF ok e(1) False])
  qed
qed

lemma with_table_tables_ok:
  assumes ok: "tables_ok I D (x # xs) s" and fl: "free_list s (x # xs)" and m: "mem_ok s"
    and d: "d \<in> D" "i \<in> I" "\<not> present s d i"
  shows "tables_ok I D xs (with_table d i x s)"
proof -
  have x: "x < npages s" "x \<notin> set xs" and x20: "x < 2 ^ 20"
    using fl m free_list_distinct [OF fl] by (auto simp: free_list_def mem_ok_def)
  note T = with_table_dir [OF ok x20, of _ d i]
  have xD: "x \<notin> D" and xt: "\<And>e j. e \<in> D \<Longrightarrow> j \<in> I \<Longrightarrow> present s e j \<Longrightarrow> table s e j \<noteq> x"
    using ok by (auto simp: tables_ok_def)
  show ?thesis
    unfolding tables_ok_def
    using ok x xD xt by (auto simp: T tables_ok_def)
qed

end
