(* ===== verification/VmInv.thy ===== *)
theory VmInv
  imports PageTable
begin

text \<open>
  The virtual memory invariant and its preservation. \<open>vm_ok I D E xs s\<close> says of the
  directories \<open>D\<close>, looked at in the directory indices \<open>I\<close> (the user part), that the
  free list is \<open>xs\<close>, that tables are frames of their own, and that every page has
  exactly as many references as it has uses: entries that map it, the table or directory it
  serves as, and the \<open>E q\<close> references held elsewhere. It follows that a page somebody
  can reach through a page table is never on the free list. Inserting and removing
  mappings preserve it and change exactly one slot: the page tables implement a map from
  virtual pages to entries.
\<close>

section \<open>References\<close>

definition maps :: "nat set \<Rightarrow> nat set \<Rightarrow> kstate \<Rightarrow> nat \<Rightarrow> slot set" where
  "maps I D s q = {(d, i, k). d \<in> D \<and> i \<in> I \<and> k < 1024 \<and>
     slot s (d, i, k) AND PTE_P \<noteq> 0 \<and> unat (PGNUM (slot s (d, i, k))) = q}"

definition is_table :: "nat set \<Rightarrow> nat set \<Rightarrow> kstate \<Rightarrow> nat \<Rightarrow> bool" where
  "is_table I D s q \<longleftrightarrow> q \<in> D \<or> (\<exists>d \<in> D. \<exists>i \<in> I. present s d i \<and> table s d i = q)"

definition refs_ok :: "nat set \<Rightarrow> nat set \<Rightarrow> (nat \<Rightarrow> nat) \<Rightarrow> kstate \<Rightarrow> bool" where
  "refs_ok I D E s \<longleftrightarrow>
     (\<forall>q. card (maps I D s q) + (if is_table I D s q then 1 else 0) + E q = unat (pp_ref (pages s q))) \<and>
     (\<forall>q. maps I D s q \<noteq> {} \<longrightarrow> q < npages s)"

definition vm_ok :: "nat set \<Rightarrow> nat set \<Rightarrow> (nat \<Rightarrow> nat) \<Rightarrow> nat list \<Rightarrow> kstate \<Rightarrow> bool" where
  "vm_ok I D E xs s \<longleftrightarrow>
     mem_ok s \<and> free_list s xs \<and> finite D \<and> finite I \<and> tables_ok I D xs s \<and> refs_ok I D E s"

lemma vm_okD:
  assumes "vm_ok I D E xs s"
  shows "mem_ok s" "free_list s xs" "finite D" "finite I" "tables_ok I D xs s" "refs_ok I D E s"
  using assms by (simp_all add: vm_ok_def)

lemma finite_maps: "finite D \<Longrightarrow> finite I \<Longrightarrow> finite (maps I D s q)"
  by (rule finite_subset [of _ "D \<times> I \<times> {..<1024}"]) (auto simp: maps_def)

lemma maps_cong:
  "(\<And>d i k. d \<in> D \<Longrightarrow> i \<in> I \<Longrightarrow> slot t (d, i, k) = slot s (d, i, k)) \<Longrightarrow> maps I D t q = maps I D s q"
  by (auto simp: maps_def)

lemma maps_store:
  assumes "tables_ok I D xs s" "d \<in> D" "i \<in> I" "present s d i" "k < 1024"
  shows "maps I D (store_pte (table s d i, k) v s) q =
    (maps I D s q - {(d, i, k)}) \<union>
    (if v AND PTE_P \<noteq> 0 \<and> unat (PGNUM v) = q then {(d, i, k)} else {})"
proof (rule set_eqI)
  fix x :: slot
  obtain e j l where x: "x = (e, j, l)" by (cases x)
  show "x \<in> maps I D (store_pte (table s d i, k) v s) q \<longleftrightarrow>
    x \<in> (maps I D s q - {(d, i, k)}) \<union>
    (if v AND PTE_P \<noteq> 0 \<and> unat (PGNUM v) = q then {(d, i, k)} else {})"
  proof (cases "e \<in> D \<and> j \<in> I")
    case True
    then show ?thesis
      using store_slot [OF assms(1-4), of e j k v l] assms(5)
      unfolding x maps_def by auto
  next
    case False
    then show ?thesis using assms(2,3) unfolding x maps_def by auto
  qed
qed

lemma is_table_store:
  assumes "tables_ok I D xs s" "d \<in> D" "i \<in> I" "present s d i"
  shows "is_table I D (store_pte (table s d i, k) v s) q = is_table I D s q"
  using store_slot_present [OF assms] by (auto simp: is_table_def)

lemma is_table_cong: "pmem t = pmem s \<Longrightarrow> is_table I D t q = is_table I D s q"
  by (simp add: is_table_def present_def table_def)

lemma maps_pmem: "pmem t = pmem s \<Longrightarrow> maps I D t q = maps I D s q"
  by (rule maps_cong) (rule slot_cong)

text \<open>A page with no reference is no table and is not mapped.\<close>

lemma unreferenced:
  assumes "refs_ok I D E s" "finite D" "finite I" "pp_ref (pages s q) = 0"
  shows "maps I D s q = {}" "\<not> is_table I D s q" "E q = 0"
proof -
  have "card (maps I D s q) + (if is_table I D s q then 1 else 0) + E q = 0"
    using assms(1,4) by (auto simp: refs_ok_def dest: spec [of _ q])
  then show "maps I D s q = {}" "\<not> is_table I D s q" "E q = 0"
    using finite_maps [OF assms(2,3), of s q] by (auto split: if_splits)
qed

lemma free_page_unused:
  assumes "vm_ok I D E xs s" "q \<in> set xs"
  shows "maps I D s q = {}" "\<not> is_table I D s q" "E q = 0"
  using unreferenced [of I D E s q] assms by (auto simp: vm_ok_def free_list_def)

section \<open>Frame conditions\<close>

text \<open>The invariant depends on the allocator, the tables and the counts only.\<close>

lemma vm_ok_cong:
  assumes "vm_ok I D E xs s"
    and "pmem t = pmem s" "npages t = npages s" "pages t = pages s"
    and "page_free_list t = page_free_list s"
  shows "vm_ok I D E xs t"
proof -
  have "maps I D t q = maps I D s q" for q
    by (rule maps_pmem [OF assms(2)])
  then have "refs_ok I D E t"
    using vm_okD(6) [OF assms(1)] by (simp add: refs_ok_def is_table_cong [OF assms(2)] assms)
  moreover have "tables_ok I D xs t"
    by (rule tables_ok_cong [OF assms(2,3) subset_refl vm_okD(5) [OF assms(1)]])
  ultimately show ?thesis
    using assms by (simp add: vm_ok_def mem_ok_def free_list_def pglist.on_list_def)
qed

lemma vm_ok_tlb:
  "vm_ok I D E xs s \<Longrightarrow> vm_ok I D E xs (tlb_invalidate d va s)"
  by (erule vm_ok_cong) (auto simp: tlb_invalidate_def split: option.splits)

lemma slot_tlb [simp]: "slot (tlb_invalidate d va s) x = slot s x"
  by (rule slot_cong) (auto simp: tlb_invalidate_def split: option.splits)

lemma refs_tlb [simp]: "pages (tlb_invalidate d va s) = pages s"
  by (auto simp: tlb_invalidate_def split: option.splits)

text \<open>Counting one more reference that nothing uses yet.\<close>

lemma vm_ok_incref:
  assumes "vm_ok I D E xs s" "q \<notin> set xs" "unat (pp_ref (pages s q)) < 65535"
  shows "vm_ok I D (E(q := E q + 1)) xs (upd_page q (\<lambda>p. p\<lparr>pp_ref := pp_ref p + 1\<rparr>) s)"
proof -
  let ?t = "upd_page q (\<lambda>p. p\<lparr>pp_ref := pp_ref p + 1\<rparr>) s"
  have "unat (pp_ref (pages s q) + 1) = unat (pp_ref (pages s q)) + 1"
    using assms(3) by (simp add: unat_word_ariths)
  moreover have "maps I D ?t p = maps I D s p" for p
    by (rule maps_pmem) simp
  moreover have "is_table I D ?t p = is_table I D s p" for p by (rule is_table_cong) simp
  ultimately have "refs_ok I D (E(q := E q + 1)) ?t"
    using vm_okD(6) [OF assms(1)] by (simp add: refs_ok_def)
  moreover have "tables_ok I D xs ?t"
    by (rule tables_ok_cong [OF _ _ subset_refl vm_okD(5) [OF assms(1)]]) simp_all
  ultimately show ?thesis
    using assms by (simp add: vm_ok_def mem_ok_def free_list_ref)
qed

text \<open>Dropping a reference that nothing uses: the page is freed when it was the last.\<close>

lemma vm_ok_decref:
  assumes ok: "vm_ok I D E xs s" and q: "q < npages s" "0 < E q"
  shows "\<exists>t ys. page_decref q s = Return () t \<and> vm_ok I D (E(q := E q - 1)) ys t \<and>
    pmem t = pmem s \<and> npages t = npages s \<and> curenv t = curenv s \<and> envs t = envs s \<and> tlb t = tlb s \<and>
    ys = (if pp_ref (pages s q) = 1 then q # xs else xs) \<and>
    (\<forall>p. pp_ref (pages t p) = (if p = q then pp_ref (pages s q) - 1 else pp_ref (pages s p)))"
proof -
  let ?s = "upd_page q (\<lambda>p. p\<lparr>pp_ref := pp_ref p - 1\<rparr>) s"
  have qx: "q \<notin> set xs" using free_page_unused(3) [OF ok] q(2) by auto
  have le: "card (maps I D s q) + (if is_table I D s q then 1 else 0) + E q = unat (pp_ref (pages s q))"
    using vm_okD(6) [OF ok] by (auto simp: refs_ok_def dest: spec [of _ q])
  then have pos: "pp_ref (pages s q) \<noteq> 0" using q(2) by (auto simp: unat_eq_zero)
  have u: "unat (pp_ref (pages s q) - 1) = unat (pp_ref (pages s q)) - 1"
    using pos by (rule unat_minus_one)
  have m: "maps I D ?s p = maps I D s p" "is_table I D ?s p = is_table I D s p" for p
    by (rule maps_pmem, simp) (rule is_table_cong, simp)
  have refs: "refs_ok I D (E(q := E q - 1)) ?s"
    unfolding refs_ok_def m
  proof (intro conjI allI)
    fix p
    show "card (maps I D s p) + (if is_table I D s p then 1 else 0) + (E(q := E q - 1)) p
        = unat (pp_ref (pages ?s p))"
    proof (cases "p = q")
      case True
      have "card (maps I D s q) + (if is_table I D s q then 1 else 0) + (E q - 1)
          = unat (pp_ref (pages s q)) - 1"
        using le q(2) by linarith
      then show ?thesis by (simp add: True u)
    next
      case False
      then show ?thesis using vm_okD(6) [OF ok] by (simp add: refs_ok_def)
    qed
    show "maps I D s p \<noteq> {} \<longrightarrow> p < npages ?s"
      using vm_okD(6) [OF ok] by (simp add: refs_ok_def)
  qed
  have fl: "free_list ?s xs" using vm_okD(2) [OF ok] qx by (simp add: free_list_ref)
  have tb: "tables_ok I D xs ?s" 
    by (rule tables_ok_cong [OF _ _ subset_refl vm_okD(5) [OF ok]]) simp_all
  have ok1: "vm_ok I D (E(q := E q - 1)) xs ?s"
    using ok fl tb refs by (simp add: vm_ok_def mem_ok_def)
  show ?thesis
  proof (cases "pp_ref (pages s q) = 1")
    case False
    then have "page_decref q s = Return () ?s" by (simp add: page_decref_def)
    with ok1 False show ?thesis by (intro exI [of _ ?s] exI [of _ xs]) simp
  next
    case True
    let ?t = "page_relink q ?s"
    have r0: "pp_ref (pages ?s q) = 0" using True by simp
    have "page_decref q s = Return () ?t"
      using page_free_Return [OF fl qx r0] True by (simp add: page_decref_def)
    moreover have fl': "free_list ?t (q # xs)"
      using page_relink_free_list [OF fl qx _ r0] q(1) by simp
    moreover have "tables_ok I D (q # xs) ?t"
      using unreferenced(2) [OF refs _ _ r0] vm_okD(3,4) [OF ok]
      by (intro tables_ok_free [OF tb]) (auto simp: is_table_def)
    moreover have "refs_ok I D (E(q := E q - 1)) ?t"
    proof -
      have "maps I D ?t p = maps I D ?s p" "is_table I D ?t p = is_table I D ?s p" for p
        by (rule maps_pmem, simp) (rule is_table_cong, simp)
      then show ?thesis using refs by (simp add: refs_ok_def)
    qed
    ultimately show ?thesis
      using ok True by (intro exI [of _ ?t] exI [of _ "q # xs"]) (simp add: vm_ok_def mem_ok_def)
  qed
qed

text \<open>Overwriting a slot hands its reference over: to nobody, or from the caller's hand.\<close>

lemma vm_ok_store:
  assumes ok: "vm_ok I D E xs s" and d: "d \<in> D" "i \<in> I" "present s d i" "k < 1024"
    and E: "\<And>q. E' q + (if v AND PTE_P \<noteq> 0 \<and> unat (PGNUM v) = q then 1 else 0)
              = E q + (if slot s (d, i, k) AND PTE_P \<noteq> 0 \<and> unat (PGNUM (slot s (d, i, k))) = q then 1 else 0)"
    and v: "v AND PTE_P \<noteq> 0 \<Longrightarrow> unat (PGNUM v) < npages s"
  shows "vm_ok I D E' xs (store_pte (table s d i, k) v s)"
proof -
  let ?t = "store_pte (table s d i, k) v s"
  note tb = vm_okD(5) [OF ok]
  have fin: "finite (maps I D s q)" for q using vm_okD(3,4) [OF ok] by (rule finite_maps)
  have mem: "(d, i, k) \<in> maps I D s q \<longleftrightarrow>
      slot s (d, i, k) AND PTE_P \<noteq> 0 \<and> unat (PGNUM (slot s (d, i, k))) = q" for q
    using d by (simp add: maps_def)
  have card: "card (maps I D ?t q) + (if (d, i, k) \<in> maps I D s q then 1 else 0) =
      card (maps I D s q) + (if v AND PTE_P \<noteq> 0 \<and> unat (PGNUM v) = q then 1 else 0)" for q
  proof -
    have "card (maps I D s q - {(d, i, k)}) + (if (d, i, k) \<in> maps I D s q then 1 else 0) = card (maps I D s q)"
      using fin [of q] by (auto simp: card_Diff_singleton) (metis Suc_pred card_gt_0_iff empty_iff)
    then show ?thesis
      using fin [of q] by (simp add: maps_store [OF tb d] card_insert_if)
  qed
  have "refs_ok I D E' ?t"
    unfolding refs_ok_def
  proof (intro conjI allI impI)
    fix q
    have "card (maps I D s q) + (if is_table I D s q then 1 else 0) + E q = unat (pp_ref (pages s q))"
      using vm_okD(6) [OF ok] by (auto simp: refs_ok_def dest: spec [of _ q])
    then show "card (maps I D ?t q) + (if is_table I D ?t q then 1 else 0) + E' q = unat (pp_ref (pages ?t q))"
      using card [of q] E [of q] by (simp add: is_table_store [OF tb d(1-3)] mem)
  next
    fix q assume "maps I D ?t q \<noteq> {}"
    then show "q < npages ?t"
      using vm_okD(6) [OF ok] v by (auto simp: maps_store [OF tb d] refs_ok_def split: if_splits)
  qed
  moreover have "tables_ok I D xs ?t" using tb d(1-3) by (rule store_tables_ok)
  ultimately show ?thesis
    using ok by (simp add: vm_ok_def mem_ok_def free_list_def pglist.on_list_def)
qed

section \<open>Effects\<close>

text \<open>
  What an operation on address \<open>va\<close> of directory \<open>d\<close> does: the slot of \<open>va\<close> now
  reads \<open>v\<close>, no other slot and no directory entry of another table changes; the TLB entry of \<open>va\<close> is dropped if there was
  a mapping and \<open>d\<close> is the directory in use; the page named in \<open>pp\<close> gains a reference
  and the page mapped before loses one.
\<close>

definition in_use :: "nat \<Rightarrow> kstate \<Rightarrow> bool" where
  "in_use d s = (case curenv s of None \<Rightarrow> True | Some e \<Rightarrow> env_pgdir (envs s e) = Some d)"

lemma in_use_cong: "curenv t = curenv s \<Longrightarrow> envs t = envs s \<Longrightarrow> in_use d t = in_use d s"
  by (simp add: in_use_def cong: option.case_cong)

definition mapped :: "nat \<Rightarrow> u32 \<Rightarrow> kstate \<Rightarrow> bool" where
  "mapped d va s \<longleftrightarrow> slot s (va_slot d va) AND PTE_P \<noteq> 0"

definition mapped_page :: "nat \<Rightarrow> u32 \<Rightarrow> kstate \<Rightarrow> nat" where
  "mapped_page d va s = unat (PGNUM (slot s (va_slot d va)))"

definition slot_effect :: "nat set \<Rightarrow> nat set \<Rightarrow> nat \<Rightarrow> u32 \<Rightarrow> u32 \<Rightarrow> kstate \<Rightarrow> kstate \<Rightarrow> bool" where
  "slot_effect I D d va v s t \<longleftrightarrow>
     npages t = npages s \<and> curenv t = curenv s \<and> envs t = envs s \<and>
     (\<forall>e \<in> D. \<forall>j. (e, j) \<noteq> (d, pdx va) \<longrightarrow> pmem t e j = pmem s e j) \<and>
     (\<forall>e \<in> D. \<forall>j \<in> I. \<forall>l. slot t (e, j, l) = (if (e, j, l) = va_slot d va then v else slot s (e, j, l)))"

definition tlb_effect :: "nat \<Rightarrow> u32 \<Rightarrow> kstate \<Rightarrow> kstate \<Rightarrow> bool" where
  "tlb_effect d va s t \<longleftrightarrow>
     tlb t = (if mapped d va s \<and> in_use d s then (tlb s)(PGNUM va := None) else tlb s)"

definition refs_effect :: "nat option \<Rightarrow> nat \<Rightarrow> u32 \<Rightarrow> nat list \<Rightarrow> kstate \<Rightarrow> kstate \<Rightarrow> bool" where
  "refs_effect pp d va xs s t \<longleftrightarrow>
     (\<forall>q. q \<notin> set xs \<longrightarrow> pp_ref (pages t q) = pp_ref (pages s q) + (if pp = Some q then 1 else 0)
        - (if mapped d va s \<and> q = mapped_page d va s then 1 else 0))"

lemma tlb_tlb_invalidate:
  "tlb (tlb_invalidate d va s) = (if in_use d s then (tlb s)(PGNUM va := None) else tlb s)"
  by (simp add: tlb_invalidate_def in_use_def split: option.splits)

lemma tlb_invalidate_simps [simp]:
  "npages (tlb_invalidate d va s) = npages s"
  "curenv (tlb_invalidate d va s) = curenv s"
  "envs (tlb_invalidate d va s) = envs s"
  "pmem (tlb_invalidate d va s) = pmem s"
  by (simp_all add: tlb_invalidate_def split: option.splits)

section \<open>Creating a table\<close>

lemma vm_ok_with_table:
  assumes ok: "vm_ok I D E (x # xs) s" and d: "d \<in> D" "i \<in> I" "\<not> present s d i"
  shows "vm_ok I D E xs (with_table d i x s)"
proof -
  let ?t = "with_table d i x s"
  note fl = vm_okD(2) [OF ok] and tb = vm_okD(5) [OF ok]
  have x20: "x < 2 ^ 20" using fl vm_okD(1) [OF ok] by (simp add: free_list_def mem_ok_def)
  have r0: "pp_ref (pages s x) = 0" using fl by (simp add: free_list_def)
  have m: "maps I D ?t q = maps I D s q" for q
    by (rule maps_cong) (simp add: with_table_slot [OF tb x20 d])
  have tab: "is_table I D ?t q \<longleftrightarrow> is_table I D s q \<or> q = x" for q
    using d by (auto simp: is_table_def with_table_dir [OF tb x20] split: if_splits)
  have "refs_ok I D E ?t"
    unfolding refs_ok_def m tab
  proof (intro conjI allI)
    fix q
    have "card (maps I D s q) + (if is_table I D s q then 1 else 0) + E q = unat (pp_ref (pages s q))"
      using vm_okD(6) [OF ok] by (auto simp: refs_ok_def dest: spec [of _ q])
    then show "card (maps I D s q) + (if is_table I D s q \<or> q = x then 1 else 0) + E q
        = unat (pp_ref (pages ?t q))"
      using r0 by auto
    show "maps I D s q \<noteq> {} \<longrightarrow> q < npages ?t"
      using vm_okD(6) [OF ok] by (simp add: refs_ok_def)
  qed
  then show ?thesis
    using ok with_table_free_list [OF fl] with_table_tables_ok [OF tb fl vm_okD(1) [OF ok] d]
    by (simp add: vm_ok_def mem_ok_def)
qed

section \<open>Removing a mapping\<close>

lemma decref_store:
  "obind (page_decref q s) (\<lambda>_ s. Return () (f (store_pte p v s))) =
   obind (page_decref q (store_pte p v s)) (\<lambda>_ s. Return () (f s))"
  by (cases s) (simp add: page_decref_def page_free_def page_relink_def upd_page_def store_pte_def Let_def)

lemma load_slot: "present s d i \<Longrightarrow> load_pte (table s d i, k) s = slot s (d, i, k)"
  by (simp add: load_pte_def slot_def)

lemma mapped_page_exists:
  assumes "vm_ok I D E xs s" "d \<in> D" "i \<in> I" "k < 1024" "slot s (d, i, k) AND PTE_P \<noteq> 0"
  shows "unat (PGNUM (slot s (d, i, k))) < npages s"
proof -
  have "(d, i, k) \<in> maps I D s (unat (PGNUM (slot s (d, i, k))))"
    using assms by (simp add: maps_def)
  then show ?thesis using vm_okD(6) [OF assms(1)] by (auto simp: refs_ok_def)
qed

lemma page_lookup_gen:
  assumes mem: "mem_ok s" and n: "table s d (pdx va) < npages s"
    and m: "slot s (va_slot d va) AND PTE_P \<noteq> 0 \<longrightarrow> unat (PGNUM (slot s (va_slot d va))) < npages s"
  shows "page_lookup d va s = Return
    (if slot s (va_slot d va) AND PTE_P \<noteq> 0 then Some (unat (PGNUM (slot s (va_slot d va)))) else None,
     if present s d (pdx va) then Some (table s d (pdx va), ptx va) else None) s"
proof (cases "present s d (pdx va)")
  case True
  with m show ?thesis
    by (auto simp: page_lookup_def walk_present [OF n mem] load_slot va_slot_def pa2page_def)
next
  case False
  then show ?thesis
    by (simp add: page_lookup_def walk_absent [OF n mem] va_slot_def slot_def)
qed

lemma page_lookup_spec:
  assumes ok: "vm_ok I D E xs s" and d: "d \<in> D" "pdx va \<in> I"
  shows "page_lookup d va s = Return
    (if slot s (va_slot d va) AND PTE_P \<noteq> 0 then Some (unat (PGNUM (slot s (va_slot d va)))) else None,
     if present s d (pdx va) then Some (table s d (pdx va), ptx va) else None) s"
  using tables_okD(3) [OF vm_okD(5) [OF ok] d] mapped_page_exists [OF ok d PTX_bound [of va]]
  by (intro page_lookup_gen [OF vm_okD(1) [OF ok]]) (simp_all add: va_slot_def)

lemma page_remove_spec:
  assumes ok: "vm_ok I D E xs s" and d: "d \<in> D" "pdx va \<in> I"
  shows "\<exists>t ys. page_remove d va s = Return () t \<and> vm_ok I D E ys t \<and>
    slot_effect I D d va (if mapped d va s then 0 else slot s (va_slot d va)) s t \<and>
    tlb_effect d va s t \<and> refs_effect None d va [] s t \<and>
    (\<forall>e \<in> D. pmem t e = pmem s e)"
proof (cases "mapped d va s")
  case False
  then have "page_remove d va s = Return () s"
    by (simp add: page_remove_def page_lookup_spec [OF ok d] mapped_def)
  moreover have "slot_effect I D d va (slot s (va_slot d va)) s s"
    by (auto simp: slot_effect_def)
  ultimately show ?thesis
    using ok False by (fastforce simp: tlb_effect_def refs_effect_def)
next
  case True
  let ?q = "mapped_page d va s"
  let ?p = "(table s d (pdx va), ptx va)"
  let ?s = "store_pte ?p 0 s"
  note k = PTX_bound [of va] and tb = vm_okD(5) [OF ok]
  have pr: "present s d (pdx va)"
    using True by (auto simp: mapped_def slot_def va_slot_def split: if_splits)
  have q: "?q < npages s"
    using mapped_page_exists [OF ok d k] True by (simp add: va_slot_def mapped_def mapped_page_def)
  have ok1: "vm_ok I D (E(?q := E ?q + 1)) xs ?s"
    using True by (intro vm_ok_store [OF ok d pr k]) (auto simp: va_slot_def mapped_def mapped_page_def)
  obtain t ys where t: "page_decref ?q ?s = Return () t" "vm_ok I D E ys t" "pmem t = pmem ?s"
      "npages t = npages s" "curenv t = curenv s" "envs t = envs s" "tlb t = tlb s"
      "\<And>p. pp_ref (pages t p) = (if p = ?q then pp_ref (pages s ?q) - 1 else pp_ref (pages s p))"
    using vm_ok_decref [OF ok1, of ?q] q by (auto simp: fun_upd_idem)
  let ?t = "tlb_invalidate d va t"
  have "page_remove d va s = Return () ?t"
    using True pr t(1) decref_store [of ?q s "tlb_invalidate d va" ?p 0]
    by (simp add: page_remove_def page_lookup_spec [OF ok d] mapped_def mapped_page_def)
  moreover have "vm_ok I D E ys ?t" using t(2) by (rule vm_ok_tlb)
  moreover have dirs: "\<forall>e \<in> D. pmem ?t e = pmem s e"
    using tables_okD(4) [OF tb d pr] t(3) by auto
  moreover from this have "slot_effect I D d va 0 s ?t"
    using store_slot [OF tb d pr, of _ _ "ptx va" 0] slot_cong [OF t(3)] t(4-6)
    by (simp add: slot_effect_def va_slot_def)
  moreover have "tlb_effect d va s ?t"
    using True t(7) by (simp add: tlb_effect_def tlb_tlb_invalidate in_use_cong [OF t(5,6)])
  moreover have "refs_effect None d va [] s ?t"
    using True t(8) by (simp add: refs_effect_def)
  ultimately show ?thesis using True by auto
qed

section \<open>Inserting a mapping\<close>

text \<open>The walk that may create a table: all slots read as before, and the table is there.\<close>

lemma walk_create_spec:
  assumes ok: "vm_ok I D E xs s" and d: "d \<in> D" "pdx va \<in> I"
    and mem: "present s d (pdx va) \<or> xs \<noteq> []"
  shows "\<exists>t ys. pgdir_walk d va True s = Return (Some (table t d (pdx va), ptx va)) t \<and>
    vm_ok I D E ys t \<and> present t d (pdx va) \<and> set ys \<subseteq> set xs \<and> tlb t = tlb s \<and>
    slot_effect I D d va (slot s (va_slot d va)) s t \<and>
    (\<forall>q. q \<notin> set xs \<longrightarrow> pp_ref (pages t q) = pp_ref (pages s q))"
proof -
  have n: "table s d (pdx va) < npages s" using tables_okD(3) [OF vm_okD(5) [OF ok] d(1)] d(2) .
  show ?thesis
  proof (cases "present s d (pdx va)")
    case True
    have "slot_effect I D d va (slot s (va_slot d va)) s s" by (auto simp: slot_effect_def)
    with True ok show ?thesis
      by (intro exI [of _ s] exI [of _ xs]) (simp add: walk_present [OF n vm_okD(1) [OF ok]])
  next
    case False
    with mem obtain x zs where xs: "xs = x # zs" by (cases xs) auto
    note ok' = ok [unfolded xs]
    have x20: "x < 2 ^ 20"
      using vm_okD(1,2) [OF ok'] by (simp add: free_list_def mem_ok_def)
    have "slot_effect I D d va (slot s (va_slot d va)) s (with_table d (pdx va) x s)"
      using with_table_slot [OF vm_okD(5) [OF ok'] x20 d False] tables_okD(2) [OF vm_okD(5) [OF ok']]
      by (auto simp: slot_effect_def with_table_def)
    then show ?thesis
      using walk_create [OF n vm_okD(1) [OF ok] False vm_okD(2) [OF ok']]
        vm_ok_with_table [OF ok' d False] with_table_pde [OF x20, of d "pdx va" s]
      by (intro exI [of _ "with_table d (pdx va) x s"] exI [of _ zs]) (auto simp: xs)
  qed
qed

lemma new_entry:
  assumes "pp < 2 ^ 20" "perm < 4096"
  shows "(page2pa pp OR perm OR PTE_P) AND PTE_P = PTE_P"
    and "unat (PGNUM (page2pa pp OR perm OR PTE_P)) = pp"
proof -
  have P: "PTE_P < 4096" by (simp add: layout_defs)
  then have "perm OR PTE_P < 4096" using assms(2) by (rule or_perm_bound [rotated])
  then show "(page2pa pp OR perm OR PTE_P) AND PTE_P = PTE_P"
    "unat (PGNUM (page2pa pp OR perm OR PTE_P)) = pp"
    using assms P by (simp_all add: PGNUM_or_perm)
qed

text \<open>The part of \<open>page_insert\<close> after the walk.\<close>

definition insert_tail :: "nat \<Rightarrow> nat \<Rightarrow> pte_ptr \<Rightarrow> u32 \<Rightarrow> u32 \<Rightarrow> kstate \<Rightarrow> u32 kres" where
  "insert_tail pgdir pp p va perm s =
     (let s = upd_page pp (\<lambda>q. q\<lparr>pp_ref := pp_ref q + 1\<rparr>) s in
      obind (if load_pte p s AND PTE_P \<noteq> 0 then page_remove pgdir va s else Return () s)
        (\<lambda>_ s. Return 0 (store_pte p (page2pa pp OR perm OR PTE_P) s)))"

lemma page_insert_tail:
  assumes ok: "vm_ok I D E xs s" and d: "d \<in> D" "pdx va \<in> I" and pr: "present s d (pdx va)"
    and pp: "pp < npages s" "pp \<notin> set xs" "unat (pp_ref (pages s pp)) < 65535" and perm: "perm < 4096"
  shows "\<exists>t ys. insert_tail d pp (table s d (pdx va), ptx va) va perm s = Return 0 t \<and>
    vm_ok I D E ys t \<and> slot_effect I D d va (page2pa pp OR perm OR PTE_P) s t \<and>
    tlb_effect d va s t \<and> refs_effect (Some pp) d va [] s t"
proof -
  let ?s = "upd_page pp (\<lambda>q. q\<lparr>pp_ref := pp_ref q + 1\<rparr>) s"
  let ?E = "E(pp := E pp + 1)"
  let ?v = "page2pa pp OR perm OR PTE_P"
  note k = PTX_bound [of va]
  have pp20: "pp < 2 ^ 20" using pp(1) vm_okD(1) [OF ok] by (simp add: mem_ok_def)
  have ok1: "vm_ok I D ?E xs ?s" using ok pp(2,3) by (rule vm_ok_incref)
  have sl: "slot ?s x = slot s x" for x by (rule slot_cong) simp
  have same: "present ?s d i = present s d i" "table ?s d i = table s d i" "mapped d va ?s = mapped d va s"
    "mapped_page d va ?s = mapped_page d va s" for i
    by (simp_all add: present_def table_def mapped_def mapped_page_def sl)
  have use: "in_use d ?s = in_use d s" by (rule in_use_cong) simp_all
  have ld: "load_pte (table s d (pdx va), ptx va) ?s AND PTE_P \<noteq> 0 \<longleftrightarrow> mapped d va s"
    using pr by (simp add: load_pte_def slot_def va_slot_def mapped_def)
  have tl: "tlb ?s = tlb s" by (simp add: upd_page_def)
  have fin: "vm_ok I D E ys (store_pte (table r d (pdx va), ptx va) ?v r) \<and>
      slot_effect I D d va ?v s (store_pte (table r d (pdx va), ptx va) ?v r)"
    if r: "vm_ok I D ?E ys r" "present r d (pdx va)" "slot_effect I D d va w s r" "w AND PTE_P = 0"
    for r ys w
  proof
    have w: "slot r (va_slot d va) = w" "npages r = npages s" using r(3) d
      by (auto simp: slot_effect_def va_slot_def)
    then show "vm_ok I D E ys (store_pte (table r d (pdx va), ptx va) ?v r)"
      using r(4) new_entry [OF pp20 perm] pp(1)
      by (intro vm_ok_store [OF r(1) d r(2) k]) (auto simp: va_slot_def)
    show "slot_effect I D d va ?v s (store_pte (table r d (pdx va), ptx va) ?v r)"
      using r(3) store_slot [OF vm_okD(5) [OF r(1)] d r(2), of _ _ "ptx va" ?v]
        tables_okD(4) [OF vm_okD(5) [OF r(1)] d r(2)]
      by (auto simp: slot_effect_def va_slot_def)
  qed
  show ?thesis
  proof (cases "mapped d va s")
    case False
    have "slot_effect I D d va (slot s (va_slot d va)) s ?s" by (auto simp: slot_effect_def sl)
    then show ?thesis
      using False fin [OF ok1, of "slot s (va_slot d va)"] pr False [unfolded mapped_def]
      by (intro exI [of _ "store_pte (table s d (pdx va), ptx va) ?v ?s"] exI [of _ xs])
         (simp add: insert_tail_def Let_def ld same use tl tlb_effect_def refs_effect_def)
  next
    case True
    obtain r ys where r: "page_remove d va ?s = Return () r" "vm_ok I D ?E ys r"
      "slot_effect I D d va 0 ?s r" "tlb_effect d va ?s r" "refs_effect None d va [] ?s r"
      "\<forall>e \<in> D. pmem r e = pmem ?s e"
      using page_remove_spec [OF ok1 d] True by (auto simp: same)
    have "present r d (pdx va) = present s d (pdx va)" "table r d (pdx va) = table s d (pdx va)"
      using r(6) d(1) by (simp_all add: present_def table_def)
    note r = r(1-5) this
    have "slot_effect I D d va 0 s r" using r(3) by (simp add: slot_effect_def sl)
    then show ?thesis
      using True fin [OF r(2)] pr r
      by (intro exI [of _ "store_pte (table s d (pdx va), ptx va) ?v r"] exI [of _ ys])
         (simp add: insert_tail_def Let_def ld same use tl tlb_effect_def refs_effect_def)
  qed
qed

lemma page_insert_spec:
  assumes ok: "vm_ok I D E xs s" and d: "d \<in> D" "pdx va \<in> I"
    and pp: "pp < npages s" "pp \<notin> set xs" "unat (pp_ref (pages s pp)) < 65535" and perm: "perm < 4096"
    and mem: "present s d (pdx va) \<or> xs \<noteq> []"
  shows "\<exists>t ys. page_insert d (Some pp) va perm s = Return 0 t \<and>
    vm_ok I D E ys t \<and> slot_effect I D d va (page2pa pp OR perm OR PTE_P) s t \<and>
    tlb_effect d va s t \<and> refs_effect (Some pp) d va xs s t"
proof -
  obtain u zs where u: "pgdir_walk d va True s = Return (Some (table u d (pdx va), ptx va)) u"
    "vm_ok I D E zs u" "present u d (pdx va)" "set zs \<subseteq> set xs" "tlb u = tlb s"
    "slot_effect I D d va (slot s (va_slot d va)) s u"
    "\<forall>q. q \<notin> set xs \<longrightarrow> pp_ref (pages u q) = pp_ref (pages s q)"
    using walk_create_spec [OF ok d mem] by auto
  have sl: "slot u (va_slot d va) = slot s (va_slot d va)"
    using u(6) d by (simp add: slot_effect_def va_slot_def)
  have same: "mapped d va u = mapped d va s" "mapped_page d va u = mapped_page d va s"
    by (simp_all add: mapped_def mapped_page_def sl)
  have use: "in_use d u = in_use d s" using u(6) by (intro in_use_cong) (simp_all add: slot_effect_def)
  have pu: "pp < npages u" "pp \<notin> set zs" "unat (pp_ref (pages u pp)) < 65535"
    using u pp by (auto simp: slot_effect_def)
  obtain t ys where t: "insert_tail d pp (table u d (pdx va), ptx va) va perm u = Return 0 t"
    "vm_ok I D E ys t" "slot_effect I D d va (page2pa pp OR perm OR PTE_P) u t"
    "tlb_effect d va u t" "refs_effect (Some pp) d va [] u t"
    using page_insert_tail [OF u(2) d u(3) pu perm] by auto
  have "page_insert d (Some pp) va perm s = Return 0 t"
    using t(1) by (simp add: page_insert_def u(1) insert_tail_def)
  moreover have "slot_effect I D d va (page2pa pp OR perm OR PTE_P) s t"
    using t(3) u(6) by (simp add: slot_effect_def)
  moreover have "tlb_effect d va s t" using t(4) u(5) by (simp add: tlb_effect_def same use)
  moreover have "refs_effect (Some pp) d va xs s t"
    using t(5) u(7) by (simp add: refs_effect_def same)
  ultimately show ?thesis using t(2) by blast
qed

end
