(* ===== verification/VmSafety.thy ===== *)
theory VmSafety
  imports VmInv
begin

text \<open>
  The page tables as a state machine: any sequence of page allocations, insertions and
  removals (\<open>vm_step\<close>) keeps the virtual memory invariant and the coherence of the TLB,
  so no page that a page table maps is ever on the free list. Together with the functional
  behaviour of \<^verbatim>\<open>page_insert\<close>, \<^verbatim>\<open>page_lookup\<close> and \<^verbatim>\<open>page_remove\<close>.
\<close>

section \<open>TLB coherence\<close>

text \<open>What the TLB caches for the directory in use is the present entry of its tables.\<close>

definition tlb_ok :: "nat set \<Rightarrow> nat \<Rightarrow> kstate \<Rightarrow> bool" where
  "tlb_ok I d s \<longleftrightarrow> (\<forall>va w. pdx va \<in> I \<longrightarrow> tlb s (PGNUM va) = Some w \<longrightarrow>
     w AND PTE_P \<noteq> 0 \<and> slot s (va_slot d va) = w)"

lemma va_slot_eq: "va_slot d a = va_slot d b \<longleftrightarrow> PGNUM a = PGNUM b"
  by (auto simp: va_slot_def PGNUM_eq_iff simp flip: word_unat_eq_iff)

lemma tlb_ok_effect:
  assumes "tlb_ok I c s" "c \<in> D" "d \<in> D" "pdx va \<in> I" "in_use c s"
    and "slot_effect I D d va v s t" "tlb_effect d va s t"
  shows "tlb_ok I c t"
  unfolding tlb_ok_def
proof (intro allI impI)
  fix a w assume a: "pdx a \<in> I" "tlb t (PGNUM a) = Some w"
  then have ts: "tlb s (PGNUM a) = Some w"
    using assms(7) by (auto simp: tlb_effect_def split: if_splits)
  then have w: "w AND PTE_P \<noteq> 0" "slot s (va_slot c a) = w"
    using assms(1) a(1) by (auto simp: tlb_ok_def)
  have "va_slot c a \<noteq> va_slot d va"
  proof
    assume eq: "va_slot c a = va_slot d va"
    then have cd: "c = d" by (simp add: va_slot_def)
    then have pg: "PGNUM a = PGNUM va" using eq va_slot_eq by blast
    have "mapped d va s" using w eq by (simp add: mapped_def)
    then have "tlb t (PGNUM a) = None" using assms(5,7) cd pg by (simp add: tlb_effect_def)
    with a(2) show False by simp
  qed
  moreover have "slot t (va_slot c a) = (if va_slot c a = va_slot d va then v else slot s (va_slot c a))"
    using assms(2,6) a(1) by (simp add: slot_effect_def va_slot_def)
  ultimately show "w AND PTE_P \<noteq> 0 \<and> slot t (va_slot c a) = w" using w by simp
qed

section \<open>Allocation\<close>

lemma vm_ok_alloc:
  assumes ok: "vm_ok I D E (x # xs) s" and t: "page_alloc fl s = Return r t"
  shows "r = Some x \<and> vm_ok I D E xs t \<and> tlb t = tlb s \<and> curenv t = curenv s \<and> envs t = envs s \<and>
    npages t = npages s \<and> (\<forall>d \<in> D. \<forall>i \<in> I. \<forall>k. slot t (d, i, k) = slot s (d, i, k))"
proof -
  note fl = vm_okD(2) [OF ok] and tb = vm_okD(5) [OF ok]
  have t': "r = Some x" "t = (if fl AND ALLOC_ZERO \<noteq> 0 then fill_frame x 0 (page_unlink s) else page_unlink s)"
    using t page_alloc_Cons [OF fl vm_okD(1) [OF ok], of fl] by auto
  have out: "pmem t f = pmem s f" if "f \<noteq> x" for f using that t'(2) by simp
  have dx: "d \<noteq> x" if "d \<in> D" for d using tables_okD(2) [OF tb that] by auto
  have pt: "present t d i = present s d i" "table t d i = table s d i" if "d \<in> D" for d i
    using out [OF dx [OF that]] by (simp_all add: present_def table_def)
  have sl: "slot t (d, i, k) = slot s (d, i, k)" if "d \<in> D" "i \<in> I" for d i k
    using tables_okD(5) [OF tb that] pt [OF that(1)] out [of "table s d i"] by (auto simp: slot_def)
  have eq: "npages t = npages s" "tlb t = tlb s" "curenv t = curenv s" "envs t = envs s"
    "pp_ref (pages t q) = pp_ref (pages s q)" for q
    using t'(2) fl free_list_head [OF fl] by (auto simp: page_unlink_def curenv_def)
  have "maps I D t q = maps I D s q" for q by (rule maps_cong) (rule sl)
  moreover have "is_table I D t q = is_table I D s q" for q using pt by (auto simp: is_table_def)
  ultimately have "refs_ok I D E t" using vm_okD(6) [OF ok] by (simp add: refs_ok_def eq)
  moreover have "tables_ok I D xs t" using tb pt unfolding tables_ok_def by (simp add: eq)
  moreover have "free_list t xs" using page_unlink_free_list [OF fl] t'(2) by simp
  moreover have "mem_ok t" using vm_okD(1) [OF ok] eq by (simp add: mem_ok_def)
  ultimately have "vm_ok I D E xs t" using ok by (simp add: vm_ok_def)
  with t'(1) sl eq show ?thesis by blast
qed

lemma page_insert_no_table:
  assumes ok: "vm_ok I D E [] s" and d: "d \<in> D" "pdx va \<in> I" "\<not> present s d (pdx va)"
  shows "page_insert d pp va perm s = Return (- E_NO_MEM) s"
  using walk_no_memory [OF _ vm_okD(1) [OF ok] d(3) vm_okD(2) [OF ok]]
    tables_okD(3) [OF vm_okD(5) [OF ok] d(1,2)] by (simp add: page_insert_def)

section \<open>The state machine\<close>

definition free_page :: "kstate \<Rightarrow> nat \<Rightarrow> bool" where
  "free_page s q \<longleftrightarrow> (\<exists>xs. free_list s xs \<and> q \<in> set xs)"

text \<open>
  The directory \<open>c\<close> is the one the processor has loaded: it may cache any present entry
  of it at any time.
\<close>

inductive vm_step :: "nat set \<Rightarrow> nat set \<Rightarrow> nat \<Rightarrow> kstate \<Rightarrow> kstate \<Rightarrow> bool" for I D c where
  alloc: "page_alloc fl s = Return r t \<Longrightarrow> vm_step I D c s t"
| fill: "mapped c va s \<Longrightarrow> vm_step I D c s (s\<lparr>tlb := (tlb s)(PGNUM va \<mapsto> slot s (va_slot c va))\<rparr>)"
| insert: "d \<in> D \<Longrightarrow> pdx va \<in> I \<Longrightarrow> perm < 4096 \<Longrightarrow> pp < npages s \<Longrightarrow> \<not> free_page s pp \<Longrightarrow>
    unat (pp_ref (pages s pp)) < 65535 \<Longrightarrow> page_insert d (Some pp) va perm s = Return r t \<Longrightarrow>
    vm_step I D c s t"
| remove: "d \<in> D \<Longrightarrow> pdx va \<in> I \<Longrightarrow> page_remove d va s = Return () t \<Longrightarrow> vm_step I D c s t"

lemma free_page_iff: "free_list s xs \<Longrightarrow> free_page s q \<longleftrightarrow> q \<in> set xs"
  using free_list_unique by (auto simp: free_page_def)

lemma vm_step_ok:
  assumes "vm_step I D c s t" "vm_ok I D E xs s" "c \<in> D" "in_use c s" "tlb_ok I c s"
  shows "\<exists>ys. vm_ok I D E ys t \<and> in_use c t \<and> tlb_ok I c t"
  using assms
proof (cases rule: vm_step.cases)
  case (alloc fl r)
  show ?thesis
  proof (cases xs)
    case Nil
    then have "t = s" using alloc page_alloc_empty vm_okD(2) [OF assms(2)] by simp
    then show ?thesis using assms by blast
  next
    case (Cons x zs)
    then have a: "vm_ok I D E zs t" "tlb t = tlb s" "curenv t = curenv s" "envs t = envs s"
        "\<forall>d \<in> D. \<forall>i \<in> I. \<forall>k. slot t (d, i, k) = slot s (d, i, k)"
      using vm_ok_alloc [OF assms(2) [unfolded Cons] alloc] by auto
    moreover have "tlb_ok I c t" using assms(3,5) a(2,5) by (simp add: tlb_ok_def va_slot_def)
    moreover have "in_use c t" using in_use_cong [OF a(3,4)] assms(4) by simp
    ultimately show ?thesis by blast
  qed
next
  case (fill va)
  have sl: "slot t x = slot s x" for x by (rule slot_cong) (simp add: fill)
  have "vm_ok I D E xs t" by (rule vm_ok_cong [OF assms(2)]) (simp_all add: fill)
  moreover have "in_use c t = in_use c s" by (rule in_use_cong) (simp_all add: fill curenv_def)
  moreover have "tlb_ok I c t"
    using assms(5) fill(2) unfolding tlb_ok_def sl by (auto simp: fill(1) mapped_def simp flip: va_slot_eq [of c])
  ultimately show ?thesis using assms(4) by blast
next
  case (insert d va perm pp r)
  have pp: "pp \<notin> set xs" using insert(5) free_page_iff [OF vm_okD(2) [OF assms(2)]] by simp
  show ?thesis
  proof (cases "present s d (pdx va) \<or> xs \<noteq> []")
    case True
    have "\<exists>u ys. page_insert d (Some pp) va perm s = Return 0 u \<and>
      vm_ok I D E ys u \<and> slot_effect I D d va (page2pa pp OR perm OR PTE_P) s u \<and> tlb_effect d va s u"
      using page_insert_spec [OF assms(2) insert(1,2,4) pp insert(6,3) True] by blast
    then obtain ys where t: "vm_ok I D E ys t" "slot_effect I D d va (page2pa pp OR perm OR PTE_P) s t"
        "tlb_effect d va s t"
      using insert(7) by auto
    then have "in_use c t = in_use c s" by (intro in_use_cong) (simp_all add: slot_effect_def)
    then show ?thesis
      using tlb_ok_effect [OF assms(5,3) insert(1,2) assms(4) t(2,3)] assms(4) t(1) by auto
  next
    case False
    then have "t = s" using page_insert_no_table [of I D E s d va "Some pp" perm] assms(2) insert by simp
    then show ?thesis using assms by blast
  qed
next
  case (remove d va)
  obtain ys where t: "vm_ok I D E ys t" "tlb_effect d va s t"
      "slot_effect I D d va (if mapped d va s then 0 else slot s (va_slot d va)) s t"
    using page_remove_spec [OF assms(2) remove(1,2)] remove(3) by auto
  then have "in_use c t = in_use c s" by (intro in_use_cong) (simp_all add: slot_effect_def)
  then show ?thesis
    using tlb_ok_effect [OF assms(5,3) remove(1,2) assms(4) t(3,2)] assms(4) t(1) by auto
qed

lemma vm_steps_ok:
  assumes "(vm_step I D c)\<^sup>*\<^sup>* s t" "vm_ok I D E xs s" "c \<in> D" "in_use c s" "tlb_ok I c s"
  shows "\<exists>ys. vm_ok I D E ys t \<and> in_use c t \<and> tlb_ok I c t"
  using assms(1)
proof (induction rule: rtranclp_induct)
  case base
  then show ?case using assms by blast
next
  case (step u v)
  then show ?case using vm_step_ok assms(3) by blast
qed

section \<open>An example\<close>

text \<open>The machine of three free pages with page 5 as an empty page directory.\<close>

definition one_dir :: kstate where
  "one_dir = three_pages\<lparr>pages := (pages three_pages)(5 := \<lparr>pp_link = None, pp_ref = 1\<rparr>)\<rparr>"

lemma one_dir_ok: "vm_ok {..<955} {5} (\<lambda>_. 0) [3, 2, 1] one_dir"
proof -
  have ab: "\<not> present one_dir d i" for d i
    by (simp add: present_def one_dir_def three_pages_def bss_state_def)
  have sl: "slot one_dir x = 0" for x using ab by (cases x) (simp add: slot_def)
  have "maps {..<955} {5} one_dir q = {}" for q by (auto simp: maps_def sl)
  then have "refs_ok {..<955} {5} (\<lambda>_. 0) one_dir"
    using ab by (auto simp: refs_ok_def is_table_def) (auto simp: one_dir_def three_pages_def zero_page_def)
  moreover have "tables_ok {..<955} {5} [3, 2, 1] one_dir"
    using ab by (auto simp: tables_ok_def one_dir_def table_def three_pages_def bss_state_def PGNUM_def)
  moreover have "free_list one_dir [3, 2, 1]"
    by (auto simp: free_list_def pglist.on_list_def one_dir_def three_pages_def zero_page_def bss_state_def)
  moreover have "mem_ok one_dir" by (simp add: mem_ok_def one_dir_def three_pages_def)
  ultimately show ?thesis by (simp add: vm_ok_def)
qed

section \<open>Properties\<close>

lemma page_lookup_mapped:
  assumes ok: "vm_ok I D E xs s" and d: "d \<in> D" "pdx va \<in> I" and m: "mapped d va s"
  shows "\<exists>p. page_lookup d va s = Return (Some (mapped_page d va s), Some p) s \<and>
             load_pte p s = slot s (va_slot d va)"
proof -
  have pr: "present s d (pdx va)"
    using m by (auto simp: mapped_def va_slot_def slot_def split: if_splits)
  then show ?thesis
    using m by (simp add: page_lookup_spec [OF ok d] mapped_def mapped_page_def load_slot va_slot_def)
qed

text \<open>
  C3. \<open>page_insert\<close> with memory for the table succeeds. Afterwards looking the address up
  finds the page with the permissions asked for, every other slot of every directory is
  unchanged, the page gains one reference and the page mapped there before loses one (the
  same page may be inserted again), the TLB entry of a replaced mapping is dropped, and the
  invariant holds.
\<close>

theorem page_insert_correct:
  assumes ok: "vm_ok I D E xs s" and d: "d \<in> D" "pdx va \<in> I"
    and pp: "pp < npages s" "pp \<notin> set xs" "unat (pp_ref (pages s pp)) < 65535" and perm: "perm < 4096"
    and mem: "present s d (pdx va) \<or> xs \<noteq> []"
  shows "\<exists>t ys p. page_insert d (Some pp) va perm s = Return 0 t \<and> vm_ok I D E ys t \<and>
    page_lookup d va t = Return (Some pp, Some p) t \<and> load_pte p t = (page2pa pp OR perm OR PTE_P) \<and>
    slot_effect I D d va (page2pa pp OR perm OR PTE_P) s t \<and>
    refs_effect (Some pp) d va xs s t \<and> tlb_effect d va s t"
proof -
  obtain t ys where t: "page_insert d (Some pp) va perm s = Return 0 t" "vm_ok I D E ys t"
    "slot_effect I D d va (page2pa pp OR perm OR PTE_P) s t" "tlb_effect d va s t"
    "refs_effect (Some pp) d va xs s t"
    using page_insert_spec [OF assms] by blast
  have sl: "slot t (va_slot d va) = page2pa pp OR perm OR PTE_P"
    using t(3) d by (simp add: slot_effect_def va_slot_def)
  have pp20: "pp < 2 ^ 20" using pp(1) vm_okD(1) [OF ok] by (simp add: mem_ok_def)
  have "mapped d va t" "mapped_page d va t = pp"
    using new_entry [OF pp20 perm] by (simp_all add: mapped_def mapped_page_def sl PTE_P_def)
  then show ?thesis using page_lookup_mapped [OF t(2) d] t sl by auto
qed

theorem page_insert_correct_witness:
  "\<exists>t ys p. page_insert 5 (Some 4) 0x800000 PTE_W one_dir = Return 0 t \<and>
    vm_ok {..<955} {5} (\<lambda>_. 0) ys t \<and>
    page_lookup 5 0x800000 t = Return (Some 4, Some p) t \<and>
    load_pte p t = (page2pa 4 OR PTE_W OR PTE_P) \<and>
    slot_effect {..<955} {5} 5 0x800000 (page2pa 4 OR PTE_W OR PTE_P) one_dir t \<and>
    refs_effect (Some 4) 5 0x800000 [3, 2, 1] one_dir t \<and> tlb_effect 5 0x800000 one_dir t"
  by (rule page_insert_correct [OF one_dir_ok])
     (simp_all add: one_dir_def three_pages_def zero_page_def bss_state_def PDX_def layout_defs)

text \<open>
  C22. \<open>page_remove\<close> never fails: afterwards nothing is mapped at the address, no other slot
  has changed, the page that was mapped there has one reference less (and is free when that
  was the last), and the TLB entry is dropped if the directory is in use.
\<close>

theorem page_remove_correct:
  assumes ok: "vm_ok I D E xs s" and d: "d \<in> D" "pdx va \<in> I"
  shows "\<exists>t ys. page_remove d va s = Return () t \<and> vm_ok I D E ys t \<and> \<not> mapped d va t \<and>
    (\<exists>p. page_lookup d va t = Return (None, p) t) \<and>
    slot_effect I D d va (if mapped d va s then 0 else slot s (va_slot d va)) s t \<and>
    refs_effect None d va [] s t \<and> tlb_effect d va s t"
proof -
  obtain t ys where t: "page_remove d va s = Return () t" "vm_ok I D E ys t"
    "slot_effect I D d va (if mapped d va s then 0 else slot s (va_slot d va)) s t"
    "tlb_effect d va s t" "refs_effect None d va [] s t"
    using page_remove_spec [OF assms] by blast
  have "slot t (va_slot d va) = (if mapped d va s then 0 else slot s (va_slot d va))"
    using t(3) d by (simp add: slot_effect_def va_slot_def)
  then have "\<not> mapped d va t" by (auto simp: mapped_def split: if_splits)
  moreover from this have "\<exists>p. page_lookup d va t = Return (None, p) t"
    by (simp add: page_lookup_spec [OF t(2) d] mapped_def)
  ultimately show ?thesis using t by blast
qed

theorem page_remove_correct_witness:
  "\<exists>t ys. page_remove 5 0x800000 one_dir = Return () t \<and> vm_ok {..<955} {5} (\<lambda>_. 0) ys t \<and>
    \<not> mapped 5 0x800000 t"
  using page_remove_correct [OF one_dir_ok, of 5 "0x800000"] by (auto simp: PDX_def layout_defs)

text \<open>
  When the table of the address does not exist and no page is free, \<open>page_insert\<close>
  returns \<open>-E_NO_MEM\<close> and changes nothing.
\<close>

lemma page_insert_no_memory:
  assumes "vm_ok I D E [] s" "d \<in> D" "pdx va \<in> I" "\<not> present s d (pdx va)"
  shows "page_insert d pp va perm s = Return (- E_NO_MEM) s"
  using assms by (rule page_insert_no_table)

lemma page_insert_no_memory_witness:
  "\<exists>s. vm_ok {..<955} {5} (\<lambda>_. 0) [] s \<and>
       page_insert 5 (Some 4) 0x800000 PTE_W s = Return (- E_NO_MEM) s"
proof -
  have step: "\<exists>t. vm_ok {..<955} {5} (\<lambda>_. 0) xs t \<and> pmem t = pmem s"
    if "vm_ok {..<955} {5} (\<lambda>_. 0) (x # xs) s" for x xs s
    using vm_ok_alloc [OF that, of 0] page_alloc_Cons [OF vm_okD(2,1) [OF that], of 0] by auto
  obtain t where t: "vm_ok {..<955} {5} (\<lambda>_. 0) [2, 1] t" "pmem t = pmem one_dir"
    using step [OF one_dir_ok] by blast
  obtain u where u: "vm_ok {..<955} {5} (\<lambda>_. 0) [1] u" "pmem u = pmem one_dir"
    using step [OF t(1)] t(2) by auto
  obtain v where v: "vm_ok {..<955} {5} (\<lambda>_. 0) [] v" "pmem v = pmem one_dir"
    using step [OF u(1)] u(2) by auto
  have "\<not> present v 5 i" for i
    by (simp add: present_def v(2) one_dir_def three_pages_def bss_state_def)
  moreover have "pdx 0x800000 \<in> {..<955}" by (simp add: PDX_def PDXSHIFT_def)
  ultimately show ?thesis using v(1) page_insert_no_memory [OF v(1), of 5 "0x800000"] by blast
qed

text \<open>
  C2. Safety of the page tables: after any sequence of allocations, insertions (of pages
  that are not free, with counts below the 16-bit limit) and removals, a page that is mapped
  at any user address of any directory is not on the free list and has a positive
  reference count, every count is exactly the number of entries that map the page, plus one
  if it is a table or directory, plus the references held outside, and whatever the TLB caches for the directory in use is the present entry
  its tables hold, although the processor caches entries at any moment in between.
\<close>

theorem mapped_page_not_free:
  assumes "(vm_step I D c)\<^sup>*\<^sup>* s t" "vm_ok I D E xs s" "c \<in> D" "in_use c s" "tlb_ok I c s"
  shows "(\<forall>d \<in> D. \<forall>va. pdx va \<in> I \<longrightarrow> mapped d va t \<longrightarrow>
            \<not> free_page t (mapped_page d va t) \<and> 0 < pp_ref (pages t (mapped_page d va t))) \<and>
         (\<forall>q. unat (pp_ref (pages t q)) = card (maps I D t q) + (if is_table I D t q then 1 else 0) + E q) \<and>
         tlb_ok I c t"
proof -
  obtain ys where t: "vm_ok I D E ys t" "tlb_ok I c t" using vm_steps_ok [OF assms] by blast
  have "\<not> free_page t (mapped_page d va t) \<and> pp_ref (pages t (mapped_page d va t)) \<noteq> 0"
    if "d \<in> D" "pdx va \<in> I" "mapped d va t" for d va
  proof -
    have "va_slot d va \<in> maps I D t (mapped_page d va t)"
      using that PTX_bound [of va] by (simp add: maps_def va_slot_def mapped_def mapped_page_def)
    then show ?thesis
      using unreferenced(1) [OF vm_okD(6,3,4) [OF t(1)]] free_page_unused(1) [OF t(1)]
        free_page_iff [OF vm_okD(2) [OF t(1)]] by blast
  qed
  moreover have "unat (pp_ref (pages t q)) = card (maps I D t q) + (if is_table I D t q then 1 else 0) + E q" for q
    using vm_okD(6) [OF t(1)] by (simp add: refs_ok_def)
  ultimately show ?thesis using t(2) by (simp add: word_gt_0)
qed

theorem mapped_page_not_free_witness:
  "\<exists>t. (vm_step {..<955} {5} 5)\<^sup>*\<^sup>* one_dir t \<and> mapped 5 0x800000 t \<and>
       \<not> free_page t (mapped_page 5 0x800000 t)"
proof -
  have c: "pdx 0x800000 \<in> {..<955}" "in_use 5 one_dir" "tlb_ok {..<955} 5 one_dir"
    by (simp_all add: PDX_def PDXSHIFT_def in_use_def tlb_ok_def one_dir_def three_pages_def bss_state_def
        curenv_def zero_cpu_def)
  have nf: "\<not> free_page one_dir 4"
    using free_page_iff [OF vm_okD(2) [OF one_dir_ok]] by simp
  have lim: "4 < npages one_dir" "unat (pp_ref (pages one_dir 4)) < 65535" "PTE_W < 4096"
    by (simp_all add: one_dir_def three_pages_def zero_page_def bss_state_def layout_defs)
  obtain t where t: "page_insert 5 (Some 4) 0x800000 PTE_W one_dir = Return 0 t"
      "slot_effect {..<955} {5} 5 0x800000 (page2pa 4 OR PTE_W OR PTE_P) one_dir t"
    using page_insert_spec [OF one_dir_ok _ c(1) lim(1) _ lim(2,3)] by auto
  then have "vm_step {..<955} {5} 5 one_dir t"
    using vm_step.insert [OF _ c(1) lim(3,1) nf lim(2) t(1)] by blast
  then have st: "(vm_step {..<955} {5} 5)\<^sup>*\<^sup>* one_dir t" by blast
  have "slot t (va_slot 5 0x800000) = page2pa 4 OR PTE_W OR PTE_P"
    using t(2) c(1) by (simp add: slot_effect_def va_slot_def)
  then have "mapped 5 0x800000 t" using new_entry(1) [OF _ lim(3), of 4] by (simp add: mapped_def PTE_P_def)
  then show ?thesis
    using mapped_page_not_free [OF st one_dir_ok _ c(2,3)] c(1) st by blast
qed

end
