(* ===== verification/Spinlock.thy ===== *)
theory Spinlock
  imports KState
begin

text \<open>
  The spin locks of \<^verbatim>\<open>kern/spinlock.c\<close> (built with \<open>DEBUG_SPINLOCK\<close>) and the big kernel
  lock of \<^verbatim>\<open>kern/spinlock.h\<close>. The operations are given twice: as routines on the kernel
  state, for the components that call them with the CPU they run on, and as a step relation
  in which any number of CPUs interleave the steps of \<open>spin_lock\<close> and
  \<open>spin_unlock\<close>. Mutual exclusion is proved of the interleaved form.
\<close>

section \<open>Operations\<close>

text \<open>
  \<open>get_caller_pcs\<close> follows the saved frame pointers: \<open>stk a\<close> is the word at address
  \<open>a\<close> of the kernel stack, and \<open>n\<close> counts the entries still to fill.
\<close>

primrec get_caller_pcs :: "nat \<Rightarrow> (u32 \<Rightarrow> u32) \<Rightarrow> u32 \<Rightarrow> u32 list" where
  "get_caller_pcs 0 stk ebp = []"
| "get_caller_pcs (Suc n) stk ebp =
     (if ebp = 0 \<or> ebp < ULIM then replicate (Suc n) 0
      else stk (ebp + 4) # get_caller_pcs n stk (stk ebp))"

definition holding :: "nat \<Rightarrow> spinlock \<Rightarrow> bool" where
  "holding c lk \<longleftrightarrow> locked lk \<noteq> 0 \<and> lk_cpu lk = Some c"

definition spin_initlock :: "string \<Rightarrow> spinlock \<Rightarrow> spinlock" where
  "spin_initlock name lk = lk\<lparr>locked := 0, lk_name := name, lk_cpu := None\<rparr>"

text \<open>
  One CPU alone: if the lock is taken and nobody else runs, the loop around \<open>xchg\<close> never
  ends. Releasing a lock that is not held prints the holder's \<open>cpu_id\<close> before it panics,
  through a NULL pointer when there is no holder.
\<close>

definition spin_lock :: "nat \<Rightarrow> (u32 \<Rightarrow> u32) \<Rightarrow> u32 \<Rightarrow> spinlock \<Rightarrow> (spinlock, unit) outcome" where
  "spin_lock c stk ebp lk =
     (if holding c lk then Panic ''cannot acquire: already holding''
      else if locked lk \<noteq> 0 then Diverge
      else Return () (lk\<lparr>locked := 1, lk_cpu := Some c, pcs := get_caller_pcs 10 stk ebp\<rparr>))"

definition spin_unlock :: "nat \<Rightarrow> spinlock \<Rightarrow> (spinlock, unit) outcome" where
  "spin_unlock c lk =
     (if \<not> holding c lk
      then (case lk_cpu lk of None \<Rightarrow> Fault ''spin_unlock: NULL lk->cpu'' | Some _ \<Rightarrow> Panic ''spin_unlock'')
      else Return () (lk\<lparr>pcs := (pcs lk)[0 := 0], lk_cpu := None, locked := 0\<rparr>))"

text \<open>The big kernel lock.\<close>

fun on_lock :: "(spinlock, unit) outcome \<Rightarrow> kstate \<Rightarrow> unit kres" where
  "on_lock (Return _ lk) s = Return () (s\<lparr>kernel_lock := lk\<rparr>)"
| "on_lock (Panic m) s = Panic m"
| "on_lock (Leave l lk) s = Leave l (s\<lparr>kernel_lock := lk\<rparr>)"
| "on_lock (Fault m) s = Fault m"
| "on_lock Diverge s = Diverge"

definition lock_kernel :: "(u32 \<Rightarrow> u32) \<Rightarrow> u32 \<Rightarrow> kstate \<Rightarrow> unit kres" where
  "lock_kernel stk ebp s = on_lock (spin_lock (this_cpu s) stk ebp (kernel_lock s)) s"

definition unlock_kernel :: "kstate \<Rightarrow> unit kres" where
  "unlock_kernel s = on_lock (spin_unlock (this_cpu s) (kernel_lock s)) s"

definition has_lock :: "kstate \<Rightarrow> bool" where
  "has_lock s \<longleftrightarrow> holding (this_cpu s) (kernel_lock s)"

definition drop_lock :: "kstate \<Rightarrow> kstate" where
  "drop_lock s = s\<lparr>kernel_lock := (kernel_lock s)
     \<lparr>pcs := (pcs (kernel_lock s))[0 := 0], lk_cpu := None, locked := 0\<rparr>\<rparr>"

lemma unlock_kernel_held: "has_lock s \<Longrightarrow> unlock_kernel s = Return () (drop_lock s)"
  by (simp add: unlock_kernel_def spin_unlock_def has_lock_def drop_lock_def)

lemma drop_lock_simps [simp]:
  "pages (drop_lock s) = pages s" "page_free_list (drop_lock s) = page_free_list s"
  "npages (drop_lock s) = npages s" "pmem (drop_lock s) = pmem s" "tlb (drop_lock s) = tlb s"
  "envs (drop_lock s) = envs s" "env_free_list (drop_lock s) = env_free_list s"
  "cpus (drop_lock s) = cpus s" "this_cpu (drop_lock s) = this_cpu s"
  "kern_pgdir (drop_lock s) = kern_pgdir s" "cr3 (drop_lock s) = cr3 s"
  "curenv (drop_lock s) = curenv s" "locked (kernel_lock (drop_lock s)) = 0"
  by (simp_all add: drop_lock_def curenv_def)

lemma length_get_caller_pcs: "length (get_caller_pcs n stk ebp) = n"
  by (induction n arbitrary: ebp) simp_all

section \<open>Several CPUs\<close>

text \<open>
  Where a CPU is in the code: outside; past the \<open>holding\<close> check and spinning on \<open>xchg\<close>;
  with the lock but not yet recorded in \<open>lk->cpu\<close>; in the critical section; past the
  \<open>holding\<close> check of \<open>spin_unlock\<close>; with \<open>lk->cpu\<close> cleared and the last \<open>xchg\<close>
  still to do; or stopped in a panic. The two reads of \<open>holding\<close> (\<open>locked\<close> and \<open>cpu\<close>) are taken together as one
  step, and so are the stores to \<open>cpu\<close> and \<open>pcs\<close>; every \<open>xchg\<close> is a step of its own, as it is on the processor.
\<close>

datatype lock_pc = Outside | Spinning | Acquired | Critical | Checked | Cleared | Panicked

record lock_sys =
  the_lock :: spinlock
  lpc :: "nat \<Rightarrow> lock_pc"

definition goto :: "nat \<Rightarrow> lock_pc \<Rightarrow> (spinlock \<Rightarrow> spinlock) \<Rightarrow> lock_sys \<Rightarrow> lock_sys" where
  "goto c p f x = x\<lparr>the_lock := f (the_lock x), lpc := (lpc x)(c := p)\<rparr>"

inductive lock_step :: "lock_sys \<Rightarrow> lock_sys \<Rightarrow> bool" where
  enter: "lpc x c = Outside \<Longrightarrow> \<not> holding c (the_lock x) \<Longrightarrow> lock_step x (goto c Spinning id x)"
| enter_panic: "lpc x c = Outside \<Longrightarrow> holding c (the_lock x) \<Longrightarrow> lock_step x (goto c Panicked id x)"
| xchg_busy: "lpc x c = Spinning \<Longrightarrow> locked (the_lock x) \<noteq> 0 \<Longrightarrow>
    lock_step x (goto c Spinning (locked_update (\<lambda>_. 1)) x)"
| xchg_taken: "lpc x c = Spinning \<Longrightarrow> locked (the_lock x) = 0 \<Longrightarrow>
    lock_step x (goto c Acquired (locked_update (\<lambda>_. 1)) x)"
| record_cpu: "lpc x c = Acquired \<Longrightarrow>
    lock_step x (goto c Critical (\<lambda>lk. lk\<lparr>lk_cpu := Some c, pcs := get_caller_pcs 10 stk ebp\<rparr>) x)"
| leave: "lpc x c = Critical \<Longrightarrow> holding c (the_lock x) \<Longrightarrow> lock_step x (goto c Checked id x)"
| leave_panic: "lpc x c = Critical \<Longrightarrow> \<not> holding c (the_lock x) \<Longrightarrow> lock_step x (goto c Panicked id x)"
| clear_cpu: "lpc x c = Checked \<Longrightarrow>
    lock_step x (goto c Cleared (\<lambda>lk. lk\<lparr>pcs := (pcs lk)[0 := 0], lk_cpu := None\<rparr>) x)"
| release: "lpc x c = Cleared \<Longrightarrow> lock_step x (goto c Outside (locked_update (\<lambda>_. 0)) x)"

text \<open>The CPUs between the successful \<open>xchg\<close> and the releasing one.\<close>

definition owns :: "lock_sys \<Rightarrow> nat \<Rightarrow> bool" where
  "owns x c \<longleftrightarrow> lpc x c \<in> {Acquired, Critical, Checked, Cleared}"

definition lock_inv :: "lock_sys \<Rightarrow> bool" where
  "lock_inv x \<longleftrightarrow>
     (\<forall>c d. owns x c \<longrightarrow> owns x d \<longrightarrow> c = d) \<and>
     (locked (the_lock x) \<noteq> 0 \<longleftrightarrow> (\<exists>c. owns x c)) \<and>
     (\<forall>c. lk_cpu (the_lock x) = Some c \<longleftrightarrow> lpc x c \<in> {Critical, Checked}) \<and>
     (\<forall>c. lpc x c \<noteq> Panicked)"

definition lock_init :: "string \<Rightarrow> lock_sys" where
  "lock_init name = \<lparr>the_lock = spin_initlock name \<lparr>locked = 0, lk_name = [], lk_cpu = None, pcs = replicate 10 0\<rparr>,
     lpc = (\<lambda>_. Outside)\<rparr>"

lemma lock_inv_init: "lock_inv (lock_init name)"
  by (simp add: lock_inv_def lock_init_def owns_def spin_initlock_def)

lemma goto_simps [simp]:
  "lpc (goto c p f x) d = (if d = c then p else lpc x d)"
  "the_lock (goto c p f x) = f (the_lock x)"
  by (simp_all add: goto_def)

lemma owns_goto: "owns (goto c p f x) d \<longleftrightarrow>
    (if d = c then p \<in> {Acquired, Critical, Checked, Cleared} else owns x d)"
  by (simp add: owns_def)

lemma lock_invI:
  assumes "\<And>c. owns x c \<longleftrightarrow> h = Some c" "locked (the_lock x) \<noteq> 0 \<longleftrightarrow> h \<noteq> None"
    and "\<And>c. lk_cpu (the_lock x) = Some c \<longleftrightarrow> lpc x c \<in> {Critical, Checked}" "\<And>c. lpc x c \<noteq> Panicked"
  shows "lock_inv x"
  using assms unfolding lock_inv_def by auto

lemma lock_inv_owner:
  assumes "lock_inv x"
  shows "\<exists>h. (\<forall>c. owns x c \<longleftrightarrow> h = Some c) \<and> (locked (the_lock x) \<noteq> 0 \<longleftrightarrow> h \<noteq> None)"
proof (cases "\<exists>c. owns x c")
  case True
  then obtain c where "owns x c" by blast
  with assms show ?thesis by (intro exI [of _ "Some c"]) (auto simp: lock_inv_def)
next
  case False
  with assms show ?thesis by (intro exI [of _ None]) (auto simp: lock_inv_def)
qed

lemma lock_step_inv:
  assumes "lock_step x y" "lock_inv x"
  shows "lock_inv y"
proof -
  from assms(2) obtain h where h: "\<And>c. owns x c \<longleftrightarrow> h = Some c" "locked (the_lock x) \<noteq> 0 \<longleftrightarrow> h \<noteq> None"
    using lock_inv_owner by blast
  have h': "lk_cpu (the_lock x) = Some c \<longleftrightarrow> lpc x c \<in> {Critical, Checked}" "lpc x c \<noteq> Panicked" for c
    using assms(2) unfolding lock_inv_def by blast+
  note h = h h'
  have own: "h = Some c" if "lpc x c \<in> {Acquired, Critical, Checked, Cleared}" for c
    using h(1) [of c] that by (simp add: owns_def)
  have cpu: "lk_cpu (the_lock x) = Some c \<Longrightarrow> h = Some c" for c using h(3) [of c] own by blast
  have out: "lpc x d \<notin> {Critical, Checked}" if "h = Some c" "lpc x c \<notin> {Critical, Checked}" for c d
    using own [of d] that by auto
  from assms(1) show ?thesis
  proof (cases rule: lock_step.cases)
    case (enter c)
    then have "h \<noteq> Some c" using h(1) [of c] by (simp add: owns_def)
    then show ?thesis using h enter by (intro lock_invI [where h = h]) (auto simp: owns_goto)
  next
    case (enter_panic c)
    then show ?thesis using h(3) [of c] by (simp add: holding_def)
  next
    case (xchg_busy c)
    then have "h \<noteq> Some c" using h(1) [of c] by (simp add: owns_def)
    then show ?thesis using h xchg_busy by (intro lock_invI [where h = h]) (auto simp: owns_goto)
  next
    case (xchg_taken c)
    then have "h = None" using h(2) by simp
    then show ?thesis
      using h(3,4) own cpu xchg_taken by (intro lock_invI [where h = "Some c"]) (auto simp: owns_goto h(1))
  next
    case (record_cpu c stk ebp)
    then have "h = Some c" using own by simp
    then show ?thesis
      using h(2,4) own out [of c] record_cpu by (intro lock_invI [where h = h]) (auto simp: owns_goto h(1))
  next
    case (leave c)
    then show ?thesis using h own [of c] by (intro lock_invI [where h = h]) (auto simp: owns_goto)
  next
    case (leave_panic c)
    then have "locked (the_lock x) \<noteq> 0" "lk_cpu (the_lock x) = Some c" using own [of c] h(2,3) by auto
    then show ?thesis using leave_panic by (simp add: holding_def)
  next
    case (clear_cpu c)
    then have "h = Some c" using own by simp
    then show ?thesis
      using h(2,4) own clear_cpu by (intro lock_invI [where h = h]) (auto simp: owns_goto h(1))
  next
    case (release c)
    then have "h = Some c" "lk_cpu (the_lock x) \<noteq> Some d" for d using own [of c] cpu [of d] h(3) [of c] by auto
    then show ?thesis
      using h(4) own release by (intro lock_invI [where h = None]) (auto simp: owns_goto h(1))
  qed
qed

interpretation locks: kept_by_steps lock_step lock_inv
  by unfold_locales (rule lock_step_inv)

text \<open>
  C17. Mutual exclusion of the spin lock: starting from an initialised lock, in every
  interleaving of any number of CPUs at most one is between the \<open>xchg\<close> that takes the lock
  and the one that releases it, the debugging checks of \<open>spin_lock\<close> and \<open>spin_unlock\<close>
  never panic, and \<open>locked\<close> is 0 exactly when no CPU owns the lock.
\<close>

theorem spinlock_mutual_exclusion:
  assumes "lock_step\<^sup>*\<^sup>* (lock_init name) x"
  shows "(owns x c \<and> owns x d \<longrightarrow> c = d) \<and> lpc x c \<noteq> Panicked \<and>
         (locked (the_lock x) = 0 \<longleftrightarrow> (\<forall>c. \<not> owns x c))"
  using locks.run [OF assms lock_inv_init] by (auto simp: lock_inv_def)

theorem spinlock_mutual_exclusion_witness:
  "\<exists>x. lock_step\<^sup>*\<^sup>* (lock_init ''kernel_lock'') x \<and> owns x 0 \<and> lpc x 1 = Spinning \<and> \<not> owns x 1"
proof -
  let ?a = "goto 0 Spinning id (lock_init ''kernel_lock'')"
  let ?b = "goto 0 Acquired (locked_update (\<lambda>_. 1)) ?a"
  let ?x = "goto 1 Spinning id ?b"
  have "lock_step (lock_init ''kernel_lock'') ?a"
    by (rule lock_step.enter) (simp_all add: lock_init_def holding_def spin_initlock_def)
  moreover have "lock_step ?a ?b"
    by (rule lock_step.xchg_taken) (simp_all add: lock_init_def spin_initlock_def)
  moreover have "lock_step ?b ?x"
    by (rule lock_step.enter) (simp_all add: lock_init_def holding_def spin_initlock_def)
  ultimately have st: "lock_step\<^sup>*\<^sup>* (lock_init ''kernel_lock'') ?x"
    by (meson rtranclp.rtrancl_into_rtrancl rtranclp.rtrancl_refl)
  have "owns ?x 0" "lpc ?x 1 = Spinning" by (simp_all add: owns_def)
  then show ?thesis using spinlock_mutual_exclusion [OF st, of 0 1] st by auto
qed

end
