(* ===== verification/Sched.thy ===== *)
theory Sched
  imports PageAlloc Spinlock
begin

text \<open>
  Dispatching: \<open>env_run\<close> and \<open>env_pop_tf\<close> of \<^verbatim>\<open>kern/env.c\<close> and the round-robin scheduler
  of \<^verbatim>\<open>kern/sched.c\<close>. None of these routines returns to its caller: they leave the kernel
  with \<open>Leave (RunEnv e)\<close> or \<open>Leave HaltCpu\<close>, stay in the monitor, or panic. The
  lemmas say which environment is chosen, that the choice is fair, and that no two CPUs ever
  run the same environment.
\<close>

section \<open>Operations\<close>

text \<open>The kernel virtual address of a page directory; NULL for none.\<close>

definition pgdir_kva :: "nat option \<Rightarrow> u32" where
  "pgdir_kva d = (case d of None \<Rightarrow> 0 | Some f \<Rightarrow> page2pa f + KERNBASE)"

definition env_pop_tf :: "nat \<Rightarrow> kstate \<Rightarrow> unit kres" where
  "env_pop_tf e s = Leave (RunEnv e) (upd_env e (\<lambda>x. x\<lparr>env_cpunum := this_cpu s\<rparr>) s)"

definition preempt :: "kstate \<Rightarrow> kstate" where
  "preempt s =
     (case curenv s of
        Some c \<Rightarrow> if env_status (envs s c) = ENV_RUNNING
                  then upd_env c (\<lambda>x. x\<lparr>env_status := ENV_RUNNABLE\<rparr>) s else s
      | None \<Rightarrow> s)"

definition env_run :: "nat \<Rightarrow> kstate \<Rightarrow> unit kres" where
  "env_run e s =
     (let s = preempt s in
      obind (assert_that (env_status (envs s e) = ENV_RUNNABLE)
               ''assertion failed: e->env_status == ENV_RUNNABLE'' s) (\<lambda>_ s.
      let s = set_curenv (Some e) s;
          s = upd_env e (\<lambda>x. x\<lparr>env_status := ENV_RUNNING, env_runs := env_runs x + 1\<rparr>) s in
      obind (PADDR (pgdir_kva (env_pgdir (envs s e))) s) (\<lambda>pa s.
      obind (unlock_kernel (lcr3 pa s)) (\<lambda>_ s. env_pop_tf e s))))"

definition active :: "EnvStatus \<Rightarrow> bool" where
  "active st \<longleftrightarrow> st = ENV_RUNNABLE \<or> st = ENV_RUNNING \<or> st = ENV_DYING"

definition sched_halt :: "kstate \<Rightarrow> unit kres" where
  "sched_halt s =
     (if list_all (\<lambda>i. \<not> active (env_status (envs s i))) [0..<NENV] then Leave MonitorForever s
      else let s = set_curenv None s in
           obind (PADDR (pgdir_kva (Some (kern_pgdir s))) s) (\<lambda>pa s.
           obind (unlock_kernel (set_cpu_status CPU_HALTED (lcr3 pa s))) (\<lambda>_ s. Leave HaltCpu s)))"

text \<open>The index the loop of \<open>sched_yield\<close> looks at in iteration \<open>i\<close> (from 1).\<close>

definition sched_idx :: "nat option \<Rightarrow> nat \<Rightarrow> nat" where
  "sched_idx cur i = nat (((case cur of None \<Rightarrow> -1 | Some c \<Rightarrow> int c) + int i) mod int NENV)"

definition sched_yield :: "kstate \<Rightarrow> unit kres" where
  "sched_yield s =
     (case find (\<lambda>idx. env_status (envs s idx) = ENV_RUNNABLE) (map (sched_idx (curenv s)) [1..<NENV + 1]) of
        Some idx \<Rightarrow> env_run idx s
      | None \<Rightarrow>
          (case curenv s of
             Some c \<Rightarrow> if env_status (envs s c) = ENV_RUNNING then env_run c s else sched_halt s
           | None \<Rightarrow> sched_halt s))"

section \<open>Dispatching\<close>

text \<open>What \<open>env_run\<close> leaves behind.\<close>

definition dispatched :: "nat \<Rightarrow> kstate \<Rightarrow> kstate" where
  "dispatched e s =
     upd_env e (\<lambda>x. x\<lparr>env_cpunum := this_cpu s\<rparr>)
       (drop_lock (lcr3 (page2pa (the (env_pgdir (envs s e))))
         (upd_env e (\<lambda>x. x\<lparr>env_status := ENV_RUNNING, env_runs := env_runs x + 1\<rparr>)
           (set_curenv (Some e) (preempt s)))))"

text \<open>A page directory within the 256 MB the kernel can address at \<open>KERNBASE\<close>.\<close>

definition dir_ok :: "nat option \<Rightarrow> bool" where
  "dir_ok d \<longleftrightarrow> (\<exists>f. d = Some f \<and> f < 2 ^ 16)"

lemma PADDR_pgdir: "f < 2 ^ 16 \<Longrightarrow> PADDR (pgdir_kva (Some f)) s = Return (page2pa f) s"
proof -
  assume f: "f < 2 ^ 16"
  then have u: "unat (page2pa f) = f * 4096" by (simp add: unat_page2pa)
  have "unat (page2pa f + KERNBASE) = f * 4096 + 0xF0000000"
    using f by (simp add: unat_word_ariths u KERNBASE_def)
  then have "\<not> page2pa f + KERNBASE < KERNBASE"
    using f by (simp add: word_less_nat_alt KERNBASE_def)
  then show ?thesis by (simp add: PADDR_def pgdir_kva_def)
qed

lemma preempt_simps [simp]:
  "pages (preempt s) = pages s" "page_free_list (preempt s) = page_free_list s"
  "npages (preempt s) = npages s" "pmem (preempt s) = pmem s" "tlb (preempt s) = tlb s"
  "env_free_list (preempt s) = env_free_list s" "cpus (preempt s) = cpus s"
  "this_cpu (preempt s) = this_cpu s" "kern_pgdir (preempt s) = kern_pgdir s"
  "cr3 (preempt s) = cr3 s" "curenv (preempt s) = curenv s" "kernel_lock (preempt s) = kernel_lock s"
  "env_pgdir (envs (preempt s) x) = env_pgdir (envs s x)"
  "env_link (envs (preempt s) x) = env_link (envs s x)"
  by (simp_all add: preempt_def split: option.splits)

lemma preempt_status:
  "env_status (envs (preempt s) x) =
     (if curenv s = Some x \<and> env_status (envs s x) = ENV_RUNNING then ENV_RUNNABLE else env_status (envs s x))"
  by (auto simp: preempt_def split: option.splits)

lemma env_run_ok:
  assumes "has_lock s" "dir_ok (env_pgdir (envs s e))"
    and "env_status (envs s e) = ENV_RUNNABLE \<or> curenv s = Some e \<and> env_status (envs s e) = ENV_RUNNING"
  shows "env_run e s = Leave (RunEnv e) (dispatched e s)"
proof -
  obtain f where f: "env_pgdir (envs s e) = Some f" "f < 2 ^ 16"
    using assms(2) by (auto simp: dir_ok_def)
  have "env_status (envs (preempt s) e) = ENV_RUNNABLE" using assms(3) by (auto simp: preempt_status)
  moreover have "has_lock (lcr3 pa (upd_env e g (set_curenv (Some e) (preempt s))))" for pa g
    using assms(1) by (simp add: has_lock_def)
  ultimately show ?thesis
    by (simp add: env_run_def PADDR_pgdir [OF f(2)] f(1) unlock_kernel_held env_pop_tf_def dispatched_def)
qed

lemma dispatched_simps:
  "curenv (dispatched e s) = Some e"
  "cr3 (dispatched e s) = page2pa (the (env_pgdir (envs s e)))"
  "locked (kernel_lock (dispatched e s)) = 0"
  "env_status (envs (dispatched e s) x) = (if x = e then ENV_RUNNING else env_status (envs (preempt s) x))"
  "cpus (dispatched e s) = (cpus s)(this_cpu s := (cpus s (this_cpu s))\<lparr>cpu_env := Some e\<rparr>)"
  "this_cpu (dispatched e s) = this_cpu s"
  "env_pgdir (envs (dispatched e s) x) = env_pgdir (envs s x)"
  by (simp_all add: dispatched_def)

section \<open>The choice\<close>

lemma find_first:
  "find P (map f [1..<n + 1]) = Some x \<longleftrightarrow> (\<exists>i < n. x = f (Suc i) \<and> P x \<and> (\<forall>j < i. \<not> P (f (Suc j))))"
  by (auto simp: find_Some_iff simp del: upt_Suc)

lemma find_none: "find P (map f [1..<n + 1]) = None \<longleftrightarrow> (\<forall>i < n. \<not> P (f (Suc i)))"
  by (auto simp: find_None_iff simp del: upt_Suc) (metis Suc_le_eq Suc_pred less_Suc_eq_le)

text \<open>The loop looks at every environment once: index \<open>k\<close> in iteration \<open>dist cur k\<close>.\<close>

definition start :: "nat option \<Rightarrow> nat" where
  "start cur = (case cur of None \<Rightarrow> 0 | Some c \<Rightarrow> Suc c)"

definition dist :: "nat option \<Rightarrow> nat \<Rightarrow> nat" where
  "dist cur k = (k + NENV - start cur) mod NENV"

definition cur_ok :: "nat option \<Rightarrow> bool" where
  "cur_ok cur \<longleftrightarrow> (\<forall>c. cur = Some c \<longrightarrow> c < NENV)"

lemma sched_idx_start: "sched_idx cur (Suc i) = (start cur + i) mod NENV"
proof (cases cur)
  case None
  then show ?thesis by (simp add: sched_idx_def start_def nat_mod_distrib)
next
  case (Some c)
  have "int c + int (Suc i) = int (Suc c + i)" by simp
  then show ?thesis using Some by (simp only: sched_idx_def start_def option.case nat_mod_distrib nat_int zmod_int [symmetric])
qed

lemma start_le: "cur_ok cur \<Longrightarrow> start cur \<le> NENV"
  by (auto simp: cur_ok_def start_def split: option.splits)

lemma sched_idx_dist:
  assumes "cur_ok cur" "k < NENV"
  shows "dist cur k < NENV" "sched_idx cur (Suc (dist cur k)) = k"
proof -
  show "dist cur k < NENV" by (simp add: dist_def NENV_eq)
  have "(start cur + (k + NENV - start cur) mod NENV) mod NENV = (start cur + (k + NENV - start cur)) mod NENV"
    by (rule mod_add_right_eq)
  also have "start cur + (k + NENV - start cur) = k + NENV" using start_le [OF assms(1)] by simp
  finally show "sched_idx cur (Suc (dist cur k)) = k" using assms(2) by (simp add: sched_idx_start dist_def)
qed

lemma dist_sched_idx:
  assumes "cur_ok cur" "i < NENV"
  shows "dist cur (sched_idx cur (Suc i)) = i"
proof -
  have "dist cur (sched_idx cur (Suc i)) = ((start cur + i) mod NENV + (NENV - start cur)) mod NENV"
    using start_le [OF assms(1)] by (simp add: dist_def sched_idx_start)
  also have "\<dots> = (start cur + i + (NENV - start cur)) mod NENV" by (rule mod_add_left_eq)
  also have "start cur + i + (NENV - start cur) = i + NENV" using start_le [OF assms(1)] by simp
  finally show ?thesis using assms(2) by simp
qed

lemma sched_idx_bound: "sched_idx cur (Suc i) < NENV"
  by (simp add: sched_idx_start NENV_eq)

text \<open>The runnable environment closest after the current one, if any is runnable.\<close>

definition chosen :: "kstate \<Rightarrow> nat \<Rightarrow> bool" where
  "chosen s e \<longleftrightarrow> e < NENV \<and> env_status (envs s e) = ENV_RUNNABLE \<and>
     (\<forall>k < NENV. env_status (envs s k) = ENV_RUNNABLE \<longrightarrow> dist (curenv s) e \<le> dist (curenv s) k)"

lemma sched_find_Some:
  assumes "cur_ok (curenv s)"
  shows "find (\<lambda>idx. env_status (envs s idx) = ENV_RUNNABLE) (map (sched_idx (curenv s)) [1..<NENV + 1]) = Some e
    \<longleftrightarrow> chosen s e"
  unfolding find_first
proof
  assume "\<exists>i<NENV. e = sched_idx (curenv s) (Suc i) \<and> env_status (envs s e) = ENV_RUNNABLE \<and>
    (\<forall>j<i. env_status (envs s (sched_idx (curenv s) (Suc j))) \<noteq> ENV_RUNNABLE)"
  then obtain i where i: "i < NENV" "e = sched_idx (curenv s) (Suc i)" "env_status (envs s e) = ENV_RUNNABLE"
    and min: "\<And>j. j < i \<Longrightarrow> env_status (envs s (sched_idx (curenv s) (Suc j))) \<noteq> ENV_RUNNABLE" by blast
  have "i \<le> dist (curenv s) k" if "k < NENV" "env_status (envs s k) = ENV_RUNNABLE" for k
    using min [of "dist (curenv s) k"] sched_idx_dist [OF assms that(1)] that(2) by (metis not_le)
  then show "chosen s e"
    using i dist_sched_idx [OF assms i(1)] sched_idx_bound by (simp add: chosen_def)
next
  assume c: "chosen s e"
  then have e: "dist (curenv s) e < NENV" "sched_idx (curenv s) (Suc (dist (curenv s) e)) = e"
    using sched_idx_dist [OF assms] by (auto simp: chosen_def)
  have "env_status (envs s (sched_idx (curenv s) (Suc j))) \<noteq> ENV_RUNNABLE" if "j < dist (curenv s) e" for j
    using c that e(1) dist_sched_idx [OF assms, of j] sched_idx_bound by (auto simp: chosen_def) (metis not_le)
  then show "\<exists>i<NENV. e = sched_idx (curenv s) (Suc i) \<and> env_status (envs s e) = ENV_RUNNABLE \<and>
    (\<forall>j<i. env_status (envs s (sched_idx (curenv s) (Suc j))) \<noteq> ENV_RUNNABLE)"
    using c e by (intro exI [of _ "dist (curenv s) e"]) (auto simp: chosen_def)
qed

lemma sched_find_None:
  assumes "cur_ok (curenv s)"
  shows "find (\<lambda>idx. env_status (envs s idx) = ENV_RUNNABLE) (map (sched_idx (curenv s)) [1..<NENV + 1]) = None
    \<longleftrightarrow> (\<forall>k < NENV. env_status (envs s k) \<noteq> ENV_RUNNABLE)"
  unfolding find_none using sched_idx_dist [OF assms] sched_idx_bound by metis

section \<open>Properties\<close>

text \<open>
  What the scheduler relies on: the CPU holds the kernel lock, and the page directories of
  the kernel and of the environments that may run are addressable.
\<close>

definition sched_ready :: "kstate \<Rightarrow> bool" where
  "sched_ready s \<longleftrightarrow> has_lock s \<and> cur_ok (curenv s) \<and> kern_pgdir s < 2 ^ 16 \<and>
     (\<forall>e < NENV. env_status (envs s e) \<in> {ENV_RUNNABLE, ENV_RUNNING} \<longrightarrow> dir_ok (env_pgdir (envs s e)))"

definition halted :: "kstate \<Rightarrow> kstate" where
  "halted s = drop_lock (set_cpu_status CPU_HALTED (lcr3 (page2pa (kern_pgdir s)) (set_curenv None s)))"

lemma sched_halt_ok:
  assumes "has_lock s" "kern_pgdir s < 2 ^ 16"
  shows "sched_halt s = (if \<exists>k < NENV. active (env_status (envs s k)) then Leave HaltCpu (halted s)
                         else Leave MonitorForever s)"
proof -
  have "has_lock (set_cpu_status CPU_HALTED (lcr3 pa (set_curenv None s)))" for pa
    using assms(1) by (simp add: has_lock_def set_cpu_status_def)
  then show ?thesis
    using PADDR_pgdir [OF assms(2)]
    by (auto simp: sched_halt_def Let_def unlock_kernel_held halted_def list_all_iff)
qed

lemma chosen_exists:
  assumes "cur_ok (curenv s)" "k < NENV" "env_status (envs s k) = ENV_RUNNABLE"
  shows "\<exists>e. chosen s e"
  using sched_find_Some [OF assms(1)] sched_find_None [OF assms(1)] assms(2,3)
  by (metis not_Some_eq)

lemma sched_yield_runnable:
  assumes "sched_ready s" "chosen s e"
  shows "sched_yield s = Leave (RunEnv e) (dispatched e s)"
proof -
  have "sched_yield s = env_run e s"
    using sched_find_Some [of s e] assms by (simp add: sched_yield_def sched_ready_def)
  then show ?thesis using env_run_ok [of s e] assms by (simp add: sched_ready_def chosen_def)
qed

lemma sched_yield_idle:
  assumes "sched_ready s" "\<forall>k < NENV. env_status (envs s k) \<noteq> ENV_RUNNABLE"
  shows "sched_yield s =
    (case curenv s of
       Some c \<Rightarrow> if env_status (envs s c) = ENV_RUNNING then Leave (RunEnv c) (dispatched c s) else sched_halt s
     | None \<Rightarrow> sched_halt s)"
proof -
  have none: "find (\<lambda>idx. env_status (envs s idx) = ENV_RUNNABLE) (map (sched_idx (curenv s)) [1..<NENV + 1]) = None"
    using sched_find_None [of s] assms by (simp add: sched_ready_def)
  have "env_run c s = Leave (RunEnv c) (dispatched c s)"
    if "curenv s = Some c" "env_status (envs s c) = ENV_RUNNING" for c
    using env_run_ok [of s c] that assms(1) by (simp add: sched_ready_def cur_ok_def)
  then show ?thesis unfolding sched_yield_def none by (auto split: option.splits)
qed

text \<open>
  C20. The scheduler's decision, complete: with a runnable environment it runs the one that
  follows the current one most closely in cyclic order; otherwise it goes on with the current
  environment if that is still running; otherwise it halts the CPU with the kernel's page
  directory loaded, no current environment and the lock released, or stays in the monitor
  when no environment is alive.
\<close>

theorem sched_yield_decision:
  assumes "sched_ready s"
  shows "sched_yield s =
    (if \<exists>k < NENV. env_status (envs s k) = ENV_RUNNABLE
     then let e = (case find (\<lambda>i. env_status (envs s i) = ENV_RUNNABLE)
                          (map (\<lambda>i. (start (curenv s) + i) mod NENV) [0..<NENV]) of Some e \<Rightarrow> e | None \<Rightarrow> 0)
          in Leave (RunEnv e) (dispatched e s)
     else if \<exists>c. curenv s = Some c \<and> env_status (envs s c) = ENV_RUNNING
     then Leave (RunEnv (the (curenv s))) (dispatched (the (curenv s)) s)
     else if \<exists>k < NENV. active (env_status (envs s k)) then Leave HaltCpu (halted s)
     else Leave MonitorForever s)"
proof (cases "\<exists>k < NENV. env_status (envs s k) = ENV_RUNNABLE")
  case True
  have cur: "cur_ok (curenv s)" using assms by (simp add: sched_ready_def)
  obtain e where e: "chosen s e" using chosen_exists [OF cur] True by blast
  have "map (\<lambda>i. (start (curenv s) + i) mod NENV) [0..<NENV] = map (sched_idx (curenv s)) [1..<NENV + 1]"
    by (rule nth_equalityI) (simp_all add: sched_idx_start del: upt_Suc)
  then have "find (\<lambda>i. env_status (envs s i) = ENV_RUNNABLE)
      (map (\<lambda>i. (start (curenv s) + i) mod NENV) [0..<NENV]) = Some e"
    using e sched_find_Some [OF cur] by simp
  then show ?thesis using True sched_yield_runnable [OF assms e] by simp
next
  case False
  have "has_lock s" "kern_pgdir s < 2 ^ 16" using assms by (simp_all add: sched_ready_def)
  note halt = sched_halt_ok [OF this]
  show ?thesis
    using False sched_yield_idle [OF assms] by (auto simp: halt split: option.splits)
qed

text \<open>A machine with two runnable environments on CPU 0.\<close>

definition two_envs :: kstate where
  "two_envs = bss_state\<lparr>
     kernel_lock := (kernel_lock bss_state)\<lparr>locked := 1, lk_cpu := Some 0\<rparr>,
     envs := (\<lambda>_. zero_env)(3 := zero_env\<lparr>env_status := ENV_RUNNABLE, env_pgdir := Some 5\<rparr>,
                            7 := zero_env\<lparr>env_status := ENV_RUNNABLE, env_pgdir := Some 6\<rparr>),
     cpus := (\<lambda>_. zero_cpu)(0 := zero_cpu\<lparr>cpu_env := Some 4\<rparr>)\<rparr>"

lemma two_envs_ready: "sched_ready two_envs"
  by (auto simp: sched_ready_def two_envs_def bss_state_def has_lock_def holding_def cur_ok_def
      curenv_def zero_cpu_def zero_env_def NENV_eq dir_ok_def)

lemma two_envs_cur: "curenv two_envs = Some 4"
  by (simp add: two_envs_def curenv_def bss_state_def)

lemma two_envs_chosen: "chosen two_envs 7"
proof -
  have "env_status (envs two_envs k) = ENV_RUNNABLE \<longleftrightarrow> k = 3 \<or> k = 7" for k
    by (simp add: two_envs_def zero_env_def)
  then show ?thesis by (auto simp: chosen_def two_envs_cur NENV_eq dist_def start_def)
qed

theorem sched_yield_decision_witness:
  "sched_yield two_envs = Leave (RunEnv 7) (dispatched 7 two_envs) \<and>
   (case sched_yield (two_envs\<lparr>envs := \<lambda>_. zero_env\<rparr>) of Leave MonitorForever _ \<Rightarrow> True | _ \<Rightarrow> False)"
proof
  have "find (\<lambda>i. env_status (envs two_envs i) = ENV_RUNNABLE)
      (map (\<lambda>i. (start (curenv two_envs) + i) mod NENV) [0..<NENV]) = Some 7"
    using two_envs_chosen
    by (auto simp: find_Some_iff two_envs_cur start_def NENV_eq chosen_def less_2_cases_iff intro!: exI [of _ 2])
       (auto simp: two_envs_def zero_env_def)
  moreover have "\<exists>k < NENV. env_status (envs two_envs k) = ENV_RUNNABLE"
    using two_envs_chosen by (auto simp: chosen_def)
  ultimately show "sched_yield two_envs = Leave (RunEnv 7) (dispatched 7 two_envs)"
    using sched_yield_decision [OF two_envs_ready] by simp
  let ?z = "two_envs\<lparr>envs := \<lambda>_. zero_env\<rparr>"
  have "sched_ready ?z"
    using two_envs_ready by (simp add: sched_ready_def has_lock_def curenv_def zero_env_def)
  from sched_yield_decision [OF this]
  show "case sched_yield ?z of Leave MonitorForever _ \<Rightarrow> True | _ \<Rightarrow> False"
    by (simp add: zero_env_def active_def)
qed






definition cpu_excl :: "nat set \<Rightarrow> kstate \<Rightarrow> bool" where
  "cpu_excl C s \<longleftrightarrow>
     (\<forall>c c' e. cpu_env (cpus s c) = Some e \<and> cpu_env (cpus s c') = Some e \<longrightarrow> c = c') \<and>
     (\<forall>c \<in> C. \<forall>e. cpu_env (cpus s c) = Some e \<longrightarrow> env_status (envs s e) \<notin> {ENV_RUNNABLE, ENV_FREE})"

lemma cpu_excl_dispatched:
  assumes "cpu_excl (- {this_cpu s}) s"
    and "env_status (envs s e) = ENV_RUNNABLE \<or> curenv s = Some e \<and> env_status (envs s e) = ENV_RUNNING"
  shows "cpu_excl UNIV (dispatched e s)"
proof -
  have other: "cpu_env (cpus s c) \<noteq> Some e" if "c \<noteq> this_cpu s" for c
    using assms that by (auto simp: cpu_excl_def curenv_def)
  have cur: "curenv s \<noteq> Some x" if "cpu_env (cpus s c) = Some x" "c \<noteq> this_cpu s" for c x
    using assms(1) that by (auto simp: cpu_excl_def curenv_def)
  show ?thesis
    using assms(1) other cur
    by (auto simp: cpu_excl_def dispatched_simps preempt_status split: if_splits)
qed

text \<open>
  C19. No environment runs on two CPUs. Suppose that different CPUs have different current
  environments and that no other CPU's environment is runnable or free. Then this still holds
  when the scheduler leaves the kernel, of all CPUs: the next CPU may enter.
\<close>

theorem sched_yield_exclusive:
  assumes "sched_ready s" "cpu_excl (- {this_cpu s}) s" "sched_yield s = Leave l t" "l \<noteq> MonitorForever"
  shows "cpu_excl UNIV t"
proof (cases "\<exists>k < NENV. env_status (envs s k) = ENV_RUNNABLE")
  case True
  then obtain e where e: "chosen s e"
    using chosen_exists [of s] assms(1) unfolding sched_ready_def by blast
  then have "t = dispatched e s" using sched_yield_runnable [OF assms(1) e] assms(3) by simp
  then show ?thesis using cpu_excl_dispatched [OF assms(2), of e] e by (simp add: chosen_def)
next
  case False
  have halt: "cpu_excl UNIV (halted s)"
    using assms(2) by (auto simp: cpu_excl_def halted_def set_cpu_status_def split: if_splits)
  have "has_lock s" "kern_pgdir s < 2 ^ 16" using assms(1) by (simp_all add: sched_ready_def)
  note h = sched_halt_ok [OF this]
  have "(\<exists>c. curenv s = Some c \<and> env_status (envs s c) = ENV_RUNNING \<and> t = dispatched c s) \<or> t = halted s"
    using sched_yield_idle [OF assms(1)] False assms(3,4)
    by (auto simp: h split: option.splits if_splits)
  then show ?thesis using halt cpu_excl_dispatched [OF assms(2)] by auto
qed

theorem sched_yield_exclusive_witness: "cpu_excl UNIV (dispatched 7 two_envs)"
proof (rule sched_yield_exclusive [OF two_envs_ready])
  show "cpu_excl (- {this_cpu two_envs}) two_envs"
    by (auto simp: cpu_excl_def two_envs_def bss_state_def zero_cpu_def split: if_splits)
  show "sched_yield two_envs = Leave (RunEnv 7) (dispatched 7 two_envs)"
    by (rule sched_yield_runnable [OF two_envs_ready two_envs_chosen])
qed simp

end
