(* ===== verification/EnvMgr.thy ===== *)
theory EnvMgr
  imports PageTable Sched
begin

text \<open>
  Environments, \<^verbatim>\<open>kern/env.c\<close>: looking an environment up by its id, the environment free
  list, building and freeing address spaces, loading a program, and destroying an
  environment; with \<open>user_mem_check\<close> and \<open>user_mem_assert\<close> of \<^verbatim>\<open>kern/pmap.c\<close>, which
  destroy the environments that pass bad pointers. Printing to the console is left out of
  these routines, and so are the segment register loads of \<open>env_init_percpu\<close>.
\<close>

section \<open>Environment ids and the free list\<close>

definition ENVX :: "envid_t \<Rightarrow> nat" where
  "ENVX envid = unat (envid AND (of_nat NENV - 1))"

definition ENVGENSHIFT :: nat where [layout_defs]: "ENVGENSHIFT = 12"

text \<open>The result and the environment stored in \<open>*env_store\<close>.\<close>

definition envid2env :: "envid_t \<Rightarrow> bool \<Rightarrow> kstate \<Rightarrow> (u32 \<times> nat option) kres" where
  "envid2env envid checkperm s =
     (if envid = 0 then Return (0, curenv s) s
      else let e = ENVX envid in
        if env_status (envs s e) = ENV_FREE \<or> env_id (envs s e) \<noteq> envid
        then Return (- E_BAD_ENV, None) s
        else if checkperm \<and> Some e \<noteq> curenv s
        then (case curenv s of None \<Rightarrow> Fault ''envid2env: NULL curenv''
              | Some c \<Rightarrow> if env_parent_id (envs s e) \<noteq> env_id (envs s c)
                          then Return (- E_BAD_ENV, None) s else Return (0, Some e) s)
        else Return (0, Some e) s)"

definition env_init :: "kstate \<Rightarrow> kstate" where
  "env_init s =
     (let s = fold (\<lambda>i. upd_env i (\<lambda>x. x\<lparr>env_status := ENV_FREE, env_id := 0, env_link := Some (i + 1)\<rparr>))
                [0..<NENV - 1] s;
          s = upd_env (NENV - 1) (\<lambda>x. x\<lparr>env_status := ENV_FREE, env_id := 0\<rparr>) s
      in s\<lparr>env_free_list := Some 0\<rparr>)"

section \<open>Creating an environment\<close>

definition VGA_PHYSADDR :: u32 where [layout_defs]: "VGA_PHYSADDR = 0xb8000"

definition env_setup_vm :: "nat \<Rightarrow> kstate \<Rightarrow> u32 kres" where
  "env_setup_vm e s =
     obind (page_alloc ALLOC_ZERO s) (\<lambda>p s.
       case p of None \<Rightarrow> Return (- E_NO_MEM) s
       | Some p \<Rightarrow>
           obind (page2kva p s) (\<lambda>kva s.
           let d = kva_frame kva;
               s = upd_env e (\<lambda>x. x\<lparr>env_pgdir := Some d\<rparr>) s;
               s = s\<lparr>pmem := (pmem s)(d := pmem s (kern_pgdir s))\<rparr>;
               s = upd_page p (\<lambda>q. q\<lparr>pp_ref := pp_ref q + 1\<rparr>) s in
           obind (PADDR kva s) (\<lambda>pa s.
           let s = store_pte (d, pdx UVPT) (pa OR PTE_P OR PTE_U) s in
           obind (pa2page VGA_PHYSADDR s) (\<lambda>page s.
           obind (page_insert d (Some page) VGA_USER (PTE_P OR PTE_U OR PTE_W OR PTE_MAPPED) s) (\<lambda>r s.
           obind (assert_that (r = 0) ''assertion failed: !page_insert'' s) (\<lambda>_ s.
           Return 0 s))))))"

text \<open>The id of the next environment in slot \<open>e\<close>, from the id of the last one there.\<close>

definition next_env_id :: "nat \<Rightarrow> envid_t \<Rightarrow> envid_t" where
  "next_env_id e old =
     (let generation = (old + push_bit ENVGENSHIFT 1) AND NOT (of_nat NENV - 1);
          generation = (if sint generation \<le> 0 then push_bit ENVGENSHIFT 1 else generation)
      in generation OR of_nat e)"

definition user_tf :: Trapframe where
  "user_tf = zero_tf\<lparr>tf_ds := GD_UD OR 3, tf_es := GD_UD OR 3, tf_ss := GD_UD OR 3,
     tf_esp := USTACKTOP, tf_cs := GD_UT OR 3, tf_eflags := tf_eflags zero_tf OR FL_IF\<rparr>"

definition fresh_env :: "nat \<Rightarrow> envid_t \<Rightarrow> Env \<Rightarrow> Env" where
  "fresh_env e parent_id x = x\<lparr>env_id := next_env_id e (env_id x), env_parent_id := parent_id,
     env_type := ENV_TYPE_USER, env_status := ENV_RUNNABLE, env_runs := 0, env_tf := user_tf,
     env_pgfault_upcall := 0, env_ipc_recving := False\<rparr>"

definition env_unlink :: "kstate \<Rightarrow> kstate" where
  "env_unlink s = (case env_free_list s of None \<Rightarrow> s | Some e \<Rightarrow> s\<lparr>env_free_list := env_link (envs s e)\<rparr>)"

text \<open>The result and the environment stored in \<open>*newenv_store\<close>.\<close>

definition env_alloc :: "envid_t \<Rightarrow> kstate \<Rightarrow> (u32 \<times> nat option) kres" where
  "env_alloc parent_id s =
     (case env_free_list s of None \<Rightarrow> Return (- E_NO_FREE_ENV, None) s
      | Some e \<Rightarrow>
          obind (env_setup_vm e s) (\<lambda>r s.
            if sint r < 0 then Return (r, None) s
            else Return (0, Some e) (env_unlink (upd_env e (fresh_env e parent_id) s))))"

section \<open>Loading a program\<close>

text \<open>
  The loop of \<open>region_alloc\<close> runs while \<open>va\<close> is below \<open>va_finish\<close>, both page aligned:
  \<open>n\<close> bounds its iterations, and running out of it would be the value \<open>Diverge\<close>.
\<close>

primrec region_pages :: "nat \<Rightarrow> nat option \<Rightarrow> u32 \<Rightarrow> u32 \<Rightarrow> kstate \<Rightarrow> u32 kres" where
  "region_pages 0 d va va_finish s = (if va < va_finish then Diverge else Return va s)"
| "region_pages (Suc n) d va va_finish s =
     (if va < va_finish then
        obind (page_alloc 0 s) (\<lambda>page s.
          case page of None \<Rightarrow> Panic ''Page Alloc Fail:region_alloc''
          | Some page \<Rightarrow>
              (case d of None \<Rightarrow> Fault ''region_alloc: NULL pgdir''
               | Some pgdir \<Rightarrow>
                   obind (page_insert pgdir (Some page) va (PTE_U OR PTE_W) s) (\<lambda>r s.
                     if r \<noteq> 0 then Panic ''Page Insert Fail: region_alloc''
                     else region_pages n d (va + PGSIZE) va_finish s)))
      else Return va s)"

definition region_alloc :: "nat \<Rightarrow> u32 \<Rightarrow> u32 \<Rightarrow> kstate \<Rightarrow> unit kres" where
  "region_alloc e va len s =
     (if len = 0 then Return () s
      else let va_finish = ROUNDUP (va + len) PGSIZE;
               va = ROUNDDOWN va PGSIZE
           in obind (region_pages (unat ((va_finish - va) div PGSIZE)) (env_pgdir (envs s e)) va va_finish s)
                (\<lambda>va s. assert_that (va = va_finish) ''assertion failed: va==va_finish'' s))"

text \<open>
  A store by the kernel through the page tables in \<open>cr3\<close>: the write protection bit of
  \<open>cr0\<close> is set, so the entry must be present and writable; otherwise the processor
  faults and the kernel panics in its page fault handler.
\<close>

definition set_byte :: "u32 \<Rightarrow> nat \<Rightarrow> u8 \<Rightarrow> u32" where
  "set_byte w k b = (w AND NOT (push_bit (8 * k) 0xFF)) OR push_bit (8 * k) (ucast b)"

definition store_byte :: "u32 \<Rightarrow> u8 \<Rightarrow> kstate \<Rightarrow> unit kres" where
  "store_byte va b s =
     (let pde = pmem s (unat (PGNUM (cr3 s))) (pdx va);
          pte = pmem s (unat (PGNUM pde)) (ptx va);
          f = unat (PGNUM pte); off = unat (PGOFF va) in
      if pde AND PTE_P = 0 \<or> pde AND PTE_W = 0 \<or> pte AND PTE_P = 0 \<or> pte AND PTE_W = 0
      then Panic ''page fault in kernel mode''
      else Return () (store_pte (f, off div 4) (set_byte (pmem s f (off div 4)) (off mod 4) b) s))"

definition copy_in :: "u32 \<Rightarrow> (u32 \<Rightarrow> u8) \<Rightarrow> u32 \<Rightarrow> u32 \<Rightarrow> kstate \<Rightarrow> unit kres" where
  "copy_in va src off n s =
     ofold (\<lambda>i. store_byte (va + of_nat i) (src (off + of_nat i))) [0..<unat n] s"

definition zero_in :: "u32 \<Rightarrow> u32 \<Rightarrow> kstate \<Rightarrow> unit kres" where
  "zero_in va n s = ofold (\<lambda>i. store_byte (va + of_nat i) 0) [0..<unat n] s"

text \<open>The ELF image is a sequence of bytes; the fields are read at their C offsets.\<close>

definition ELF_MAGIC :: u32 where "ELF_MAGIC = 0x464C457F"
definition ELF_PROG_LOAD :: u32 where "ELF_PROG_LOAD = 1"

record Elf =
  e_magic :: u32
  e_entry :: u32
  e_phoff :: u32
  e_phnum :: u16

record Proghdr =
  p_type :: u32
  p_offset :: u32
  p_va :: u32
  p_filesz :: u32
  p_memsz :: u32

definition elf_header :: "(u32 \<Rightarrow> u8) \<Rightarrow> Elf" where
  "elf_header b = \<lparr>e_magic = read32 b 0, e_entry = read32 b 24, e_phoff = read32 b 28, e_phnum = read16 b 44\<rparr>"

definition prog_header :: "(u32 \<Rightarrow> u8) \<Rightarrow> u32 \<Rightarrow> Proghdr" where
  "prog_header b a = \<lparr>p_type = read32 b a, p_offset = read32 b (a + 4), p_va = read32 b (a + 8),
     p_filesz = read32 b (a + 16), p_memsz = read32 b (a + 20)\<rparr>"

definition load_segment :: "nat \<Rightarrow> (u32 \<Rightarrow> u8) \<Rightarrow> Proghdr \<Rightarrow> kstate \<Rightarrow> unit kres" where
  "load_segment e binary ph s =
     (if p_type ph \<noteq> ELF_PROG_LOAD then Return () s
      else obind (region_alloc e (p_va ph) (p_memsz ph) s) (\<lambda>_ s.
           obind (copy_in (p_va ph) binary (p_offset ph) (p_filesz ph) s) (\<lambda>_ s.
           zero_in (p_va ph + p_filesz ph) (p_memsz ph - p_filesz ph) s)))"

definition load_icode :: "nat \<Rightarrow> (u32 \<Rightarrow> u8) \<Rightarrow> kstate \<Rightarrow> unit kres" where
  "load_icode e binary s =
     obind (PADDR (pgdir_kva (Some (kern_pgdir s))) s) (\<lambda>kpa s.
     obind (assert_that (cr3 s = kpa) ''assertion failed: rcr3()==PADDR(kern_pgdir)'' s) (\<lambda>_ s.
     obind (PADDR (pgdir_kva (env_pgdir (envs s e))) s) (\<lambda>epa s.
     let s = lcr3 epa s in
     obind (assert_that (cr3 s = epa) ''assertion failed: rcr3()==PADDR(e->env_pgdir)'' s) (\<lambda>_ s.
     let elf = elf_header binary in
     if e_magic elf \<noteq> ELF_MAGIC then Panic ''Invalid binary''
     else obind (ofold (\<lambda>n. load_segment e binary (prog_header binary (e_phoff elf + of_nat (32 * n))))
                   [0..<unat (e_phnum elf)] s) (\<lambda>_ s.
       let s = upd_env e (\<lambda>x. x\<lparr>env_tf := (env_tf x)\<lparr>tf_eip := e_entry elf\<rparr>\<rparr>) s in
       obind (region_alloc e (USTACKTOP - PGSIZE) PGSIZE s) (\<lambda>_ s.
       obind (PADDR (pgdir_kva (Some (kern_pgdir s))) s) (\<lambda>kpa s. Return () (lcr3 kpa s))))))))"

definition env_create :: "(u32 \<Rightarrow> u8) \<Rightarrow> EnvType \<Rightarrow> kstate \<Rightarrow> unit kres" where
  "env_create binary ty s =
     obind (env_alloc 0 s) (\<lambda>(err, e) s.
       if sint err < 0 then Panic ''env_create: %e''
       else case e of None \<Rightarrow> Fault ''env_create: uninitialized e''
            | Some e \<Rightarrow> obind (load_icode e binary s) (\<lambda>_ s.
                Return () (upd_env e (\<lambda>x. x\<lparr>env_type := ty\<rparr>) s)))"

section \<open>Freeing an environment\<close>

definition free_pte :: "nat \<Rightarrow> nat \<Rightarrow> nat \<Rightarrow> nat \<Rightarrow> kstate \<Rightarrow> unit kres" where
  "free_pte pgdir pt pdeno pteno s =
     (if pmem s pt pteno AND PTE_P \<noteq> 0
      then page_remove pgdir (PGADDR (of_nat pdeno) (of_nat pteno) 0) s else Return () s)"

definition free_table :: "nat \<Rightarrow> nat \<Rightarrow> kstate \<Rightarrow> unit kres" where
  "free_table pgdir pdeno s =
     (if pmem s pgdir pdeno AND PTE_P = 0 then Return () s
      else let pa = PTE_ADDR (pmem s pgdir pdeno) in
        obind (KADDR pa s) (\<lambda>kva s.
        let pt = kva_frame kva in
        obind (ofold (free_pte pgdir pt pdeno) [0..<unat (PTX (NOT 0)) + 1] s) (\<lambda>_ s.
        let s = store_pte (pgdir, pdeno) 0 s in
        obind (pa2page pa s) (\<lambda>pp s. page_decref pp s))))"

definition env_relink :: "nat \<Rightarrow> kstate \<Rightarrow> kstate" where
  "env_relink e s = (upd_env e (\<lambda>x. x\<lparr>env_link := env_free_list s\<rparr>) s)\<lparr>env_free_list := Some e\<rparr>"

definition env_free :: "nat \<Rightarrow> kstate \<Rightarrow> unit kres" where
  "env_free e s =
     obind (if curenv s = Some e
            then obind (PADDR (pgdir_kva (Some (kern_pgdir s))) s) (\<lambda>pa s. Return () (lcr3 pa s))
            else Return () s) (\<lambda>_ s.
     case env_pgdir (envs s e) of None \<Rightarrow> Fault ''env_free: NULL pgdir''
     | Some d \<Rightarrow>
         obind (ofold (free_table d) [0..<pdx UTOP] s) (\<lambda>_ s.
         obind (PADDR (pgdir_kva (env_pgdir (envs s e))) s) (\<lambda>pa s.
         let s = upd_env e (\<lambda>x. x\<lparr>env_pgdir := None\<rparr>) s in
         obind (pa2page pa s) (\<lambda>pp s.
         obind (page_decref pp s) (\<lambda>_ s.
         Return () (env_relink e (upd_env e (\<lambda>x. x\<lparr>env_status := ENV_FREE\<rparr>) s)))))))"

definition env_destroy :: "nat \<Rightarrow> kstate \<Rightarrow> unit kres" where
  "env_destroy e s =
     (if env_status (envs s e) = ENV_RUNNING \<and> curenv s \<noteq> Some e
      then Return () (upd_env e (\<lambda>x. x\<lparr>env_status := ENV_DYING\<rparr>) s)
      else obind (env_free e s) (\<lambda>_ s.
        if curenv s = Some e then sched_yield (set_curenv None s) else Return () s))"

section \<open>Checking user pointers\<close>

text \<open>
  The loop of \<open>user_mem_check\<close> advances byte by byte (the value of its \<open>ROUNDUP\<close> is not
  used): \<open>n\<close> is the number of bytes left.
\<close>

primrec user_mem_loop :: "nat \<Rightarrow> nat \<Rightarrow> u32 \<Rightarrow> u32 \<Rightarrow> kstate \<Rightarrow> u32 kres" where
  "user_mem_loop 0 d xva perm s = Return 0 s"
| "user_mem_loop (Suc n) d xva perm s =
     obind (page_lookup d xva s) (\<lambda>(page, pte) s.
       case (page, pte) of
         (Some _, Some p) \<Rightarrow>
           if load_pte p s AND perm \<noteq> perm then Return (- E_FAULT) (s\<lparr>user_mem_check_addr := xva\<rparr>)
           else user_mem_loop n d (xva + 1) perm s
       | _ \<Rightarrow> Return (- E_FAULT) (s\<lparr>user_mem_check_addr := xva\<rparr>))"

definition user_mem_check :: "nat \<Rightarrow> u32 \<Rightarrow> u32 \<Rightarrow> u32 \<Rightarrow> kstate \<Rightarrow> u32 kres" where
  "user_mem_check e va len perm s =
     (let lim_va = va + len in
      if ULIM \<le> va then Return (- E_FAULT) (s\<lparr>user_mem_check_addr := va\<rparr>)
      else if ULIM \<le> lim_va \<or> lim_va < va then Return (- E_FAULT) (s\<lparr>user_mem_check_addr := ULIM\<rparr>)
      else case env_pgdir (envs s e) of
             None \<Rightarrow> if va < lim_va then Fault ''user_mem_check: NULL pgdir'' else Return 0 s
           | Some d \<Rightarrow> user_mem_loop (unat (lim_va - va)) d va perm s)"

end
