(* ===== verification/EnvInv.thy ===== *)
theory EnvInv
  imports VmSafety EnvMgr
begin

text \<open>
  Address spaces over their life: building one (\<open>env_setup_vm\<close>, \<open>env_alloc\<close>) and
  freeing one (\<open>env_free\<close>) keep the virtual memory invariant and the exact reference
  counts, touch no other address space, and keep the environment free list. With the
  properties of environment ids and of the user pointer check.
\<close>

section \<open>Frame\<close>

text \<open>The page table routines change nothing of the environments, the CPUs and the lock.\<close>

definition vm_frame :: "kstate \<Rightarrow> kstate \<Rightarrow> bool" where
  "vm_frame s t \<longleftrightarrow> envs t = envs s \<and> env_free_list t = env_free_list s \<and> cpus t = cpus s \<and>
     this_cpu t = this_cpu s \<and> kernel_lock t = kernel_lock s \<and> kern_pgdir t = kern_pgdir s \<and>
     npages t = npages s \<and> cr3 t = cr3 s"

lemma vm_frame_refl [simp]: "vm_frame s s"
  by (simp add: vm_frame_def)

lemma vm_frame_trans: "vm_frame s t \<Longrightarrow> vm_frame t u \<Longrightarrow> vm_frame s u"
  by (simp add: vm_frame_def)

lemma vm_frame_curenv: "vm_frame s t \<Longrightarrow> curenv t = curenv s"
  by (simp add: vm_frame_def curenv_def)

lemma vm_frame_lock: "vm_frame s t \<Longrightarrow> has_lock t = has_lock s"
  by (simp add: vm_frame_def has_lock_def)

lemma holds_frame_trans: "vm_frame s t \<Longrightarrow> holds (vm_frame t) m \<Longrightarrow> holds (vm_frame s) m"
  by (cases m) (auto intro: vm_frame_trans)

lemma holds_frame_bind:
  assumes "holds (vm_frame s) m" and "\<And>a t. m = Return a t \<Longrightarrow> holds (vm_frame t) (f a t)"
  shows "holds (vm_frame s) (obind m f)"
proof (cases m)
  case (Return a t)
  then have "vm_frame s t" using assms(1) by simp
  moreover have "holds (vm_frame t) (f a t)" using assms(2) Return by simp
  ultimately have "holds (vm_frame s) (f a t)" by (rule holds_frame_trans)
  then show ?thesis using Return by simp
qed (use assms in simp_all)

lemma vm_frame_steps [simp]:
  "vm_frame s (upd_page p f s)" "vm_frame s (store_pte x v s)" "vm_frame s (fill_frame p v s)"
  "vm_frame s (page_unlink s)" "vm_frame s (page_relink p s)" "vm_frame s (tlb_invalidate d va s)"
  by (simp_all add: vm_frame_def page_unlink_def page_relink_def tlb_invalidate_def split: option.splits)

lemma frame_page_alloc: "holds (vm_frame s) (page_alloc fl s)"
  by (auto simp: page_alloc_def page2kva_def KADDR_def vm_frame_def page_unlink_def Let_def split: option.splits)

lemma frame_page_decref: "holds (vm_frame s) (page_decref p s)"
  by (simp add: page_decref_def page_free_def Let_def vm_frame_def page_relink_def)

lemma frame_pgdir_walk: "holds (vm_frame s) (pgdir_walk d va create s)"
  unfolding pgdir_walk_def Let_def KADDR_def
  by (auto intro!: holds_frame_bind frame_page_alloc split: option.splits simp: vm_frame_def)

lemma frame_page_lookup: "holds (vm_frame s) (page_lookup d va s)"
  unfolding page_lookup_def pa2page_def
  by (auto intro!: holds_frame_bind frame_pgdir_walk split: option.splits)

lemma frame_page_remove: "holds (vm_frame s) (page_remove d va s)"
  unfolding page_remove_def
  by (auto intro!: holds_frame_bind frame_page_lookup frame_page_decref split: option.splits)
     (auto simp: vm_frame_def tlb_invalidate_def split: option.splits)

lemma frame_page_insert: "holds (vm_frame s) (page_insert d pp va perm s)"
  unfolding page_insert_def Let_def
  by (intro holds_frame_bind frame_pgdir_walk)
     (auto intro!: holds_frame_bind holds_frame_trans [OF _ frame_page_remove] split: option.splits,
      simp add: vm_frame_def)

lemmas vm_frames = frame_page_alloc frame_page_decref frame_pgdir_walk frame_page_lookup
  frame_page_remove frame_page_insert

section \<open>Freeing a table and a directory\<close>

lemma refs_ok_shift:
  assumes refs: "refs_ok I D E s" and q: "is_table I D s q"
    and m: "\<And>p. maps I' D' t p = maps I D s p" "\<And>p. is_table I' D' t p = (is_table I D s p \<and> p \<noteq> q)"
    and eq: "pages t = pages s" "npages t = npages s"
  shows "refs_ok I' D' (E(q := E q + 1)) t"
proof -
  have "card (maps I D s p) + (if is_table I D s p then 1 else 0) + E p = unat (pp_ref (pages s p))" for p
    using refs by (simp add: refs_ok_def)
  from this [of q] this show ?thesis
    using refs q unfolding refs_ok_def m eq by auto
qed

text \<open>Detaching a table without mappings leaves its page with one reference to give up.\<close>

lemma vm_ok_detach_table:
  assumes ok: "vm_ok I D E xs s" and d: "d \<in> D" "i \<in> I" "present s d i"
    and empty: "\<And>k. k < 1024 \<Longrightarrow> slot s (d, i, k) AND PTE_P = 0"
  defines "q \<equiv> table s d i" and "t \<equiv> store_pte (d, i) 0 s"
  shows "vm_ok I D (E(q := E q + 1)) xs t"
    and "\<And>e j k. e \<in> D \<Longrightarrow> j \<in> I \<Longrightarrow> slot t (e, j, k) = (if (e, j) = (d, i) then 0 else slot s (e, j, k))"
    and "\<And>e j. e \<in> D \<Longrightarrow> j \<in> I \<Longrightarrow> present t e j = (present s e j \<and> (e, j) \<noteq> (d, i))"
proof -
  note tb = vm_okD(5) [OF ok]
  have dir: "present t e j = (present s e j \<and> (e, j) \<noteq> (d, i))"
      "(e, j) \<noteq> (d, i) \<Longrightarrow> table t e j = table s e j" for e j
    by (auto simp: t_def present_def table_def)
  have td: "table t d i = 0" by (simp add: t_def table_def PGNUM_def)
  have other: "pmem t (table s e j) k = pmem s (table s e j) k" if "e \<in> D" "j \<in> I" "present s e j" for e j k
    using tables_okD(4) [OF tb that] d(1) by (auto simp: t_def)
  show sl: "slot t (e, j, k) = (if (e, j) = (d, i) then 0 else slot s (e, j, k))" if "e \<in> D" "j \<in> I" for e j k
    using other [OF that] dir by (auto simp: slot_def)
  show "present t e j = (present s e j \<and> (e, j) \<noteq> (d, i))" for e j by (rule dir)
  have m: "maps I D t p = maps I D s p" for p
    using sl empty unfolding maps_def by (fastforce split: if_splits)
  have q: "q \<notin> D" "\<And>e j. e \<in> D \<Longrightarrow> j \<in> I \<Longrightarrow> present s e j \<Longrightarrow> table s e j = q \<Longrightarrow> (e, j) = (d, i)"
    using tables_okD(4) [OF tb d] tables_okD(6) [OF tb _ _ d(1,2) _ d(3)] by (auto simp: q_def)
  have it: "is_table I D t p = (is_table I D s p \<and> p \<noteq> q)" for p
  proof -
    have "(\<exists>e \<in> D. \<exists>j \<in> I. present t e j \<and> table t e j = p) \<longleftrightarrow>
        (\<exists>e \<in> D. \<exists>j \<in> I. present s e j \<and> table s e j = p) \<and> p \<noteq> q" (is "?A \<longleftrightarrow> ?B")
    proof
      assume ?A
      then obtain e j where ej: "e \<in> D" "j \<in> I" "present t e j" "table t e j = p" by blast
      then have "present s e j" "(e, j) \<noteq> (d, i)" "table s e j = p" using dir [of e j] by auto
      then show ?B using ej(1,2) q(2) [of e j] by blast
    next
      assume ?B
      then obtain e j where ej: "e \<in> D" "j \<in> I" "present s e j" "table s e j = p" "p \<noteq> q" by blast
      then have "(e, j) \<noteq> (d, i)" by (auto simp: q_def)
      then show ?A using ej dir [of e j] by blast
    qed
    then show ?thesis using q(1) by (auto simp: is_table_def)
  qed
  have isq: "is_table I D s q" using d by (auto simp: is_table_def q_def)
  have "refs_ok I D (E(q := E q + 1)) t"
    by (rule refs_ok_shift [OF vm_okD(6) [OF ok] isq m it]) (simp_all add: t_def)
  moreover have "tables_ok I D xs t"
  proof -
    have "table t e j < npages t" if "e \<in> D" "j \<in> I" for e j
      using tables_okD(1,3) [OF tb that(1)] that td dir(2) [of e j] by (cases "(e, j) = (d, i)") (auto simp: t_def)
    moreover have "npages t = npages s" by (simp add: t_def)
    ultimately show ?thesis using tb dir unfolding tables_ok_def by auto
  qed
  ultimately show "vm_ok I D (E(q := E q + 1)) xs t"
    using ok by (simp add: vm_ok_def mem_ok_def free_list_def pglist.on_list_def t_def)
qed

lemma vm_ok_detach_dir:
  assumes ok: "vm_ok I D E xs s" and d: "d \<in> D" and empty: "\<And>i. i \<in> I \<Longrightarrow> \<not> present s d i"
  shows "vm_ok I (D - {d}) (E(d := E d + 1)) xs s"
proof -
  note tb = vm_okD(5) [OF ok]
  have m: "maps I (D - {d}) s p = maps I D s p" for p
    using empty by (auto simp: maps_def slot_def split: if_splits)
  have it: "is_table I (D - {d}) s p = (is_table I D s p \<and> p \<noteq> d)" for p
    using tables_okD(4) [OF tb] d empty by (auto simp: is_table_def)
  have "is_table I D s d" using d by (simp add: is_table_def)
  then have "refs_ok I (D - {d}) (E(d := E d + 1)) s"
    by (rule refs_ok_shift [OF vm_okD(6) [OF ok] _ m it]) simp_all
  moreover have "tables_ok I (D - {d}) xs s" using tb unfolding tables_ok_def by blast
  ultimately show ?thesis using ok by (simp add: vm_ok_def)
qed

section \<open>Freeing an environment\<close>

text \<open>Only slots that satisfy \<open>W\<close>, and the directory entries above them, may change.\<close>

definition slots_kept :: "nat set \<Rightarrow> nat set \<Rightarrow> (slot \<Rightarrow> bool) \<Rightarrow> kstate \<Rightarrow> kstate \<Rightarrow> bool" where
  "slots_kept I D W s t \<longleftrightarrow>
     (\<forall>e \<in> D. \<forall>j \<in> I. \<forall>k. \<not> W (e, j, k) \<longrightarrow> slot t (e, j, k) = slot s (e, j, k)) \<and>
     (\<forall>e \<in> D. \<forall>j. (\<forall>k. \<not> W (e, j, k)) \<longrightarrow> pmem t e j = pmem s e j)"

lemma PGADDR_index:
  assumes "i < 1024" "k < 1024"
  shows "pdx (PGADDR (of_nat i) (of_nat k) 0) = i" "ptx (PGADDR (of_nat i) (of_nat k) 0) = k"
proof -
  have "(of_nat i :: u32) < 1024" "(of_nat k :: u32) < 1024"
    using assms by (simp_all add: word_less_nat_alt unat_of_nat)
  then show "pdx (PGADDR (of_nat i) (of_nat k) 0) = i" "ptx (PGADDR (of_nat i) (of_nat k) 0) = k"
    using assms by (simp_all add: PDX_PGADDR PTX_PGADDR unat_of_nat)
qed

lemma free_pte_spec:
  assumes ok: "vm_ok I D E xs s" and d: "d \<in> D" "i \<in> I" "present s d i" and k: "i < 1024" "k < 1024"
  shows "\<exists>t ys. free_pte d (table s d i) i k s = Return () t \<and> vm_ok I D E ys t \<and> vm_frame s t \<and>
    slots_kept I D (\<lambda>x. x = (d, i, k)) s t \<and> slot t (d, i, k) AND PTE_P = 0 \<and>
    present t d i \<and> table t d i = table s d i \<and> (\<forall>e \<in> D. \<forall>j \<in> I. present t e j = present s e j)"
proof -
  let ?va = "PGADDR (of_nat i) (of_nat k) 0"
  have vs: "va_slot d ?va = (d, i, k)" using PGADDR_index [OF k] by (simp add: va_slot_def)
  have ld: "pmem s (table s d i) k = slot s (d, i, k)" using d(3) by (simp add: slot_def)
  show ?thesis
  proof (cases "slot s (d, i, k) AND PTE_P = 0")
    case True
    then show ?thesis
      using ok d by (intro exI [of _ s] exI [of _ xs]) (simp add: free_pte_def ld slots_kept_def)
  next
    case False
    have i: "pdx ?va = i" by (rule PGADDR_index [OF k])
    have iI: "pdx ?va \<in> I" using d(2) i by simp
    obtain t ys where t: "page_remove d ?va s = Return () t" "vm_ok I D E ys t"
      "slot_effect I D d ?va 0 s t" "\<forall>e \<in> D. pmem t e = pmem s e"
      using page_remove_spec [OF ok d(1) iI] False by (auto simp: mapped_def vs)
    have "present t d i" "table t d i = table s d i" "\<forall>e \<in> D. \<forall>j \<in> I. present t e j = present s e j"
      using t(4) d by (simp_all add: present_def table_def)
    note dirs = t(4) and t = t(1-3) this
    have "vm_frame s t" using frame_page_remove [of s d ?va] t(1) by simp
    moreover have "slots_kept I D (\<lambda>x. x = (d, i, k)) s t" "slot t (d, i, k) = 0"
      using t(3) d dirs by (auto simp: slot_effect_def slots_kept_def vs)
    ultimately show ?thesis using t False by (auto simp: free_pte_def ld)
  qed
qed

lemma slots_kept_trans:
  assumes "slots_kept I D W s t" "slots_kept I D V t u" "\<And>x. W x \<Longrightarrow> X x" "\<And>x. V x \<Longrightarrow> X x"
  shows "slots_kept I D X s u"
  unfolding slots_kept_def
proof (intro conjI ballI allI impI)
  fix e j k assume "e \<in> D" "j \<in> I" "\<not> X (e, j, k)"
  moreover from this(3) have "\<not> W (e, j, k)" "\<not> V (e, j, k)" using assms(3,4) by blast+
  ultimately show "slot u (e, j, k) = slot s (e, j, k)" using assms(1,2) by (simp add: slots_kept_def)
next
  fix e j assume "e \<in> D" "\<forall>k. \<not> X (e, j, k)"
  moreover from this(2) have "\<forall>k. \<not> W (e, j, k)" "\<forall>k. \<not> V (e, j, k)" using assms(3,4) by blast+
  ultimately show "pmem u e j = pmem s e j" using assms(1,2) by (simp add: slots_kept_def)
qed

lemma free_ptes_spec:
  assumes ok: "vm_ok I D E xs s" and d: "d \<in> D" "i \<in> I" "present s d i" and i: "i < 1024"
  shows "\<exists>t ys. ofold (free_pte d (table s d i) i) [0..<1024] s = Return () t \<and> vm_ok I D E ys t \<and> vm_frame s t \<and>
    slots_kept I D (\<lambda>(e, j, k). (e, j) = (d, i)) s t \<and> (\<forall>k < 1024. slot t (d, i, k) AND PTE_P = 0) \<and>
    present t d i \<and> table t d i = table s d i \<and> (\<forall>e \<in> D. \<forall>j \<in> I. present t e j = present s e j)"
proof -
  let ?P = "\<lambda>n t. (\<exists>ys. vm_ok I D E ys t) \<and> vm_frame s t \<and> slots_kept I D (\<lambda>(e, j, k). (e, j) = (d, i)) s t \<and>
    (\<forall>k < n. slot t (d, i, k) AND PTE_P = 0) \<and> present t d i \<and> table t d i = table s d i \<and>
    (\<forall>e \<in> D. \<forall>j \<in> I. present t e j = present s e j)"
  have "\<exists>t. ofold (free_pte d (table s d i) i) [0..<1024] s = Return () t \<and> ?P (length [0..<1024]) t"
  proof (rule ofold_invariant)
    show "?P 0 s" using ok d by (auto simp: slots_kept_def)
  next
    fix k t assume "k < length [0..<1024]" and P: "?P k t"
    then have k: "k < 1024" by simp
    obtain ys where ys: "vm_ok I D E ys t" using P by blast
    have tb: "table t d i = table s d i" "present t d i" using P by auto
    obtain u zs where u: "free_pte d (table s d i) i k t = Return () u" "vm_ok I D E zs u" "vm_frame t u"
        "slots_kept I D (\<lambda>x. x = (d, i, k)) t u" "slot u (d, i, k) AND PTE_P = 0" "present u d i"
        "table u d i = table s d i" "\<forall>e \<in> D. \<forall>j \<in> I. present u e j = present t e j"
      using free_pte_spec [OF ys d(1,2) tb(2) i k] tb(1) by auto
    have "slots_kept I D (\<lambda>(e, j, k). (e, j) = (d, i)) s u"
      using P u(4) by (auto intro: slots_kept_trans)
    moreover have "slot u (d, i, l) AND PTE_P = 0" if "l < Suc k" for l
      using that u(4,5) P d by (cases "l = k") (auto simp: slots_kept_def)
    moreover have "vm_frame s u" using P u(3) by (auto intro: vm_frame_trans)
    moreover have "\<forall>e \<in> D. \<forall>j \<in> I. present u e j = present s e j" using P u(8) by simp
    ultimately have "?P (Suc k) u" using u by blast
    moreover have "[0..<1024] ! k = k" using k by simp
    ultimately show "\<exists>u. free_pte d (table s d i) i ([0..<1024] ! k) t = Return () u \<and> ?P (Suc k) u"
      using u(1) by auto
  qed
  then show ?thesis by auto
qed

lemma free_table_spec:
  assumes ok: "vm_ok I D E xs s" and d: "d \<in> D" "i \<in> I" and i: "i < 1024"
  shows "\<exists>t ys. free_table d i s = Return () t \<and> vm_ok I D E ys t \<and> vm_frame s t \<and>
    slots_kept I D (\<lambda>(e, j, k). (e, j) = (d, i)) s t \<and> \<not> present t d i \<and>
    (\<forall>e \<in> D. \<forall>j \<in> I. present t e j \<longrightarrow> present s e j)"
proof (cases "present s d i")
  case False
  then show ?thesis
    using ok by (intro exI [of _ s] exI [of _ xs]) (simp add: free_table_def present_def slots_kept_def)
next
  case True
  let ?q = "table s d i"
  have q: "?q < npages s" by (rule tables_okD(3) [OF vm_okD(5) [OF ok] d])
  obtain u zs where u: "ofold (free_pte d ?q i) [0..<1024] s = Return () u" "vm_ok I D E zs u" "vm_frame s u"
      "slots_kept I D (\<lambda>(e, j, k). (e, j) = (d, i)) s u" "\<forall>k < 1024. slot u (d, i, k) AND PTE_P = 0"
      "present u d i" "table u d i = ?q" "\<forall>e \<in> D. \<forall>j \<in> I. present u e j = present s e j"
    using free_ptes_spec [OF ok d True i] by auto
  let ?v = "store_pte (d, i) 0 u"
  have em: "slot u (d, i, k) AND PTE_P = 0" if "k < 1024" for k using u(5) that by blast
  note det = vm_ok_detach_table [OF u(2) d u(6) em, unfolded u(7)]
  have qv: "?q < npages ?v" using q u(3) by (simp add: vm_frame_def)
  obtain t ys where t: "page_decref ?q ?v = Return () t" "vm_ok I D E ys t" "pmem t = pmem ?v"
    using vm_ok_decref [OF det(1) qv] by (auto simp: fun_upd_idem)
  have st: "slot t x = slot ?v x" "present t e j = present ?v e j" for x e j
    using slot_cong [OF t(3)] t(3) by (simp_all add: present_def)
  have "unat (PTX (NOT 0)) + 1 = 1024" by (simp add: PTX_def layout_defs mask_eq_exp_minus_1)
  moreover have "pa2page (PTE_ADDR (pmem s d i)) ?v = Return ?q ?v"
    using qv by (simp add: pa2page_def table_def)
  ultimately have "free_table d i s = Return () t"
    using True u(1) t(1) kaddr_table [OF q vm_okD(1) [OF ok]]
    by (simp add: free_table_def present_def Let_def del: upt_Suc)
  moreover have "vm_frame s t"
    using frame_page_decref [of ?v ?q] t(1) u(3) vm_frame_trans [of u ?v t] vm_frame_trans [of s u t] by simp
  moreover have "slots_kept I D (\<lambda>(e, j, k). (e, j) = (d, i)) s t"
    using u(4) det(2) t(3) by (auto simp: slots_kept_def st)
  moreover have "\<not> present t d i" "\<forall>e \<in> D. \<forall>j \<in> I. present t e j \<longrightarrow> present s e j"
    using det(3) d u(8) by (auto simp: st)
  ultimately show ?thesis using t(2) by blast
qed

lemma free_tables_spec:
  assumes ok: "vm_ok {..<n} D E xs s" and d: "d \<in> D" and n: "n \<le> 1024"
  shows "\<exists>t ys. ofold (free_table d) [0..<n] s = Return () t \<and> vm_ok {..<n} D E ys t \<and> vm_frame s t \<and>
    slots_kept {..<n} D (\<lambda>(e, j, k). e = d) s t \<and> (\<forall>i < n. \<not> present t d i)"
proof -
  let ?P = "\<lambda>m t. (\<exists>ys. vm_ok {..<n} D E ys t) \<and> vm_frame s t \<and> slots_kept {..<n} D (\<lambda>(e, j, k). e = d) s t \<and>
    (\<forall>i < m. \<not> present t d i)"
  have "\<exists>t. ofold (free_table d) [0..<n] s = Return () t \<and> ?P (length [0..<n]) t"
  proof (rule ofold_invariant)
    show "?P 0 s" using ok by (auto simp: slots_kept_def)
  next
    fix i t assume "i < length [0..<n]" and P: "?P i t"
    then have i: "i < n" "i < 1024" using n by auto
    obtain ys where ys: "vm_ok {..<n} D E ys t" using P by blast
    obtain u zs where u: "free_table d i t = Return () u" "vm_ok {..<n} D E zs u" "vm_frame t u"
        "slots_kept {..<n} D (\<lambda>(e, j, k). (e, j) = (d, i)) t u" "\<not> present u d i"
        "\<forall>e \<in> D. \<forall>j \<in> {..<n}. present u e j \<longrightarrow> present t e j"
      using free_table_spec [OF ys d _ i(2)] i(1) by auto
    have "slots_kept {..<n} D (\<lambda>(e, j, k). e = d) s u"
      using P u(4) by (auto intro: slots_kept_trans)
    moreover have "\<not> present u d j" if "j < Suc i" for j
    proof (cases "j = i")
      case False
      then have "j < i" "j \<in> {..<n}" using that i(1) by auto
      then show ?thesis using P u(6) d by blast
    qed (use u(5) in simp)
    moreover have "vm_frame s u" using P u(3) by (auto intro: vm_frame_trans)
    ultimately have "?P (Suc i) u" using u(2) by blast
    then show "\<exists>u. free_table d ([0..<n] ! i) t = Return () u \<and> ?P (Suc i) u"
      using u(1) i(1) by auto
  qed
  then show ?thesis by auto
qed

text \<open>The environment free list is a list allocator too.\<close>

abbreviation en_link :: "kstate \<Rightarrow> nat \<Rightarrow> nat option" where
  "en_link s \<equiv> \<lambda>e. env_link (envs s e)"

lemma env_link_upd: "(\<lambda>e. env_link ((f(x := v)) e)) = (\<lambda>e. env_link (f e))(x := env_link v)"
  by auto

interpretation envlist: list_allocator en_link env_free_list env_unlink env_relink
  by unfold_locales (auto simp: env_unlink_def env_relink_def env_link_upd)

definition env_list :: "kstate \<Rightarrow> nat list \<Rightarrow> bool" where
  "env_list s es \<longleftrightarrow> envlist.on_list s es \<and> (\<forall>e. e \<in> set es \<longleftrightarrow> e < NENV \<and> env_status (envs s e) = ENV_FREE)"

lemma on_list_cong:
  "env_free_list t = env_free_list s \<Longrightarrow> en_link t = en_link s \<Longrightarrow> envlist.on_list t es = envlist.on_list s es"
  by (simp add: envlist.on_list_def)

lemma env_relink_simps [simp]:
  "pmem (env_relink e s) = pmem s" "npages (env_relink e s) = npages s" "pages (env_relink e s) = pages s"
  "page_free_list (env_relink e s) = page_free_list s" "tlb (env_relink e s) = tlb s"
  "cpus (env_relink e s) = cpus s" "this_cpu (env_relink e s) = this_cpu s"
  "kern_pgdir (env_relink e s) = kern_pgdir s" "kernel_lock (env_relink e s) = kernel_lock s"
  "curenv (env_relink e s) = curenv s" "cr3 (env_relink e s) = cr3 s"
  "envs (env_relink e s) = (envs s)(e := (envs s e)\<lparr>env_link := env_free_list s\<rparr>)"
  by (simp_all add: env_relink_def curenv_def)

text \<open>The record of a freed environment.\<close>

definition freed_env :: "nat option \<Rightarrow> Env \<Rightarrow> Env" where
  "freed_env l x = x\<lparr>env_pgdir := None, env_status := ENV_FREE, env_link := l\<rparr>"

lemma env_free_spec:
  assumes ok: "vm_ok {..<955} D E xs s" and e: "env_pgdir (envs s e) = Some d" and d: "d \<in> D" "d < 2 ^ 16"
    and k: "kern_pgdir s < 2 ^ 16"
  shows "\<exists>t ys. env_free e s = Return () t \<and> vm_ok {..<955} (D - {d}) E ys t \<and>
    slots_kept {..<955} (D - {d}) (\<lambda>_. False) s t \<and>
    envs t = (envs s)(e := freed_env (env_free_list s) (envs s e)) \<and> env_free_list t = Some e \<and>
    cpus t = cpus s \<and> this_cpu t = this_cpu s \<and> kernel_lock t = kernel_lock s \<and> kern_pgdir t = kern_pgdir s \<and>
    npages t = npages s \<and> cr3 t = (if curenv s = Some e then page2pa (kern_pgdir s) else cr3 s)"
proof -
  let ?r = "if curenv s = Some e then lcr3 (page2pa (kern_pgdir s)) s else s"
  have okr: "vm_ok {..<955} D E xs ?r" by (rule vm_ok_cong [OF ok]) simp_all
  have rsl: "slot ?r x = slot s x" for x by (rule slot_cong) simp
  obtain u zs where u: "ofold (free_table d) [0..<955] ?r = Return () u" "vm_ok {..<955} D E zs u" "vm_frame ?r u"
      "slots_kept {..<955} D (\<lambda>(e, j, k). e = d) ?r u" "\<forall>i < 955. \<not> present u d i"
    using free_tables_spec [OF okr d(1)] by auto
  have ue: "envs u = envs s" "kern_pgdir u = kern_pgdir s" "npages u = npages s"
    using u(3) by (auto simp: vm_frame_def split: if_splits)
  let ?v = "upd_env e (\<lambda>x. x\<lparr>env_pgdir := None\<rparr>) u"
  have "vm_ok {..<955} D E zs ?v" by (rule vm_ok_cong [OF u(2)]) simp_all
  then have det: "vm_ok {..<955} (D - {d}) (E(d := E d + 1)) zs ?v"
    using u(5) by (intro vm_ok_detach_dir [OF _ d(1)]) (auto simp: present_def)
  have dn: "d < npages ?v" using tables_okD(1) [OF vm_okD(5) [OF ok] d(1)] ue by simp
  obtain w ys where w: "page_decref d ?v = Return () w" "vm_ok {..<955} (D - {d}) E ys w" "pmem w = pmem ?v"
    using vm_ok_decref [OF det dn] by (auto simp: fun_upd_idem)
  have fw: "vm_frame ?v w" using frame_page_decref [of ?v d] w(1) by simp
  let ?t = "env_relink e (upd_env e (\<lambda>x. x\<lparr>env_status := ENV_FREE\<rparr>) w)"
  have "PADDR (pgdir_kva (env_pgdir (envs u e))) u = Return (page2pa d) u"
    using PADDR_pgdir [OF d(2)] e ue by simp
  moreover have "pa2page (page2pa d) ?v = Return d ?v"
    using dn d(2) by (simp add: pa2page_def PGNUM_page2pa)
  moreover have "obind (if curenv s = Some e
      then obind (PADDR (pgdir_kva (Some (kern_pgdir s))) s) (\<lambda>pa s. Return () (lcr3 pa s))
      else Return () s) f = f () ?r" for f :: "unit \<Rightarrow> kstate \<Rightarrow> unit kres"
    using PADDR_pgdir [OF k] by simp
  moreover have "env_pgdir (envs ?r e) = Some d" using e by simp
  ultimately have "env_free e s = Return () ?t"
    using u(1) w(1) by (simp add: env_free_def PDX_UTOP del: upt_Suc)
  moreover have "vm_ok {..<955} (D - {d}) E ys ?t" by (rule vm_ok_cong [OF w(2)]) simp_all
  moreover have "slots_kept {..<955} (D - {d}) (\<lambda>_. False) s ?t"
  proof -
    have "slot ?t x = slot u x" for x by (rule slot_cong) (simp add: w(3))
    then show ?thesis using u(4) by (auto simp: slots_kept_def rsl w(3))
  qed
  moreover have "envs ?t = (envs s)(e := freed_env (env_free_list s) (envs s e))" "env_free_list ?t = Some e"
    "cpus ?t = cpus s" "this_cpu ?t = this_cpu s" "kernel_lock ?t = kernel_lock s" "kern_pgdir ?t = kern_pgdir s"
    "npages ?t = npages s" "cr3 ?t = (if curenv s = Some e then page2pa (kern_pgdir s) else cr3 s)"
    using fw u(3) by (auto simp: vm_frame_def freed_env_def env_relink_def split: if_splits)
  ultimately show ?thesis by blast
qed

section \<open>Building an address space\<close>

text \<open>A page nobody uses becomes a directory whose user part is empty.\<close>

lemma vm_ok_add_dir:
  assumes ok: "vm_ok I D E xs s" and p: "p < npages s" "p \<notin> set xs" "pp_ref (pages s p) = 0"
    and t: "pmem t = (pmem s)(p := f)" "\<And>i. i \<in> I \<Longrightarrow> f i = 0"
      "pages t = (pages s)(p := (pages s p)\<lparr>pp_ref := 1\<rparr>)" "npages t = npages s"
      "page_free_list t = page_free_list s"
  shows "vm_ok I (insert p D) E xs t"
    and "\<And>d i k. d \<in> D \<Longrightarrow> i \<in> I \<Longrightarrow> slot t (d, i, k) = slot s (d, i, k)"
    and "\<And>i k. i \<in> I \<Longrightarrow> slot t (p, i, k) = 0"
proof -
  note tb = vm_okD(5) [OF ok]
  note un = unreferenced [OF vm_okD(6,3,4) [OF ok] p(3)]
  have pD: "p \<notin> D" using un(2) by (simp add: is_table_def)
  have dir: "present t d i = present s d i" "table t d i = table s d i" if "d \<in> D" for d i
    using that pD t(1) by (auto simp: present_def table_def)
  have pt: "\<not> present t p i" "table t p i = 0" if "i \<in> I" for i
    using t(1,2) that by (simp_all add: present_def table_def PGNUM_def)
  have tp: "table s d i \<noteq> p" if "d \<in> D" "i \<in> I" "present s d i" for d i
    using un(2) that by (auto simp: is_table_def)
  show sl: "slot t (d, i, k) = slot s (d, i, k)" if "d \<in> D" "i \<in> I" for d i k
    using dir [OF that(1)] tp [OF that] t(1) by (auto simp: slot_def)
  show sp: "slot t (p, i, k) = 0" if "i \<in> I" for i k using pt [OF that] by (simp add: slot_def)
  have m: "maps I (insert p D) t q = maps I D s q" for q
    using sl sp by (auto simp: maps_def)
  have it: "is_table I (insert p D) t q = (is_table I D s q \<or> q = p)" for q
    using dir pt by (auto simp: is_table_def)
  have "card (maps I D s q) + (if is_table I D s q then 1 else 0) + E q = unat (pp_ref (pages s q))" for q
    using vm_okD(6) [OF ok] by (simp add: refs_ok_def)
  from this [of p] this have "refs_ok I (insert p D) E t"
    using vm_okD(6) [OF ok] un p(3) unfolding refs_ok_def m it by (auto simp: t(3,4))
  moreover have "tables_ok I (insert p D) xs t"
    using tb p pD dir pt tp unfolding tables_ok_def by (simp add: t(4))
  moreover have "free_list t xs"
  proof -
    have "pg_link t = pg_link s" by (auto simp: t(3))
    then show ?thesis using vm_okD(2) [OF ok] p(2) by (auto simp: free_list_def pglist.on_list_def t)
  qed
  ultimately show "vm_ok I (insert p D) E xs t" using ok by (simp add: vm_ok_def mem_ok_def t)
qed

lemma UVPT_pdx: "pdx UVPT = 957" "pdx VGA_USER < 955" "955 \<le> pdx UVPT"
  by (simp_all add: PDX_def layout_defs)

text \<open>What the kernel guarantees when it builds an address space.\<close>

definition kern_ok :: "nat list \<Rightarrow> kstate \<Rightarrow> bool" where
  "kern_ok xs s \<longleftrightarrow> kern_pgdir s < 2 ^ 16 \<and> kern_pgdir s \<notin> set xs \<and> (\<forall>i < 955. pmem s (kern_pgdir s) i = 0) \<and>
     0xb8 < npages s \<and> 0xb8 \<notin> set xs \<and> unat (pp_ref (pages s 0xb8)) < 65535 \<and> npages s \<le> 2 ^ 16"

definition vga_entry :: u32 where
  "vga_entry = page2pa 0xb8 OR (PTE_P OR PTE_U OR PTE_W OR PTE_MAPPED) OR PTE_P"

text \<open>The state before the VGA page is inserted.\<close>

abbreviation vga_perm :: u32 where "vga_perm \<equiv> PTE_P OR PTE_U OR PTE_W OR PTE_MAPPED"

definition setup_state :: "nat \<Rightarrow> nat \<Rightarrow> kstate \<Rightarrow> kstate" where
  "setup_state e p s =
     (let s1 = fill_frame p 0 (page_unlink s) in
      store_pte (p, pdx UVPT) (page2pa p OR PTE_P OR PTE_U)
       (upd_page p (\<lambda>q. q\<lparr>pp_ref := pp_ref q + 1\<rparr>)
         ((upd_env e (\<lambda>x. x\<lparr>env_pgdir := Some p\<rparr>) s1)\<lparr>pmem := (pmem s1)(p := pmem s (kern_pgdir s))\<rparr>)))"

lemma setup_state_frame: "vm_frame (upd_env e (\<lambda>x. x\<lparr>env_pgdir := Some p\<rparr>) s) (setup_state e p s)"
  by (simp add: setup_state_def vm_frame_def)

lemma free_page_bounds:
  assumes "vm_ok {..<955} D E (p # xs) s" "kern_ok (p # xs) s"
  shows "p < npages s" "p < 2 ^ 16" "p \<noteq> kern_pgdir s" "p \<noteq> 0xb8" "pp_ref (pages s p) = 0" "p \<notin> set xs" "p \<notin> D"
  using vm_okD(2) [OF assms(1)] assms(2) free_list_distinct [of s "p # xs"] free_page_unused(2) [OF assms(1), of p]
  by (auto simp: free_list_def kern_ok_def is_table_def)

lemma env_setup_vm_unfold:
  assumes ok: "vm_ok {..<955} D E (p # xs) s" and k: "kern_ok (p # xs) s"
  shows "env_setup_vm e s = obind (page_insert p (Some 0xb8) VGA_USER vga_perm (setup_state e p s)) (\<lambda>r s.
           obind (assert_that (r = 0) ''assertion failed: !page_insert'' s) (\<lambda>_ s. Return 0 s))"
proof -
  note p = free_page_bounds [OF ok k]
  let ?s1 = "fill_frame p 0 (page_unlink s)"
  have al: "page_alloc ALLOC_ZERO s = Return (Some p) ?s1"
    using page_alloc_Cons [OF vm_okD(2,1) [OF ok], of ALLOC_ZERO] by (simp add: ALLOC_ZERO_def)
  have "kva_frame (page2pa p + KERNBASE) = p" using p(2) by (simp add: kva_frame_page)
  moreover have "page2kva p ?s1 = Return (page2pa p + KERNBASE) ?s1"
    using p by (simp add: page2kva_def KADDR_def PGNUM_page2pa)
  moreover have "PADDR (page2pa p + KERNBASE) u = Return (page2pa p) u" for u
    using PADDR_pgdir [OF p(2)] by (simp add: pgdir_kva_def)
  moreover have "pa2page VGA_PHYSADDR (setup_state e p s) = Return 0xb8 (setup_state e p s)"
    using k by (simp add: pa2page_def VGA_PHYSADDR_def PGNUM_def layout_defs kern_ok_def setup_state_def)
  ultimately show ?thesis using p(3) by (simp add: env_setup_vm_def al Let_def setup_state_def)
qed

lemma setup_state_ok:
  assumes ok: "vm_ok {..<955} D E (p # xs) s" and k: "kern_ok (p # xs) s"
  shows "vm_ok {..<955} (insert p D) E xs (setup_state e p s)"
    and "slots_kept {..<955} D (\<lambda>_. False) s (setup_state e p s)"
    and "\<And>i l. i < 955 \<Longrightarrow> slot (setup_state e p s) (p, i, l) = 0"
    and "pmem (setup_state e p s) p = (pmem s (kern_pgdir s))(pdx UVPT := page2pa p OR PTE_P OR PTE_U)"
    and "unat (pp_ref (pages (setup_state e p s) 0xb8)) < 65535"
proof -
  note p = free_page_bounds [OF ok k]
  let ?s1 = "fill_frame p 0 (page_unlink s)" and ?s5 = "setup_state e p s"
  let ?f = "(pmem s (kern_pgdir s))(pdx UVPT := page2pa p OR PTE_P OR PTE_U)"
  have "page_alloc ALLOC_ZERO s = Return (Some p) ?s1"
    using page_alloc_Cons [OF vm_okD(2,1) [OF ok], of ALLOC_ZERO] by (simp add: ALLOC_ZERO_def)
  then have s1: "vm_ok {..<955} D E xs ?s1" "\<forall>d \<in> D. \<forall>i < 955. \<forall>l. slot ?s1 (d, i, l) = slot s (d, i, l)"
    using vm_ok_alloc [OF ok] by auto
  have f5: "pmem ?s5 = (pmem ?s1)(p := ?f)" "pages ?s5 = (pages ?s1)(p := (pages ?s1 p)\<lparr>pp_ref := 1\<rparr>)"
    "npages ?s5 = npages ?s1" "page_free_list ?s5 = page_free_list ?s1"
    using p(5) by (simp_all add: setup_state_def)
  have fi: "?f i = 0" if "i \<in> {..<955}" for i using that k UVPT_pdx by (auto simp: kern_ok_def)
  have "p < npages ?s1" "pp_ref (pages ?s1 p) = 0" using p by simp_all
  note add = vm_ok_add_dir [OF s1(1) this(1) p(6) this(2) f5(1) fi f5(2,3,4)]
  show "vm_ok {..<955} (insert p D) E xs ?s5" by (rule add(1))
  show "slots_kept {..<955} D (\<lambda>_. False) s ?s5" using add(2) s1(2) p(7) by (auto simp: slots_kept_def f5(1))
  show "slot ?s5 (p, i, l) = 0" if "i < 955" for i l using add(3) that by simp
  show "pmem ?s5 p = ?f" by (simp add: f5(1))
  show "unat (pp_ref (pages ?s5 0xb8)) < 65535" using k p(4) by (simp add: kern_ok_def setup_state_def)
qed

lemma env_setup_vm_spec:
  assumes ok: "vm_ok {..<955} D E (p # xs) s" and k: "kern_ok (p # xs) s" and xs: "xs \<noteq> []"
  shows "\<exists>t ys. env_setup_vm e s = Return 0 t \<and> vm_ok {..<955} (insert p D) E ys t \<and>
    slots_kept {..<955} D (\<lambda>_. False) s t \<and>
    (\<forall>i < 955. \<forall>l. slot t (p, i, l) = (if (p, i, l) = va_slot p VGA_USER then vga_entry else 0)) \<and>
    (\<forall>i \<ge> 955. pmem t p i = (if i = pdx UVPT then page2pa p OR PTE_P OR PTE_U else pmem s (kern_pgdir s) i)) \<and>
    vm_frame (upd_env e (\<lambda>x. x\<lparr>env_pgdir := Some p\<rparr>) s) t"
proof -
  let ?s5 = "setup_state e p s"
  note p = free_page_bounds [OF ok k] and s5 = setup_state_ok [OF ok k, where e = e] and fr = setup_state_frame [of e p s]
  have vr: "0xb8 < npages ?s5" "0xb8 \<notin> set xs" using k fr by (auto simp: kern_ok_def vm_frame_def)
  have perm: "vga_perm < 4096" by (simp add: layout_defs)
  have vI: "pdx VGA_USER \<in> {..<955}" using UVPT_pdx by simp
  obtain t ys where t: "page_insert p (Some 0xb8) VGA_USER vga_perm ?s5 = Return 0 t"
      "vm_ok {..<955} (insert p D) E ys t" "slot_effect {..<955} (insert p D) p VGA_USER vga_entry ?s5 t"
    using page_insert_spec [OF s5(1) _ vI vr s5(5) perm] xs unfolding vga_entry_def by blast
  have "env_setup_vm e s = Return 0 t" using t(1) by (simp add: env_setup_vm_unfold [OF ok k])
  moreover have "slots_kept {..<955} D (\<lambda>_. False) s t"
    using s5(2) t(3) p(7) by (auto simp: slots_kept_def slot_effect_def va_slot_def)
  moreover have "\<forall>i < 955. \<forall>l. slot t (p, i, l) = (if (p, i, l) = va_slot p VGA_USER then vga_entry else 0)"
    using t(3) s5(3) by (simp add: slot_effect_def)
  moreover have "\<forall>i \<ge> 955. pmem t p i = (if i = pdx UVPT then page2pa p OR PTE_P OR PTE_U else pmem s (kern_pgdir s) i)"
    using t(3) UVPT_pdx s5(4) by (auto simp: slot_effect_def)
  moreover have "vm_frame ?s5 t"
    using frame_page_insert [of ?s5 p "Some 0xb8" VGA_USER vga_perm] unfolding t(1) holds_simps .
  ultimately show ?thesis using t(2) vm_frame_trans [OF fr] by blast
qed

text \<open>With a page for the directory but none for its first table, the assertion fails.\<close>

lemma env_setup_vm_panic:
  assumes ok: "vm_ok {..<955} D E [p] s" and k: "kern_ok [p] s"
  shows "env_setup_vm e s = Panic ''assertion failed: !page_insert''"
proof -
  have "\<not> present (setup_state e p s) p (pdx VGA_USER)"
    using setup_state_ok(4) [OF ok k, where e = e] k UVPT_pdx by (simp add: present_def kern_ok_def)
  then have "page_insert p (Some 0xb8) VGA_USER vga_perm (setup_state e p s) = Return (- E_NO_MEM) (setup_state e p s)"
    using UVPT_pdx by (intro page_insert_no_table [OF setup_state_ok(1) [OF ok k]]) simp_all
  then show ?thesis by (simp add: env_setup_vm_unfold [OF ok k] E_NO_MEM_def)
qed

section \<open>Environment ids\<close>

lemma next_env_id_value:
  assumes "e < NENV" "0 \<le> sint old"
  shows "\<exists>a. unat (next_env_id e old) = 1024 * a + e \<and> 4 \<le> a \<and> a < 2 ^ 21 \<and> a div 4 \<noteq> unat old div 4096"
proof -
  have uo: "unat old < 2 ^ 31" using assms(2) sint_neg_unat [of old] by linarith
  have e: "e < 1024" using assms(1) by (simp add: NENV_eq)
  define g where "g = (old + 4096) AND NOT 1023"
  have us: "unat (old + 4096) = unat old + 4096" using uo by (simp add: unat_word_ariths)
  have ug: "unat g = 1024 * ((unat old + 4096) div 1024)" unfolding g_def and_not_mask10 us ..
  define a where "a = (if sint g \<le> 0 then 4 else (unat old + 4096) div 1024)"
  have "next_env_id e old = (if sint g \<le> 0 then 4096 else g) OR of_nat e"
    by (simp add: next_env_id_def g_def ENVGENSHIFT_def NENV_eq)
  moreover have "unat (if sint g \<le> 0 then 4096 else g :: u32) = 1024 * a" using ug by (simp add: a_def)
  ultimately have "unat (next_env_id e old) = 1024 * a + e" using or_low(1) [OF _ e] by simp
  moreover have "4 \<le> a" unfolding a_def by (auto intro: div_le_mono [of 4096 _ 1024, simplified])
  moreover have "a < 2 ^ 21" using sint_pos_unat [of g] ug unfolding a_def by (auto split: if_splits)
  moreover have "a div 4 \<noteq> unat old div 4096"
  proof (cases "sint g \<le> 0")
    case True
    then have "unat g = 0 \<or> 2 ^ 31 \<le> unat g" using sint_pos_unat [of g] by linarith
    then have "2 ^ 31 \<le> unat old + 4096" unfolding ug using uo by auto
    then show ?thesis using True uo by (simp add: a_def)
  next
    case False
    have "(unat old + 4096) div 1024 div 4 = (unat old + 4096) div 4096" by (simp add: div_mult2_eq [symmetric])
    then show ?thesis using False by (simp add: a_def)
  qed
  ultimately show ?thesis by blast
qed

lemma next_env_id_props:
  assumes "e < NENV" "0 \<le> sint old"
  shows "0 < sint (next_env_id e old)" "ENVX (next_env_id e old) = e" "next_env_id e old \<noteq> old"
proof -
  obtain a where a: "unat (next_env_id e old) = 1024 * a + e" "4 \<le> a" "a < 2 ^ 21" "a div 4 \<noteq> unat old div 4096"
    using next_env_id_value [OF assms] by blast
  have e: "e < 1024" using assms(1) by (simp add: NENV_eq)
  show "0 < sint (next_env_id e old)" using a e by (simp add: sint_pos_unat)
  have "next_env_id e old AND 1023 = take_bit 10 (next_env_id e old)"
    by (simp add: take_bit_eq_mask mask_eq_exp_minus_1)
  then show "ENVX (next_env_id e old) = e"
    using e a(1) by (simp add: ENVX_def NENV_eq take_bit_eq_mod unat_mod)
  have "(1024 * a + e) div 4096 = a div 4"
  proof -
    have "(1024 * a + e) div 4096 = (1024 * a + e) div 1024 div 4" by (simp add: div_mult2_eq [symmetric])
    then show ?thesis using e by simp
  qed
  then show "next_env_id e old \<noteq> old" using a by metis
qed

end
