(* ===== verification/EnvProps.thy ===== *)
theory EnvProps
  imports EnvInv
begin

text \<open>
  The properties of environment management: allocation, freeing and their round trip,
  environment ids, the free list, and the check of user pointers.
\<close>

section \<open>Lemmas\<close>

lemma slots_kept_same:
  assumes "slots_kept I D (\<lambda>_. False) s t"
  shows "maps I D t q = maps I D s q" "is_table I D t q = is_table I D s q"
proof -
  show "maps I D t q = maps I D s q" using assms by (intro maps_cong) (simp add: slots_kept_def)
  have "pmem t e j = pmem s e j" if "e \<in> D" for e j using assms that by (simp add: slots_kept_def)
  then show "is_table I D t q = is_table I D s q" by (auto simp: is_table_def present_def table_def)
qed

lemma refs_unchanged:
  assumes "vm_ok I D E xs s" "vm_ok I D E ys t" "slots_kept I D (\<lambda>_. False) s t"
  shows "pp_ref (pages t q) = pp_ref (pages s q)"
proof -
  have "unat (pp_ref (pages t q)) = unat (pp_ref (pages s q))"
    using vm_okD(6) [OF assms(1)] vm_okD(6) [OF assms(2)] slots_kept_same [OF assms(3)]
    by (simp add: refs_ok_def)
  then show ?thesis by (simp add: word_unat_eq_iff)
qed

lemma env_unlink_simps [simp]:
  "pmem (env_unlink s) = pmem s" "npages (env_unlink s) = npages s" "pages (env_unlink s) = pages s"
  "page_free_list (env_unlink s) = page_free_list s" "envs (env_unlink s) = envs s"
  "cpus (env_unlink s) = cpus s" "this_cpu (env_unlink s) = this_cpu s" "kern_pgdir (env_unlink s) = kern_pgdir s"
  "kernel_lock (env_unlink s) = kernel_lock s" "cr3 (env_unlink s) = cr3 s" "curenv (env_unlink s) = curenv s"
  by (simp_all add: env_unlink_def curenv_def split: option.splits)

lemma fresh_env_simps [simp]:
  "env_link (fresh_env e p x) = env_link x" "env_pgdir (fresh_env e p x) = env_pgdir x"
  "env_status (fresh_env e p x) = ENV_RUNNABLE" "env_id (fresh_env e p x) = next_env_id e (env_id x)"
  "env_parent_id (fresh_env e p x) = p" "env_tf (fresh_env e p x) = user_tf"
  "env_ipc_recving (fresh_env e p x) = False" "env_pgfault_upcall (fresh_env e p x) = 0"
  by (simp_all add: fresh_env_def)

lemma env_list_alloc:
  assumes l: "env_list s (e # es)" and fr: "vm_frame (upd_env e (\<lambda>x. x\<lparr>env_pgdir := Some p\<rparr>) s) t"
  shows "env_list (env_unlink (upd_env e (fresh_env e pid) t)) es"
proof -
  let ?t = "upd_env e (fresh_env e pid) t"
  have lk: "en_link ?t = en_link s" "env_free_list ?t = env_free_list s"
    using fr by (auto simp: vm_frame_def)
  then have on: "envlist.on_list ?t (e # es)" using l by (simp add: env_list_def on_list_cong [of ?t s])
  then have "e \<notin> set es" using envlist.on_list_distinct by fastforce
  then have "x \<in> set es \<longleftrightarrow> x < NENV \<and> env_status (envs ?t x) = ENV_FREE" for x
    using l fr by (auto simp: env_list_def vm_frame_def)
  then show ?thesis using envlist.take_on_list [OF on] by (simp add: env_list_def)
qed

lemma env_alloc_spec:
  assumes ok: "vm_ok {..<955} D E (p # xs) s" and k: "kern_ok (p # xs) s" "xs \<noteq> []" and l: "env_list s (e # es)"
  shows "\<exists>t ys. env_alloc pid s = Return (0, Some e) t \<and> vm_ok {..<955} (insert p D) E ys t \<and>
    slots_kept {..<955} D (\<lambda>_. False) s t \<and>
    (\<forall>i < 955. \<forall>l. slot t (p, i, l) = (if (p, i, l) = va_slot p VGA_USER then vga_entry else 0)) \<and>
    (\<forall>i \<ge> 955. pmem t p i = (if i = pdx UVPT then page2pa p OR PTE_P OR PTE_U else pmem s (kern_pgdir s) i)) \<and>
    env_list t es \<and> envs t = (envs s)(e := fresh_env e pid ((envs s e)\<lparr>env_pgdir := Some p\<rparr>)) \<and>
    cpus t = cpus s \<and> this_cpu t = this_cpu s \<and> kernel_lock t = kernel_lock s \<and> kern_pgdir t = kern_pgdir s"
proof -
  obtain u ys where u: "env_setup_vm e s = Return 0 u" "vm_ok {..<955} (insert p D) E ys u"
      "slots_kept {..<955} D (\<lambda>_. False) s u"
      "\<forall>i < 955. \<forall>l. slot u (p, i, l) = (if (p, i, l) = va_slot p VGA_USER then vga_entry else 0)"
      "\<forall>i \<ge> 955. pmem u p i = (if i = pdx UVPT then page2pa p OR PTE_P OR PTE_U else pmem s (kern_pgdir s) i)"
      "vm_frame (upd_env e (\<lambda>x. x\<lparr>env_pgdir := Some p\<rparr>) s) u"
    using env_setup_vm_spec [OF ok k, of e] by blast
  let ?t = "env_unlink (upd_env e (fresh_env e pid) u)"
  have sl: "slot ?t x = slot u x" for x by (rule slot_cong) simp
  have "env_free_list s = Some e" using l by (simp add: env_list_def envlist.on_list_def)
  then have "env_alloc pid s = Return (0, Some e) ?t" by (simp add: env_alloc_def u(1))
  moreover have "vm_ok {..<955} (insert p D) E ys ?t" by (rule vm_ok_cong [OF u(2)]) simp_all
  moreover have "slots_kept {..<955} D (\<lambda>_. False) s ?t" using u(3) by (simp add: slots_kept_def sl)
  moreover have "env_list ?t es" by (rule env_list_alloc [OF l u(6)])
  moreover have "envs ?t = (envs s)(e := fresh_env e pid ((envs s e)\<lparr>env_pgdir := Some p\<rparr>))"
    using u(6) by (simp add: vm_frame_def)
  moreover have "cpus ?t = cpus s" "this_cpu ?t = this_cpu s" "kernel_lock ?t = kernel_lock s" "kern_pgdir ?t = kern_pgdir s"
    using u(6) by (simp_all add: vm_frame_def)
  ultimately show ?thesis using u(4,5) by (intro exI [of _ ?t] exI [of _ ys]) (simp add: sl)
qed

lemma env_list_free:
  assumes l: "env_list s es" and e: "e < NENV" "env_status (envs s e) \<noteq> ENV_FREE"
    and t: "envs t = (envs s)(e := freed_env (env_free_list s) (envs s e))" "env_free_list t = Some e"
  shows "env_list t (e # es)"
proof -
  have "en_link t = (en_link s)(e := env_free_list s)" by (auto simp: t(1) freed_env_def)
  moreover have "e \<notin> set es" using l e by (simp add: env_list_def)
  ultimately have "envlist.on_list t (e # es)" using l by (simp add: env_list_def envlist.on_list_def t(2))
  then show ?thesis using l e by (auto simp: env_list_def t(1) freed_env_def)
qed

section \<open>An example machine\<close>

text \<open>
  256 pages, pages 3, 2, 1 free, the kernel's directory in page 200, the VGA page in use, and
  environment 4 alive with directory 5; environments 7 and 9 are free.
\<close>

definition demo :: kstate where
  "demo = bss_state\<lparr>npages := 256, kern_pgdir := 200, page_free_list := Some 3,
     pages := (\<lambda>_. zero_page)(3 := \<lparr>pp_link = Some 2, pp_ref = 0\<rparr>, 2 := \<lparr>pp_link = Some 1, pp_ref = 0\<rparr>,
                5 := \<lparr>pp_link = None, pp_ref = 1\<rparr>, 184 := \<lparr>pp_link = None, pp_ref = 1\<rparr>),
     envs := (\<lambda>_. zero_env\<lparr>env_status := ENV_NOT_RUNNABLE\<rparr>)(7 := zero_env\<lparr>env_id := 0x1007, env_link := Some 9\<rparr>, 9 := zero_env,
                4 := zero_env\<lparr>env_id := 0x1004, env_status := ENV_RUNNABLE, env_pgdir := Some 5\<rparr>),
     env_free_list := Some 7\<rparr>"

abbreviation demo_refs :: "nat \<Rightarrow> nat" where "demo_refs \<equiv> (\<lambda>_. 0)(184 := 1)"

lemma demo_simps:
  "npages demo = 256" "kern_pgdir demo = 200" "pmem demo = (\<lambda>_ _. 0)" "curenv demo = None"
  "env_free_list demo = Some 7" "env_id (envs demo 7) = 0x1007" "env_pgdir (envs demo 4) = Some 5"
  "env_status (envs demo 4) = ENV_RUNNABLE"
  by (simp_all add: demo_def bss_state_def curenv_def zero_cpu_def)

lemma demo_ok: "vm_ok {..<955} {5} demo_refs [3, 2, 1] demo"
proof -
  have ab: "\<not> present demo d i" for d i by (simp add: present_def demo_simps)
  have sl: "slot demo x = 0" for x using ab by (cases x) (simp add: slot_def)
  have "maps {..<955} {5} demo q = {}" for q by (auto simp: maps_def sl)
  then have "refs_ok {..<955} {5} demo_refs demo"
    using ab by (auto simp: refs_ok_def is_table_def) (auto simp: demo_def zero_page_def)
  moreover have "tables_ok {..<955} {5} [3, 2, 1] demo"
    using ab by (auto simp: tables_ok_def table_def demo_simps PGNUM_def)
  moreover have "free_list demo [3, 2, 1]"
    by (auto simp: free_list_def pglist.on_list_def demo_def zero_page_def)
  ultimately show ?thesis by (simp add: vm_ok_def mem_ok_def demo_simps)
qed

lemma demo_kern: "kern_ok [3, 2, 1] demo"
  by (simp add: kern_ok_def demo_simps) (simp add: demo_def)

lemma demo_envs: "env_list demo [7, 9]"
  by (auto simp: env_list_def envlist.on_list_def demo_def zero_env_def NENV_eq)

section \<open>Properties\<close>

text \<open>
  C10. \<open>env_alloc\<close> with memory at hand: the first free environment becomes runnable with
  the caller's parent id, a clean user trap frame and a new positive id whose index part is
  its slot; the new id is found by \<open>envid2env\<close> and the id of the previous occupant of the
  slot is not. Its address space is a new directory: below \<open>UTOP\<close> only the VGA page is
  mapped, above it the kernel's mappings are copied with the directory itself at \<open>UVPT\<close>.
  No other address space changes and the reference counts stay exact.
\<close>

theorem env_alloc_correct:
  assumes ok: "vm_ok {..<955} D E (p # xs) s" and k: "kern_ok (p # xs) s" "xs \<noteq> []"
    and l: "env_list s (e # es)" and old: "0 \<le> sint (env_id (envs s e))"
  shows "\<exists>t ys. env_alloc pid s = Return (0, Some e) t \<and> vm_ok {..<955} (insert p D) E ys t \<and>
    slots_kept {..<955} D (\<lambda>_. False) s t \<and>
    (\<forall>i < 955. \<forall>l. slot t (p, i, l) = (if (p, i, l) = va_slot p VGA_USER then vga_entry else 0)) \<and>
    (\<forall>i \<ge> 955. pmem t p i = (if i = pdx UVPT then page2pa p OR PTE_P OR PTE_U else pmem s (kern_pgdir s) i)) \<and>
    env_list t es \<and> (\<forall>x. x \<noteq> e \<longrightarrow> envs t x = envs s x) \<and>
    env_status (envs t e) = ENV_RUNNABLE \<and> env_parent_id (envs t e) = pid \<and> env_tf (envs t e) = user_tf \<and>
    env_pgdir (envs t e) = Some p \<and> 0 < sint (env_id (envs t e)) \<and>
    envid2env (env_id (envs t e)) False t = Return (0, Some e) t \<and>
    (env_id (envs s e) \<noteq> 0 \<longrightarrow> ENVX (env_id (envs s e)) = e \<longrightarrow>
       (\<forall>c. envid2env (env_id (envs s e)) c t = Return (- E_BAD_ENV, None) t))"
proof -
  obtain t ys where t: "env_alloc pid s = Return (0, Some e) t" "vm_ok {..<955} (insert p D) E ys t"
    "slots_kept {..<955} D (\<lambda>_. False) s t"
    "\<forall>i < 955. \<forall>l. slot t (p, i, l) = (if (p, i, l) = va_slot p VGA_USER then vga_entry else 0)"
    "\<forall>i \<ge> 955. pmem t p i = (if i = pdx UVPT then page2pa p OR PTE_P OR PTE_U else pmem s (kern_pgdir s) i)"
    "env_list t es" "envs t = (envs s)(e := fresh_env e pid ((envs s e)\<lparr>env_pgdir := Some p\<rparr>))"
    using env_alloc_spec [OF ok k l, of pid] by blast
  have "e < NENV" using l by (auto simp: env_list_def)
  note id = next_env_id_props [OF this old]
  have "next_env_id e (env_id (envs s e)) \<noteq> 0" using id(1) by auto
  then show ?thesis using t id by (intro exI [of _ t] exI [of _ ys]) (simp add: envid2env_def Let_def)
qed

theorem env_alloc_correct_witness:
  "\<exists>t. env_alloc 0x1004 demo = Return (0, Some 7) t \<and> env_status (envs t 7) = ENV_RUNNABLE \<and>
       0 < sint (env_id (envs t 7)) \<and> envid2env 0x1007 False t = Return (- E_BAD_ENV, None) t"
  using env_alloc_correct [OF demo_ok demo_kern _ demo_envs, of "0x1004"]
  by (auto simp: demo_simps ENVX_def NENV_eq)

text \<open>
  C9. \<open>env_free\<close> on an environment with an address space always succeeds: its directory,
  its tables and all its mappings are given up with their references, every other address
  space is untouched, and the environment is first on the free list.
\<close>

theorem env_free_correct:
  assumes ok: "vm_ok {..<955} D E xs s" and e: "e < NENV" "env_status (envs s e) \<noteq> ENV_FREE" "env_pgdir (envs s e) = Some d"
    and d: "d \<in> D" "d < 2 ^ 16" and k: "kern_pgdir s < 2 ^ 16" and l: "env_list s es"
  shows "\<exists>t ys. env_free e s = Return () t \<and> vm_ok {..<955} (D - {d}) E ys t \<and>
    slots_kept {..<955} (D - {d}) (\<lambda>_. False) s t \<and> env_list t (e # es) \<and>
    (\<forall>x. x \<noteq> e \<longrightarrow> envs t x = envs s x) \<and> env_pgdir (envs t e) = None \<and>
    (\<forall>q. unat (pp_ref (pages t q)) = card (maps {..<955} (D - {d}) s q) +
       (if is_table {..<955} (D - {d}) s q then 1 else 0) + E q)"
proof -
  obtain t ys where t: "env_free e s = Return () t" "vm_ok {..<955} (D - {d}) E ys t"
    "slots_kept {..<955} (D - {d}) (\<lambda>_. False) s t"
    "envs t = (envs s)(e := freed_env (env_free_list s) (envs s e))" "env_free_list t = Some e"
    using env_free_spec [OF ok e(3) d k] by auto
  have "env_list t (e # es)" by (rule env_list_free [OF l e(1,2) t(4,5)])
  moreover have "unat (pp_ref (pages t q)) = card (maps {..<955} (D - {d}) s q) +
       (if is_table {..<955} (D - {d}) s q then 1 else 0) + E q" for q
    using vm_okD(6) [OF t(2)] slots_kept_same [OF t(3)] by (simp add: refs_ok_def)
  ultimately show ?thesis using t by (auto simp: freed_env_def)
qed

theorem env_free_correct_witness:
  "\<exists>t ys. env_free 4 demo = Return () t \<and> vm_ok {..<955} {} demo_refs ys t \<and> env_list t [4, 7, 9] \<and>
          pp_ref (pages t 5) = 0"
proof -
  obtain t ys where t: "env_free 4 demo = Return () t" "vm_ok {..<955} ({5} - {5}) demo_refs ys t"
      "env_list t [4, 7, 9]" "unat (pp_ref (pages t 5)) = card (maps {..<955} ({5} - {5}) demo 5) +
       (if is_table {..<955} ({5} - {5}) demo 5 then 1 else 0) + demo_refs 5"
    using env_free_correct [OF demo_ok _ _ _ _ _ _ demo_envs, of 4 5] by (auto simp: demo_simps NENV_eq)
  moreover have "maps {..<955} {} demo 5 = {}" by (auto simp: maps_def)
  ultimately show ?thesis by (auto simp: is_table_def unat_eq_zero)
qed

text \<open>
  C23. Creating an environment and freeing it again leaks nothing: the free list of
  environments and the reference count of every page are back to what they were.
\<close>

theorem env_alloc_free_roundtrip:
  assumes ok: "vm_ok {..<955} D E (p # xs) s" and k: "kern_ok (p # xs) s" "xs \<noteq> []" and l: "env_list s (e # es)"
  shows "\<exists>t u ys. env_alloc pid s = Return (0, Some e) t \<and> env_free e t = Return () u \<and>
    vm_ok {..<955} D E ys u \<and> env_list u (e # es) \<and> (\<forall>q. pp_ref (pages u q) = pp_ref (pages s q))"
proof -
  obtain t zs where t: "env_alloc pid s = Return (0, Some e) t" "vm_ok {..<955} (insert p D) E zs t"
    "slots_kept {..<955} D (\<lambda>_. False) s t" "env_list t es"
    "envs t = (envs s)(e := fresh_env e pid ((envs s e)\<lparr>env_pgdir := Some p\<rparr>))" "kern_pgdir t = kern_pgdir s"
    using env_alloc_spec [OF ok k l, of pid] by blast
  have e: "e < NENV" using l by (auto simp: env_list_def)
  have p: "p < 2 ^ 16" "insert p D - {p} = D" "kern_pgdir s < 2 ^ 16"
    using free_page_bounds [OF ok k(1)] k(1) by (auto simp: kern_ok_def)
  obtain u ys where u: "env_free e t = Return () u" "vm_ok {..<955} D E ys u" "slots_kept {..<955} D (\<lambda>_. False) t u"
    "envs u = (envs t)(e := freed_env (env_free_list t) (envs t e))" "env_free_list u = Some e"
    using env_free_spec [OF t(2), of e p] p t(5,6) by auto
  have "env_list u (e # es)" using env_list_free [OF t(4) e _ u(4,5)] t(5) by simp
  moreover have "slots_kept {..<955} D (\<lambda>_. False) s u" using t(3) u(3) by (rule slots_kept_trans) simp_all
  ultimately show ?thesis using t(1) u(1,2) refs_unchanged [OF ok u(2)] by blast
qed

theorem env_alloc_free_roundtrip_witness:
  "\<exists>t u. env_alloc 0 demo = Return (0, Some 7) t \<and> env_free 7 t = Return () u \<and> env_list u [7, 9] \<and>
         pp_ref (pages u 184) = 1 \<and> pp_ref (pages u 3) = 0"
  using env_alloc_free_roundtrip [OF demo_ok demo_kern _ demo_envs, of 0] by (auto simp: demo_def)

text \<open>
  C24. The errors of \<open>env_alloc\<close>: without a free environment it returns \<open>-E_NO_FREE_ENV\<close>
  and without a free page \<open>-E_NO_MEM\<close>, in both cases changing nothing; but with one free
  page, enough for the directory and not for its first table, the kernel panics although the
  comment on \<open>env_setup_vm\<close> promises \<open>-E_NO_MEM\<close>.
\<close>

theorem env_alloc_errors:
  "(env_list s [] \<longrightarrow> env_alloc pid s = Return (- E_NO_FREE_ENV, None) s) \<and>
   (env_list s (e # es) \<and> free_list s [] \<longrightarrow> env_alloc pid s = Return (- E_NO_MEM, None) s) \<and>
   (env_list s (e # es) \<and> vm_ok {..<955} D E [p] s \<and> kern_ok [p] s \<longrightarrow>
      env_alloc pid s = Panic ''assertion failed: !page_insert'')"
proof (intro conjI impI)
  assume "env_list s []"
  then show "env_alloc pid s = Return (- E_NO_FREE_ENV, None) s"
    by (simp add: env_alloc_def env_list_def envlist.on_list_def)
next
  assume a: "env_list s (e # es) \<and> free_list s []"
  have "sint (- E_NO_MEM) < 0" by (simp add: E_NO_MEM_def)
  then show "env_alloc pid s = Return (- E_NO_MEM, None) s"
    using a by (simp add: env_alloc_def env_list_def envlist.on_list_def env_setup_vm_def page_alloc_empty)
next
  assume a: "env_list s (e # es) \<and> vm_ok {..<955} D E [p] s \<and> kern_ok [p] s"
  then show "env_alloc pid s = Panic ''assertion failed: !page_insert''"
    using env_setup_vm_panic [of D E p s e] by (simp add: env_alloc_def env_list_def envlist.on_list_def)
qed

theorem env_alloc_errors_witness:
  "\<exists>s. env_list s [7, 9] \<and> env_alloc 0 s = Return (- E_NO_MEM, None) s"
proof -
  let ?s = "demo\<lparr>page_free_list := None, pages := (\<lambda>_. zero_page)\<rparr>"
  have "env_list ?s [7, 9]" using demo_envs by (simp add: env_list_def envlist.on_list_def)
  moreover have "free_list ?s []" by (simp add: free_list_def pglist.on_list_def zero_page_def)
  ultimately show ?thesis using env_alloc_errors [of ?s 0 7 "[9]"] by blast
qed

text \<open>
  \<open>env_init\<close> puts all environments on the free list in the order of the array, with
  id 0, so that the first allocation returns environment 0.
\<close>

lemma env_init_correct:
  assumes "env_link (envs s (NENV - 1)) = None"
  shows "env_list (env_init s) [0..<NENV] \<and> (\<forall>e < NENV. env_id (envs (env_init s) e) = 0)"
proof -
  let ?f = "\<lambda>i. upd_env i (\<lambda>x. x\<lparr>env_status := ENV_FREE, env_id := 0, env_link := Some (Suc i)\<rparr>)"
  have fold: "envs (fold ?f [0..<n] s) x =
      (if x < n then (envs s x)\<lparr>env_status := ENV_FREE, env_id := 0, env_link := Some (Suc x)\<rparr> else envs s x)" for n x
    by (induction n) auto
  let ?t = "env_init s"
  have e: "env_link (envs ?t x) = (if x < NENV - 1 then Some (Suc x) else env_link (envs s x))"
    "x < NENV \<Longrightarrow> env_status (envs ?t x) = ENV_FREE \<and> env_id (envs ?t x) = 0" for x
    by (auto simp: env_init_def Let_def fold NENV_eq)
  have "chain (en_link ?t) (if k < NENV then Some k else None) [k..<NENV]" if "k \<le> NENV" for k
    using that
  proof (induction k rule: inc_induct)
    case base
    then show ?case by simp
  next
    case (step n)
    then have "en_link ?t n = (if Suc n < NENV then Some (Suc n) else None)"
    proof (cases "Suc n < NENV")
      case False
      then have "n = NENV - 1" using step(2) by simp
      then show ?thesis using assms False by (simp add: e(1))
    next
      case True
      then have "n < NENV - 1" by simp
      then show ?thesis using True by (simp add: e(1))
    qed
    then show ?case using step by (simp add: upt_conv_Cons)
  qed
  from this [of 0] have "chain (en_link ?t) (Some 0) [0..<NENV]" by (simp add: NENV_eq)
  moreover have "env_free_list ?t = Some 0" by (simp add: env_init_def Let_def)
  ultimately show ?thesis using e(2) by (auto simp: env_list_def envlist.on_list_def)
qed

lemma env_init_correct_witness: "env_list (env_init bss_state) [0..<1024]"
  using env_init_correct [of bss_state] by (simp add: bss_state_def zero_env_def NENV_eq)

end
