(* ===== verification/UserMem.thy ===== *)
theory UserMem
  imports EnvInv
begin

text \<open>
  The check of user pointers, \<open>user_mem_check\<close> of \<^verbatim>\<open>kern/pmap.c\<close>: its byte-by-byte loop
  decides exactly whether every page of the range is mapped with the permissions asked for.
\<close>

section \<open>The loop\<close>

definition access_ok :: "nat \<Rightarrow> u32 \<Rightarrow> u32 \<Rightarrow> kstate \<Rightarrow> bool" where
  "access_ok d perm va s \<longleftrightarrow>
     slot s (va_slot d va) AND PTE_P \<noteq> 0 \<and> slot s (va_slot d va) AND perm = perm"

text \<open>The tables below \<open>ULIM\<close> name existing pages only, so that no lookup panics.\<close>

definition lookup_ok :: "nat \<Rightarrow> kstate \<Rightarrow> bool" where
  "lookup_ok d s \<longleftrightarrow> mem_ok s \<and> (\<forall>va < ULIM. table s d (pdx va) < npages s \<and>
     (slot s (va_slot d va) AND PTE_P \<noteq> 0 \<longrightarrow> unat (PGNUM (slot s (va_slot d va))) < npages s))"

lemma user_mem_loop_step:
  assumes "lookup_ok d s" "va < ULIM"
  shows "user_mem_loop (Suc n) d va perm s =
    (if access_ok d perm va s then user_mem_loop n d (va + 1) perm s
     else Return (- E_FAULT) (s\<lparr>user_mem_check_addr := va\<rparr>))"
proof -
  have l: "mem_ok s" "table s d (pdx va) < npages s"
    "slot s (va_slot d va) AND PTE_P \<noteq> 0 \<longrightarrow> unat (PGNUM (slot s (va_slot d va))) < npages s"
    using assms by (simp_all add: lookup_ok_def)
  show ?thesis
  proof (cases "slot s (va_slot d va) AND PTE_P = 0")
    case True
    then show ?thesis by (simp add: page_lookup_gen [OF l] access_ok_def split: option.splits)
  next
    case False
    then have pr: "present s d (pdx va)" by (auto simp: slot_def va_slot_def split: if_splits)
    then have "load_pte (table s d (pdx va), ptx va) s = slot s (va_slot d va)"
      by (simp add: load_slot va_slot_def)
    then show ?thesis using False pr by (simp add: page_lookup_gen [OF l] access_ok_def)
  qed
qed

lemma user_mem_loop_spec:
  assumes "lookup_ok d s" "unat va + n < unat ULIM"
  shows "user_mem_loop n d va perm s =
    (case find (\<lambda>i. \<not> access_ok d perm (va + of_nat i) s) [0..<n] of
       None \<Rightarrow> Return 0 s
     | Some i \<Rightarrow> Return (- E_FAULT) (s\<lparr>user_mem_check_addr := va + of_nat i\<rparr>))"
  using assms(2)
proof (induction n arbitrary: va)
  case 0
  then show ?case by simp
next
  case (Suc n)
  have lt: "va < ULIM" using Suc.prems by (simp add: word_less_nat_alt)
  have "unat (va + 1) = unat va + 1"
    using Suc.prems unat_u32 [of ULIM] by (simp add: unat_word_ariths)
  then have IH: "user_mem_loop n d (va + 1) perm s =
    (case find (\<lambda>i. \<not> access_ok d perm (va + 1 + of_nat i) s) [0..<n] of
       None \<Rightarrow> Return 0 s
     | Some i \<Rightarrow> Return (- E_FAULT) (s\<lparr>user_mem_check_addr := va + 1 + of_nat i\<rparr>))"
    using Suc by simp
  have up: "[0..<Suc n] = 0 # map Suc [0..<n]" by (simp add: map_Suc_upt upt_conv_Cons del: upt_Suc)
  have find_map: "find P (map Suc xs) = map_option Suc (find (\<lambda>i. P (Suc i)) xs)" for P and xs :: "nat list"
    by (induction xs) auto
  show ?case
    unfolding user_mem_loop_step [OF assms(1) lt] up
    by (auto simp: IH find_map add.assoc split: option.splits)
qed

text \<open>
  C21. \<open>user_mem_check\<close> accepts a range exactly when it lies below \<open>ULIM\<close> with its end,
  does not wrap around, and every page it touches is mapped with the permissions asked for;
  on a bad page it returns \<open>-E_FAULT\<close> and \<open>user_mem_check_addr\<close> is the first address of
  the range that is not accessible.
\<close>

theorem user_mem_check_correct:
  assumes pg: "env_pgdir (envs s e) = Some d" and ok: "lookup_ok d s"
  shows "user_mem_check e va len perm s =
    (if ULIM \<le> va then Return (- E_FAULT) (s\<lparr>user_mem_check_addr := va\<rparr>)
     else if 0xef800000 \<le> unat va + unat len then Return (- E_FAULT) (s\<lparr>user_mem_check_addr := ULIM\<rparr>)
     else case find (\<lambda>i. \<not> access_ok d perm (va + of_nat i) s) [0..<unat len] of
            None \<Rightarrow> Return 0 s
          | Some i \<Rightarrow> Return (- E_FAULT) (s\<lparr>user_mem_check_addr := va + of_nat i\<rparr>))"
proof -
  have ul: "unat ULIM = 0xef800000" by (simp add: layout_defs)
  show ?thesis
  proof (cases "ULIM \<le> va")
    case True
    then show ?thesis by (simp add: user_mem_check_def)
  next
    case False
    then have va: "unat va < 0xef800000" using ul by (simp add: word_le_nat_alt)
    show ?thesis
    proof (cases "0xef800000 \<le> unat va + unat len")
      case True
      have "ULIM \<le> va + len \<or> va + len < va"
      proof (cases "unat va + unat len < 2 ^ 32")
        case True
        then show ?thesis using \<open>0xef800000 \<le> unat va + unat len\<close> ul by (simp add: word_le_nat_alt unat_word_ariths)
      next
        case False
        then have "unat (va + len) = unat va + unat len - 2 ^ 32"
          using unat_u32 [of va] unat_u32 [of len] by (simp add: unat_word_ariths mod_if le_mod_geq)
        then have "unat (va + len) < unat va" using unat_u32 [of len] unat_u32 [of va] False by simp
        then show ?thesis by (simp add: word_less_nat_alt)
      qed
      then show ?thesis using \<open>\<not> ULIM \<le> va\<close> True by (simp add: user_mem_check_def)
    next
      case nb: False
      then have u: "unat (va + len) = unat va + unat len" by (simp add: unat_word_ariths)
      then have "\<not> (ULIM \<le> va + len \<or> va + len < va)" using nb ul by (simp add: word_le_nat_alt word_less_nat_alt)
      then show ?thesis
        using \<open>\<not> ULIM \<le> va\<close> nb ul pg user_mem_loop_spec [OF ok, of va "unat len" perm]
        by (simp add: user_mem_check_def)
    qed
  qed
qed

text \<open>A machine with page 4 mapped read-only for the user at address 0 and nothing else.\<close>

definition user_page :: kstate where
  "user_page = bss_state\<lparr>npages := 8, envs := (\<lambda>_. zero_env\<lparr>env_pgdir := Some 5\<rparr>),
     pmem := (\<lambda>_ _. 0)(5 := (\<lambda>_. 0)(0 := 0x6007), 6 := (\<lambda>_. 0)(0 := 0x4005))\<rparr>"

lemma user_page_slot:
  "slot user_page (va_slot 5 va) = (if PGNUM va = 0 then 0x4005 else 0)" "table user_page 5 i \<le> 6"
proof -
  have "PGNUM va = PGNUM 0 \<longleftrightarrow> pdx va = 0 \<and> ptx va = 0"
    by (simp add: PGNUM_eq_iff unat_eq_zero) (simp add: PDX_def PTX_def)
  then show "slot user_page (va_slot 5 va) = (if PGNUM va = 0 then 0x4005 else 0)"
    by (auto simp: slot_def va_slot_def present_def table_def user_page_def PGNUM_def layout_defs)
  show "table user_page 5 i \<le> 6" by (auto simp: table_def user_page_def PGNUM_def layout_defs)
qed

theorem user_mem_check_correct_witness:
  "user_mem_check 0 0xffe 2 (PTE_U OR PTE_P) user_page = Return 0 user_page \<and>
   user_mem_check 0 0xffe 3 (PTE_U OR PTE_P) user_page =
     Return (- E_FAULT) (user_page\<lparr>user_mem_check_addr := 0x1000\<rparr>) \<and>
   user_mem_check 0 0 1 PTE_W user_page = Return (- E_FAULT) (user_page\<lparr>user_mem_check_addr := 0\<rparr>)"
proof -
  have pg: "env_pgdir (envs user_page 0) = Some 5" by (simp add: user_page_def)
  have tab: "table user_page 5 (pdx va) < npages user_page" for va
    using user_page_slot(2) [of "pdx va"] by (simp add: user_page_def)
  have pn: "unat (PGNUM 0x4005) < npages user_page" "npages user_page \<le> 2 ^ 20"
    by (simp_all add: user_page_def PGNUM_def PTXSHIFT_def)
  have ok: "lookup_ok 5 user_page"
    unfolding lookup_ok_def mem_ok_def
  proof (intro conjI allI impI)
    fix va assume "slot user_page (va_slot 5 va) AND PTE_P \<noteq> 0"
    then have "slot user_page (va_slot 5 va) = 0x4005" unfolding user_page_slot by (auto split: if_splits)
    then show "unat (PGNUM (slot user_page (va_slot 5 va))) < npages user_page" using pn(1) by simp
  qed (rule pn(2), rule tab)
  have ac: "access_ok 5 p a user_page \<longleftrightarrow> PGNUM a = 0 \<and> 0x4005 AND p = p" for p a
    by (simp add: access_ok_def user_page_slot PTE_P_def)
  have pgn: "PGNUM 0xffe = 0" "PGNUM 0xfff = 0" "PGNUM 0x1000 = 1" "PGNUM 0 = 0"
    by (simp_all add: PGNUM_def PTXSHIFT_def)
  have up: "[0..<2] = [0, 1 :: nat]" "[0..<3] = [0, 1, 2 :: nat]" by (simp_all add: upt_rec)
  have ul: "\<not> ULIM \<le> 0xffe" "\<not> ULIM \<le> 0" by (simp_all add: layout_defs)
  have pm: "0x4005 AND (PTE_U OR PTE_P) = PTE_U OR PTE_P" "0x4005 AND PTE_W \<noteq> PTE_W" by (simp_all add: layout_defs)
  have "user_mem_check 0 0xffe 2 (PTE_U OR PTE_P) user_page = Return 0 user_page"
    using user_mem_check_correct [OF pg ok, of "0xffe" 2 "PTE_U OR PTE_P"] by (simp add: up ac pgn ul pm)
  moreover have "user_mem_check 0 0xffe 3 (PTE_U OR PTE_P) user_page =
     Return (- E_FAULT) (user_page\<lparr>user_mem_check_addr := 0x1000\<rparr>)"
    using user_mem_check_correct [OF pg ok, of "0xffe" 3 "PTE_U OR PTE_P"] by (simp add: up ac pgn ul pm)
  moreover have "user_mem_check 0 0 1 PTE_W user_page = Return (- E_FAULT) (user_page\<lparr>user_mem_check_addr := 0\<rparr>)"
    using user_mem_check_correct [OF pg ok, of 0 1 PTE_W] by (simp add: ac pgn ul pm)
  ultimately show ?thesis by blast
qed

end
