(* ===== verification/CString.thy ===== *)
theory CString
  imports Prelude
begin

text \<open>
  The string and memory routines of \<^verbatim>\<open>lib/string.c\<close>, on a byte-addressed memory with
  32-bit pointers. The loops that run to a terminating NUL are partial functions (a memory
  without NUL makes them loop), the counted ones are recursions on their count. The
  word-wise string instructions of \<open>memset\<close> and \<open>memmove\<close> are proved equivalent to
  the plain effect of copying, overlapping buffers included.
\<close>

section \<open>Storing words\<close>

definition store32 :: "u32 \<Rightarrow> u32 \<Rightarrow> mem \<Rightarrow> mem" where
  "store32 a w m = m(a := get_byte w 0, a + 1 := get_byte w 1, a + 2 := get_byte w 2, a + 3 := get_byte w 3)"

section \<open>Strings\<close>

partial_function (option) strlen_loop :: "mem \<Rightarrow> u32 \<Rightarrow> u32 \<Rightarrow> u32 option" where
  "strlen_loop m s n = (if m s \<noteq> 0 then strlen_loop m (s + 1) (n + 1) else Some n)"

definition strlen :: "mem \<Rightarrow> u32 \<Rightarrow> u32 option" where
  "strlen m s = strlen_loop m s 0"

primrec strnlen_loop :: "nat \<Rightarrow> mem \<Rightarrow> u32 \<Rightarrow> u32 \<Rightarrow> u32" where
  "strnlen_loop 0 m s n = n"
| "strnlen_loop (Suc k) m s n = (if m s \<noteq> 0 then strnlen_loop k m (s + 1) (n + 1) else n)"

definition strnlen :: "mem \<Rightarrow> u32 \<Rightarrow> u32 \<Rightarrow> u32" where
  "strnlen m s sz = strnlen_loop (unat sz) m s 0"

partial_function (option) strcpy :: "mem \<Rightarrow> u32 \<Rightarrow> u32 \<Rightarrow> mem option" where
  "strcpy m dst src =
     (let m' = m(dst := m src) in if m src \<noteq> 0 then strcpy m' (dst + 1) (src + 1) else Some m')"

definition strcat :: "mem \<Rightarrow> u32 \<Rightarrow> u32 \<Rightarrow> mem option" where
  "strcat m dst src = (case strlen m dst of None \<Rightarrow> None | Some len \<Rightarrow> strcpy m (dst + len) src)"

primrec strncpy_loop :: "nat \<Rightarrow> mem \<Rightarrow> u32 \<Rightarrow> u32 \<Rightarrow> mem" where
  "strncpy_loop 0 m dst src = m"
| "strncpy_loop (Suc k) m dst src =
     (let m' = m(dst := m src) in strncpy_loop k m' (dst + 1) (if m' src \<noteq> 0 then src + 1 else src))"

definition strncpy :: "mem \<Rightarrow> u32 \<Rightarrow> u32 \<Rightarrow> u32 \<Rightarrow> mem" where
  "strncpy m dst src sz = strncpy_loop (unat sz) m dst src"

text \<open>\<open>k\<close> is \<open>size\<close> after the decrement of the loop condition; the result is the end of \<open>dst\<close>.\<close>

primrec strlcpy_loop :: "nat \<Rightarrow> mem \<Rightarrow> u32 \<Rightarrow> u32 \<Rightarrow> mem \<times> u32" where
  "strlcpy_loop 0 m dst src = (m, dst)"
| "strlcpy_loop (Suc k) m dst src =
     (if m src \<noteq> 0 then strlcpy_loop k (m(dst := m src)) (dst + 1) (src + 1) else (m, dst))"

definition strlcpy :: "mem \<Rightarrow> u32 \<Rightarrow> u32 \<Rightarrow> u32 \<Rightarrow> mem \<times> u32" where
  "strlcpy m dst src sz =
     (if sz > 0 then let (m, d) = strlcpy_loop (unat sz - 1) m dst src in (m(d := 0), d - dst)
      else (m, 0))"

definition byte_diff :: "u8 \<Rightarrow> u8 \<Rightarrow> int" where
  "byte_diff a b = uint a - uint b"

partial_function (option) strcmp :: "mem \<Rightarrow> u32 \<Rightarrow> u32 \<Rightarrow> int option" where
  "strcmp m p q =
     (if m p \<noteq> 0 \<and> m p = m q then strcmp m (p + 1) (q + 1) else Some (byte_diff (m p) (m q)))"

primrec strncmp_loop :: "nat \<Rightarrow> mem \<Rightarrow> u32 \<Rightarrow> u32 \<Rightarrow> int" where
  "strncmp_loop 0 m p q = 0"
| "strncmp_loop (Suc n) m p q =
     (if m p \<noteq> 0 \<and> m p = m q then strncmp_loop n m (p + 1) (q + 1) else byte_diff (m p) (m q))"

definition strncmp :: "mem \<Rightarrow> u32 \<Rightarrow> u32 \<Rightarrow> u32 \<Rightarrow> int" where
  "strncmp m p q n = strncmp_loop (unat n) m p q"

text \<open>NULL is address 0.\<close>

partial_function (option) strchr :: "mem \<Rightarrow> u32 \<Rightarrow> u8 \<Rightarrow> u32 option" where
  "strchr m s c = (if m s \<noteq> 0 then if m s = c then Some s else strchr m (s + 1) c else Some 0)"

partial_function (option) strfind :: "mem \<Rightarrow> u32 \<Rightarrow> u8 \<Rightarrow> u32 option" where
  "strfind m s c = (if m s \<noteq> 0 then if m s = c then Some s else strfind m (s + 1) c else Some s)"

section \<open>Memory blocks\<close>

text \<open>The string instructions, with a count, a direction and a unit.\<close>

primrec stosb :: "nat \<Rightarrow> u32 \<Rightarrow> u8 \<Rightarrow> mem \<Rightarrow> mem" where
  "stosb 0 p b m = m"
| "stosb (Suc n) p b m = stosb n (p + 1) b (m(p := b))"

primrec stosl :: "nat \<Rightarrow> u32 \<Rightarrow> u32 \<Rightarrow> mem \<Rightarrow> mem" where
  "stosl 0 p w m = m"
| "stosl (Suc n) p w m = stosl n (p + 4) w (store32 p w m)"

primrec movsb :: "nat \<Rightarrow> u32 \<Rightarrow> u32 \<Rightarrow> mem \<Rightarrow> mem" where
  "movsb 0 d s m = m"
| "movsb (Suc n) d s m = movsb n (d + 1) (s + 1) (m(d := m s))"

primrec movsl :: "nat \<Rightarrow> u32 \<Rightarrow> u32 \<Rightarrow> mem \<Rightarrow> mem" where
  "movsl 0 d s m = m"
| "movsl (Suc n) d s m = movsl n (d + 4) (s + 4) (store32 d (read32 m s) m)"

primrec movsb_down :: "nat \<Rightarrow> u32 \<Rightarrow> u32 \<Rightarrow> mem \<Rightarrow> mem" where
  "movsb_down 0 d s m = m"
| "movsb_down (Suc n) d s m = movsb_down n (d - 1) (s - 1) (m(d := m s))"

primrec movsl_down :: "nat \<Rightarrow> u32 \<Rightarrow> u32 \<Rightarrow> mem \<Rightarrow> mem" where
  "movsl_down 0 d s m = m"
| "movsl_down (Suc n) d s m = movsl_down n (d - 4) (s - 4) (store32 d (read32 m s) m)"

definition memset :: "u32 \<Rightarrow> u32 \<Rightarrow> u32 \<Rightarrow> mem \<Rightarrow> mem" where
  "memset v c n m =
     (if n = 0 then m
      else if v mod 4 = 0 \<and> n mod 4 = 0 then
        let c = c AND 0xFF; c = push_bit 24 c OR push_bit 16 c OR push_bit 8 c OR c
        in stosl (unat (n div 4)) v c m
      else stosb (unat n) v (ucast c) m)"

definition memmove :: "u32 \<Rightarrow> u32 \<Rightarrow> u32 \<Rightarrow> mem \<Rightarrow> mem" where
  "memmove dst src n m =
     (if src < dst \<and> src + n > dst then
        let s = src + n; d = dst + n in
        if s mod 4 = 0 \<and> d mod 4 = 0 \<and> n mod 4 = 0 then movsl_down (unat (n div 4)) (d - 4) (s - 4) m
        else movsb_down (unat n) (d - 1) (s - 1) m
      else
        if src mod 4 = 0 \<and> dst mod 4 = 0 \<and> n mod 4 = 0 then movsl (unat (n div 4)) dst src m
        else movsb (unat n) dst src m)"

definition memcpy :: "u32 \<Rightarrow> u32 \<Rightarrow> u32 \<Rightarrow> mem \<Rightarrow> mem" where
  "memcpy dst src n m = memmove dst src n m"

primrec memcmp_loop :: "nat \<Rightarrow> mem \<Rightarrow> u32 \<Rightarrow> u32 \<Rightarrow> int" where
  "memcmp_loop 0 m s1 s2 = 0"
| "memcmp_loop (Suc n) m s1 s2 =
     (if m s1 \<noteq> m s2 then byte_diff (m s1) (m s2) else memcmp_loop n m (s1 + 1) (s2 + 1))"

definition memcmp :: "mem \<Rightarrow> u32 \<Rightarrow> u32 \<Rightarrow> u32 \<Rightarrow> int" where
  "memcmp m v1 v2 n = memcmp_loop (unat n) m v1 v2"

primrec memfind_loop :: "nat \<Rightarrow> mem \<Rightarrow> u32 \<Rightarrow> u8 \<Rightarrow> u32" where
  "memfind_loop 0 m s c = s"
| "memfind_loop (Suc n) m s c = (if m s = c then s else memfind_loop n m (s + 1) c)"

text \<open>The loop runs while \<open>s < ends\<close>: not at all when \<open>s + n\<close> wraps around.\<close>

definition memfind :: "mem \<Rightarrow> u32 \<Rightarrow> u32 \<Rightarrow> u32 \<Rightarrow> u32" where
  "memfind m s c n = (if s < s + n then memfind_loop (unat n) m s (ucast c) else s)"

section \<open>Numbers\<close>

text \<open>The value of a digit or letter; the loop stops at anything else.\<close>

definition digit_of :: "u8 \<Rightarrow> int option" where
  "digit_of c =
     (let v = sint c in
      if 48 \<le> v \<and> v \<le> 57 then Some (v - 48)
      else if 97 \<le> v \<and> v \<le> 122 then Some (v - 97 + 10)
      else if 65 \<le> v \<and> v \<le> 90 then Some (v - 65 + 10)
      else None)"

partial_function (option) strtol_digits :: "mem \<Rightarrow> u32 \<Rightarrow> u32 \<Rightarrow> u32 \<Rightarrow> (u32 \<times> u32) option" where
  "strtol_digits m s base val =
     (case digit_of (m s) of None \<Rightarrow> Some (val, s)
      | Some dig \<Rightarrow> if dig \<ge> sint base then Some (val, s)
                    else strtol_digits m (s + 1) base (val * base + of_int dig))"

partial_function (option) skip_blanks :: "mem \<Rightarrow> u32 \<Rightarrow> u32 option" where
  "skip_blanks m s = (if m s = 32 \<or> m s = 9 then skip_blanks m (s + 1) else Some s)"

text \<open>The result and the pointer stored in \<open>*endptr\<close>.\<close>

definition strtol :: "mem \<Rightarrow> u32 \<Rightarrow> u32 \<Rightarrow> (u32 \<times> u32) option" where
  "strtol m s base =
     (case skip_blanks m s of None \<Rightarrow> None
      | Some s \<Rightarrow>
         let (s, neg) = (if m s = 43 then (s + 1, False) else if m s = 45 then (s + 1, True) else (s, False));
             (s, base) = (if (base = 0 \<or> base = 16) \<and> m s = 48 \<and> m (s + 1) = 120 then (s + 2, 16)
                          else if base = 0 \<and> m s = 48 then (s + 1, 8)
                          else if base = 0 then (s, 10) else (s, base))
         in (case strtol_digits m s base 0 of None \<Rightarrow> None
             | Some (val, s) \<Rightarrow> Some (if neg then - val else val, s)))"

section \<open>The block operations are copies\<close>

definition filled :: "u32 \<Rightarrow> u8 \<Rightarrow> nat \<Rightarrow> mem \<Rightarrow> mem" where
  "filled v b n m = (\<lambda>a. if unat (a - v) < n then b else m a)"

definition copied :: "u32 \<Rightarrow> u32 \<Rightarrow> nat \<Rightarrow> mem \<Rightarrow> mem" where
  "copied d s n m = (\<lambda>a. if unat (a - d) < n then m (s + (a - d)) else m a)"

lemma unat_pred: "(x :: u32) \<noteq> 0 \<Longrightarrow> unat (x - 1) = unat x - 1"
  by (rule unat_minus_one)

lemma unat_sub_1: "unat ((a :: u32) - (d + 1)) = (if a = d then 2 ^ 32 - 1 else unat (a - d) - 1)"
proof (cases "a = d")
  case True
  then show ?thesis by (simp add: unsigned_minus_1_eq_mask mask_eq_exp_minus_1)
next
  case False
  then have "unat (a - d - 1) = unat (a - d) - 1" by (intro unat_pred) simp
  then show ?thesis using False by (simp add: diff_diff_eq)
qed

lemma stosb_filled: "n < 2 ^ 32 \<Longrightarrow> stosb n v b m = filled v b n m"
proof (induction n arbitrary: v m)
  case 0
  then show ?case by (simp add: filled_def)
next
  case (Suc n)
  have "(if unat (a - (v + 1)) < n then b else (m(v := b)) a) = (if unat (a - v) < Suc n then b else m a)" for a
  proof (cases "a = v")
    case True
    then show ?thesis using Suc.prems by (simp add: unat_sub_1)
  next
    case False
    then have "unat (a - v) \<noteq> 0" by (simp add: unat_eq_zero)
    then show ?thesis using False by (auto simp: unat_sub_1)
  qed
  then show ?case using Suc by (simp add: filled_def)
qed

lemma stosl_stosb:
  assumes "\<And>k. k < 4 \<Longrightarrow> get_byte w k = b"
  shows "stosl n p w m = stosb (4 * n) p b m"
proof (induction n arbitrary: p m)
  case 0
  then show ?case by simp
next
  case (Suc n)
  have "store32 p w m = m(p := b, p + 1 := b, p + 1 + 1 := b, p + 1 + 1 + 1 := b)"
    using assms [of 0] assms [of 1] assms [of 2] assms [of 3] by (simp add: store32_def add.assoc)
  then have "stosl (Suc n) p w m = stosb (Suc (Suc (Suc (Suc (4 * n))))) p b m"
    by (simp add: Suc add.assoc del: fun_upd_apply)
  moreover have "Suc (Suc (Suc (Suc (4 * n)))) = 4 * Suc n" by simp
  ultimately show ?case by metis
qed

lemma pattern_byte:
  assumes b: "\<And>i. bit x i \<longleftrightarrow> i < 8 \<and> bit c i" and "k < 4"
  shows "get_byte (push_bit 24 x OR push_bit 16 x OR push_bit 8 x OR x) k = (ucast (c :: u32) :: u8)"
proof (rule bit_eqI)
  fix n
  have "k = 0 \<or> k = 1 \<or> k = 2 \<or> k = 3" using assms(2) by auto
  then show "bit (get_byte (push_bit 24 x OR push_bit 16 x OR push_bit 8 x OR x) k) n = bit (ucast c :: u8) n"
    by (auto simp: get_byte_def bit_ucast_iff bit_drop_bit_eq bit_or_iff bit_push_bit_iff b)
qed

lemma movsb_copied:
  assumes "n < 2 ^ 32" "d = s \<or> n \<le> unat (d - s)"
  shows "movsb n d s m = copied d s n m"
  using assms
proof (induction n arbitrary: d s m)
  case 0
  then show ?case by (simp add: copied_def)
next
  case (Suc n)
  have IH: "movsb n (d + 1) (s + 1) (m(d := m s)) = copied (d + 1) (s + 1) n (m(d := m s))"
    using Suc by auto
  have "copied (d + 1) (s + 1) n (m(d := m s)) a = copied d s (Suc n) m a" for a
  proof (cases "a = d \<or> \<not> unat (a - d) < Suc n")
    case True
    then show ?thesis using Suc.prems by (auto simp: copied_def unat_sub_1)
  next
    case False
    then have lt: "unat (a - (d + 1)) < n" using unat_sub_1 [of a d] unat_eq_zero [of "a - d"] by auto
    have "s + (a - d) \<noteq> d \<or> d = s"
    proof (rule ccontr)
      assume "\<not> ?thesis"
      then have "a - d = d - s" "d \<noteq> s" by (auto simp: algebra_simps)
      then show False using Suc.prems(2) False by auto
    qed
    then have "(m(d := m s)) (s + (a - d)) = m (s + (a - d))" by auto
    moreover have "s + 1 + (a - (d + 1)) = s + (a - d)" by simp
    ultimately show ?thesis using lt False by (simp add: copied_def)
  qed
  then show ?case using IH by auto
qed

definition copied_down :: "u32 \<Rightarrow> u32 \<Rightarrow> nat \<Rightarrow> mem \<Rightarrow> mem" where
  "copied_down d s n m = (\<lambda>a. if unat (d - a) < n then m (s + (a - d)) else m a)"

lemma movsb_down_copied:
  assumes "n < 2 ^ 32" "d = s \<or> n \<le> unat (s - d)"
  shows "movsb_down n d s m = copied_down d s n m"
  using assms
proof (induction n arbitrary: d s m)
  case 0
  then show ?case by (simp add: copied_down_def)
next
  case (Suc n)
  have IH: "movsb_down n (d - 1) (s - 1) (m(d := m s)) = copied_down (d - 1) (s - 1) n (m(d := m s))"
    using Suc by auto
  have u: "unat (d - 1 - a) = (if a = d then 2 ^ 32 - 1 else unat (d - a) - 1)" for a
    using unat_sub_1 [of "d" "a"] by (auto simp: algebra_simps)
  have "copied_down (d - 1) (s - 1) n (m(d := m s)) a = copied_down d s (Suc n) m a" for a
  proof (cases "a = d \<or> \<not> unat (d - a) < Suc n")
    case True
    then show ?thesis using Suc.prems by (auto simp: copied_down_def u)
  next
    case False
    then have lt: "unat (d - 1 - a) < n" using u [of a] unat_eq_zero [of "d - a"] by auto
    have "s + (a - d) \<noteq> d \<or> d = s"
    proof (rule ccontr)
      assume "\<not> ?thesis"
      then have "d - a = s - d" "d \<noteq> s" by (auto simp: algebra_simps)
      then show False using Suc.prems(2) False by auto
    qed
    then have "(m(d := m s)) (s + (a - d)) = m (s + (a - d))" by auto
    moreover have "s - 1 + (a - (d - 1)) = s + (a - d)" by simp
    ultimately show ?thesis using lt False by (simp add: copied_down_def)
  qed
  then show ?case using IH by auto
qed

lemma read32_byte:
  assumes "k < 4"
  shows "get_byte (read32 m a) k = m (a + of_nat k)"
proof (rule bit_eqI)
  fix n
  have "k = 0 \<or> k = 1 \<or> k = 2 \<or> k = 3" using assms by auto
  then show "bit (get_byte (read32 m a) k) n = bit (m (a + of_nat k)) n"
    by (auto simp: get_byte_def read32_def bit_ucast_iff bit_drop_bit_eq bit_or_iff bit_push_bit_iff
        dest: bit_imp_le_length)
qed

lemma word_move:
  "store32 d (read32 m s) m = m(d := m s, d + 1 := m (s + 1), d + 2 := m (s + 2), d + 3 := m (s + 3))"
  using read32_byte [of 0 m s] read32_byte [of 1 m s] read32_byte [of 2 m s] read32_byte [of 3 m s]
  by (simp add: store32_def)

text \<open>Distances a multiple of four: a word move is four byte moves, in either direction.\<close>

definition far :: "u32 \<Rightarrow> u32 \<Rightarrow> bool" where
  "far d s \<longleftrightarrow> d \<noteq> s + 1 \<and> d \<noteq> s + 2 \<and> d \<noteq> s + 3"

lemma movsl_movsb: "far d s \<Longrightarrow> movsl n d s m = movsb (4 * n) d s m"
proof (induction n arbitrary: d s m)
  case 0
  then show ?case by simp
next
  case (Suc n)
  have far: "s + 1 \<noteq> d" "s + 2 \<noteq> d" "s + 3 \<noteq> d" "s + 2 \<noteq> d + 1" "s + 3 \<noteq> d + 1" "s + 3 \<noteq> d + 2"
    using Suc.prems by (auto simp: far_def algebra_simps)
  have IH: "movsl n (d + 4) (s + 4) m' = movsb (4 * n) (d + 4) (s + 4) m'" for m'
    using Suc.prems by (intro Suc.IH) (auto simp: far_def algebra_simps)
  have "movsl (Suc n) d s m = movsb (Suc (Suc (Suc (Suc (4 * n))))) d s m"
    using far by (simp add: IH word_move add.assoc)
  moreover have "Suc (Suc (Suc (Suc (4 * n)))) = 4 * Suc n" by simp
  ultimately show ?case by metis
qed

lemma movsl_down_movsb: "far s d \<Longrightarrow> movsl_down n d s m = movsb_down (4 * n) (d + 3) (s + 3) m"
proof (induction n arbitrary: d s m)
  case 0
  then show ?case by simp
next
  case (Suc n)
  have far: "s \<noteq> d + 1" "s \<noteq> d + 2" "s \<noteq> d + 3" "s + 1 \<noteq> d + 2" "s + 1 \<noteq> d + 3" "s + 2 \<noteq> d + 3"
    using Suc.prems by (auto simp: far_def algebra_simps)
  have IH: "movsl_down n (d - 4) (s - 4) m' = movsb_down (4 * n) (d - 4 + 3) (s - 4 + 3) m'" for m'
    using Suc.prems by (intro Suc.IH) (auto simp: far_def algebra_simps)
  have "d + 3 - 1 = d + 2" "d + 2 - 1 = d + 1" "d + 1 - 1 = d" "d - 1 = d - 4 + 3"
    "s + 3 - 1 = s + 2" "s + 2 - 1 = s + 1" "s + 1 - 1 = s" "s - 1 = s - 4 + 3" by simp_all
  note eq = this
  have ne: "d \<noteq> d + 1" "d \<noteq> d + 2" "d \<noteq> d + 3" "d + 1 \<noteq> d + 2" "d + 1 \<noteq> d + 3" "d + 2 \<noteq> d + 3" by simp_all
  have "movsb_down (Suc (Suc (Suc (Suc (4 * n))))) (d + 3) (s + 3) m =
      movsb_down (4 * n) (d - 4 + 3) (s - 4 + 3) (m(d + 3 := m (s + 3), d + 2 := m (s + 2), d + 1 := m (s + 1), d := m s))"
    using far by (simp only: movsb_down.simps eq fun_upd_apply) simp
  also have "m(d + 3 := m (s + 3), d + 2 := m (s + 2), d + 1 := m (s + 1), d := m s) = store32 d (read32 m s) m"
    unfolding word_move using ne by (auto simp: fun_upd_def)
  finally have "movsl_down (Suc n) d s m = movsb_down (Suc (Suc (Suc (Suc (4 * n))))) (d + 3) (s + 3) m"
    by (simp add: IH)
  moreover have "Suc (Suc (Suc (Suc (4 * n)))) = 4 * Suc n" by simp
  ultimately show ?case by metis
qed

lemma unat_mod4: "(x :: u32) mod 4 = 0 \<longleftrightarrow> unat x mod 4 = 0"
proof -
  have "unat (x mod 4) = unat x mod 4" by (simp add: unat_mod)
  then show ?thesis by (metis unat_eq_zero)
qed

lemma unat_add_mod4: "unat ((a :: u32) + b) mod 4 = (unat a + unat b) mod 4"
proof -
  have "unat (a + b) = (unat a + unat b) mod 2 ^ 32" by (simp add: unat_word_ariths)
  then show ?thesis using mod_mod_cancel [of 4 "2 ^ 32" "unat a + unat b"] by simp
qed

lemma unat_diff32: "unat ((a :: u32) - b) = (if unat b \<le> unat a then unat a - unat b else unat a + 2 ^ 32 - unat b)"
  by (simp add: unat_sub_if_size word_size)

lemma aligned_far:
  assumes "(d :: u32) mod 4 = 0" "s mod 4 = 0"
  shows "far d s"
proof -
  have sm: "unat s mod 4 = 0" "unat d mod 4 = 0" using assms by (simp_all add: unat_mod4)
  have "unat (s + 1) mod 4 = 1" "unat (s + 2) mod 4 = 2" "unat (s + 3) mod 4 = 3"
    using sm(1) unat_add_mod4 [of s 1] unat_add_mod4 [of s 2] unat_add_mod4 [of s 3] by (simp_all add: mod_Suc) presburger+
  then show ?thesis using sm(2) by (auto simp: far_def)
qed

lemma n4: "(n :: u32) mod 4 = 0 \<Longrightarrow> 4 * unat (n div 4) = unat n"
  by (simp add: unat_mod4 unat_div) (simp add: mod_eq_0_iff_dvd)

lemma copied_down_copied:
  assumes "0 < n" "n < 2 ^ 32"
  shows "copied_down (d + of_nat n - 1) (s + of_nat n - 1) n m = copied d s n m"
proof
  fix a
  have un: "unat (of_nat n - 1 :: u32) = n - 1"
    using assms by (simp add: unat_diff32 unat_of_nat)
  have "d + of_nat n - 1 - a = (of_nat n - 1) - (a - d)" by simp
  then have "unat (d + of_nat n - 1 - a) =
      (if unat (a - d) \<le> n - 1 then n - 1 - unat (a - d) else n - 1 + 2 ^ 32 - unat (a - d))"
    using unat_diff32 [of "of_nat n - 1" "a - d"] un by metis
  then have "unat (d + of_nat n - 1 - a) < n \<longleftrightarrow> unat (a - d) < n"
    using assms unat_u32 [of "a - d"] by auto
  moreover have "s + of_nat n - 1 + (a - (d + of_nat n - 1)) = s + (a - d)" by simp
  ultimately show "copied_down (d + of_nat n - 1) (s + of_nat n - 1) n m a = copied d s n m a"
    by (simp add: copied_down_def copied_def)
qed

lemma memmove_up:
  assumes "unat src + unat n \<le> 2 ^ 32" "unat dst + unat n \<le> 2 ^ 32" "unat n < 2 ^ 32"
    and no: "\<not> (src < dst \<and> src + n > dst)"
  shows "memmove dst src n m = copied dst src (unat n) m"
proof -
  have c: "dst = src \<or> unat n \<le> unat (dst - src)"
  proof (cases "src < dst")
    case True
    then have lt: "unat src + unat n < 2 ^ 32" using assms(2) by (simp add: word_less_nat_alt)
    then have "unat (src + n) = unat src + unat n" by (simp add: unat_word_ariths)
    then have "unat n \<le> unat dst - unat src" using no True by (simp add: word_less_nat_alt)
    then show ?thesis using True by (simp add: word_less_nat_alt unat_diff32)
  next
    case False
    then show ?thesis using assms(1) unat_diff32 [of dst src] by (auto simp: word_less_nat_alt word_unat_eq_iff)
  qed
  have b: "movsb (unat n) dst src m = copied dst src (unat n) m" by (rule movsb_copied [OF assms(3) c])
  show ?thesis
  proof (cases "src mod 4 = 0 \<and> dst mod 4 = 0 \<and> n mod 4 = 0")
    case True
    then have "movsl (unat (n div 4)) dst src m = movsb (unat n) dst src m"
      using movsl_movsb [OF aligned_far, of dst src "unat (n div 4)" m] n4 [of n] by simp
    then show ?thesis unfolding memmove_def if_not_P [OF no] if_P [OF True] b .
  next
    case False
    then show ?thesis unfolding memmove_def if_not_P [OF no] if_not_P [OF False] by (simp only: b)
  qed
qed

lemma memmove_down:
  assumes "unat src + unat n \<le> 2 ^ 32" "unat dst + unat n \<le> 2 ^ 32" "unat n < 2 ^ 32"
    and ov: "src < dst \<and> src + n > dst"
  shows "memmove dst src n m = copied dst src (unat n) m"
proof -
  have n0: "0 < unat n" using ov by (cases "n = 0") (auto simp: unat_gt_0 dest: less_asym)
  have sub: "src + n - 1 - (dst + n - 1) = src - dst" by simp
  have "unat n \<le> unat (src - dst)"
    using ov assms(2) unat_diff32 [of src dst] by (simp add: word_less_nat_alt)
  then have "movsb_down (unat n) (dst + n - 1) (src + n - 1) m = copied_down (dst + n - 1) (src + n - 1) (unat n) m"
    using movsb_down_copied [OF assms(3), of "dst + n - 1" "src + n - 1" m] unfolding sub by blast
  also have "\<dots> = copied dst src (unat n) m"
    using copied_down_copied [OF n0 assms(3), of dst src m] by simp
  finally have b: "movsb_down (unat n) (dst + n - 1) (src + n - 1) m = copied dst src (unat n) m" .
  show ?thesis
  proof (cases "(src + n) mod 4 = 0 \<and> (dst + n) mod 4 = 0 \<and> n mod 4 = 0")
    case True
    then have "far (src + n - 4) (dst + n - 4)"
      using aligned_far [of "src + n" "dst + n"] by (auto simp: far_def algebra_simps)
    then have "movsl_down (unat (n div 4)) (dst + n - 4) (src + n - 4) m = movsb_down (unat n) (dst + n - 4 + 3) (src + n - 4 + 3) m"
      using movsl_down_movsb [of "src + n - 4" "dst + n - 4" "unat (n div 4)" m] n4 [of n] True by simp
    moreover have "dst + n - 4 + 3 = dst + n - 1" "src + n - 4 + 3 = src + n - 1" by simp_all
    ultimately have "movsl_down (unat (n div 4)) (dst + n - 4) (src + n - 4) m = copied dst src (unat n) m"
      using b by metis
    then show ?thesis unfolding memmove_def if_P [OF ov] Let_def if_P [OF True] .
  next
    case False
    then show ?thesis unfolding memmove_def if_P [OF ov] Let_def if_not_P [OF False] by (simp only: b)
  qed
qed

lemma memmove_copied:
  assumes "unat src + unat n \<le> 2 ^ 32" "unat dst + unat n \<le> 2 ^ 32" "unat n < 2 ^ 32"
  shows "memmove dst src n m = copied dst src (unat n) m"
proof (cases "src < dst \<and> src + n > dst")
  case True
  then show ?thesis using memmove_down [OF assms, of m] by blast
next
  case False
  then show ?thesis using memmove_up [OF assms, of m] by blast
qed

text \<open>
  C35. \<open>memset\<close> and \<open>memmove\<close>, with their word-wise string instructions and their choice
  of direction, do what they say for all buffers that do not wrap around the address space:
  every byte of the destination gets the byte asked for, respectively the byte the source
  held before, even if the buffers overlap, and no other byte changes.
\<close>

theorem memset_memmove_correct:
  assumes "unat src + unat n \<le> 2 ^ 32" "unat dst + unat n \<le> 2 ^ 32" "unat n < 2 ^ 32"
  shows "memset dst c n m = filled dst (ucast c) (unat n) m \<and> memmove dst src n m = copied dst src (unat n) m"
proof
  have x: "bit (c AND 0xFF) i \<longleftrightarrow> i < 8 \<and> bit c i" for i
  proof -
    have "c AND 0xFF = take_bit 8 c" by (simp add: take_bit_eq_mask mask_eq_exp_minus_1)
    then show ?thesis by (simp add: bit_take_bit_iff)
  qed
  show "memset dst c n m = filled dst (ucast c) (unat n) m"
    using stosl_stosb [OF pattern_byte [OF x], of "unat (n div 4)" dst m] n4 [of n] stosb_filled [OF assms(3)]
    by (auto simp: memset_def Let_def filled_def)
  show "memmove dst src n m = copied dst src (unat n) m" by (rule memmove_copied [OF assms])
qed

theorem memset_memmove_correct_witness:
  "memset 0x1000 0x141 8 ucast 0x1007 = 0x41 \<and> memmove 0x1004 0x1000 8 ucast 0x1004 = 0 \<and>
   memmove 0x1001 0x1000 8 ucast 0x1008 = 7 \<and> memmove 0x1004 0x1000 8 ucast 0x100c = 0xc"
  using memset_memmove_correct [of "0x1000" 8 "0x1000" "0x141" ucast]
    memset_memmove_correct [of "0x1000" 8 "0x1004" 0 ucast] memset_memmove_correct [of "0x1000" 8 "0x1001" 0 ucast]
  by (simp add: filled_def copied_def)

section \<open>Strings are byte lists\<close>

primrec cstr :: "mem \<Rightarrow> u32 \<Rightarrow> u8 list \<Rightarrow> bool" where
  "cstr m s [] \<longleftrightarrow> m s = 0"
| "cstr m s (b # bs) \<longleftrightarrow> m s = b \<and> b \<noteq> 0 \<and> cstr m (s + 1) bs"

lemma strlen_loop_cstr: "cstr m s bs \<Longrightarrow> strlen_loop m s n = Some (n + of_nat (length bs))"
proof (induction bs arbitrary: s n)
  case Nil
  then show ?case by (subst strlen_loop.simps) simp
next
  case (Cons b bs)
  then show ?case by (subst strlen_loop.simps) (simp add: add.assoc)
qed

lemma byte_pos: "(w :: u8) \<noteq> 0 \<Longrightarrow> 0 < uint w"
  using word_gt_0 [of w] by (simp add: word_less_def)

lemma strcmp_cstr:
  assumes "cstr m p as" "cstr m q bs"
  shows "\<exists>r. strcmp m p q = Some r \<and> (r = 0 \<longleftrightarrow> as = bs) \<and> (r < 0 \<longleftrightarrow> (as, bs) \<in> lexord {(x, y). x < y})"
  using assms
proof (induction as arbitrary: p q bs)
  case Nil
  then show ?case
    by (subst strcmp.simps) (cases bs; auto simp: byte_diff_def dest: byte_pos)
next
  case (Cons a as)
  note A = this
  show ?case
  proof (cases "\<exists>cs. bs = a # cs")
    case True
    then obtain cs where bs: "bs = a # cs" by blast
    have step: "strcmp m p q = strcmp m (p + 1) (q + 1)"
      using A(2,3) bs by (subst strcmp.simps) simp
    show ?thesis using A(1) [of "p + 1" "q + 1" cs] A(2,3) by (simp add: step bs)
  next
    case False
    then have ne: "m p \<noteq> m q" using A(2,3) by (cases bs) auto
    then have step: "strcmp m p q = Some (byte_diff (m p) (m q))" by (subst strcmp.simps) simp
    show ?thesis
      using A(2,3) ne False step
      by (cases bs) (auto simp: byte_diff_def word_less_def word_uint_eq_iff)
  qed
qed

text \<open>
  On NUL-terminated strings \<open>strlen\<close> and \<open>strcmp\<close> terminate; \<open>strlen\<close> returns the
  length and \<open>strcmp\<close> compares lexicographically by unsigned bytes: its result is zero
  exactly for equal strings and negative exactly when the first comes first.
\<close>

lemma strlen_strcmp_correct:
  assumes "cstr m p as" "cstr m q bs"
  shows "strlen m p = Some (of_nat (length as)) \<and>
    (\<exists>r. strcmp m p q = Some r \<and> (r = 0 \<longleftrightarrow> as = bs) \<and> (r < 0 \<longleftrightarrow> (as, bs) \<in> lexord {(x, y). x < y}))"
  using strlen_loop_cstr [OF assms(1), of 0] strcmp_cstr [OF assms] by (simp add: strlen_def)

lemma strlen_strcmp_correct_witness:
  "\<exists>r < 0. strcmp ((\<lambda>_. 0)(0x1000 := 97, 0x1001 := 98, 0x2000 := 97, 0x2001 := 200)) 0x1000 0x2000 = Some r"
  using strlen_strcmp_correct [of "(\<lambda>_. 0)(0x1000 := 97, 0x1001 := 98, 0x2000 := 97, 0x2001 := 200)" "0x1000" "[97, 98]" "0x2000" "[97, 200]"]
  by auto

lemma strlcpy_loop_spec:
  assumes "k < 2 ^ 32" "\<And>i j. i \<le> k \<Longrightarrow> j \<le> k \<Longrightarrow> src + of_nat i \<noteq> dst + of_nat j"
  shows "\<exists>m' j. strlcpy_loop k m dst src = (m', dst + of_nat j) \<and> j \<le> k \<and>
    (\<forall>a. j \<le> unat (a - dst) \<longrightarrow> m' a = m a) \<and>
    (\<forall>i < j. m' (dst + of_nat i) = m (src + of_nat i) \<and> m (src + of_nat i) \<noteq> 0) \<and>
    (j < k \<longrightarrow> m (src + of_nat j) = 0)"
  using assms
proof (induction k arbitrary: m dst src)
  case 0
  then show ?case by (intro exI [of _ m] exI [of _ 0]) simp
next
  case (Suc k)
  show ?case
  proof (cases "m src = 0")
    case True
    then show ?thesis by (intro exI [of _ m] exI [of _ 0]) simp
  next
    case False
    let ?m = "m(dst := m src)"
    have dj: "src + 1 + of_nat i \<noteq> dst + 1 + of_nat j" if "i \<le> k" "j \<le> k" for i j
      using Suc.prems(2) [of "Suc i" "Suc j"] that by (simp add: algebra_simps)
    have sd: "?m (src + 1 + of_nat i) = m (src + 1 + of_nat i)" if "i \<le> k" for i
      using Suc.prems(2) [of "Suc i" 0] that by (simp add: algebra_simps)
    have k: "k < 2 ^ 32" using Suc.prems(1) by simp
    obtain m' j where j: "strlcpy_loop k ?m (dst + 1) (src + 1) = (m', dst + 1 + of_nat j)" "j \<le> k"
        "\<forall>a. j \<le> unat (a - (dst + 1)) \<longrightarrow> m' a = ?m a"
        "\<forall>i < j. m' (dst + 1 + of_nat i) = ?m (src + 1 + of_nat i) \<and> ?m (src + 1 + of_nat i) \<noteq> 0"
        "j < k \<longrightarrow> ?m (src + 1 + of_nat j) = 0"
      using Suc.IH [OF k dj, of ?m] by blast
    have shift: "x + of_nat (Suc i) = x + 1 + of_nat i" for x :: u32 and i by simp
    have "m' a = m a" if "Suc j \<le> unat (a - dst)" for a
      using j(3) that unat_sub_1 [of a dst] by (cases "a = dst") auto
    moreover have "m' (dst + of_nat i) = m (src + of_nat i) \<and> m (src + of_nat i) \<noteq> 0" if "i < Suc j" for i
    proof (cases i)
      case 0
      have "j \<le> unat (dst - (dst + 1))" using j(2) Suc.prems(1) unat_sub_1 [of dst dst] by auto
      then show ?thesis using 0 j(3) False by simp
    next
      case (Suc i')
      then have "i' < j" "i' \<le> k" using that j(2) by auto
      then have "m' (dst + 1 + of_nat i') = ?m (src + 1 + of_nat i')" "?m (src + 1 + of_nat i') \<noteq> 0"
        using j(4) by blast+
      then show ?thesis unfolding Suc shift sd [OF \<open>i' \<le> k\<close>] by blast
    qed
    ultimately show ?thesis
      using False j(1,2,5) sd by (intro exI [of _ m'] exI [of _ "Suc j"]) (simp add: add.assoc)
  qed
qed

text \<open>
  \<open>strlcpy\<close> never writes outside the \<open>size\<close> bytes of its destination, always
  terminates it, and copies the longest prefix of the source that fits: it stops before
  \<open>size - 1\<close> bytes only at the source's NUL. The buffers must not overlap.
\<close>

lemma strlcpy_bounded:
  assumes "sz > 0" "\<And>i j. i < unat sz \<Longrightarrow> j < unat sz \<Longrightarrow> src + of_nat i \<noteq> dst + of_nat j"
  shows "\<exists>m' j. strlcpy m dst src sz = (m', of_nat j) \<and> j < unat sz \<and> m' (dst + of_nat j) = 0 \<and>
    (\<forall>a. unat sz \<le> unat (a - dst) \<longrightarrow> m' a = m a) \<and>
    (\<forall>i < j. m' (dst + of_nat i) = m (src + of_nat i) \<and> m (src + of_nat i) \<noteq> 0) \<and>
    (j < unat sz - 1 \<longrightarrow> m (src + of_nat j) = 0)"
proof -
  have sz: "0 < unat sz" using assms(1) by (simp add: unat_gt_0 word_gt_0)
  let ?k = "unat sz - 1"
  have k: "?k < 2 ^ 32" using unat_u32 [of sz] by simp
  have dj: "src + of_nat i \<noteq> dst + of_nat j" if "i \<le> ?k" "j \<le> ?k" for i j
    using assms(2) [of i j] that sz by auto
  obtain m' j where j: "strlcpy_loop ?k m dst src = (m', dst + of_nat j)" "j \<le> ?k"
      "\<forall>a. j \<le> unat (a - dst) \<longrightarrow> m' a = m a"
      "\<forall>i < j. m' (dst + of_nat i) = m (src + of_nat i) \<and> m (src + of_nat i) \<noteq> 0"
      "j < ?k \<longrightarrow> m (src + of_nat j) = 0"
    using strlcpy_loop_spec [OF k dj, of m] by blast
  have uj: "unat (of_nat j :: u32) = j" using j(2) k by (simp add: unat_of_nat)
  have ne: "dst + of_nat i \<noteq> dst + (of_nat j :: u32)" if "i < j" for i
  proof
    assume "dst + of_nat i = dst + (of_nat j :: u32)"
    then have "unat (of_nat i :: u32) = j" using uj by simp
    then show False using that j(2) k by (simp add: unat_of_nat)
  qed
  let ?m = "m'(dst + of_nat j := 0)"
  have "?m a = m a" if "unat sz \<le> unat (a - dst)" for a
    using that j(2,3) sz uj by (cases "a = dst + of_nat j") auto
  then show ?thesis
    using assms(1) j(1,2,4,5) sz ne by (intro exI [of _ ?m] exI [of _ j]) (auto simp: strlcpy_def)
qed

lemma strlcpy_bounded_witness:
  "\<exists>m' j. strlcpy ((\<lambda>_. 65)(0x2001 := 0)) 0x1000 0x2000 4 = (m', of_nat j) \<and> m' (0x1000 + of_nat j) = 0 \<and> m' 0x1004 = 65"
proof -
  have "0x2000 + of_nat i \<noteq> (0x1000 + of_nat j :: u32)" if "i < 4" "j < 4" for i j
  proof -
    have "i \<in> {0, 1, 2, 3}" "j \<in> {0, 1, 2, 3}" using that by auto
    then show ?thesis by auto
  qed
  then show ?thesis
    using strlcpy_bounded [of 4 "0x2000" "0x1000" "(\<lambda>_. 65)(0x2001 := 0)"] by auto
qed

end
