(* ===== verification/Printf.thy ===== *)
theory Printf
  imports CString
begin

text \<open>
  Formatted printing: \<^verbatim>\<open>lib/printfmt.c\<close> with the output routines built on it,
  \<^verbatim>\<open>vsnprintf\<close> (same file), the kernel's \<open>vcprintf\<close> (\<^verbatim>\<open>kern/printf.c\<close>) and the buffered
  one of user programs (\<^verbatim>\<open>lib/printf.c\<close>). \<open>vprintfmt\<close> only calls its \<open>putch\<close>
  argument, so it is modelled by the list of characters it passes to it, in order. The
  format and the string arguments are pointers into memory, the variable arguments are the
  list of words on the stack; running past them is undefined, and so is a loop that
  never ends: both are \<open>None\<close>.
\<close>

section \<open>Numbers\<close>

definition digit_char :: "nat \<Rightarrow> u32" where
  "digit_char d = (if d < 10 then of_nat (48 + d) else of_nat (87 + d))"

text \<open>A base of 0 divides by zero; base 1 recurses for ever.\<close>

partial_function (option) printnum :: "u64 \<Rightarrow> u64 \<Rightarrow> int \<Rightarrow> u32 \<Rightarrow> u32 list \<Rightarrow> u32 list option" where
  "printnum num base width padc tail =
     (if base = 0 then None
      else if num \<ge> base then printnum (num div base) base (width - 1) padc (digit_char (unat (num mod base)) # tail)
      else Some (replicate (nat (width - 1)) padc @ digit_char (unat (num mod base)) # tail))"

definition getuint :: "nat \<Rightarrow> u32 list \<Rightarrow> (u64 \<times> u32 list) option" where
  "getuint lflag ap =
     (if lflag \<ge> 2 then (case ap of lo # hi # ap \<Rightarrow> Some (ucast lo OR push_bit 32 (ucast hi), ap) | _ \<Rightarrow> None)
      else (case ap of w # ap \<Rightarrow> Some (ucast w, ap) | _ \<Rightarrow> None))"

definition getint :: "nat \<Rightarrow> u32 list \<Rightarrow> (u64 \<times> u32 list) option" where
  "getint lflag ap =
     (if lflag \<ge> 2 then (case ap of lo # hi # ap \<Rightarrow> Some (ucast lo OR push_bit 32 (ucast hi), ap) | _ \<Rightarrow> None)
      else (case ap of w # ap \<Rightarrow> Some (scast w, ap) | _ \<Rightarrow> None))"

section \<open>Formats\<close>

record fmt_state =
  padc :: u32
  width :: int
  precision :: int
  lflag :: nat
  altflag :: bool

definition fmt_init :: fmt_state where
  "fmt_init = \<lparr>padc = 32, width = -1, precision = -1, lflag = 0, altflag = False\<rparr>"

definition process_precision :: "int \<Rightarrow> fmt_state \<Rightarrow> fmt_state" where
  "process_precision pr f =
     (if width f < 0 then f\<lparr>width := pr, precision := -1\<rparr> else f\<lparr>precision := pr\<rparr>)"

text \<open>
  The width loop: \<open>ch\<close> is the digit read last and \<open>fmt\<close> points behind it. The precision is an
  \<open>int\<close> of 32 bits and wraps around.
\<close>

partial_function (option) parse_width :: "mem \<Rightarrow> u32 \<Rightarrow> int \<Rightarrow> int \<Rightarrow> (int \<times> u32) option" where
  "parse_width m fmt ch pr =
     (let pr = sint (of_int (pr * 10 + ch - 48) :: u32); ch = sint (m fmt) in
      if ch < 48 \<or> ch > 57 then Some (pr, fmt) else parse_width m (fmt + 1) ch pr)"

text \<open>Going back to the percent sign of an unknown conversion.\<close>

partial_function (option) rewind :: "mem \<Rightarrow> u32 \<Rightarrow> u32 option" where
  "rewind m fmt = (if m (fmt - 1) \<noteq> 37 then rewind m (fmt - 1) else Some fmt)"

definition bytes_of :: "string \<Rightarrow> u8 list" where
  "bytes_of s = map of_char s"

text \<open>A string argument: NULL reads as \<open>(null)\<close>. Characters are signed.\<close>

definition str_byte :: "mem \<Rightarrow> u32 \<Rightarrow> nat \<Rightarrow> u8" where
  "str_byte m p i = (if p = 0 then (bytes_of ''(null)'' @ [0]) ! i else m (p + of_nat i))"

partial_function (option) str_len :: "mem \<Rightarrow> u32 \<Rightarrow> nat \<Rightarrow> nat \<Rightarrow> nat option" where
  "str_len m p lim i =
     (if i < lim \<and> str_byte m p i \<noteq> 0 then str_len m p lim (Suc i) else Some i)"

partial_function (option) str_chars ::
  "mem \<Rightarrow> u32 \<Rightarrow> nat \<Rightarrow> int \<Rightarrow> bool \<Rightarrow> int \<Rightarrow> u32 list \<Rightarrow> (u32 list \<times> int) option" where
  "str_chars m p i pr alt w out =
     (let ch = sint (str_byte m p i) in
      if ch \<noteq> 0 \<and> (pr < 0 \<or> pr - 1 \<ge> 0)
      then str_chars m p (Suc i) (if pr < 0 then pr else pr - 1) alt (w - 1)
             (out @ [if alt \<and> (ch < 32 \<or> ch > 126) then 63 else of_int ch])
      else Some (out, w))"

text \<open>The pad characters before the string, the string, the blanks after it.\<close>

definition print_str :: "mem \<Rightarrow> u32 \<Rightarrow> fmt_state \<Rightarrow> u32 list option" where
  "print_str m p f =
     (case (if width f > 0 \<and> padc f \<noteq> 45
            then (case str_len m p (unat (of_int (precision f) :: u32)) 0 of None \<Rightarrow> None
                  | Some n \<Rightarrow> let w = width f - int n in Some (replicate (nat w) (padc f), min w 0))
            else Some ([], width f)) of
        None \<Rightarrow> None
      | Some (pad, w) \<Rightarrow>
         (case str_chars m p 0 (precision f) (altflag f) w pad of None \<Rightarrow> None
          | Some (out, w) \<Rightarrow> Some (out @ replicate (nat w) 32)))"

definition MAXERROR :: int where "MAXERROR = 9"

definition error_string :: "int \<Rightarrow> string option" where
  "error_string e =
     (if e = 1 then Some ''unspecified error'' else if e = 2 then Some ''bad environment''
      else if e = 3 then Some ''invalid parameter'' else if e = 4 then Some ''out of memory''
      else if e = 5 then Some ''out of environments'' else if e = 6 then Some ''segmentation fault''
      else if e = 7 then Some ''env is not recving'' else if e = 8 then Some ''unexpected end of file''
      else None)"

text \<open>The negation of the least integer overflows, and the table is read out of bounds.\<close>

definition print_err :: "int \<Rightarrow> u32 list option" where
  "print_err err =
     (if err = - (2 ^ 31) then None else let err = (if err < 0 then - err else err) in
      if err \<ge> MAXERROR then map_option (\<lambda>ds. map ucast (bytes_of ''error '') @ ds) (printnum (of_int err) 10 (-1) 32 [])
      else (case error_string err of
              None \<Rightarrow> map_option (\<lambda>ds. map ucast (bytes_of ''error '') @ ds) (printnum (of_int err) 10 (-1) 32 [])
            | Some p \<Rightarrow> Some (map ucast (bytes_of p))))"

text \<open>One conversion: what it prints and the arguments left; \<open>None\<close> for an unknown one.\<close>

definition number :: "u64 \<Rightarrow> u64 \<Rightarrow> fmt_state \<Rightarrow> u32 list option" where
  "number num base f = printnum num base (width f) (padc f) []"

definition convert :: "mem \<Rightarrow> u8 \<Rightarrow> u32 list \<Rightarrow> fmt_state \<Rightarrow> (u32 list \<times> u32 list) option" where
  "convert m ch ap f =
     (if ch = 99 then (case ap of [] \<Rightarrow> None | c # ap \<Rightarrow> Some ([c], ap))
      else if ch = 101 then (case ap of [] \<Rightarrow> None | e # ap \<Rightarrow> map_option (\<lambda>out. (out, ap)) (print_err (sint e)))
      else if ch = 115 then (case ap of [] \<Rightarrow> None | p # ap \<Rightarrow> map_option (\<lambda>out. (out, ap)) (print_str m p f))
      else if ch = 100 then
        (case getint (lflag f) ap of None \<Rightarrow> None
         | Some (num, ap) \<Rightarrow>
             if sint num < 0 then map_option (\<lambda>out. (45 # out, ap)) (number (- num) 10 f)
             else map_option (\<lambda>out. (out, ap)) (number num 10 f))
      else if ch = 117 \<or> ch = 111 \<or> ch = 120 then
        (case getuint (lflag f) ap of None \<Rightarrow> None
         | Some (num, ap) \<Rightarrow>
             map_option (\<lambda>out. (out, ap)) (number num (if ch = 117 then 10 else if ch = 111 then 8 else 16) f))
      else if ch = 112 then
        (case ap of [] \<Rightarrow> None | p # ap \<Rightarrow> map_option (\<lambda>out. (48 # 120 # out, ap)) (number (ucast p) 16 f))
      else Some ([37], ap))"

definition conversions :: "u8 list" where
  "conversions = [99, 101, 115, 100, 117, 111, 120, 112, 37]"

text \<open>
  One character of the format. \<open>st\<close> is \<open>None\<close> in the text and the state of the
  conversion after a percent sign; the step ends with the output (\<open>Inl\<close>) at the final NUL,
  or goes on (\<open>Inr\<close>).
\<close>

record fmt_config =
  fmt :: u32
  ap :: "u32 list"
  st :: "fmt_state option"
  out :: "u32 list"

definition fmt_flag :: "mem \<Rightarrow> u8 \<Rightarrow> fmt_state \<Rightarrow> fmt_config \<Rightarrow> fmt_config option" where
  "fmt_flag m ch f c =
     (if ch = 45 then Some (c\<lparr>st := Some (f\<lparr>padc := 45\<rparr>)\<rparr>)
      else if ch = 48 then Some (c\<lparr>st := Some (f\<lparr>padc := 48\<rparr>)\<rparr>)
      else if 49 \<le> ch \<and> ch \<le> 57 then
        (case parse_width m (fmt c) (uint ch) 0 of None \<Rightarrow> None
         | Some (pr, x) \<Rightarrow> Some (c\<lparr>fmt := x, st := Some (process_precision pr f)\<rparr>))
      else if ch = 42 then
        (case ap c of [] \<Rightarrow> None | w # ws \<Rightarrow> Some (c\<lparr>ap := ws, st := Some (process_precision (sint w) f)\<rparr>))
      else if ch = 46 then Some (c\<lparr>st := Some (if width f < 0 then f\<lparr>width := 0\<rparr> else f)\<rparr>)
      else if ch = 35 then Some (c\<lparr>st := Some (f\<lparr>altflag := True\<rparr>)\<rparr>)
      else if ch = 108 then Some (c\<lparr>st := Some (f\<lparr>lflag := lflag f + 1\<rparr>)\<rparr>)
      else if ch \<in> set conversions then
        (case convert m ch (ap c) f of None \<Rightarrow> None
         | Some (o1, ws) \<Rightarrow> Some (c\<lparr>ap := ws, st := None, out := out c @ o1\<rparr>))
      else
        (case rewind m (fmt c - 1) of None \<Rightarrow> None
         | Some x \<Rightarrow> Some (c\<lparr>fmt := x, st := None, out := out c @ [37]\<rparr>)))"

definition fmt_step :: "mem \<Rightarrow> fmt_config \<Rightarrow> (u32 list + fmt_config) option" where
  "fmt_step m c =
     (let ch = m (fmt c); c = c\<lparr>fmt := fmt c + 1\<rparr> in
      case st c of
        None \<Rightarrow>
          if ch = 37 then Some (Inr (c\<lparr>st := Some fmt_init\<rparr>))
          else if ch = 0 then Some (Inl (out c))
          else Some (Inr (c\<lparr>out := out c @ [ucast ch]\<rparr>))
      | Some f \<Rightarrow> map_option Inr (fmt_flag m ch f c))"

partial_function (option) vprintfmt_loop :: "mem \<Rightarrow> fmt_config \<Rightarrow> u32 list option" where
  "vprintfmt_loop m c =
     (case fmt_step m c of None \<Rightarrow> None
      | Some r \<Rightarrow> (case r of Inl res \<Rightarrow> Some res | Inr d \<Rightarrow> vprintfmt_loop m d))"

definition vprintfmt :: "mem \<Rightarrow> u32 \<Rightarrow> u32 list \<Rightarrow> u32 list option" where
  "vprintfmt m f args = vprintfmt_loop m \<lparr>fmt = f, ap = args, st = None, out = []\<rparr>"

section \<open>Output\<close>

record sprintbuf =
  sbuf :: u32
  ebuf :: u32
  scnt :: u32

definition sprintputch :: "u32 \<Rightarrow> sprintbuf \<times> mem \<Rightarrow> sprintbuf \<times> mem" where
  "sprintputch ch bm =
     (let (b, m) = bm; b = b\<lparr>scnt := scnt b + 1\<rparr> in
      if sbuf b < ebuf b then (b\<lparr>sbuf := sbuf b + 1\<rparr>, m(sbuf b := ucast ch)) else (b, m))"

definition E_INVAL_code :: u32 where "E_INVAL_code = 3"

text \<open>
  The output of \<open>vprintfmt\<close> is computed before the buffer is written. In the code every character is
  stored as soon as it is produced; that is the same as long as \<open>vprintfmt\<close> reads nothing of the buffer, that is, if the format
  and the strings do not overlap it. The definition is meant for such buffers only.
\<close>

definition vsnprintf :: "mem \<Rightarrow> u32 \<Rightarrow> u32 \<Rightarrow> u32 \<Rightarrow> u32 list \<Rightarrow> (u32 \<times> mem) option" where
  "vsnprintf m buf n f args =
     (if buf = 0 \<or> sint n < 1 then Some (- E_INVAL_code, m)
      else (case vprintfmt m f args of None \<Rightarrow> None
            | Some cs \<Rightarrow>
                let (b, m) = fold sprintputch cs (\<lparr>sbuf = buf, ebuf = buf + n - 1, scnt = 0\<rparr>, m)
                in Some (scnt b, m(sbuf b := 0))))"

text \<open>
  The kernel's \<open>putch\<close> prints the character and increments the pointer instead of the
  counter, so the count that \<open>vcprintf\<close> returns stays 0.
\<close>

definition kputch :: "u32 \<Rightarrow> u32 list \<times> u32 \<Rightarrow> u32 list \<times> u32" where
  "kputch ch cs = (fst cs @ [ch], snd cs)"

definition kvcprintf :: "mem \<Rightarrow> u32 \<Rightarrow> u32 list \<Rightarrow> (u32 \<times> u32 list) option" where
  "kvcprintf m f args =
     (case vprintfmt m f args of None \<Rightarrow> None
      | Some cs \<Rightarrow> let (shown, cnt) = fold kputch cs ([], 0) in Some (cnt, shown))"

text \<open>The user library collects characters; \<open>calls\<close> lists the buffers given to \<open>sys_cputs\<close>.\<close>

record printbuf =
  idx :: nat
  pcnt :: u32
  pbuf :: "u8 list"
  calls :: "u8 list list"

definition uputch :: "u32 \<Rightarrow> printbuf \<Rightarrow> printbuf" where
  "uputch ch b =
     (let b = b\<lparr>pbuf := (pbuf b)[idx b := ucast ch], idx := idx b + 1\<rparr>;
          b = (if idx b = 256 - 1 then b\<lparr>calls := calls b @ [take (idx b) (pbuf b)], idx := 0\<rparr> else b)
      in b\<lparr>pcnt := pcnt b + 1\<rparr>)"

definition uvcprintf :: "mem \<Rightarrow> u32 \<Rightarrow> u32 list \<Rightarrow> (u32 \<times> u8 list list) option" where
  "uvcprintf m f args =
     (case vprintfmt m f args of None \<Rightarrow> None
      | Some cs \<Rightarrow>
          let b = fold uputch cs \<lparr>idx = 0, pcnt = 0, pbuf = replicate 256 0, calls = []\<rparr>
          in Some (pcnt b, calls b @ [take (idx b) (pbuf b)]))"

section \<open>Numbers are printed in positional notation\<close>

fun digits :: "nat \<Rightarrow> nat \<Rightarrow> nat list" where
  "digits b n = (if b < 2 \<or> n < b then [n] else digits b (n div b) @ [n mod b])"

declare digits.simps [simp del]

lemma digits_value: "foldl (\<lambda>v d. v * b + d) 0 (digits b n) = n"
proof (induction b n rule: digits.induct)
  case (1 b n)
  then show ?case by (subst digits.simps) auto
qed

lemma digits_bound: "2 \<le> b \<Longrightarrow> \<forall>d \<in> set (digits b n). d < b"
proof (induction b n rule: digits.induct)
  case (1 b n)
  then show ?case by (subst digits.simps) auto
qed

lemma digits_ne: "digits b n \<noteq> []"
  by (subst digits.simps) auto

lemma unat_of_nat64: "n < 2 ^ 64 \<Longrightarrow> unat (of_nat n :: u64) = n"
  by (simp add: unat_of_nat)

lemma printnum_digits:
  assumes "2 \<le> b" "b \<le> 16" "n < 2 ^ 64"
  shows "printnum (of_nat n) (of_nat b) w p tail =
    Some (replicate (nat (w - int (length (digits b n)))) p @ map digit_char (digits b n) @ tail)"
  using assms
proof (induction b n arbitrary: w tail rule: digits.induct)
  case (1 b n)
  have u: "unat (of_nat b :: u64) = b" "unat (of_nat n :: u64) = n" using 1(2-4) by (simp_all add: unat_of_nat)
  have b0: "(of_nat b :: u64) \<noteq> 0" using u(1) 1(2) by auto
  have le: "(of_nat n :: u64) \<ge> of_nat b \<longleftrightarrow> b \<le> n" by (simp add: word_le_nat_alt u)
  have md: "unat (of_nat n mod of_nat b :: u64) = n mod b" by (simp add: unat_mod u)
  have dv: "(of_nat n div of_nat b :: u64) = of_nat (n div b)"
  proof -
    have "n div b < 2 ^ 64" using 1(4) by (meson div_le_dividend le_less_trans)
    then show ?thesis unfolding word_unat_eq_iff unat_div u by (simp only: unat_of_nat64)
  qed
  show ?case
  proof (cases "n < b")
    case True
    then have "digits b n = [n]" by (subst digits.simps) simp
    then show ?thesis using True b0 le md by (subst printnum.simps) simp
  next
    case False
    have "n div b < 2 ^ 64" using 1(4) by (meson div_le_dividend le_less_trans)
    moreover have "\<not> (b < 2 \<or> n < b)" using 1(2) False by simp
    ultimately have IH: "printnum (of_nat (n div b)) (of_nat b) w' p t = Some (replicate (nat (w' - int (length (digits b (n div b))))) p @
        map digit_char (digits b (n div b)) @ t)" for w' t
      using 1(1) [of w' t] 1(2,3) by blast
    have dg: "digits b n = digits b (n div b) @ [n mod b]" using 1(2) False by (subst digits.simps) simp
    have "printnum (of_nat n) (of_nat b) w p tail =
        printnum (of_nat (n div b)) (of_nat b) (w - 1) p (digit_char (n mod b) # tail)"
      using b0 le md dv False by (subst printnum.simps) simp
    then show ?thesis by (simp add: IH dg algebra_simps)
  qed
qed

lemma digit_of_digit_char: "d < 16 \<Longrightarrow> digit_of (ucast (digit_char d)) = Some (int d)"
  "d < 16 \<Longrightarrow> (ucast (digit_char d) :: u8) \<notin> {0, 9, 32, 43, 45, 120}"
proof -
  assume "d < 16"
  then have "d = 0 \<or> d = 1 \<or> d = 2 \<or> d = 3 \<or> d = 4 \<or> d = 5 \<or> d = 6 \<or> d = 7 \<or> d = 8 \<or> d = 9 \<or> d = 10 \<or>
    d = 11 \<or> d = 12 \<or> d = 13 \<or> d = 14 \<or> d = 15" by presburger
  then show "digit_of (ucast (digit_char d)) = Some (int d)"
    "(ucast (digit_char d) :: u8) \<notin> {0, 9, 32, 43, 45, 120}"
    by (elim disjE; simp add: digit_of_def digit_char_def)+
qed

lemma strtol_digits_list:
  assumes "\<forall>d \<in> set ds. d < b" "b \<in> {8, 10, 16}" "cstr m s (map (\<lambda>d. ucast (digit_char d)) ds)"
  shows "strtol_digits m s (of_nat b) val =
    Some (foldl (\<lambda>v d. v * of_nat b + of_nat d) val ds, s + of_nat (length ds))"
  using assms(1,3)
proof (induction ds arbitrary: s val)
  case Nil
  then show ?case by (subst strtol_digits.simps) (simp add: digit_of_def)
next
  case (Cons d ds)
  have d: "d < 16" "d < b" using Cons.prems(1) assms(2) by auto
  have sb: "sint (of_nat b :: u32) = int b" using assms(2) by auto
  have "m s = ucast (digit_char d)" using Cons.prems(2) by simp
  then have "strtol_digits m s (of_nat b) val = strtol_digits m (s + 1) (of_nat b) (val * of_nat b + of_nat d)"
    using d digit_of_digit_char(1) [OF d(1)] by (subst strtol_digits.simps) (simp add: sb)
  then show ?case using Cons by (simp add: add.assoc)
qed

lemma foldl_of_nat:
  "foldl (\<lambda>v d. v * of_nat b + of_nat d) (of_nat x) ds = (of_nat (foldl (\<lambda>v d. v * b + d) x ds) :: u32)"
  by (induction ds arbitrary: x) (simp_all flip: of_nat_mult of_nat_add)

text \<open>
  C37. Printing and parsing numbers are inverse: for every number below \<open>2 ^ 32\<close> and the bases
  8, 10 and 16 of the conversions, \<open>printnum\<close> terminates and \<open>strtol\<close> reads its
  characters back to the number, consuming all of them.
\<close>

theorem strtol_printnum:
  assumes "b \<in> {8, 10, 16}" "n < 2 ^ 32"
  shows "\<exists>cs. printnum (of_nat n) (of_nat b) (-1) 32 [] = Some cs \<and>
    (\<forall>m s. cstr m s (map ucast cs) \<longrightarrow> strtol m s (of_nat b) = Some (of_nat n, s + of_nat (length cs)))"
proof -
  let ?ds = "digits b n"
  have b: "2 \<le> b" "b \<le> 16" using assms(1) by auto
  have n64: "n < 2 ^ 64" using assms(2) by simp
  have pr: "printnum (of_nat n) (of_nat b) (-1) 32 [] = Some (map digit_char ?ds)"
    using printnum_digits [OF b n64, of "-1" 32 "[]"] by simp
  have bd: "\<forall>d \<in> set ?ds. d < b" using digits_bound [OF b(1)] by simp
  have "strtol m s (of_nat b) = Some (of_nat n, s + of_nat (length (map digit_char ?ds)))"
    if c: "cstr m s (map ucast (map digit_char ?ds))" for m s
  proof -
    obtain d ds where ds: "?ds = d # ds" using digits_ne by (meson list.exhaust)
    have d: "d < 16" "\<forall>x \<in> set ds. x < 16" using bd b(2) ds by auto
    have ms: "m s \<notin> {0, 9, 32, 43, 45, 120}" using c ds digit_of_digit_char(2) [OF d(1)] by simp
    have m1: "m (s + 1) \<noteq> 120"
      using c ds digit_of_digit_char(2) d(2) by (cases ds) auto
    have sk: "skip_blanks m s = Some s" using ms by (subst skip_blanks.simps) simp
    have "cstr m s (map (\<lambda>d. ucast (digit_char d)) ?ds)" using c by (simp add: comp_def)
    then have sd: "strtol_digits m s (of_nat b) 0 = Some (of_nat n, s + of_nat (length ?ds))"
      using strtol_digits_list [OF bd assms(1), of m s 0] foldl_of_nat [of b 0 ?ds] digits_value [of b n] by simp
    show ?thesis using ms m1 assms(1) sd by (auto simp: strtol_def sk)
  qed
  with pr show ?thesis by blast
qed

theorem strtol_printnum_witness:
  "\<exists>cs. printnum (of_nat 305419896) (of_nat 16) (-1) 32 [] = Some cs \<and>
    (\<forall>m s. cstr m s (map ucast cs) \<longrightarrow> strtol m s (of_nat 16) = Some (of_nat 305419896, s + of_nat (length cs)))"
  by (rule strtol_printnum) simp_all

section \<open>Bounded output\<close>

lemma sprintputch_fold:
  assumes "unat b \<le> unat e"
  shows "\<exists>m' k. fold sprintputch cs (\<lparr>sbuf = b, ebuf = e, scnt = c\<rparr>, m) = (\<lparr>sbuf = b + of_nat k, ebuf = e, scnt = c + of_nat (length cs)\<rparr>, m') \<and>
    k = min (length cs) (unat e - unat b) \<and> (\<forall>a. k \<le> unat (a - b) \<longrightarrow> m' a = m a) \<and>
    (\<forall>i < k. m' (b + of_nat i) = ucast (cs ! i))"
  using assms
proof (induction cs arbitrary: b c m)
  case Nil
  then show ?case by (intro exI [of _ m] exI [of _ 0]) simp
next
  case (Cons x cs)
  show ?case
  proof (cases "b < e")
    case False
    then have eq: "unat e - unat b = 0" by (simp add: word_less_nat_alt)
    obtain m' k where k: "fold sprintputch cs (\<lparr>sbuf = b, ebuf = e, scnt = c + 1\<rparr>, m) =
        (\<lparr>sbuf = b + of_nat k, ebuf = e, scnt = c + 1 + of_nat (length cs)\<rparr>, m')"
        "k = min (length cs) (unat e - unat b)" "\<forall>a. k \<le> unat (a - b) \<longrightarrow> m' a = m a"
      using Cons.IH [OF Cons.prems, of "c + 1" m] by blast
    have st: "sprintputch x (\<lparr>sbuf = b, ebuf = e, scnt = c\<rparr>, m) = (\<lparr>sbuf = b, ebuf = e, scnt = c + 1\<rparr>, m)"
      using False by (simp add: sprintputch_def)
    have "m' = m" using k(2,3) eq by (intro ext) simp
    then show ?thesis using k(1,2) eq by (intro exI [of _ m] exI [of _ 0]) (simp add: st add.assoc)
  next
    case True
    have ub: "unat (b + 1) = unat b + 1" using True unat_u32 [of e] by (simp add: word_less_nat_alt unat_word_ariths)
    have le: "unat (b + 1) \<le> unat e" using True ub by (simp add: word_less_nat_alt)
    let ?m = "m(b := ucast x)"
    obtain m' k where k: "fold sprintputch cs (\<lparr>sbuf = b + 1, ebuf = e, scnt = c + 1\<rparr>, ?m) =
        (\<lparr>sbuf = b + 1 + of_nat k, ebuf = e, scnt = c + 1 + of_nat (length cs)\<rparr>, m')"
        "k = min (length cs) (unat e - unat (b + 1))" "\<forall>a. k \<le> unat (a - (b + 1)) \<longrightarrow> m' a = ?m a"
        "\<forall>i < k. m' (b + 1 + of_nat i) = ucast (cs ! i)"
      using Cons.IH [OF le, of "c + 1" ?m] by blast
    have lt: "k < 2 ^ 32 - 1" using k(2) unat_u32 [of e] ub by simp
    have kk: "Suc k = min (length (x # cs)) (unat e - unat b)" using k(2) ub True by (simp add: word_less_nat_alt)
    have out: "m' a = m a" if "Suc k \<le> unat (a - b)" for a
      using k(3) that unat_sub_1 [of a b] by (cases "a = b") auto
    have "m' (b + of_nat i) = ucast ((x # cs) ! i)" if "i < Suc k" for i
    proof (cases i)
      case 0
      have "k \<le> unat (b - (b + 1))" using lt unat_sub_1 [of b b] by auto
      then show ?thesis using 0 k(3) by simp
    next
      case (Suc j)
      have "b + of_nat (Suc j) = b + 1 + of_nat j" by simp
      then show ?thesis using Suc that k(4) by (metis Suc_less_eq nth_Cons_Suc)
    qed
    moreover have "sprintputch x (\<lparr>sbuf = b, ebuf = e, scnt = c\<rparr>, m) = (\<lparr>sbuf = b + 1, ebuf = e, scnt = c + 1\<rparr>, ?m)"
      using True by (simp add: sprintputch_def)
    ultimately have "fold sprintputch (x # cs) (\<lparr>sbuf = b, ebuf = e, scnt = c\<rparr>, m) =
        (\<lparr>sbuf = b + of_nat (Suc k), ebuf = e, scnt = c + of_nat (length (x # cs))\<rparr>, m')"
        "\<forall>i < Suc k. m' (b + of_nat i) = ucast ((x # cs) ! i)"
      using k(1) by (simp_all add: add.assoc)
    then show ?thesis using kk out by blast
  qed
qed

text \<open>
  C36. \<open>vsnprintf\<close> never writes outside the \<open>n\<close> bytes of its buffer: it stores the longest
  prefix of the formatted text that fits, terminates it, and returns the length the whole
  text has. With no buffer or a non-positive size it returns \<open>-E_INVAL\<close> and writes nothing. The buffer must not
  overlap the format or a string argument: what is printed is the same whatever the buffer holds.
\<close>

theorem vsnprintf_bounded:
  assumes apart: "\<And>m'. \<forall>a. unat n \<le> unat (a - buf) \<longrightarrow> m' a = m a \<Longrightarrow> vprintfmt m' f args = Some cs"
    and "unat buf + unat n \<le> 2 ^ 32"
  shows "if buf = 0 \<or> sint n < 1 then vsnprintf m buf n f args = Some (- E_INVAL_code, m)
    else \<exists>m' k. vsnprintf m buf n f args = Some (of_nat (length cs), m') \<and> k = min (length cs) (unat n - 1) \<and>
      (\<forall>i < k. m' (buf + of_nat i) = ucast (cs ! i)) \<and> m' (buf + of_nat k) = 0 \<and>
      (\<forall>a. unat n \<le> unat (a - buf) \<longrightarrow> m' a = m a)"
proof (cases "buf = 0 \<or> sint n < 1")
  case True
  then show ?thesis by (simp add: vsnprintf_def)
next
  case False
  then have n: "0 < unat n" "unat n < 2 ^ 31" using sint_pos_unat [of n] by auto
  have ue: "unat (buf + n - 1) = unat buf + unat n - 1"
  proof -
    have "unat (n - 1) = unat n - 1" using n(1) by (intro unat_minus_one) auto
    moreover have "buf + n - 1 = buf + (n - 1)" by (rule add_diff_eq [symmetric])
    moreover have "unat (buf + (n - 1)) = unat buf + unat (n - 1)"
      using assms(2) n(1) \<open>unat (n - 1) = unat n - 1\<close> by (subst unat_plus_simple [symmetric]) (simp add: no_olen_add_nat)
    ultimately show ?thesis using n(1) by (simp only:)
  qed
  have le: "unat buf \<le> unat (buf + n - 1)" using ue n(1) by simp
  obtain m' k where k: "fold sprintputch cs (\<lparr>sbuf = buf, ebuf = buf + n - 1, scnt = 0\<rparr>, m) =
      (\<lparr>sbuf = buf + of_nat k, ebuf = buf + n - 1, scnt = 0 + of_nat (length cs)\<rparr>, m')"
      "k = min (length cs) (unat (buf + n - 1) - unat buf)" "\<forall>a. k \<le> unat (a - buf) \<longrightarrow> m' a = m a"
      "\<forall>i < k. m' (buf + of_nat i) = ucast (cs ! i)"
    using sprintputch_fold [OF le, of cs 0 m] by blast
  have kn: "k = min (length cs) (unat n - 1)" "k < unat n" using k(2) ue n(1) by auto
  have uk: "unat (of_nat k :: u32) = k" using kn(2) n(2) by (simp add: unat_of_nat)
  have ne: "buf + of_nat i \<noteq> buf + (of_nat k :: u32)" if "i < k" for i
  proof
    assume "buf + of_nat i = buf + (of_nat k :: u32)"
    then have "unat (of_nat i :: u32) = k" using uk by simp
    then show False using that kn(2) n(2) by (simp add: unat_of_nat)
  qed
  let ?m = "m'(buf + of_nat k := 0)"
  have "vsnprintf m buf n f args = Some (of_nat (length cs), ?m)"
    using False apart [of m] k(1) by (auto simp: vsnprintf_def)
  moreover have "?m a = m a" if "unat n \<le> unat (a - buf)" for a
    using that kn(2) k(3) uk by (cases "a = buf + of_nat k") auto
  ultimately show ?thesis using False kn(1) k(4) ne by auto
qed

text \<open>The format \<^verbatim>\<open>ab%d\<close> with argument 42.\<close>

definition demo_fmt :: mem where
  "demo_fmt = (\<lambda>_. 0)(0x1000 := 97, 0x1001 := 98, 0x1002 := 37, 0x1003 := 100)"

lemma demo_fmt_out:
  assumes m: "\<And>a. unat (a - 0x1000) < 5 \<Longrightarrow> m a = demo_fmt a"
  shows "vprintfmt m 0x1000 [42] = Some [97, 98, 52, 50]"
proof -
  have dg: "digits 10 42 = [4, 2]" by (simp add: digits.simps [of 10 42] digits.simps [of 10 4])
  have "printnum 42 10 (-1) 32 [] = Some [52, 50]"
    using printnum_digits [of 10 42 "-1" 32 "[]"] by (simp add: dg digit_char_def)
  then have cv: "convert m 100 [42] fmt_init = Some ([52, 50], [])"
    by (simp add: convert_def getint_def number_def fmt_init_def)
  have "m 0x1000 = 97" "m 0x1001 = 98" "m 0x1002 = 37" "m 0x1003 = 100" "m 0x1004 = 0" by (simp_all add: m demo_fmt_def)
  note b = this
  show ?thesis
    unfolding vprintfmt_def
    apply (subst vprintfmt_loop.simps, simp add: fmt_step_def b)
    apply (subst vprintfmt_loop.simps, simp add: fmt_step_def b)
    apply (subst vprintfmt_loop.simps, simp add: fmt_step_def b)
    apply (subst vprintfmt_loop.simps, simp add: fmt_step_def fmt_flag_def conversions_def cv b)
    apply (subst vprintfmt_loop.simps, simp add: fmt_step_def b)
    done
qed

theorem vsnprintf_bounded_witness:
  "\<exists>m'. vsnprintf demo_fmt 0x2000 4 0x1000 [42] = Some (4, m') \<and> m' 0x2002 = 52 \<and> m' 0x2003 = 0"
proof -
  have "vprintfmt m' 0x1000 [42] = Some [97, 98, 52, 50]"
    if m': "\<forall>a. unat (4 :: u32) \<le> unat (a - 0x2000) \<longrightarrow> m' a = demo_fmt a" for m'
  proof (rule demo_fmt_out)
    fix a :: u32 assume a: "unat (a - 0x1000) < 5"
    define b where "b = a - 0x1000"
    have "a - 0x2000 = b - 0x1000" "unat b < 5" using a by (simp_all add: b_def)
    then have "4 \<le> unat (a - 0x2000)" by (simp add: unat_sub_if_size word_size)
    then show "m' a = demo_fmt a" using m' by simp
  qed
  then show ?thesis using vsnprintf_bounded [of 4 "0x2000" demo_fmt "0x1000" "[42]" "[97, 98, 52, 50]"] by auto
qed

section \<open>Buffered output\<close>

lemma uputch_fold:
  assumes "idx b < 255" "length (pbuf b) = 256"
  shows "idx (fold uputch cs b) < 255 \<and> length (pbuf (fold uputch cs b)) = 256 \<and>
    pcnt (fold uputch cs b) = pcnt b + of_nat (length cs) \<and>
    (\<forall>x \<in> set (calls (fold uputch cs b)). x \<in> set (calls b) \<or> length x = 255) \<and>
    concat (calls (fold uputch cs b)) @ take (idx (fold uputch cs b)) (pbuf (fold uputch cs b)) =
      concat (calls b) @ take (idx b) (pbuf b) @ map ucast cs"
  using assms
proof (induction cs arbitrary: b)
  case Nil
  then show ?case by simp
next
  case (Cons x cs)
  let ?b = "uputch x b"
  have tk: "take (Suc (idx b)) ((pbuf b)[idx b := ucast x]) = take (idx b) (pbuf b) @ [ucast x]"
    using Cons.prems by (simp add: take_Suc_conv_app_nth)
  have b: "idx ?b < 255" "length (pbuf ?b) = 256" "pcnt ?b = pcnt b + 1"
    "\<forall>y \<in> set (calls ?b). y \<in> set (calls b) \<or> length y = 255"
    "concat (calls ?b) @ take (idx ?b) (pbuf ?b) = concat (calls b) @ take (idx b) (pbuf b) @ [ucast x]"
    using Cons.prems tk by (auto simp: uputch_def Let_def)
  show ?case using Cons.IH [OF b(1,2)] b(3-5) by (auto simp: add.assoc)
qed

text \<open>
  C38. The user library's \<open>vcprintf\<close> loses and reorders nothing: the buffers it hands to
  \<open>sys_cputs\<close>, none longer than 255 bytes, concatenate to exactly the formatted text, and
  it returns its length. The kernel's \<open>vcprintf\<close> prints the same text but always returns 0.
\<close>

theorem vcprintf_output:
  assumes "vprintfmt m f args = Some cs"
  shows "(\<exists>bs. uvcprintf m f args = Some (of_nat (length cs), bs) \<and> concat bs = map ucast cs \<and>
            (\<forall>b \<in> set bs. length b \<le> 255)) \<and>
         kvcprintf m f args = Some (0, cs)"
proof
  let ?b = "fold uputch cs \<lparr>idx = 0, pcnt = 0, pbuf = replicate 256 0, calls = []\<rparr>"
  have "idx ?b < 255 \<and> length (pbuf ?b) = 256 \<and> pcnt ?b = of_nat (length cs) \<and>
    (\<forall>x \<in> set (calls ?b). length x = 255) \<and> concat (calls ?b) @ take (idx ?b) (pbuf ?b) = map ucast cs"
    using uputch_fold [of "\<lparr>idx = 0, pcnt = 0, pbuf = replicate 256 0, calls = []\<rparr>" cs] by simp
  then show "\<exists>bs. uvcprintf m f args = Some (of_nat (length cs), bs) \<and> concat bs = map ucast cs \<and> (\<forall>b \<in> set bs. length b \<le> 255)"
    using assms by (auto simp: uvcprintf_def Let_def)
  have "fold kputch cs (xs, 0) = (xs @ cs, 0)" for xs by (induction cs arbitrary: xs) (simp_all add: kputch_def)
  from this [of "[]"] show "kvcprintf m f args = Some (0, cs)" using assms by (simp add: kvcprintf_def)
qed

theorem vcprintf_output_witness:
  "\<exists>bs. uvcprintf demo_fmt 0x1000 [42] = Some (4, bs) \<and> concat bs = [97, 98, 52, 50] \<and>
        kvcprintf demo_fmt 0x1000 [42] = Some (0, [97, 98, 52, 50])"
  using vcprintf_output [OF demo_fmt_out [OF refl]] by auto

end
