(* ===== verification/Console.thy ===== *)
theory Console
  imports Printf
begin

text \<open>
  The console, \<^verbatim>\<open>kern/console.c\<close>: serial port, parallel port, text display, keyboard and
  the circular input buffer, with \<open>readline\<close> (\<^verbatim>\<open>lib/readline.c\<close>) and the interrupt
  controller mask of \<^verbatim>\<open>kern/picirq.c\<close>.

  The devices are reached through I/O ports. \<open>inp p k\<close> is what the \<open>k\<close>-th read of port
  \<open>p\<close> returns, an arbitrary sequence, and \<open>outs\<close> records the writes. \<open>crt i\<close> is the
  \<open>i\<close>-th cell of the display memory at \<open>crt_buf\<close>.
\<close>

section \<open>State\<close>

definition CONSBUFSIZE :: nat where "CONSBUFSIZE = 512"

record consbuf =
  buf :: "u8 list"
  rpos :: nat
  wpos :: nat

record console =
  inp :: "u32 \<Rightarrow> nat \<Rightarrow> u8"
  nread :: "u32 \<Rightarrow> nat"
  outs :: "(u32 \<times> u8) list"
  has_cga :: bool
  serial_exists :: bool
  addr_6845 :: u32
  crt_buf :: u32
  crt :: "nat \<Rightarrow> u16"
  crt_pos :: u16
  shift :: u32
  cons :: consbuf
  irq_mask_8259A :: u16
  didinit :: bool

definition inb :: "u32 \<Rightarrow> console \<Rightarrow> u8 \<times> console" where
  "inb p c = (inp c p (nread c p), c\<lparr>nread := (nread c)(p := Suc (nread c p))\<rparr>)"

definition outb :: "u32 \<Rightarrow> u8 \<Rightarrow> console \<Rightarrow> console" where
  "outb p v c = c\<lparr>outs := outs c @ [(p, v)]\<rparr>"

definition delay :: "console \<Rightarrow> console" where
  "delay c = snd (inb 0x84 (snd (inb 0x84 (snd (inb 0x84 (snd (inb 0x84 c)))))))"

text \<open>Polling a status port at most \<open>n + 1\<close> times until a bit of \<open>bits\<close> is set.\<close>

primrec wait_port :: "u32 \<Rightarrow> u8 \<Rightarrow> nat \<Rightarrow> console \<Rightarrow> console" where
  "wait_port p bits 0 c = snd (inb p c)"
| "wait_port p bits (Suc n) c =
     (let (v, c) = inb p c in if v AND bits \<noteq> 0 then c else wait_port p bits n (delay c))"

section \<open>Serial and parallel port\<close>

definition COM1 :: u32 where "COM1 = 0x3F8"
definition COM_LSR :: u32 where "COM_LSR = 5"
definition COM_LSR_DATA :: u8 where "COM_LSR_DATA = 1"
definition COM_LSR_TXRDY :: u8 where "COM_LSR_TXRDY = 0x20"

definition serial_proc_data :: "console \<Rightarrow> int \<times> console" where
  "serial_proc_data c =
     (let (v, c) = inb (COM1 + COM_LSR) c in
      if v AND COM_LSR_DATA = 0 then (-1, c)
      else let (d, c) = inb COM1 c in (uint d, c))"

definition serial_putc :: "u32 \<Rightarrow> console \<Rightarrow> console" where
  "serial_putc ch c = outb COM1 (ucast ch) (wait_port (COM1 + COM_LSR) COM_LSR_TXRDY 12800 c)"

definition serial_init :: "console \<Rightarrow> console" where
  "serial_init c =
     (let c = outb (COM1 + 2) 0 c; c = outb (COM1 + 3) 0x80 c;
          c = outb COM1 (of_nat (115200 div 9600)) c; c = outb (COM1 + 1) 0 c;
          c = outb (COM1 + 3) (0x03 AND NOT 0x80) c; c = outb (COM1 + 4) 0 c;
          c = outb (COM1 + 1) 0x01 c;
          (v, c) = inb (COM1 + COM_LSR) c;
          c = c\<lparr>serial_exists := (v \<noteq> 0xFF)\<rparr>
      in snd (inb COM1 (snd (inb (COM1 + 2) c))))"

definition lpt_putc :: "u32 \<Rightarrow> console \<Rightarrow> console" where
  "lpt_putc ch c =
     (let c = wait_port (0x378 + 1) 0x80 12800 c
      in outb (0x378 + 2) 0x08 (outb (0x378 + 2) (0x08 OR 0x04 OR 0x01) (outb 0x378 (ucast ch) c)))"

section \<open>Display\<close>

definition CRT_COLS :: nat where "CRT_COLS = 80"
definition CRT_ROWS :: nat where "CRT_ROWS = 25"
definition CRT_SIZE :: nat where "CRT_SIZE = CRT_ROWS * CRT_COLS"

definition MONO_BASE :: u32 where "MONO_BASE = 0x3B4"
definition MONO_BUF :: u32 where "MONO_BUF = 0xB0000"
definition CGA_BASE :: u32 where "CGA_BASE = 0x3D4"
definition CGA_BUF :: u32 where "CGA_BUF = 0xB8000"

text \<open>Without colour memory the word written to it does not read back.\<close>

definition cga_init :: "console \<Rightarrow> console" where
  "cga_init c =
     (let (cp, c) = (if has_cga c then (0xF0000000 + CGA_BUF, c\<lparr>addr_6845 := CGA_BASE\<rparr>)
                     else (0xF0000000 + MONO_BUF, c\<lparr>addr_6845 := MONO_BASE\<rparr>));
          (hi, c) = inb (addr_6845 c + 1) (outb (addr_6845 c) 14 c);
          (lo, c) = inb (addr_6845 c + 1) (outb (addr_6845 c) 15 c)
      in c\<lparr>crt_buf := cp, crt_pos := push_bit 8 (ucast hi) OR ucast lo\<rparr>)"

text \<open>\<open>memmove\<close> of all rows but the first, then blanks in the last row.\<close>

definition crt_scroll :: "(nat \<Rightarrow> u16) \<Rightarrow> nat \<Rightarrow> u16" where
  "crt_scroll t =
     fold (\<lambda>i t. t(i := 0x0700 OR 0x20)) [CRT_SIZE - CRT_COLS..<CRT_SIZE]
       (\<lambda>i. if i < CRT_SIZE - CRT_COLS then t (i + CRT_COLS) else t i)"

text \<open>What follows the switch over the character: scrolling and the cursor.\<close>

definition cga_finish :: "console \<Rightarrow> console" where
  "cga_finish c =
     (let c = (if CRT_SIZE \<le> unat (crt_pos c)
               then c\<lparr>crt := crt_scroll (crt c), crt_pos := crt_pos c - of_nat CRT_COLS\<rparr> else c);
          c = outb (addr_6845 c) 14 c; c = outb (addr_6845 c + 1) (ucast (drop_bit 8 (crt_pos c))) c;
          c = outb (addr_6845 c) 15 c
      in outb (addr_6845 c + 1) (ucast (crt_pos c)) c)"

definition cga_char :: "u32 \<Rightarrow> console \<Rightarrow> console" where
  "cga_char ch c =
     (if ch AND 0xff = 8 then
        (if crt_pos c > 0 then
           let c = c\<lparr>crt_pos := crt_pos c - 1\<rparr>
           in c\<lparr>crt := (crt c)(unat (crt_pos c) := ucast ((ch AND NOT 0xff) OR 32))\<rparr>
         else c)
      else if ch AND 0xff = 10 then
        let c = c\<lparr>crt_pos := crt_pos c + of_nat CRT_COLS\<rparr>
        in c\<lparr>crt_pos := crt_pos c - crt_pos c mod of_nat CRT_COLS\<rparr>
      else if ch AND 0xff = 13 then c\<lparr>crt_pos := crt_pos c - crt_pos c mod of_nat CRT_COLS\<rparr>
      else c\<lparr>crt := (crt c)(unat (crt_pos c) := ucast ch), crt_pos := crt_pos c + 1\<rparr>)"

lemma and_ff_or_attr: "((ch :: u32) OR 0x0700) AND 0xff = ch AND 0xff"
proof -
  have "(0x0700 :: u32) AND 0xff = 0" by simp
  then show ?thesis by (simp add: bit.conj_disj_distrib2)
qed

text \<open>A tab prints five blanks through \<open>cons_putc\<close>, all devices included.\<close>

function cga_putc :: "u32 \<Rightarrow> console \<Rightarrow> console"
  and cons_putc :: "u32 \<Rightarrow> console \<Rightarrow> console" where
  "cga_putc ch c =
     (let ch = (if ch AND NOT 0xFF = 0 then ch OR 0x0700 else ch) in
      cga_finish
        (if ch AND 0xff = 9
         then cons_putc 32 (cons_putc 32 (cons_putc 32 (cons_putc 32 (cons_putc 32 c))))
         else cga_char ch c))"
| "cons_putc ch c = cga_putc ch (lpt_putc ch (serial_putc ch c))"
  by pat_completeness auto

termination
  by (relation "measure (\<lambda>x. case x of Inl (ch, _) \<Rightarrow> if ch AND 0xff = 9 then 2 else 0
                             | Inr (ch, _) \<Rightarrow> if ch AND 0xff = 9 then 3 else 1)")
    (auto simp: and_ff_or_attr split: if_splits)

declare cga_putc.simps [simp del] cons_putc.simps [simp del]

definition cputchar :: "u32 \<Rightarrow> console \<Rightarrow> console" where
  "cputchar ch c = cons_putc ch c"

text \<open>\<open>cprintf\<close> in the kernel: every character of the formatted text goes to \<open>cputchar\<close>.\<close>

definition cprintf :: "mem \<Rightarrow> u32 \<Rightarrow> u32 list \<Rightarrow> console \<Rightarrow> (u32 \<times> console) option" where
  "cprintf m f args c =
     (case kvcprintf m f args of None \<Rightarrow> None | Some (r, shown) \<Rightarrow> Some (r, fold cputchar shown c))"

definition cons_puts :: "string \<Rightarrow> console \<Rightarrow> console" where
  "cons_puts str c = fold cputchar (map ucast (bytes_of str)) c"

section \<open>Interrupt controller mask\<close>

definition IRQ_SLAVE :: nat where "IRQ_SLAVE = 2"
definition IO_PIC1 :: u32 where "IO_PIC1 = 0x20"
definition IO_PIC2 :: u32 where "IO_PIC2 = 0xA0"

text \<open>The enabled interrupt lines, as \<open>irq_setmask_8259A\<close> lists them.\<close>

definition enabled_irqs :: "u16 \<Rightarrow> nat list" where
  "enabled_irqs m = filter (\<lambda>i. NOT m AND push_bit i 1 \<noteq> 0) [0..<16]"

definition irq_number :: "nat \<Rightarrow> string" where
  "irq_number i = (if i < 10 then [CHR '' '', char_of (48 + i)] else [CHR '' '', CHR ''1'', char_of (38 + i)])"

definition irq_setmask_8259A :: "u16 \<Rightarrow> console \<Rightarrow> console" where
  "irq_setmask_8259A m c =
     (let c = c\<lparr>irq_mask_8259A := m\<rparr> in
      if \<not> didinit c then c
      else let c = outb (IO_PIC2 + 1) (ucast (drop_bit 8 m)) (outb (IO_PIC1 + 1) (ucast m) c);
               c = cons_puts ''enabled interrupts:'' c;
               c = fold (\<lambda>i. cons_puts (irq_number i)) (enabled_irqs m) c
           in cons_puts [CHR 0x0A] c)"

definition pic_init :: "console \<Rightarrow> console" where
  "pic_init c =
     (let c = c\<lparr>didinit := True\<rparr>;
          c = fold (\<lambda>(p, v). outb p v)
                [(IO_PIC1 + 1, 0xFF), (IO_PIC2 + 1, 0xFF),
                 (IO_PIC1, 0x11), (IO_PIC1 + 1, 32), (IO_PIC1 + 1, push_bit IRQ_SLAVE 1), (IO_PIC1 + 1, 0x3),
                 (IO_PIC2, 0x11), (IO_PIC2 + 1, 32 + 8), (IO_PIC2 + 1, of_nat IRQ_SLAVE), (IO_PIC2 + 1, 0x01),
                 (IO_PIC1, 0x68), (IO_PIC1, 0x0a), (IO_PIC2, 0x68), (IO_PIC2, 0x0a)] c
      in if irq_mask_8259A c \<noteq> 0xFFFF then irq_setmask_8259A (irq_mask_8259A c) c else c)"

section \<open>Keyboard\<close>

definition SHIFT :: u32 where "SHIFT = 1"
definition CTL :: u32 where "CTL = 2"
definition ALT :: u32 where "ALT = 4"
definition CAPSLOCK :: u32 where "CAPSLOCK = 8"
definition NUMLOCK :: u32 where "NUMLOCK = 16"
definition SCROLLLOCK :: u32 where "SCROLLLOCK = 32"
definition E0ESC :: u32 where "E0ESC = 64"

text \<open>An array initialiser: the leading elements, then designated ones, the rest 0.\<close>

definition table_init :: "u8 list \<Rightarrow> (u8 \<times> u8) list \<Rightarrow> u8 \<Rightarrow> u8" where
  "table_init xs desig i =
     (case map_of desig i of Some v \<Rightarrow> v | None \<Rightarrow> if unat i < length xs then xs ! unat i else 0)"

definition shiftcode :: "u8 \<Rightarrow> u8" where
  "shiftcode = table_init [] [(0x1D, ucast CTL), (0x2A, ucast SHIFT), (0x36, ucast SHIFT), (0x38, ucast ALT),
     (0x9D, ucast CTL), (0xB8, ucast ALT)]"

definition togglecode :: "u8 \<Rightarrow> u8" where
  "togglecode = table_init [] [(0x3A, ucast CAPSLOCK), (0x45, ucast NUMLOCK), (0x46, ucast SCROLLLOCK)]"

definition KEY_HOME :: u8 where "KEY_HOME = 0xE0"
definition KEY_END :: u8 where "KEY_END = 0xE1"
definition KEY_UP :: u8 where "KEY_UP = 0xE2"
definition KEY_DN :: u8 where "KEY_DN = 0xE3"
definition KEY_LF :: u8 where "KEY_LF = 0xE4"
definition KEY_RT :: u8 where "KEY_RT = 0xE5"
definition KEY_PGUP :: u8 where "KEY_PGUP = 0xE6"
definition KEY_PGDN :: u8 where "KEY_PGDN = 0xE7"
definition KEY_INS :: u8 where "KEY_INS = 0xE8"
definition KEY_DEL :: u8 where "KEY_DEL = 0xE9"

definition cursor_keys :: "(u8 \<times> u8) list" where
  "cursor_keys = [(0xC8, KEY_UP), (0xC9, KEY_PGUP), (0xCB, KEY_LF), (0xCD, KEY_RT), (0xCF, KEY_END),
     (0xD0, KEY_DN), (0xD1, KEY_PGDN), (0xD2, KEY_INS), (0xD3, KEY_DEL)]"

definition keypad :: "u8 list" where
  "keypad = replicate 13 0 @ bytes_of ''789-456+1230.'' @ replicate 4 0"

definition normalmap :: "u8 \<Rightarrow> u8" where
  "normalmap = table_init
     ([0, 0x1B] @ bytes_of ''1234567890-='' @ [8, 9] @ bytes_of ''qwertyuiop[]'' @ [10, 0] @
      bytes_of ''asdfghjkl;'' @ [39, 96, 0, 92] @ bytes_of ''zxcvbnm,./'' @ [0, 42, 0, 32] @ keypad)
     ([(0xC7, KEY_HOME), (0x9C, 10), (0xB5, 47)] @ cursor_keys)"

definition shiftmap :: "u8 \<Rightarrow> u8" where
  "shiftmap = table_init
     ([0, 27] @ bytes_of ''!@#$%^&*()_+'' @ [8, 9] @ bytes_of ''QWERTYUIOP{}'' @ [10, 0] @
      bytes_of ''ASDFGHJKL:'' @ [34, 126, 0, 124] @ bytes_of ''ZXCVBNM<>?'' @ [0, 42, 0, 32] @ keypad)
     ([(0xC7, KEY_HOME), (0x9C, 10), (0xB5, 47)] @ cursor_keys)"

text \<open>\<open>C(x)\<close> of every character of a string.\<close>

definition ctl_of :: "string \<Rightarrow> u8 list" where
  "ctl_of str = map (\<lambda>b. b - 64) (bytes_of str)"

definition ctlmap :: "u8 \<Rightarrow> u8" where
  "ctlmap = table_init
     (replicate 16 0 @ ctl_of ''QWERTYUIOP'' @ [0, 0, 13, 0] @ ctl_of ''ASDFGHJKL'' @ [0, 0, 0, 0, 92 - 64] @
      ctl_of ''ZXCVBNM'' @ [0, 0, 47 - 64, 0, 0])
     ([(0x97, KEY_HOME), (0xB5, 47 - 64)] @ cursor_keys)"

definition charcode :: "u32 \<Rightarrow> u8 \<Rightarrow> u8" where
  "charcode i = (if i = 0 then normalmap else if i = 1 then shiftmap else ctlmap)"

text \<open>
  The new modifier state and the character for a byte from the keyboard; 0 when the byte
  completes no character. Characters are C \<open>int\<close>s between 0 and 255.
\<close>

definition kbd_key :: "u8 \<Rightarrow> u32 \<Rightarrow> u32 \<times> int" where
  "kbd_key data sh =
     (if data = 0xE0 then (sh OR E0ESC, 0)
      else if data AND 0x80 \<noteq> 0 then
        let data = (if sh AND E0ESC \<noteq> 0 then data else data AND 0x7F)
        in (sh AND NOT (ucast (shiftcode data) OR E0ESC), 0)
      else
        let (data, sh) = (if sh AND E0ESC \<noteq> 0 then (data OR 0x80, sh AND NOT E0ESC) else (data, sh));
            sh = sh OR ucast (shiftcode data);
            sh = sh XOR ucast (togglecode data);
            ch = uint (charcode (sh AND (CTL OR SHIFT)) data);
            ch = (if sh AND CAPSLOCK \<noteq> 0
                  then (if 97 \<le> ch \<and> ch \<le> 122 then ch + (65 - 97)
                        else if 65 \<le> ch \<and> ch \<le> 90 then ch + (97 - 65) else ch)
                  else ch)
        in (sh, ch))"

definition KBSTATP :: u32 where "KBSTATP = 0x64"
definition KBDATAP :: u32 where "KBDATAP = 0x60"
definition KBS_DIB :: u8 where "KBS_DIB = 0x01"
definition KBS_TERR :: u8 where "KBS_TERR = 0x20"

definition kbd_proc_data :: "console \<Rightarrow> int \<times> console" where
  "kbd_proc_data c =
     (let (stat, c) = inb KBSTATP c in
      if stat AND KBS_DIB = 0 then (-1, c)
      else if stat AND KBS_TERR \<noteq> 0 then (-1, c)
      else let (data, c) = inb KBDATAP c;
               (sh, ch) = kbd_key data (shift c);
               c = c\<lparr>shift := sh\<rparr>
           in if NOT sh AND (CTL OR ALT) = 0 \<and> ch = uint KEY_DEL
              then (ch, outb 0x92 0x3 (cons_puts (''Rebooting!'' @ [CHR 0x0A]) c))
              else (ch, c))"

section \<open>Input buffer\<close>

definition ring_put :: "u8 \<Rightarrow> consbuf \<Rightarrow> consbuf" where
  "ring_put ch b =
     (let b = b\<lparr>buf := (buf b)[wpos b := ch], wpos := wpos b + 1\<rparr>
      in if wpos b = CONSBUFSIZE then b\<lparr>wpos := 0\<rparr> else b)"

definition ring_get :: "consbuf \<Rightarrow> int \<times> consbuf" where
  "ring_get b =
     (if rpos b \<noteq> wpos b then
        let ch = uint (buf b ! rpos b); b = b\<lparr>rpos := rpos b + 1\<rparr>
        in (ch, if rpos b = CONSBUFSIZE then b\<lparr>rpos := 0\<rparr> else b)
      else (0, b))"

text \<open>\<open>None\<close>: the device never stops delivering data.\<close>

partial_function (option) cons_intr :: "(console \<Rightarrow> int \<times> console) \<Rightarrow> console \<Rightarrow> console option" where
  "cons_intr proc c =
     (if fst (proc c) = -1 then Some (snd (proc c))
      else if fst (proc c) = 0 then cons_intr proc (snd (proc c))
      else cons_intr proc ((snd (proc c))\<lparr>cons := ring_put (of_int (fst (proc c))) (cons (snd (proc c)))\<rparr>))"

definition serial_intr :: "console \<Rightarrow> console option" where
  "serial_intr c = (if serial_exists c then cons_intr serial_proc_data c else Some c)"

definition kbd_intr :: "console \<Rightarrow> console option" where
  "kbd_intr c = cons_intr kbd_proc_data c"

definition kbd_init :: "console \<Rightarrow> console option" where
  "kbd_init c = map_option (\<lambda>c. irq_setmask_8259A (irq_mask_8259A c AND NOT (push_bit 1 1)) c) (kbd_intr c)"

definition cons_getc :: "console \<Rightarrow> (int \<times> console) option" where
  "cons_getc c =
     (case serial_intr c of None \<Rightarrow> None
      | Some c \<Rightarrow> (case kbd_intr c of None \<Rightarrow> None
          | Some c \<Rightarrow> let (ch, b) = ring_get (cons c) in Some (ch, c\<lparr>cons := b\<rparr>)))"

definition cons_init :: "console \<Rightarrow> console option" where
  "cons_init c =
     (case kbd_init (cga_init c) of None \<Rightarrow> None
      | Some c \<Rightarrow>
          let c = serial_init c
          in Some (if \<not> serial_exists c then cons_puts (''Serial port does not exist!'' @ [CHR 0x0A]) c else c))"

text \<open>\<open>None\<close>: no character ever arrives.\<close>

partial_function (option) getchar :: "console \<Rightarrow> (int \<times> console) option" where
  "getchar c =
     (case cons_getc c of None \<Rightarrow> None
      | Some r \<Rightarrow> if fst r = 0 then getchar (snd r) else Some r)"

section \<open>Reading a line\<close>

definition BUFLEN :: nat where "BUFLEN = 1024"

text \<open>
  \<open>readline\<close> over the characters that successive calls of \<open>getchar\<close> return: the line (NULL
  after a read error), the buffer, and the characters echoed. \<open>None\<close>: it waits for more.
\<close>

fun readline_loop :: "bool \<Rightarrow> int list \<Rightarrow> u8 list \<Rightarrow> nat \<Rightarrow> u32 list \<Rightarrow> (bool \<times> u8 list \<times> u32 list) option" where
  "readline_loop echoing [] b i o1 = None"
| "readline_loop echoing (ch # chs) b i o1 =
     (if ch < 0 then (case print_err ch of None \<Rightarrow> None
        | Some e \<Rightarrow> Some (False, b, o1 @ map ucast (bytes_of ''read error: '') @ e @ [10]))
      else if (ch = 8 \<or> ch = 127) \<and> 0 < i
      then readline_loop echoing chs b (i - 1) (if echoing then o1 @ [8] else o1)
      else if 32 \<le> ch \<and> i < BUFLEN - 1
      then readline_loop echoing chs (b[i := of_int ch]) (i + 1) (if echoing then o1 @ [of_int ch] else o1)
      else if ch = 10 \<or> ch = 13
      then Some (True, b[i := 0], if echoing then o1 @ [10] else o1)
      else readline_loop echoing chs b i o1)"

definition readline :: "u32 list \<Rightarrow> bool \<Rightarrow> int list \<Rightarrow> u8 list \<Rightarrow> (bool \<times> u8 list \<times> u32 list) option" where
  "readline prompt echoing chs b = readline_loop echoing chs b 0 prompt"

end
