(* ===== verification/ConsoleProps.thy ===== *)
theory ConsoleProps
  imports Console
begin

text \<open>
  What the console guarantees: the circular buffer is a bounded queue between the device
  interrupts and \<open>cons_getc\<close>, and what happens when it overflows; the display behaves as
  a scrolling text terminal and stays inside its memory; the keyboard state machine
  applies modifiers as intended; \<open>readline\<close> stays inside its buffer and returns the
  edited line.
\<close>

section \<open>Bounded queues\<close>

text \<open>
  The contract of a bounded queue: below its capacity \<open>put\<close> appends, \<open>get\<close> takes the
  oldest element and returns its code, or \<open>none\<close> when there is no element.
\<close>

locale bounded_queue =
  fixes inv :: "'s \<Rightarrow> bool"
    and items :: "'s \<Rightarrow> 'a list"
    and put :: "'a \<Rightarrow> 's \<Rightarrow> 's"
    and get :: "'s \<Rightarrow> 'b \<times> 's"
    and code :: "'a \<Rightarrow> 'b"
    and none :: 'b
    and cap :: nat
  assumes put_items: "inv s \<Longrightarrow> Suc (length (items s)) < cap \<Longrightarrow> inv (put x s) \<and> items (put x s) = items s @ [x]"
    and get_items: "inv s \<Longrightarrow> items s = x # xs \<Longrightarrow> fst (get s) = code x \<and> inv (snd (get s)) \<and> items (snd (get s)) = xs"
    and get_empty: "inv s \<Longrightarrow> items s = [] \<Longrightarrow> get s = (none, s)"
begin

lemma puts_items:
  "inv s \<Longrightarrow> length (items s) + length xs < cap \<Longrightarrow> inv (fold put xs s) \<and> items (fold put xs s) = items s @ xs"
proof (induction xs arbitrary: s)
  case Nil
  then show ?case by simp
next
  case (Cons x xs)
  have p: "inv (put x s)" "items (put x s) = items s @ [x]" using put_items [OF Cons.prems(1), of x] Cons.prems(2) by auto
  show ?case using Cons.IH [OF p(1)] Cons.prems(2) p(2) by simp
qed

text \<open>First in, first out: after any number of puts the next get returns the oldest element.\<close>

lemma get_after_puts:
  assumes "inv s" "length (items s) + length xs < cap"
  shows "let r = get (fold put xs s); q = items s @ xs in
    fst r = (if q = [] then none else code (hd q)) \<and> inv (snd r) \<and> items (snd r) = tl q"
proof -
  have p: "inv (fold put xs s)" "items (fold put xs s) = items s @ xs" using puts_items [OF assms] by auto
  show ?thesis
  proof (cases "items s @ xs")
    case Nil
    then show ?thesis using get_empty [OF p(1)] p by (auto simp: Let_def)
  next
    case (Cons y ys)
    then show ?thesis using get_items [OF p(1), of y ys] p(2) by (auto simp: Let_def)
  qed
qed

end

section \<open>The circular buffer\<close>

definition ring_ok :: "consbuf \<Rightarrow> bool" where
  "ring_ok b \<longleftrightarrow> length (buf b) = CONSBUFSIZE \<and> rpos b < CONSBUFSIZE \<and> wpos b < CONSBUFSIZE"

definition ring_len :: "consbuf \<Rightarrow> nat" where
  "ring_len b = (wpos b + CONSBUFSIZE - rpos b) mod CONSBUFSIZE"

definition ring_items :: "consbuf \<Rightarrow> u8 list" where
  "ring_items b = map (\<lambda>i. buf b ! ((rpos b + i) mod CONSBUFSIZE)) [0..<ring_len b]"

lemma ring_items_length [simp]: "length (ring_items b) = ring_len b"
  by (simp add: ring_items_def)

lemma ring_end: "ring_ok b \<Longrightarrow> (rpos b + ring_len b) mod CONSBUFSIZE = wpos b"
  by (auto simp: ring_ok_def ring_len_def mod_add_right_eq CONSBUFSIZE_def)

lemma ring_put_ok: "ring_ok b \<Longrightarrow> ring_ok (ring_put x b)"
  by (auto simp: ring_ok_def ring_put_def CONSBUFSIZE_def Let_def)

lemma ring_put_buf: "buf (ring_put x b) = (buf b)[wpos b := x]" "rpos (ring_put x b) = rpos b"
  by (simp_all add: ring_put_def Let_def)

lemma ring_put_len:
  "ring_ok b \<Longrightarrow> ring_len (ring_put x b) = (if Suc (ring_len b) = CONSBUFSIZE then 0 else Suc (ring_len b))"
  unfolding ring_ok_def ring_put_def ring_len_def CONSBUFSIZE_def Let_def
  by (cases "wpos b < rpos b") (auto simp: mod_if)

lemma ring_get_len:
  "ring_ok b \<Longrightarrow> rpos b \<noteq> wpos b \<Longrightarrow> Suc (ring_len (snd (ring_get b))) = ring_len b"
  unfolding ring_ok_def ring_get_def ring_len_def CONSBUFSIZE_def Let_def
  by (cases "wpos b < rpos b") (auto simp: mod_if)

lemma ring_len_0: "ring_ok b \<Longrightarrow> ring_len b = 0 \<longleftrightarrow> rpos b = wpos b"
  unfolding ring_ok_def ring_len_def CONSBUFSIZE_def by (cases "wpos b < rpos b") (auto simp: mod_if)

lemma ring_slot_ne:
  assumes "ring_ok b" "i < ring_len b"
  shows "(rpos b + i) mod CONSBUFSIZE \<noteq> wpos b"
proof
  assume eq: "(rpos b + i) mod CONSBUFSIZE = wpos b"
  have b: "rpos b < CONSBUFSIZE" "wpos b < CONSBUFSIZE" using assms(1) by (auto simp: ring_ok_def)
  have len: "ring_len b = (if wpos b < rpos b then wpos b + CONSBUFSIZE - rpos b else wpos b - rpos b)"
    using b by (simp add: ring_len_def mod_if)
  show False
  proof (cases "rpos b + i < CONSBUFSIZE")
    case True
    then show False using eq len assms(2) b by (simp split: if_splits)
  next
    case False
    moreover have "rpos b + i - CONSBUFSIZE < CONSBUFSIZE" using assms(2) b len by (auto split: if_splits)
    ultimately have "rpos b + i - CONSBUFSIZE = wpos b" using eq by (simp add: mod_if)
    then show False using len assms(2) b False by (auto split: if_splits)
  qed
qed

lemma ring_put_items:
  assumes "ring_ok b" "Suc (ring_len b) < CONSBUFSIZE"
  shows "ring_items (ring_put x b) = ring_items b @ [x]"
proof -
  have len: "ring_len (ring_put x b) = Suc (ring_len b)" using ring_put_len [OF assms(1)] assms(2) by simp
  have w: "wpos b < length (buf b)" using assms(1) by (simp add: ring_ok_def)
  show ?thesis unfolding ring_items_def len ring_put_buf
    using ring_slot_ne [OF assms(1), THEN not_sym] by (simp add: ring_end [OF assms(1)] w)
qed

lemma ring_get_items:
  assumes "ring_ok b" "ring_items b = x # xs"
  shows "fst (ring_get b) = uint x \<and> ring_ok (snd (ring_get b)) \<and> ring_items (snd (ring_get b)) = xs"
proof -
  have "ring_len b \<noteq> 0" using assms(2) by (metis list.discI list.size(3) ring_items_length length_0_conv)
  then have ne: "rpos b \<noteq> wpos b" using ring_len_0 [OF assms(1)] by simp
  have len: "ring_len b = Suc (ring_len (snd (ring_get b)))" using ring_get_len [OF assms(1) ne] by simp
  have r: "rpos b < CONSBUFSIZE" using assms(1) by (simp add: ring_ok_def)
  have bf: "buf (snd (ring_get b)) = buf b" "rpos (snd (ring_get b)) = Suc (rpos b) mod CONSBUFSIZE"
    using ne r by (auto simp: ring_get_def Let_def CONSBUFSIZE_def mod_Suc)
  have x: "ring_items b = buf b ! rpos b # map (\<lambda>i. buf b ! ((rpos b + i) mod CONSBUFSIZE)) [Suc 0..<ring_len b]"
    unfolding ring_items_def len by (subst upt_conv_Cons) (use r in auto)
  have "map (\<lambda>i. buf b ! ((rpos b + i) mod CONSBUFSIZE)) [Suc 0..<ring_len b] = ring_items (snd (ring_get b))"
    unfolding ring_items_def bf by (rule nth_equalityI) (simp_all add: len mod_add_left_eq del: upt_Suc)
  moreover have "ring_ok (snd (ring_get b))" "fst (ring_get b) = uint (buf b ! rpos b)"
    using assms(1) ne by (auto simp: ring_ok_def ring_get_def Let_def)
  ultimately show ?thesis using assms(2) x by auto
qed

interpretation ring: bounded_queue ring_ok ring_items ring_put ring_get uint "0 :: int" CONSBUFSIZE
proof
  show "ring_ok s \<Longrightarrow> Suc (length (ring_items s)) < CONSBUFSIZE \<Longrightarrow>
      ring_ok (ring_put x s) \<and> ring_items (ring_put x s) = ring_items s @ [x]" for s x
    using ring_put_ok ring_put_items by simp
  show "ring_ok s \<Longrightarrow> ring_items s = x # xs \<Longrightarrow> fst (ring_get s) = uint x \<and> ring_ok (snd (ring_get s)) \<and>
      ring_items (snd (ring_get s)) = xs" for s x xs by (rule ring_get_items)
  show "ring_get s = (0, s)" if "ring_ok s" "ring_items s = []" for s
  proof -
    have "ring_len s = 0" using that(2) by (metis list.size(3) ring_items_length)
    then show ?thesis using ring_len_0 [OF that(1)] by (simp add: ring_get_def)
  qed
qed

section \<open>Devices that feed it\<close>

text \<open>
  The results a device routine gives in successive calls from \<open>c\<close>, up to the -1 that
  ends them.
\<close>

primrec yields :: "(console \<Rightarrow> int \<times> console) \<Rightarrow> console \<Rightarrow> int list \<Rightarrow> console \<Rightarrow> bool" where
  "yields proc c [] c' = (proc c = (-1, c'))"
| "yields proc c (x # xs) c' = (fst (proc c) = x \<and> x \<noteq> -1 \<and> yields proc (snd (proc c)) xs c')"

text \<open>A device routine neither reads nor changes the input buffer.\<close>

locale ring_device =
  fixes proc :: "console \<Rightarrow> int \<times> console"
  assumes indep: "proc (c\<lparr>cons := b\<rparr>) = (fst (proc c), (snd (proc c))\<lparr>cons := b\<rparr>)"
begin

lemma cons_intr_yields:
  "yields proc c xs c' \<Longrightarrow>
     cons_intr proc (c\<lparr>cons := b\<rparr>) = Some (c'\<lparr>cons := fold ring_put (map of_int (filter (\<lambda>x. x \<noteq> 0) xs)) b\<rparr>)"
proof (induction xs arbitrary: c b)
  case Nil
  then show ?case by (subst cons_intr.simps) (simp add: indep)
next
  case (Cons x xs)
  then show ?case by (subst cons_intr.simps) (simp add: indep)
qed

lemma yields_indep: "yields proc c xs c' \<Longrightarrow> yields proc (c\<lparr>cons := b\<rparr>) xs (c'\<lparr>cons := b\<rparr>)"
  by (induction xs arbitrary: c) (simp_all add: indep)

lemma cons_intr_queue:
  assumes "yields proc c xs c'"
  shows "cons_intr proc c = Some (c'\<lparr>cons := fold ring_put (map of_int (filter (\<lambda>x. x \<noteq> 0) xs)) (cons c)\<rparr>)"
  using cons_intr_yields [OF assms, of "cons c"] by simp

end
lemma inb_cons: "inb p (c\<lparr>cons := b\<rparr>) = (fst (inb p c), (snd (inb p c))\<lparr>cons := b\<rparr>)"
  by (cases c) (simp add: inb_def)

lemma outb_cons: "outb p v (c\<lparr>cons := b\<rparr>) = (outb p v c)\<lparr>cons := b\<rparr>"
  by (cases c) (simp add: outb_def)

lemma wait_port_cons: "wait_port p m n (c\<lparr>cons := b\<rparr>) = (wait_port p m n c)\<lparr>cons := b\<rparr>"
  by (induction n arbitrary: c) (simp_all add: inb_cons delay_def Let_def split: prod.splits)

lemma serial_putc_cons: "serial_putc ch (c\<lparr>cons := b\<rparr>) = (serial_putc ch c)\<lparr>cons := b\<rparr>"
  by (simp add: serial_putc_def wait_port_cons outb_cons)

lemma lpt_putc_cons: "lpt_putc ch (c\<lparr>cons := b\<rparr>) = (lpt_putc ch c)\<lparr>cons := b\<rparr>"
  by (simp add: lpt_putc_def wait_port_cons outb_cons Let_def)

lemma cga_finish_cons: "cga_finish (c\<lparr>cons := b\<rparr>) = (cga_finish c)\<lparr>cons := b\<rparr>"
  by (cases c) (simp add: cga_finish_def outb_def Let_def)

lemma cga_char_cons: "cga_char ch (c\<lparr>cons := b\<rparr>) = (cga_char ch c)\<lparr>cons := b\<rparr>"
  by (cases c) (simp add: cga_char_def Let_def)

lemma cons_putc_cons:
  "cga_putc ch (c\<lparr>cons := b\<rparr>) = (cga_putc ch c)\<lparr>cons := b\<rparr>"
  "cons_putc ch (c\<lparr>cons := b\<rparr>) = (cons_putc ch c)\<lparr>cons := b\<rparr>"
proof (induction ch c and ch c rule: cga_putc_cons_putc.induct)
  case (1 ch c)
  then show ?case by (subst (1 2) cga_putc.simps) (simp add: Let_def cga_finish_cons cga_char_cons)
next
  case (2 ch c)
  then show ?case by (subst (1 2) cons_putc.simps) (simp add: lpt_putc_cons serial_putc_cons)
qed

lemma cons_puts_cons: "cons_puts str (c\<lparr>cons := b\<rparr>) = (cons_puts str c)\<lparr>cons := b\<rparr>"
proof -
  have "fold cputchar xs (c\<lparr>cons := b\<rparr>) = (fold cputchar xs c)\<lparr>cons := b\<rparr>" for xs
    by (induction xs arbitrary: c) (simp_all add: cputchar_def cons_putc_cons)
  then show ?thesis by (simp add: cons_puts_def)
qed

interpretation serial: ring_device serial_proc_data
  by unfold_locales (simp add: serial_proc_data_def inb_cons Let_def split: prod.splits)

lemma shift_cons: "(c\<lparr>cons := b\<rparr>)\<lparr>shift := sh\<rparr> = (c\<lparr>shift := sh\<rparr>)\<lparr>cons := b\<rparr>"
  by (cases c) simp

interpretation kbd: ring_device kbd_proc_data
proof
  show "kbd_proc_data (c\<lparr>cons := b\<rparr>) = (fst (kbd_proc_data c), (snd (kbd_proc_data c))\<lparr>cons := b\<rparr>)" for c b
    by (simp add: kbd_proc_data_def inb_cons shift_cons cons_puts_cons outb_cons split_def Let_def)
qed

text \<open>
  C30. \<open>cons_getc\<close> is a queue: it first appends what the serial port and the keyboard deliver,
  in this order and without the zero results, and then returns the oldest pending
  character, or 0 when there is none; nothing is lost or reordered while fewer than
  \<open>CONSBUFSIZE\<close> characters are pending.
\<close>

theorem cons_getc_fifo:
  assumes "ring_ok (cons c)"
    and "if serial_exists c then yields serial_proc_data c xs c1 else xs = [] \<and> c1 = c"
    and "yields kbd_proc_data c1 ys c2"
    and "q = ring_items (cons c) @ map of_int (filter (\<lambda>x. x \<noteq> 0) (xs @ ys))"
    and "length q < CONSBUFSIZE"
  shows "\<exists>c'. cons_getc c = Some (if q = [] then 0 else uint (hd q), c') \<and>
    ring_ok (cons c') \<and> ring_items (cons c') = tl q"
proof -
  let ?f = "\<lambda>zs. map of_int (filter (\<lambda>x. x \<noteq> (0 :: int)) zs) :: u8 list"
  have s: "serial_intr c = Some (c1\<lparr>cons := fold ring_put (?f xs) (cons c)\<rparr>)"
    using assms(2) serial.cons_intr_queue by (cases "serial_exists c") (auto simp: serial_intr_def)
  have k: "kbd_intr (c1\<lparr>cons := fold ring_put (?f xs) (cons c)\<rparr>) =
      Some (c2\<lparr>cons := fold ring_put (?f (xs @ ys)) (cons c)\<rparr>)"
    using kbd.cons_intr_yields [OF assms(3), of "fold ring_put (?f xs) (cons c)"] by (simp add: kbd_intr_def)
  have l: "length (ring_items (cons c)) + length (?f (xs @ ys)) < CONSBUFSIZE" using assms(4,5) by simp
  let ?r = "ring_get (fold ring_put (?f (xs @ ys)) (cons c))"
  have r: "fst ?r = (if q = [] then 0 else uint (hd q))" "ring_ok (snd ?r)" "ring_items (snd ?r) = tl q"
    using ring.get_after_puts [OF assms(1) l] unfolding Let_def assms(4) [symmetric] by auto
  have "cons_getc c = Some (fst ?r, c2\<lparr>cons := snd ?r\<rparr>)"
    by (simp add: cons_getc_def s k split_def Let_def)
  then show ?thesis using r by (intro exI [of _ "c2\<lparr>cons := snd ?r\<rparr>"]) simp
qed

definition quiet_console :: console where
  "quiet_console = \<lparr>inp = (\<lambda>p k. if p = KBSTATP \<and> k = 0 then 1 else if p = KBDATAP then 0x1E else 0), nread = (\<lambda>_. 0), outs = [],
     has_cga = True, serial_exists = False, addr_6845 = CGA_BASE, crt_buf = 0xF0000000 + CGA_BUF, crt = (\<lambda>_. 0x0720),
     crt_pos = 0, shift = 0, cons = \<lparr>buf = replicate 512 0, rpos = 510, wpos = 510\<rparr>, irq_mask_8259A = 0xFFFB, didinit = False\<rparr>"

theorem cons_getc_fifo_witness:
  "\<exists>c'. cons_getc quiet_console = Some (97, c') \<and> ring_ok (cons c') \<and> ring_items (cons c') = []"
proof -
  let ?c = "quiet_console\<lparr>nread := (\<lambda>_. 0)(KBDATAP := Suc 0, KBSTATP := Suc (Suc 0))\<rparr>"
  have ring: "ring_ok (cons quiet_console)" "ring_items (cons quiet_console) = []"
    by (simp_all add: quiet_console_def ring_ok_def ring_items_def ring_len_def CONSBUFSIZE_def)
  have ser: "\<not> serial_exists quiet_console" by (simp add: quiet_console_def)
  have key: "kbd_key 0x1E 0 = (0, 97)" by code_simp
  have y: "yields kbd_proc_data quiet_console [97] ?c"
    by (simp add: quiet_console_def kbd_proc_data_def inb_def key KBSTATP_def KBDATAP_def KBS_DIB_def KBS_TERR_def CTL_def ALT_def KEY_DEL_def)
  show ?thesis
    using cons_getc_fifo [OF ring(1) _ y refl, where xs = "[]"] ring(2) ser
    by (simp add: CONSBUFSIZE_def ring_items_length [symmetric] del: ring_items_length)
qed

text \<open>
  The buffer gives no sign of overflow: with 511 characters pending the next one moves the
  write position onto the read position, and all 512 are gone.
\<close>

lemma ring_overflow:
  assumes "ring_ok b" "length (ring_items b) = CONSBUFSIZE - 1"
  shows "ring_ok (ring_put x b) \<and> ring_items (ring_put x b) = [] \<and> ring_get (ring_put x b) = (0, ring_put x b)"
proof -
  have "ring_len (ring_put x b) = 0" using ring_put_len [OF assms(1)] assms(2) by (simp add: CONSBUFSIZE_def)
  then have "ring_items (ring_put x b) = []" by (simp add: ring_items_def)
  then show ?thesis using ring_put_ok [OF assms(1)] ring.get_empty by blast
qed

lemma ring_overflow_witness:
  "ring_items (ring_put 65 \<lparr>buf = replicate 512 0, rpos = 0, wpos = 511\<rparr>) = []"
  using ring_overflow [of "\<lparr>buf = replicate 512 0, rpos = 0, wpos = 511\<rparr>" 65]
  by (simp add: ring_ok_def ring_len_def CONSBUFSIZE_def)

section \<open>The display is a scrolling terminal\<close>

text \<open>
  The abstract terminal: a list of \<open>CRT_SIZE\<close> cells and a cursor. \<open>term_scroll\<close> drops the
  first row when the cursor has left the screen.
\<close>

type_synonym terminal = "u16 list \<times> nat"

definition blank :: u16 where "blank = 0x0720"

definition term_scroll :: "terminal \<Rightarrow> terminal" where
  "term_scroll tp = (if CRT_SIZE \<le> snd tp
     then (drop CRT_COLS (fst tp) @ replicate CRT_COLS blank, snd tp - CRT_COLS) else tp)"

definition attr :: "u32 \<Rightarrow> u32" where
  "attr ch = (if ch AND NOT 0xFF = 0 then ch OR 0x0700 else ch)"

definition term_char :: "u32 \<Rightarrow> terminal \<Rightarrow> terminal" where
  "term_char ch tp =
     (case tp of (t, p) \<Rightarrow>
      if ch AND 0xff = 8 then (if p = 0 then (t, p) else (t[p - 1 := ucast ((ch AND NOT 0xff) OR 32)], p - 1))
      else if ch AND 0xff = 10 then term_scroll (t, (p div CRT_COLS + 1) * CRT_COLS)
      else if ch AND 0xff = 13 then (t, p div CRT_COLS * CRT_COLS)
      else term_scroll (t[p := ucast ch], p + 1))"

definition term_put :: "u32 \<Rightarrow> terminal \<Rightarrow> terminal" where
  "term_put ch tp = (if ch AND 0xff = 9 then (term_char (attr 32) ^^ 5) tp else term_char (attr ch) tp)"

definition screen :: "console \<Rightarrow> terminal" where
  "screen c = (map (crt c) [0..<CRT_SIZE], unat (crt_pos c))"

definition on_screen :: "console \<Rightarrow> bool" where
  "on_screen c \<longleftrightarrow> unat (crt_pos c) < CRT_SIZE"

lemmas crt_defs = CRT_SIZE_def CRT_COLS_def CRT_ROWS_def

lemma crt_scroll_eq:
  "crt_scroll t i = (if i < CRT_SIZE - CRT_COLS then t (i + CRT_COLS) else if i < CRT_SIZE then blank else t i)"
proof -
  have "fold (\<lambda>i t. t(i := v)) [a..<b] f i = (if a \<le> i \<and> i < b then v else f i)" for a b :: nat and v :: u16 and f
    by (induction b) auto
  then show ?thesis by (auto simp: crt_scroll_def blank_def)
qed

text \<open>Scrolling and the cursor writes do not touch anything but the screen.\<close>

lemma cga_finish_screen:
  assumes "unat (crt_pos c) < CRT_SIZE + CRT_COLS"
  shows "screen (cga_finish c) = term_scroll (screen c)" "on_screen (cga_finish c)"
    "\<And>i. CRT_SIZE \<le> i \<Longrightarrow> crt (cga_finish c) i = crt c i"
proof -
  have m: "map (crt_scroll t) [0..<CRT_SIZE] = drop CRT_COLS (map t [0..<CRT_SIZE]) @ replicate CRT_COLS blank" for t
    by (rule nth_equalityI) (auto simp: crt_scroll_eq nth_append add.commute, simp_all add: crt_defs)
  have u: "unat (crt_pos c - 80) = unat (crt_pos c) - 80" if "CRT_SIZE \<le> unat (crt_pos c)"
    using that by (subst unat_sub) (simp_all add: word_le_nat_alt crt_defs)
  show "screen (cga_finish c) = term_scroll (screen c)"
    using u by (simp add: screen_def term_scroll_def cga_finish_def outb_def Let_def m) (simp add: CRT_COLS_def)
  show "on_screen (cga_finish c)"
    using u assms by (auto simp: on_screen_def cga_finish_def outb_def Let_def crt_defs)
  show "\<And>i. CRT_SIZE \<le> i \<Longrightarrow> crt (cga_finish c) i = crt c i"
    by (auto simp: cga_finish_def outb_def Let_def crt_scroll_eq)
qed

lemma row_start:
  assumes "unat (p :: u16) < 4000"
  shows "unat (p - p mod of_nat CRT_COLS) = unat p div CRT_COLS * CRT_COLS"
    "unat (p + of_nat CRT_COLS) = unat p + CRT_COLS"
proof -
  have "unat (p mod 80) = unat p mod 80" by (simp add: unat_mod)
  moreover have "p mod 80 \<le> p" by (simp add: word_le_nat_alt unat_mod)
  ultimately have "unat (p - p mod 80) = unat p - unat p mod 80" by (simp add: unat_sub)
  then show "unat (p - p mod of_nat CRT_COLS) = unat p div CRT_COLS * CRT_COLS"
    by (simp add: CRT_COLS_def minus_mod_eq_div_mult)
  show "unat (p + of_nat CRT_COLS) = unat p + CRT_COLS"
    using assms by (simp add: unat_word_ariths CRT_COLS_def)
qed

lemma cga_char_screen:
  assumes "on_screen c"
  shows "term_scroll (screen (cga_char ch c)) = term_char ch (screen c)"
    "unat (crt_pos (cga_char ch c)) < CRT_SIZE + CRT_COLS"
    "\<And>i. CRT_SIZE \<le> i \<Longrightarrow> crt (cga_char ch c) i = crt c i"
proof -
  have p: "unat (crt_pos c) < CRT_SIZE" "unat (crt_pos c) < 4000" "unat (crt_pos c) < 4000 - CRT_COLS"
    using assms by (auto simp: on_screen_def crt_defs)
  have p80: "unat (crt_pos c + of_nat CRT_COLS) < 4000" using row_start(2) [OF p(2)] p(3) by simp
  have p1: "unat (crt_pos c + 1) = unat (crt_pos c) + 1" using p(2) by (simp add: unat_word_ariths)
  have m1: "unat (crt_pos c - 1) = unat (crt_pos c) - 1" if "0 < crt_pos c"
    using that by (intro unat_minus_one) auto
  have le: "unat (crt_pos c) div CRT_COLS * CRT_COLS < CRT_SIZE" using p(1) by (meson div_times_less_eq_dividend le_less_trans)
  have sc: "term_scroll (t, q) = (t, q)" if "q < CRT_SIZE" for t q using that by (simp add: term_scroll_def)
  have mp: "map (f(i := v)) [0..<CRT_SIZE] = (map f [0..<CRT_SIZE])[i := v]" for f :: "nat \<Rightarrow> u16" and i v
    by (rule nth_equalityI) (auto simp: nth_list_update)
  show "term_scroll (screen (cga_char ch c)) = term_char ch (screen c)"
  proof -
    consider (bs) "ch AND 0xff = 8" | (nl) "ch AND 0xff = 10" | (cr) "ch AND 0xff = 13"
      | (plain) "ch AND 0xff \<noteq> 8" "ch AND 0xff \<noteq> 10" "ch AND 0xff \<noteq> 13" by blast
    then show ?thesis
    proof cases
      case bs
      show ?thesis
      proof (cases "crt_pos c = 0")
        case True
        then show ?thesis using bs p(1) by (simp add: cga_char_def screen_def term_char_def sc)
      next
        case False
        then have gt: "0 < crt_pos c" by (simp add: word_gt_0)
        then have "unat (crt_pos c) \<noteq> 0" by (simp add: unat_eq_zero)
        then show ?thesis using bs gt p(1) m1 [OF gt]
          by (simp add: cga_char_def screen_def term_char_def Let_def mp sc del: fun_upd_apply)
      qed
    next
      case nl
      then show ?thesis by (simp add: cga_char_def screen_def term_char_def Let_def row_start(1) [OF p80] row_start(2) [OF p(2)])
        (simp add: CRT_COLS_def div_add_self2)
    next
      case cr
      then show ?thesis using le by (simp add: cga_char_def screen_def term_char_def Let_def row_start(1) [OF p(2)] sc)
    next
      case plain
      then show ?thesis using p1 by (simp add: cga_char_def screen_def term_char_def mp del: fun_upd_apply)
    qed
  qed
  show "unat (crt_pos (cga_char ch c)) < CRT_SIZE + CRT_COLS"
  proof -
    have "(unat (crt_pos c) + CRT_COLS) div CRT_COLS * CRT_COLS < CRT_SIZE + CRT_COLS" "Suc (unat (crt_pos c)) < CRT_SIZE + CRT_COLS"
      using p(1) le by (simp_all add: CRT_COLS_def div_add_self2)
    then show ?thesis
      using p(1) le m1 by (auto simp: cga_char_def Let_def row_start [OF p(2)] row_start(1) [OF p80] p1)
  qed
  show "\<And>i. CRT_SIZE \<le> i \<Longrightarrow> crt (cga_char ch c) i = crt c i"
    using p(1) m1 by (auto simp: cga_char_def Let_def)
qed

lemma putc_screen_keep:
  "screen (lpt_putc ch (serial_putc ch c)) = screen c" "crt (lpt_putc ch (serial_putc ch c)) = crt c"
  "on_screen (lpt_putc ch (serial_putc ch c)) = on_screen c"
proof -
  have w: "crt (wait_port p m n c) = crt c" "crt_pos (wait_port p m n c) = crt_pos c" for p m n c
    by (induction n arbitrary: c) (simp_all add: inb_def delay_def Let_def)
  show "screen (lpt_putc ch (serial_putc ch c)) = screen c" "crt (lpt_putc ch (serial_putc ch c)) = crt c"
    "on_screen (lpt_putc ch (serial_putc ch c)) = on_screen c"
    by (simp_all add: screen_def on_screen_def lpt_putc_def serial_putc_def outb_def w Let_def)
qed

definition shows_as :: "(terminal \<Rightarrow> terminal) \<Rightarrow> console \<Rightarrow> console \<Rightarrow> bool" where
  "shows_as f c c' \<longleftrightarrow> screen c' = f (screen c) \<and> on_screen c' \<and> (\<forall>i \<ge> CRT_SIZE. crt c' i = crt c i)"

lemma cga_plain:
  assumes "on_screen c" "ch AND 0xff \<noteq> 9"
  shows "shows_as (term_char (attr ch)) c (cga_putc ch c)"
proof -
  have ff: "attr ch AND 0xff = ch AND 0xff" by (simp add: attr_def and_ff_or_attr)
  have "cga_putc ch c = cga_finish (cga_char (attr ch) c)"
    using assms(2) ff by (subst cga_putc.simps) (simp add: Let_def attr_def)
  then show ?thesis
    using cga_char_screen [OF assms(1), where ch = "attr ch"] cga_finish_screen [of "cga_char (attr ch) c"]
    by (simp add: shows_as_def)
qed

lemma cons_plain:
  assumes "on_screen c" "ch AND 0xff \<noteq> 9"
  shows "shows_as (term_char (attr ch)) c (cons_putc ch c)"
  using cga_plain [of "lpt_putc ch (serial_putc ch c)" ch] assms
  by (subst cons_putc.simps) (simp add: shows_as_def putc_screen_keep)

lemma shows_as_trans: "shows_as f a b \<Longrightarrow> shows_as g b c \<Longrightarrow> shows_as (g \<circ> f) a c"
  by (simp add: shows_as_def)

lemma screen_length: "on_screen c \<Longrightarrow> term_scroll (screen c) = screen c"
  by (simp add: on_screen_def screen_def term_scroll_def)

text \<open>
  C31. The display refines the abstract terminal: from any position on the screen, every
  character, tabs and line ends included, changes the cells and the cursor as \<open>term_put\<close>
  says; the cursor stays on the screen and no cell behind it is written.
\<close>

theorem cons_putc_terminal:
  assumes "on_screen c"
  shows "screen (cons_putc ch c) = term_put ch (screen c) \<and> on_screen (cons_putc ch c) \<and>
    (\<forall>i \<ge> CRT_SIZE. crt (cons_putc ch c) i = crt c i)"
proof (cases "ch AND 0xff = 9")
  case False
  then show ?thesis using cons_plain [OF assms False] by (simp add: shows_as_def term_put_def)
next
  case True
  let ?d = "lpt_putc ch (serial_putc ch c)"
  let ?e = "cons_putc 32 (cons_putc 32 (cons_putc 32 (cons_putc 32 (cons_putc 32 ?d))))"
  have ff: "attr ch AND 0xff = 9" using True by (simp add: attr_def and_ff_or_attr)
  have st: "shows_as (term_char (attr 32)) x (cons_putc 32 x)" if "on_screen x" for x
    using cons_plain [OF that, of 32] by simp
  have d: "on_screen ?d" using assms by (simp add: putc_screen_keep)
  have e: "shows_as ((term_char (attr 32)) ^^ 5) ?d ?e"
    using st [OF d] st shows_as_trans by (simp add: shows_as_def eval_nat_numeral)
  have "cons_putc ch c = cga_finish ?e"
    using ff by (subst cons_putc.simps, subst cga_putc.simps) (simp add: attr_def Let_def)
  then show ?thesis
    using e cga_finish_screen [of ?e] True screen_length [of ?e]
    by (simp add: shows_as_def putc_screen_keep term_put_def on_screen_def)
qed

theorem cons_putc_terminal_witness:
  "screen (cons_putc 97 quiet_console) = term_put 97 (screen quiet_console) \<and> on_screen (cons_putc 97 quiet_console)"
  using cons_putc_terminal [of quiet_console 97] by (simp add: quiet_console_def on_screen_def crt_defs)

section \<open>Keyboard modifiers\<close>

text \<open>The scan codes of the letters, with the upper-case letter each produces.\<close>

definition letter_keys :: "(u8 \<times> u8) list" where
  "letter_keys = zip ([0x10, 0x11, 0x12, 0x13, 0x14, 0x15, 0x16, 0x17, 0x18, 0x19] @
      [0x1E, 0x1F, 0x20, 0x21, 0x22, 0x23, 0x24, 0x25, 0x26] @ [0x2C, 0x2D, 0x2E, 0x2F, 0x30, 0x31, 0x32])
    (bytes_of ''QWERTYUIOPASDFGHJKLZXCVBNM'')"

lemma letter_tables:
  "\<forall>(d, l) \<in> set letter_keys. normalmap d = l + 32 \<and> shiftmap d = l \<and> ctlmap d = l - 64 \<and>
     65 \<le> l \<and> l \<le> 90 \<and> shiftcode d = 0 \<and> togglecode d = 0 \<and> d \<noteq> 0xE0 \<and> d AND 0x80 = 0"
  by code_simp

lemma and_3: "(sh :: u32) AND 3 = (if sh AND 1 \<noteq> 0 then 1 else 0) OR (if sh AND 2 \<noteq> 0 then 2 else 0)"
proof -
  have "(sh AND 3) = (sh AND 1) OR (sh AND 2)" by (simp flip: bit.conj_disj_distrib)
  moreover have "sh AND 1 = 0 \<or> sh AND 1 = 1" by (simp add: and_one_eq mod2_eq_if)
  moreover have "sh AND 2 = 0 \<or> sh AND 2 = 2"
  proof (cases "bit sh 1")
    case True
    have "sh AND 2 = 2" by (rule bit_eqI) (use True in \<open>auto simp: bit_simps\<close>)
    then show ?thesis ..
  next
    case False
    have "sh AND 2 = 0" by (rule bit_eqI) (use False in \<open>auto simp: bit_simps\<close>)
    then show ?thesis ..
  qed
  ultimately show ?thesis by auto
qed

text \<open>
  Letter keys: whatever else is held down, without Ctrl a letter key gives the upper-case
  letter when exactly one of Shift and Caps Lock is on and the lower-case one otherwise;
  with Ctrl it gives the control character. The modifiers stay as they are.
\<close>

lemma kbd_letter_case:
  assumes "(d, l) \<in> set letter_keys" "sh AND E0ESC = 0"
  shows "kbd_key d sh = (sh,
    if sh AND CTL \<noteq> 0 then uint l - 64
    else if (sh AND SHIFT \<noteq> 0) \<noteq> (sh AND CAPSLOCK \<noteq> 0) then uint l else uint l + 32)"
proof -
  have t: "normalmap d = l + 32" "shiftmap d = l" "ctlmap d = l - 64" "65 \<le> l" "l \<le> 90"
    "shiftcode d = 0" "togglecode d = 0" "d \<noteq> 0xE0" "d AND 0x80 = 0" using letter_tables assms(1) by auto
  have u: "65 \<le> uint l" "uint l \<le> 90" using t(4,5) by (auto simp: word_le_def)
  have v: "uint (l + 32) = uint l + 32" "uint (l - 64) = uint l - 64"
    using u by (simp_all add: uint_word_ariths)
  have "CTL OR SHIFT = 3" by (simp add: CTL_def SHIFT_def)
  then show ?thesis using assms(2) t u
    by (auto simp: kbd_key_def Let_def and_3 charcode_def v CTL_def SHIFT_def)
qed

lemma kbd_letter_case_witness: "kbd_key 0x1E SHIFT = (SHIFT, uint (65 :: u8))"
proof -
  have "(0x1E, 65) \<in> set letter_keys" by code_simp
  then show ?thesis using kbd_letter_case [of "0x1E" 65 SHIFT] by (simp add: SHIFT_def E0ESC_def CTL_def CAPSLOCK_def)
qed

section \<open>Editing a line\<close>

definition edit :: "u8 list \<Rightarrow> int \<Rightarrow> u8 list" where
  "edit line ch =
     (if (ch = 8 \<or> ch = 127) \<and> line \<noteq> [] then butlast line
      else if 32 \<le> ch \<and> length line < BUFLEN - 1 then line @ [of_int ch] else line)"

lemma edit_length: "length line < BUFLEN \<Longrightarrow> length (edit line ch) < BUFLEN"
  by (auto simp: edit_def BUFLEN_def)

lemma readline_loop_edit:
  assumes "\<forall>ch \<in> set chs. 0 \<le> ch \<and> ch \<noteq> 10 \<and> ch \<noteq> 13" "ch = 10 \<or> ch = 13"
    and "length b = BUFLEN" "take (length line) b = line" "length line < BUFLEN"
  shows "\<exists>b' o2. readline_loop echoing (chs @ ch # rest) b (length line) o1 = Some (True, b', o2) \<and>
    length b' = BUFLEN \<and> (let l = foldl edit line chs in length l < BUFLEN \<and> take (length l) b' = l \<and> b' ! length l = 0)"
  using assms(1,3-5)
proof (induction chs arbitrary: b line o1)
  case Nil
  have "\<not> 32 \<le> ch" "\<not> ch < 0" "\<not> (ch = 8 \<or> ch = 127)" using assms(2) by auto
  then show ?case using assms(2) Nil by (auto simp: Let_def)
next
  case (Cons x chs)
  have x: "0 \<le> x" "x \<noteq> 10" "x \<noteq> 13" and chs: "\<forall>ch \<in> set chs. 0 \<le> ch \<and> ch \<noteq> 10 \<and> ch \<noteq> 13" using Cons.prems(1) by auto
  have IH: "\<exists>b' o2. readline_loop echoing (chs @ ch # rest) b1 (length (edit line x)) o1 = Some (True, b', o2) \<and>
      length b' = BUFLEN \<and> (let l = foldl edit (edit line x) chs in length l < BUFLEN \<and> take (length l) b' = l \<and> b' ! length l = 0)"
    if "length b1 = BUFLEN" "take (length (edit line x)) b1 = edit line x" for b1 o1
    using Cons.IH [OF chs that edit_length [OF Cons.prems(4)]] .
  consider (del) "(x = 8 \<or> x = 127) \<and> line \<noteq> []" | (ins) "\<not> ((x = 8 \<or> x = 127) \<and> line \<noteq> [])" "32 \<le> x \<and> length line < BUFLEN - 1"
    | (ign) "\<not> ((x = 8 \<or> x = 127) \<and> line \<noteq> [])" "\<not> (32 \<le> x \<and> length line < BUFLEN - 1)" by blast
  then show ?case
  proof cases
    case del
    then have e: "edit line x = butlast line" by (simp add: edit_def)
    have "take (length (butlast line)) b = butlast line"
      using Cons.prems(3) by (metis butlast_take diff_le_self length_butlast nat_le_linear take_all_iff take_butlast butlast_conv_take
            take_take min.absorb1)
    then show ?thesis using IH [OF Cons.prems(2)] del e x by simp
  next
    case ins
    then have e: "edit line x = line @ [of_int x]" by (auto simp: edit_def)
    have "take (Suc (length line)) (b[length line := of_int x]) = line @ [of_int x]"
      using Cons.prems(2-4) by (simp add: take_Suc_conv_app_nth)
    then show ?thesis using IH [of "b[length line := of_int x]"] Cons.prems(2) ins e x by auto
  next
    case ign
    then have "edit line x = line" by (auto simp: edit_def)
    then show ?thesis using IH [OF Cons.prems(2)] Cons.prems(3) ign x by auto
  qed
qed

text \<open>
  C32. \<open>readline\<close> returns as soon as a line end is typed; it never writes outside its
  \<open>BUFLEN\<close> bytes, and the buffer then holds the edited line, terminated: characters in the
  order typed, backspace removing the last one, control characters and what does not fit
  ignored.
\<close>

theorem readline_edits:
  assumes "\<forall>ch \<in> set chs. 0 \<le> ch \<and> ch \<noteq> 10 \<and> ch \<noteq> 13" "ch = 10 \<or> ch = 13" "length b = BUFLEN"
  shows "\<exists>b' o2. readline prompt echoing (chs @ ch # rest) b = Some (True, b', o2) \<and> length b' = BUFLEN \<and>
    (let l = foldl edit [] chs in length l < BUFLEN \<and> take (length l) b' = l \<and> b' ! length l = 0)"
  using readline_loop_edit [OF assms, of "[]" echoing rest prompt] by (simp add: readline_def BUFLEN_def)

theorem readline_edits_witness:
  "\<exists>b' o2. readline [75, 62, 32] True ([104, 120, 8, 105] @ 13 # []) (replicate 1024 0) = Some (True, b', o2) \<and>
    take (Suc (Suc 0)) b' = [104, 105] \<and> b' ! Suc (Suc 0) = 0"
  using readline_edits [of "[104, 120, 8, 105]" 13 "replicate 1024 0" "[75, 62, 32]" True "[]"]
  by (auto simp: edit_def BUFLEN_def)

end
