(* ===== verification/KDebug.thy ===== *)
theory KDebug
  imports EnvMgr CString
begin

text \<open>
  Debugging information, \<^verbatim>\<open>kern/kdebug.c\<close>: the binary search over the symbol table entries
  and the lookup of the function, file and line of an instruction address. The table is an
  array of entries at the places the linker chose, or, for user addresses, at the places
  the user program names; the memory is that of the current address space.
\<close>

section \<open>Binary search\<close>

record Stab =
  n_strx :: u32
  n_type :: u8
  n_other :: u8
  n_desc :: u16
  n_value :: u32

definition N_FUN :: u8 where "N_FUN = 0x24"
definition N_SLINE :: u8 where "N_SLINE = 0x44"
definition N_SO :: u8 where "N_SO = 0x64"
definition N_SOL :: u8 where "N_SOL = 0x84"
definition N_PSYM :: u8 where "N_PSYM = 0xA0"

text \<open>The inner loop: the last entry at or before \<open>m\<close> of the right type, or \<open>l - 1\<close>.\<close>

function last_match :: "(int \<Rightarrow> Stab) \<Rightarrow> u8 \<Rightarrow> int \<Rightarrow> int \<Rightarrow> int" where
  "last_match stabs ty l m = (if m \<ge> l \<and> n_type (stabs m) \<noteq> ty then last_match stabs ty l (m - 1) else m)"
  by pat_completeness auto

termination by (relation "measure (\<lambda>(stabs, ty, l, m). nat (m - l + 1))") auto

declare last_match.simps [simp del]

lemma last_match_le: "last_match stabs ty l m \<le> m"
proof (induction stabs ty l m rule: last_match.induct)
  case (1 stabs ty l m)
  then show ?case by (subst last_match.simps) auto
qed

lemma last_match_props:
  "l \<le> last_match stabs ty l m \<Longrightarrow> n_type (stabs (last_match stabs ty l m)) = ty"
  "last_match stabs ty l m < k \<Longrightarrow> k \<le> m \<Longrightarrow> l \<le> k \<Longrightarrow> n_type (stabs k) \<noteq> ty"
proof (induction stabs ty l m rule: last_match.induct)
  case (1 stabs ty l m)
  {
    case 1
    then show ?case using "1.IH"(1) by (cases "m \<ge> l \<and> n_type (stabs m) \<noteq> ty") (auto simp: last_match.simps [of stabs ty l m])
  next
    case 2
    then show ?case using "1.IH"(2)
      by (cases "m \<ge> l \<and> n_type (stabs m) \<noteq> ty"; cases "k = m") (auto simp: last_match.simps [of stabs ty l m])
  }
qed

text \<open>The state of the search: the region, the bounds, whether any entry matched, the address.\<close>

record bsearch =
  region_left :: int
  region_right :: int
  lo :: int
  hi :: int
  any_matches :: bool
  addr :: u32

text \<open>One iteration of the main loop. (Indices are not negative, so \<open>div 2\<close> is the division of the code.)\<close>

definition bsearch_step :: "(int \<Rightarrow> Stab) \<Rightarrow> u8 \<Rightarrow> bsearch \<Rightarrow> bsearch" where
  "bsearch_step stabs ty b =
     (let true_m = (lo b + hi b) div 2; m = last_match stabs ty (lo b) true_m in
      if m < lo b then b\<lparr>lo := true_m + 1\<rparr>
      else let b = b\<lparr>any_matches := True\<rparr> in
        if n_value (stabs m) < addr b then b\<lparr>region_left := m, lo := true_m + 1\<rparr>
        else if n_value (stabs m) > addr b then b\<lparr>region_right := m - 1, hi := m - 1\<rparr>
        else b\<lparr>region_left := m, lo := m, addr := addr b + 1\<rparr>)"

definition bsearch_measure :: "(int \<Rightarrow> Stab) \<Rightarrow> bsearch \<Rightarrow> nat" where
  "bsearch_measure stabs b = 2 * nat (hi b - lo b + 1) + (if n_value (stabs (lo b)) = addr b then 1 else 0)"

lemma bsearch_step_less:
  assumes "lo b \<le> hi b"
  shows "bsearch_measure stabs (bsearch_step stabs ty b) < bsearch_measure stabs b"
proof -
  let ?tm = "(lo b + hi b) div 2"
  let ?m = "last_match stabs ty (lo b) ?tm"
  have tm: "lo b \<le> ?tm" "?tm \<le> hi b" using assms by auto
  have m: "?m \<le> ?tm" by (rule last_match_le)
  consider "?m < lo b" | "lo b \<le> ?m" "n_value (stabs ?m) < addr b" | "lo b \<le> ?m" "n_value (stabs ?m) > addr b"
    | "lo b \<le> ?m" "n_value (stabs ?m) = addr b" by force
  then show ?thesis
  proof cases
    case 4
    then show ?thesis using tm m
      by (cases "?m = lo b") (auto simp: bsearch_measure_def bsearch_step_def Let_def)
  qed (use tm m in \<open>auto simp: bsearch_measure_def bsearch_step_def Let_def\<close>)
qed

function bsearch_loop :: "(int \<Rightarrow> Stab) \<Rightarrow> u8 \<Rightarrow> bsearch \<Rightarrow> bsearch" where
  "bsearch_loop stabs ty b = (if lo b \<le> hi b then bsearch_loop stabs ty (bsearch_step stabs ty b) else b)"
  by pat_completeness auto

termination
  by (relation "measure (\<lambda>(stabs, ty, b). bsearch_measure stabs b)") (auto simp: bsearch_step_less)

declare bsearch_loop.simps [simp del]

text \<open>The new values of \<open>*region_left\<close> and \<open>*region_right\<close>.\<close>

definition stab_binsearch :: "(int \<Rightarrow> Stab) \<Rightarrow> int \<Rightarrow> int \<Rightarrow> u8 \<Rightarrow> u32 \<Rightarrow> int \<times> int" where
  "stab_binsearch stabs left right ty a =
     (let b = bsearch_loop stabs ty \<lparr>region_left = left, region_right = right, lo = left, hi = right, any_matches = False, addr = a\<rparr> in
      if \<not> any_matches b then (region_left b, region_left b - 1)
      else (last_match stabs ty (region_left b + 1) (region_right b), region_right b))"

section \<open>Looking up an address\<close>

record Eipdebuginfo =
  eip_file :: u32
  eip_line :: u32
  eip_fn_name :: u32
  eip_fn_namelen :: u32
  eip_fn_addr :: u32
  eip_fn_narg :: u32

text \<open>
  Where the tables are. \<open>unknown\<close> is the address of the string \<open><unknown>\<close>.
\<close>

record stab_data =
  stabs_at :: u32
  stab_end :: u32
  stabstr :: u32
  stabstr_end :: u32

definition read_stab :: "mem \<Rightarrow> u32 \<Rightarrow> int \<Rightarrow> Stab" where
  "read_stab m base i =
     (let a = base + of_int i * 12 in
      \<lparr>n_strx = read32 m a, n_type = m (a + 4), n_other = m (a + 5), n_desc = read16 m (a + 6), n_value = read32 m (a + 8)\<rparr>)"

definition init_info :: "u32 \<Rightarrow> u32 \<Rightarrow> Eipdebuginfo" where
  "init_info unknown a = \<lparr>eip_file = unknown, eip_line = 0, eip_fn_name = unknown, eip_fn_namelen = 9, eip_fn_addr = a, eip_fn_narg = 0\<rparr>"

text \<open>The number of entries: pointers subtract as signed numbers of elements.\<close>

definition stab_count :: "stab_data \<Rightarrow> int" where
  "stab_count d = sint (stab_end d - stabs_at d) div 12"

text \<open>The tables for an address: the kernel's, or the user's after checking that they are readable.\<close>

definition find_stabs :: "mem \<Rightarrow> stab_data \<Rightarrow> u32 \<Rightarrow> kstate \<Rightarrow> stab_data option kres" where
  "find_stabs m kernel_stabs a s =
     (if a \<ge> ULIM then Return (Some kernel_stabs) s
      else case curenv s of None \<Rightarrow> Fault ''debuginfo_eip: NULL curenv''
      | Some c \<Rightarrow>
          obind (user_mem_check c USTABDATA 16 0 s) (\<lambda>r s.
            if r \<noteq> 0 then Return None s
            else let d = \<lparr>stabs_at = read32 m USTABDATA, stab_end = read32 m (USTABDATA + 4),
                          stabstr = read32 m (USTABDATA + 8), stabstr_end = read32 m (USTABDATA + 12)\<rparr> in
              obind (user_mem_check c (stabs_at d) (of_int (stab_count d)) 0 s) (\<lambda>r s.
                if r \<noteq> 0 then Return None s
                else obind (user_mem_check c (stabstr d) (stabstr_end d - stabstr d) 0 s) (\<lambda>r s.
                  Return (if r \<noteq> 0 then None else Some d) s))))"

text \<open>The backward search for the file name, from \<open>i\<close> down to \<open>lfile\<close>.\<close>

function find_file :: "(int \<Rightarrow> Stab) \<Rightarrow> int \<Rightarrow> int \<Rightarrow> int" where
  "find_file stabs lfile i =
     (if i \<ge> lfile \<and> n_type (stabs i) \<noteq> N_SOL \<and> (n_type (stabs i) \<noteq> N_SO \<or> n_value (stabs i) = 0)
      then find_file stabs lfile (i - 1) else i)"
  by pat_completeness auto

termination by (relation "measure (\<lambda>(stabs, lfile, i). nat (i - lfile + 1))") auto

text \<open>The parameters that follow a function entry.\<close>

function count_args :: "(int \<Rightarrow> Stab) \<Rightarrow> int \<Rightarrow> int \<Rightarrow> nat" where
  "count_args stabs rfun i = (if i < rfun \<and> n_type (stabs i) = N_PSYM then Suc (count_args stabs rfun (i + 1)) else 0)"
  by pat_completeness auto

termination by (relation "measure (\<lambda>(stabs, rfun, i). nat (rfun - i))") auto

declare find_file.simps [simp del] count_args.simps [simp del]

text \<open>\<open>None\<close>: the name of the function does not end.\<close>

definition lookup_eip :: "mem \<Rightarrow> stab_data \<Rightarrow> u32 \<Rightarrow> Eipdebuginfo \<Rightarrow> (int \<times> Eipdebuginfo) option" where
  "lookup_eip m d a info =
     (let stabs = read_stab m (stabs_at d); strs = stabstr_end d - stabstr d in
      if stabstr_end d \<le> stabstr d \<or> m (stabstr_end d - 1) \<noteq> 0 then Some (-1, info)
      else let (lfile, rfile) = stab_binsearch stabs 0 (stab_count d - 1) N_SO a in
      if lfile = 0 then Some (-1, info)
      else let (lfun, rfun) = stab_binsearch stabs lfile rfile N_FUN a;
               (info, a, lline, rline) =
                 (if lfun \<le> rfun
                  then (info\<lparr>eip_fn_name := (if n_strx (stabs lfun) < strs then stabstr d + n_strx (stabs lfun) else eip_fn_name info),
                             eip_fn_addr := n_value (stabs lfun)\<rparr>, a - n_value (stabs lfun), lfun, rfun)
                  else (info\<lparr>eip_fn_addr := a\<rparr>, a, lfile, rfile)) in
      case strfind m (eip_fn_name info) 58 of None \<Rightarrow> None
      | Some colon \<Rightarrow>
          let info = info\<lparr>eip_fn_namelen := colon - eip_fn_name info\<rparr>;
              (lline, rline) = stab_binsearch stabs lline rline N_SLINE a;
              info = (if lline \<le> rline then info\<lparr>eip_line := ucast (n_desc (stabs lline))\<rparr> else info);
              lline = find_file stabs lfile lline;
              info = (if lline \<ge> lfile \<and> n_strx (stabs lline) < strs then info\<lparr>eip_file := stabstr d + n_strx (stabs lline)\<rparr> else info);
              info = (if lfun < rfun then info\<lparr>eip_fn_narg := eip_fn_narg info + of_nat (count_args stabs rfun (lfun + 1))\<rparr> else info)
          in Some (0, info))"

definition debuginfo_eip :: "mem \<Rightarrow> stab_data \<Rightarrow> u32 \<Rightarrow> u32 \<Rightarrow> kstate \<Rightarrow> (int \<times> Eipdebuginfo) kres" where
  "debuginfo_eip m kernel_stabs unknown a s =
     obind (find_stabs m kernel_stabs a s) (\<lambda>d s.
       case d of None \<Rightarrow> Return (-1, init_info unknown a) s
       | Some d \<Rightarrow> (case lookup_eip m d a (init_info unknown a) of None \<Rightarrow> Diverge | Some r \<Rightarrow> Return r s))"

end
