(* ===== verification/KDebugProps.thy ===== *)
theory KDebugProps
  imports KDebug
begin

text \<open>
  Correctness of \<open>stab_binsearch\<close> for tables sorted by address, and the two cases in which its
  answer is not what its comment says: an address before all entries, and an entry one
  byte behind an exact match.
\<close>

section \<open>The loop invariant\<close>

definition matches :: "(int \<Rightarrow> Stab) \<Rightarrow> u8 \<Rightarrow> int \<Rightarrow> int \<Rightarrow> int set" where
  "matches stabs ty l r = {i. l \<le> i \<and> i \<le> r \<and> n_type (stabs i) = ty}"

definition sorted_stabs :: "(int \<Rightarrow> Stab) \<Rightarrow> u8 \<Rightarrow> int \<Rightarrow> int \<Rightarrow> bool" where
  "sorted_stabs stabs ty l r \<longleftrightarrow>
     (\<forall>i \<in> matches stabs ty l r. \<forall>j \<in> matches stabs ty l r. i < j \<longrightarrow> n_value (stabs i) < n_value (stabs j))"

definition no_successor :: "(int \<Rightarrow> Stab) \<Rightarrow> u8 \<Rightarrow> int \<Rightarrow> int \<Rightarrow> u32 \<Rightarrow> bool" where
  "no_successor stabs ty l r a \<longleftrightarrow> a + 1 \<noteq> 0 \<and>
     (\<forall>i \<in> matches stabs ty l r. \<forall>j \<in> matches stabs ty l r. n_value (stabs i) = a \<longrightarrow> n_value (stabs j) \<noteq> a + 1)"

text \<open>
  Entries left of \<open>lo\<close> are not behind the address and entries right of \<open>hi\<close> are;
  \<open>region_left\<close> is the last of the former, if there is one.
\<close>

definition bs_inv :: "(int \<Rightarrow> Stab) \<Rightarrow> u8 \<Rightarrow> int \<Rightarrow> int \<Rightarrow> u32 \<Rightarrow> bsearch \<Rightarrow> bool" where
  "bs_inv stabs ty l r a b \<longleftrightarrow>
     l \<le> lo b \<and> hi b \<le> r \<and> lo b \<le> hi b + 1 \<and> region_right b = hi b \<and>
     (addr b = a \<or> addr b = a + 1 \<and> (\<exists>i \<in> matches stabs ty l r. n_value (stabs i) = a)) \<and>
     (\<forall>i \<in> matches stabs ty l r. hi b < i \<longrightarrow> a < n_value (stabs i)) \<and>
     (hi b = r \<or> hi b + 1 \<in> matches stabs ty l r) \<and>
     (\<not> any_matches b \<longrightarrow> hi b = r \<and> region_left b = l) \<and>
     (any_matches b \<longrightarrow> matches stabs ty l r \<noteq> {}) \<and>
     (region_left b = l \<and> matches stabs ty l (lo b - 1) = {} \<or>
      any_matches b \<and> region_left b \<in> matches stabs ty l r \<and> n_value (stabs (region_left b)) \<le> a \<and> region_left b \<le> hi b \<and>
      region_left b \<le> lo b \<and> matches stabs ty (region_left b + 1) (lo b - 1) = {} \<and>
      n_value (stabs (region_left b)) < addr b)"

lemma word_less_Suc: "(a :: u32) + 1 \<noteq> 0 \<Longrightarrow> v < a + 1 \<longleftrightarrow> v \<le> a"
  using unatSuc [of a] by (simp add: word_less_nat_alt word_le_nat_alt add.commute less_Suc_eq_le)

lemma matches_ext:
  "matches stabs ty x (y - 1) = {} \<Longrightarrow> (\<And>k. y \<le> k \<Longrightarrow> k \<le> z \<Longrightarrow> n_type (stabs k) \<noteq> ty) \<Longrightarrow> matches stabs ty x z = {}"
  unfolding matches_def by (auto simp: not_less)

lemma bsearch_step_inv:
  assumes inv: "bs_inv stabs ty l r a b" and lh: "lo b \<le> hi b" and ns: "no_successor stabs ty l r a"
    and so: "sorted_stabs stabs ty l r"
  shows "bs_inv stabs ty l r a (bsearch_step stabs ty b)"
proof -
  define tm where "tm = (lo b + hi b) div 2"
  define m where "m = last_match stabs ty (lo b) tm"
  have tm: "lo b \<le> tm" "tm \<le> hi b" using lh by (auto simp: tm_def)
  have mt: "m \<le> tm" unfolding m_def by (rule last_match_le)
  have gap: "n_type (stabs k) \<noteq> ty" if "m < k" "k \<le> tm" "lo b \<le> k" for k
    using last_match_props(2) [of stabs ty "lo b" tm k] that by (simp add: m_def)
  have step: "bsearch_step stabs ty b = (if m < lo b then b\<lparr>lo := tm + 1\<rparr>
      else if n_value (stabs m) < addr b then b\<lparr>any_matches := True, region_left := m, lo := tm + 1\<rparr>
      else if n_value (stabs m) > addr b then b\<lparr>any_matches := True, region_right := m - 1, hi := m - 1\<rparr>
      else b\<lparr>any_matches := True, region_left := m, lo := m, addr := addr b + 1\<rparr>)"
    by (simp add: bsearch_step_def Let_def tm_def m_def)
  show ?thesis
  proof (cases "m < lo b")
    case True
    have g: "n_type (stabs k) \<noteq> ty" if "lo b \<le> k" "k \<le> tm" for k using gap [of k] True that by simp
    have "matches stabs ty x (lo b - 1) = {} \<Longrightarrow> matches stabs ty x tm = {}" for x
      using matches_ext [of stabs ty x "lo b" tm] g by blast
    then show ?thesis using inv True tm by (auto simp: bs_inv_def step)
  next
    case False
    have ty: "n_type (stabs m) = ty" using last_match_props(1) False by (simp add: m_def)
    have mM: "m \<in> matches stabs ty l r" using ty False inv mt tm by (auto simp: matches_def bs_inv_def)
    have a1: "a + 1 \<noteq> 0" using ns by (simp add: no_successor_def)
    have ad: "addr b = a \<or> addr b = a + 1 \<and> (\<exists>i \<in> matches stabs ty l r. n_value (stabs i) = a)"
      using inv by (simp add: bs_inv_def)
    have gm: "matches stabs ty (m + 1) tm = {}" using gap False by (force simp: matches_def)
    consider (less) "n_value (stabs m) < addr b" | (greater) "n_value (stabs m) > addr b" | (eq) "n_value (stabs m) = addr b"
      by force
    then show ?thesis
    proof cases
      case less
      then have "n_value (stabs m) \<le> a" using ad word_less_Suc [OF a1, of "n_value (stabs m)"] by auto
      then show ?thesis using inv False less mM mt tm gm by (auto simp: bs_inv_def step)
    next
      case greater
      then have gt: "a < n_value (stabs m)" using ad word_less_Suc [OF a1, of a] by (auto intro: less_trans)
      have up: "a < n_value (stabs i)" if "i \<in> matches stabs ty l r" "m - 1 < i" for i
        using so mM that gt by (cases "i = m") (auto simp: sorted_stabs_def intro: less_trans)
      have "region_left b \<noteq> m" if "n_value (stabs (region_left b)) < addr b" using that greater by auto
      then have "region_left b \<le> m - 1" if "region_left b \<le> lo b" "n_value (stabs (region_left b)) < addr b"
        using that False by (metis le_less linorder_not_less not_le zle_diff1_eq order_trans)
      moreover have "\<not> addr b > n_value (stabs m)" using greater by auto
      ultimately show ?thesis using inv False greater up mM mt tm by (auto simp: bs_inv_def step)
    next
      case eq
      have "addr b = a"
        using ad eq ns mM by (auto simp: no_successor_def)
      moreover have "matches stabs ty (m + 1) (m - 1) = {}" by (auto simp: matches_def)
      ultimately show ?thesis using inv False eq mM mt tm a1 word_less_Suc [OF a1, of a]
        by (auto simp: bs_inv_def step)
    qed
  qed
qed

lemma bsearch_loop_inv:
  assumes "bs_inv stabs ty l r a b" "no_successor stabs ty l r a" "sorted_stabs stabs ty l r"
  shows "bs_inv stabs ty l r a (bsearch_loop stabs ty b) \<and> hi (bsearch_loop stabs ty b) < lo (bsearch_loop stabs ty b)"
  using assms
proof (induction stabs ty b rule: bsearch_loop.induct)
  case (1 stabs ty b)
  then show ?case using bsearch_step_inv by (cases "lo b \<le> hi b") (simp_all add: bsearch_loop.simps [of stabs ty b])
qed

lemma last_match_none:
  assumes "matches stabs ty l m = {}"
  shows "last_match stabs ty l m = min (l - 1) m"
  using assms
proof (induction stabs ty l m rule: last_match.induct)
  case (1 stabs ty l m)
  then show ?case
  proof (cases "l \<le> m")
    case True
    have "n_type (stabs m) \<noteq> ty" "matches stabs ty l (m - 1) = {}" using True 1(2) by (auto simp: matches_def)
    then show ?thesis using 1(1) True by (subst last_match.simps) auto
  next
    case False
    then show ?thesis by (subst last_match.simps) auto
  qed
qed

section \<open>Properties\<close>

definition sample_stabs :: "int \<Rightarrow> Stab" where
  "sample_stabs i = \<lparr>n_strx = 0, n_type = (if i = 2 then N_SLINE else N_SO), n_other = 0, n_desc = 0,
     n_value = (if i = 0 then 0xf0100000 else if i = 1 then 0xf0100040 else if i = 2 then 0 else 0xf0100176)\<rparr>"

lemma sample_matches: "matches sample_stabs N_SO 0 3 = {0, 1, 3}"
  by (auto simp: matches_def sample_stabs_def N_SO_def N_SLINE_def)

lemma sample_sorted: "sorted_stabs sample_stabs N_SO 0 3"
  unfolding sorted_stabs_def sample_matches by (auto simp: sample_stabs_def)

text \<open>
  C39. \<open>stab_binsearch\<close> terminates on every table, and for a table whose entries of the type
  are sorted by address and an exact match not followed by an entry one byte later it finds
  the right entry: the last one that does not start behind the address, with
  \<open>region_right\<close> just before the next one. Without an entry of the type the region is
  empty. If all entries start behind the address, \<open>region_right\<close> ends before the first,
  but \<open>region_left\<close> does not exceed it, although the comment promises that for addresses
  no entry contains.
\<close>

theorem stab_binsearch_correct:
  assumes so: "sorted_stabs stabs ty left right" and ns: "no_successor stabs ty left right a" and lr: "left \<le> right + 1"
    and M: "M = matches stabs ty left right" and LR: "(L, R) = stab_binsearch stabs left right ty a"
  shows "(M = {} \<longrightarrow> L = left \<and> R = left - 1) \<and>
    ((\<exists>i \<in> M. n_value (stabs i) \<le> a) \<longrightarrow> L \<in> M \<and> n_value (stabs L) \<le> a \<and> (\<forall>j \<in> M. n_value (stabs j) \<le> a \<longrightarrow> j \<le> L) \<and>
       L \<le> R \<and> (\<forall>j \<in> M. \<not> (L < j \<and> j \<le> R)) \<and> (R = right \<or> R + 1 \<in> M)) \<and>
    (M \<noteq> {} \<and> (\<forall>i \<in> M. a < n_value (stabs i)) \<longrightarrow> R + 1 \<in> M \<and> (\<forall>j \<in> M. R < j) \<and> L = min left R)"
proof -
  define b where "b = bsearch_loop stabs ty \<lparr>region_left = left, region_right = right, lo = left, hi = right, any_matches = False, addr = a\<rparr>"
  have "bs_inv stabs ty left right a \<lparr>region_left = left, region_right = right, lo = left, hi = right, any_matches = False, addr = a\<rparr>"
    using lr by (auto simp: bs_inv_def matches_def)
  then have inv: "bs_inv stabs ty left right a b" and end_: "hi b < lo b"
    using bsearch_loop_inv ns so unfolding b_def by blast+
  have res: "(L, R) = (if any_matches b then (last_match stabs ty (region_left b + 1) (region_right b), region_right b)
      else (region_left b, region_left b - 1))" using LR by (simp add: stab_binsearch_def Let_def b_def)
  have lo: "lo b - 1 = hi b" and rr: "region_right b = hi b" "hi b \<le> right" "left \<le> lo b"
    using inv end_ by (auto simp: bs_inv_def)
  have gt: "\<forall>i \<in> M. hi b < i \<longrightarrow> a < n_value (stabs i)" "hi b = right \<or> hi b + 1 \<in> M" "any_matches b \<longrightarrow> M \<noteq> {}"
    "\<not> any_matches b \<longrightarrow> hi b = right \<and> region_left b = left" using inv by (auto simp: bs_inv_def M)
  consider (none) "region_left b = left" "matches stabs ty left (hi b) = {}"
    | (sel) "any_matches b" "region_left b \<in> M" "n_value (stabs (region_left b)) \<le> a" "region_left b \<le> hi b"
        "matches stabs ty (region_left b + 1) (hi b) = {}"
    using inv unfolding bs_inv_def lo M by blast
  then show ?thesis
  proof cases
    case none
    have "i \<in> matches stabs ty left (hi b)" if "i \<in> M" "\<not> hi b < i" for i using that by (simp add: M matches_def)
    then have all: "\<forall>i \<in> M. hi b < i" using none(2) by blast
    have noex: "\<not> (\<exists>i \<in> M. n_value (stabs i) \<le> a)" using all gt(1) by (auto simp: not_le)
    have "matches stabs ty (left + 1) (hi b) = {}" using none(2) by (auto simp: matches_def)
    then have "last_match stabs ty (left + 1) (hi b) = min left (hi b)" using last_match_none by fastforce
    then have eq: "any_matches b \<Longrightarrow> L = min left (hi b) \<and> R = hi b" using res none rr by simp
    have "\<not> any_matches b \<Longrightarrow> M = {}" using gt(4) none(2) M by simp
    moreover have "M \<noteq> {} \<Longrightarrow> hi b + 1 \<in> M" using gt(2) all by (auto simp: M matches_def)
    ultimately show ?thesis using eq res none(1) all noex gt(3) by (cases "any_matches b") auto
  next
    case sel
    have "L = region_left b" "R = hi b" using res sel rr last_match_none [OF sel(5)] by simp_all
    moreover have "j \<le> region_left b" if "j \<in> M" "n_value (stabs j) \<le> a" for j
      using that gt(1) sel(5) by (force simp: M matches_def not_le)
    moreover have "\<not> (region_left b < j \<and> j \<le> hi b)" if "j \<in> M" for j
      using that sel(5) by (force simp: M matches_def)
    moreover have "\<not> (\<forall>i \<in> M. a < n_value (stabs i))" using sel(2,3) by (auto simp: not_less)
    ultimately show ?thesis using sel gt(2) by (simp add: not_le) blast
  qed
qed

theorem stab_binsearch_correct_witness:
  "fst (stab_binsearch sample_stabs 0 3 N_SO 0xf0100050) = 1 \<and> snd (stab_binsearch sample_stabs 0 3 N_SO 0xf0100050) = 2"
proof -
  let ?r = "stab_binsearch sample_stabs 0 3 N_SO 0xf0100050"
  have ns: "no_successor sample_stabs N_SO 0 3 0xf0100050" unfolding no_successor_def sample_matches by (simp add: sample_stabs_def)
  have r: "(fst ?r, snd ?r) = ?r" by simp
  note c = stab_binsearch_correct [OF sample_sorted ns _ refl r]
  have "fst ?r \<in> {0, 1, 3}" "n_value (sample_stabs (fst ?r)) \<le> 0xf0100050" "1 \<le> fst ?r"
    "\<forall>j \<in> {0, 1, 3}. \<not> (fst ?r < j \<and> j \<le> snd ?r)" "fst ?r \<le> snd ?r" "snd ?r = 3 \<or> snd ?r + 1 \<in> {0, 1, 3}"
    using c unfolding sample_matches by (auto simp: sample_stabs_def)
  then show ?thesis by (auto simp: sample_stabs_def)
qed

text \<open>
  The exact match is not always found: after it the search goes on for the address plus
  one, so that an entry one byte behind the exact match is taken for the match itself.
\<close>

lemma stab_binsearch_adjacent:
  assumes "n_type (stabs 0) = ty" "n_type (stabs 1) = ty" "n_value (stabs 0) = a" "n_value (stabs 1) = a + 1"
    and "unat a + 2 < 2 ^ 32"
  shows "stab_binsearch stabs 0 1 ty a = (1, 1)"
proof -
  have lt: "a < a + 1" "a + 1 < a + 2" using assms(5) by (simp_all add: word_less_nat_alt unat_word_ariths)
  have lm: "last_match stabs ty 0 0 = 0" "last_match stabs ty 1 1 = 1" "last_match stabs ty 2 1 = 1"
    using assms(1,2) by (simp_all add: last_match.simps)
  show ?thesis using lt lm assms(3,4)
    by (simp add: stab_binsearch_def bsearch_loop.simps bsearch_step_def Let_def add.assoc)
qed

lemma stab_binsearch_adjacent_witness:
  "stab_binsearch (\<lambda>i. \<lparr>n_strx = 0, n_type = N_SLINE, n_other = 0, n_desc = 0, n_value = (if i = 0 then 0x10 else 0x11)\<rparr>) 0 1 N_SLINE 0x10
     = (1, 1)"
  by (rule stab_binsearch_adjacent) simp_all

end
