(* ===== verification/Syscall.thy ===== *)
theory Syscall
  imports EnvProps Console
begin

text \<open>
  System calls, \<^verbatim>\<open>kern/syscall.c\<close>: every handler and the dispatcher. The handlers that only
  touch kernel memory work on \<open>kstate\<close>; \<open>sys_cputs\<close> and \<open>sys_cgetc\<close> also drive the
  console, so the dispatcher works on a \<open>machine\<close>, the kernel state together with the
  console. The handlers that work on \<open>kstate\<close> have no console; what they print
  (\<^verbatim>\<open>new env\<close>, \<^verbatim>\<open>free env\<close>, \<^verbatim>\<open>exiting gracefully\<close>) is printed where they are lifted to the machine.
\<close>

section \<open>The machine\<close>

record machine =
  kern :: kstate
  con :: console

type_synonym 'a mres = "(machine, 'a) outcome"

fun lift_kern :: "'a kres \<Rightarrow> machine \<Rightarrow> 'a mres" where
  "lift_kern (Return a s) m = Return a (m\<lparr>kern := s\<rparr>)"
| "lift_kern (Panic e) m = Panic e"
| "lift_kern (Leave l s) m = Leave l (m\<lparr>kern := s\<rparr>)"
| "lift_kern (Fault e) m = Fault e"
| "lift_kern Diverge m = Diverge"

section \<open>Messages of the kernel\<close>

text \<open>A number the way \<open>%0nx\<close> and \<open>%d\<close> print it.\<close>

definition hex_text :: "nat \<Rightarrow> u32 \<Rightarrow> string" where
  "hex_text n w = (case printnum (ucast w) 16 (int n) 48 [] of None \<Rightarrow> [] | Some cs \<Rightarrow> map (\<lambda>ch. char_of (unat ch)) cs)"

definition dec_text :: "u32 \<Rightarrow> string" where
  "dec_text w = (case printnum (ucast w) 10 (-1) 32 [] of None \<Rightarrow> [] | Some cs \<Rightarrow> map (\<lambda>ch. char_of (unat ch)) cs)"

definition nl :: string where "nl = [CHR 0x0A]"

definition kprint :: "string \<Rightarrow> machine \<Rightarrow> machine" where
  "kprint str m = m\<lparr>con := cons_puts str (con m)\<rparr>"

definition cur_text :: "kstate \<Rightarrow> string" where
  "cur_text s = ''['' @ hex_text 8 (case curenv s of None \<Rightarrow> 0 | Some c \<Rightarrow> env_id (envs s c)) @ ''] ''"

text \<open>What \<open>env_free\<close> prints.\<close>

definition free_message :: "kstate \<Rightarrow> nat \<Rightarrow> string" where
  "free_message s e = cur_text s @ ''free env '' @ hex_text 8 (env_id (envs s e)) @ nl"

text \<open>
  \<open>env_destroy\<close> on the machine: the state changes of \<open>EnvMgr\<close>, and the message of \<open>env_free\<close>, which is
  printed before any of them, unless the environment runs on another CPU and is only marked.
\<close>

definition note_destroy :: "nat \<Rightarrow> machine \<Rightarrow> machine" where
  "note_destroy e m =
     (if env_status (envs (kern m) e) = ENV_RUNNING \<and> curenv (kern m) \<noteq> Some e then m
      else kprint (free_message (kern m) e) m)"

definition destroy_env :: "nat \<Rightarrow> machine \<Rightarrow> unit mres" where
  "destroy_env e m = lift_kern (env_destroy e (kern m)) (note_destroy e m)"

definition assert_message :: "kstate \<Rightarrow> nat \<Rightarrow> string" where
  "assert_message s e = ''['' @ hex_text 8 (env_id (envs s e)) @ ''] user_mem_check assertion failure for va '' @
     hex_text 8 (user_mem_check_addr s) @ nl"

definition user_mem_assert :: "nat \<Rightarrow> u32 \<Rightarrow> u32 \<Rightarrow> u32 \<Rightarrow> machine \<Rightarrow> unit mres" where
  "user_mem_assert e va len perm m =
     obind (lift_kern (user_mem_check e va len (perm OR PTE_U) (kern m)) m) (\<lambda>r m.
       if sint r < 0 then destroy_env e (kprint (assert_message (kern m) e) m) else Return () m)"

section \<open>Console\<close>

text \<open>
  A load by the kernel through the page tables in \<open>cr3\<close>, and whether it succeeds (the
  kernel may read every present page).
\<close>

definition load_mem :: "kstate \<Rightarrow> mem" where
  "load_mem s va =
     (let pde = pmem s (unat (PGNUM (cr3 s))) (pdx va);
          pte = pmem s (unat (PGNUM pde)) (ptx va); off = unat (PGOFF va)
      in get_byte (pmem s (unat (PGNUM pte)) (off div 4)) (off mod 4))"

definition readable :: "kstate \<Rightarrow> u32 \<Rightarrow> bool" where
  "readable s va =
     (let pde = pmem s (unat (PGNUM (cr3 s))) (pdx va) in
      pde AND PTE_P \<noteq> 0 \<and> pmem s (unat (PGNUM pde)) (ptx va) AND PTE_P \<noteq> 0)"

text \<open>A string constant of the kernel in memory at \<open>a\<close>, and where the format of \<open>sys_cputs\<close> is.\<close>

definition with_string :: "u32 \<Rightarrow> string \<Rightarrow> mem \<Rightarrow> mem" where
  "with_string a str m = (\<lambda>x. if unat (x - a) < length str then bytes_of str ! unat (x - a)
     else if unat (x - a) = length str then 0 else m x)"

definition cputs_fmt :: u32 where "cputs_fmt = 0xF0100000"

text \<open>
  \<open>cprintf(''%.*s'', len, s)\<close> reads the bytes it prints and one more: the loop of
  \<open>vprintfmt\<close> fetches the next byte before it looks at the precision. If one of these reads
  hits an unmapped page, the kernel faults and panics.
\<close>

definition sys_cputs :: "u32 \<Rightarrow> u32 \<Rightarrow> machine \<Rightarrow> unit mres" where
  "sys_cputs str len m =
     (case curenv (kern m) of None \<Rightarrow> Fault ''sys_cputs: NULL curenv''
      | Some e \<Rightarrow>
          obind (user_mem_assert e str len 0 m) (\<lambda>_ m.
            case kvcprintf (with_string cputs_fmt ''%.*s'' (load_mem (kern m))) cputs_fmt [len, str] of
              None \<Rightarrow> Diverge
            | Some (r, shown) \<Rightarrow>
                if str = 0 \<or> list_all (\<lambda>i. readable (kern m) (str + of_nat i)) [0..<Suc (length shown)]
                then Return () (m\<lparr>con := fold cputchar shown (con m)\<rparr>)
                else Panic ''Kernel-mode page fault!!''))"

definition sys_cgetc :: "machine \<Rightarrow> u32 mres" where
  "sys_cgetc m = (case cons_getc (con m) of None \<Rightarrow> Diverge | Some (ch, c) \<Rightarrow> Return (of_int ch) (m\<lparr>con := c\<rparr>))"

section \<open>Environments\<close>

definition sys_getenvid :: "kstate \<Rightarrow> u32 kres" where
  "sys_getenvid s =
     (case curenv s of None \<Rightarrow> Fault ''sys_getenvid: NULL curenv'' | Some e \<Rightarrow> Return (env_id (envs s e)) s)"

definition sys_env_destroy :: "envid_t \<Rightarrow> kstate \<Rightarrow> u32 kres" where
  "sys_env_destroy envid s =
     obind (envid2env envid True s) (\<lambda>(r, e) s.
       if sint r < 0 then Return r s
       else case e of None \<Rightarrow> Fault ''sys_env_destroy: NULL env''
            | Some e \<Rightarrow> obind (env_destroy e s) (\<lambda>_ s. Return 0 s))"

definition sys_yield :: "kstate \<Rightarrow> unit kres" where
  "sys_yield s = sched_yield s"

definition sys_exofork :: "kstate \<Rightarrow> u32 kres" where
  "sys_exofork s =
     (case curenv s of None \<Rightarrow> Fault ''sys_exofork: NULL curenv''
      | Some c \<Rightarrow>
          obind (env_alloc (env_id (envs s c)) s) (\<lambda>(r, e) s.
            if r = - E_NO_MEM \<or> r = - E_NO_FREE_ENV then Return r s
            else case e of None \<Rightarrow> Fault ''sys_exofork: uninitialized e''
                 | Some e \<Rightarrow>
                     let s = upd_env e (\<lambda>x. x\<lparr>env_status := ENV_NOT_RUNNABLE\<rparr>) s;
                         s = upd_env e (\<lambda>x. x\<lparr>env_tf := env_tf (envs s c)\<rparr>) s;
                         s = upd_env e (\<lambda>x. x\<lparr>env_tf := (env_tf x)\<lparr>tf_regs := (tf_regs (env_tf x))\<lparr>reg_eax := 0\<rparr>\<rparr>\<rparr>) s
                     in Return (env_id (envs s e)) s))"

text \<open>The numbers of \<open>ENV_RUNNABLE\<close> and \<open>ENV_NOT_RUNNABLE\<close>.\<close>

definition status_runnable :: u32 where "status_runnable = 2"
definition status_not_runnable :: u32 where "status_not_runnable = 4"

definition sys_env_set_status :: "envid_t \<Rightarrow> u32 \<Rightarrow> kstate \<Rightarrow> u32 kres" where
  "sys_env_set_status envid status s =
     (if status \<noteq> status_runnable \<and> status \<noteq> status_not_runnable then Return (- E_INVAL) s
      else obind (envid2env envid True s) (\<lambda>(code, e) s.
        case e of None \<Rightarrow> Return (- E_BAD_ENV) s
        | Some e \<Rightarrow> Return 0 (upd_env e (\<lambda>x. x\<lparr>env_status :=
            (if status = status_runnable then ENV_RUNNABLE else ENV_NOT_RUNNABLE)\<rparr>) s)))"

definition sys_env_set_pgfault_upcall :: "envid_t \<Rightarrow> u32 \<Rightarrow> kstate \<Rightarrow> u32 kres" where
  "sys_env_set_pgfault_upcall envid func s = Panic ''sys_env_set_pgfault_upcall not implemented''"

section \<open>Memory\<close>

definition valid_perm :: "u32 \<Rightarrow> bool" where
  "valid_perm perm \<longleftrightarrow> perm AND PTE_U = PTE_U \<and> perm AND PTE_P = PTE_P \<and> perm AND NOT PTE_SYSCALL = 0"

definition sys_page_alloc :: "envid_t \<Rightarrow> u32 \<Rightarrow> u32 \<Rightarrow> kstate \<Rightarrow> u32 kres" where
  "sys_page_alloc envid va perm s =
     obind (envid2env envid True s) (\<lambda>(ret_code, e) s.
       case e of None \<Rightarrow> Return (- E_BAD_ENV) s
       | Some e \<Rightarrow>
           if va \<ge> UTOP \<or> va mod PGSIZE \<noteq> 0 \<or> \<not> valid_perm perm then Return (- E_INVAL) s
           else obind (page_alloc ALLOC_ZERO s) (\<lambda>page s.
             case page of None \<Rightarrow> Return (- E_NO_MEM) s
             | Some p \<Rightarrow>
                 (case env_pgdir (envs s e) of None \<Rightarrow> Fault ''sys_page_alloc: NULL pgdir''
                  | Some d \<Rightarrow>
                      obind (page_insert d (Some p) va perm s) (\<lambda>r s.
                        if r = - E_NO_MEM then obind (page_free p s) (\<lambda>_ s. Return (- E_NO_MEM) s)
                        else Return 0 s))))"

definition sys_page_map :: "envid_t \<Rightarrow> u32 \<Rightarrow> envid_t \<Rightarrow> u32 \<Rightarrow> u32 \<Rightarrow> kstate \<Rightarrow> u32 kres" where
  "sys_page_map srcenvid srcva dstenvid dstva perm s =
     obind (envid2env srcenvid True s) (\<lambda>(_, source) s.
     obind (envid2env dstenvid True s) (\<lambda>(_, destination) s.
       case (source, destination) of
         (Some src, Some dst) \<Rightarrow>
           if srcva \<ge> UTOP \<or> dstva \<ge> UTOP \<or> srcva mod PGSIZE \<noteq> 0 \<or> dstva mod PGSIZE \<noteq> 0 then Return (- E_INVAL) s
           else if \<not> valid_perm perm then Return (- E_INVAL) s
           else (case env_pgdir (envs s src) of None \<Rightarrow> Fault ''sys_page_map: NULL pgdir''
             | Some sd \<Rightarrow>
                 obind (page_lookup sd srcva s) (\<lambda>(src_page, pte_ptr) s.
                   case pte_ptr of None \<Rightarrow> Return (- E_INVAL) s
                   | Some p \<Rightarrow>
                       if perm AND PTE_W \<noteq> 0 \<and> load_pte p s AND PTE_W = 0 then Return (- E_INVAL) s
                       else (case env_pgdir (envs s dst) of None \<Rightarrow> Fault ''sys_page_map: NULL pgdir''
                         | Some dd \<Rightarrow>
                             obind (page_insert dd src_page dstva perm s) (\<lambda>r s.
                               if r = - E_NO_MEM then Return (- E_NO_MEM) s else Return 0 s))))
       | _ \<Rightarrow> Return (- E_BAD_ENV) s))"

definition sys_page_unmap :: "envid_t \<Rightarrow> u32 \<Rightarrow> kstate \<Rightarrow> u32 kres" where
  "sys_page_unmap envid va s =
     obind (envid2env envid True s) (\<lambda>(ret_code, e) s.
       case e of None \<Rightarrow> Return (- E_BAD_ENV) s
       | Some e \<Rightarrow>
           if va \<ge> UTOP \<or> va mod PGSIZE \<noteq> 0 then Return (- E_INVAL) s
           else (case env_pgdir (envs s e) of None \<Rightarrow> Fault ''sys_page_unmap: NULL pgdir''
             | Some d \<Rightarrow> obind (page_remove d va s) (\<lambda>_ s. Return 0 s)))"

section \<open>Messages\<close>

text \<open>The last part of a send: the fields of the receiver.\<close>

definition ipc_deliver :: "nat \<Rightarrow> envid_t \<Rightarrow> u32 \<Rightarrow> kstate \<Rightarrow> kstate" where
  "ipc_deliver target from val s =
     upd_env target (\<lambda>x. x\<lparr>env_ipc_recving := False, env_ipc_from := from, env_ipc_value := val,
       env_tf := (env_tf x)\<lparr>tf_regs := (tf_regs (env_tf x))\<lparr>reg_eax := 0\<rparr>\<rparr>, env_status := ENV_RUNNABLE\<rparr>) s"

text \<open>Sending the page at \<open>srcva\<close>: the checks in the order of the code, then the mapping.\<close>

definition ipc_send_page :: "nat \<Rightarrow> nat \<Rightarrow> u32 \<Rightarrow> u32 \<Rightarrow> u32 \<Rightarrow> kstate \<Rightarrow> u32 kres" where
  "ipc_send_page c target srcva dstva perm s =
     (case env_pgdir (envs s c) of None \<Rightarrow> Fault ''sys_ipc_try_send: NULL pgdir''
      | Some cd \<Rightarrow>
          obind (page_lookup cd srcva s) (\<lambda>(srcpg, pteaddr) s.
            case pteaddr of None \<Rightarrow> Return (- E_INVAL) s
            | Some p \<Rightarrow>
                if srcva mod PGSIZE \<noteq> 0 \<or> (perm AND PTE_W \<noteq> 0 \<and> load_pte p s AND PTE_W = 0) \<or>
                   perm AND (PTE_U OR PTE_P) = 0 \<or> perm AND NOT PTE_SYSCALL \<noteq> 0
                then Return (- E_INVAL) s
                else obind (assert_that (dstva mod PGSIZE = 0) ''assertion failed: !((uint32_t) dstva % PGSIZE)'' s) (\<lambda>_ s.
                  case env_pgdir (envs s target) of None \<Rightarrow> Fault ''sys_ipc_try_send: NULL pgdir''
                  | Some td \<Rightarrow>
                      obind (page_insert td srcpg dstva perm s) (\<lambda>r s.
                        if r = - E_NO_MEM then Return (- E_NO_MEM) s
                        else Return 0 (upd_env target (\<lambda>x. x\<lparr>env_ipc_perm := perm\<rparr>) s)))))"

definition sys_ipc_try_send :: "envid_t \<Rightarrow> u32 \<Rightarrow> u32 \<Rightarrow> u32 \<Rightarrow> kstate \<Rightarrow> u32 kres" where
  "sys_ipc_try_send envid val srcva perm s =
     obind (envid2env envid False s) (\<lambda>(r, target) s.
       if r = - E_BAD_ENV then Return (- E_BAD_ENV) s
       else case target of None \<Rightarrow> Fault ''sys_ipc_try_send: NULL env''
       | Some target \<Rightarrow>
           if \<not> env_ipc_recving (envs s target) then Return (- E_IPC_NOT_RECV) s
           else let s = upd_env target (\<lambda>x. x\<lparr>env_ipc_perm := 0\<rparr>) s;
                    dstva = env_ipc_dstva (envs s target) in
             case curenv s of None \<Rightarrow> Fault ''sys_ipc_try_send: NULL curenv''
             | Some c \<Rightarrow>
                 obind (if srcva < UTOP \<and> dstva < UTOP then ipc_send_page c target srcva dstva perm s else Return 0 s) (\<lambda>r s.
                   if r \<noteq> 0 then Return r s
                   else Return 0 (ipc_deliver target (env_id (envs s c)) val s)))"

definition sys_ipc_recv :: "u32 \<Rightarrow> kstate \<Rightarrow> u32 kres" where
  "sys_ipc_recv dstva s =
     (if dstva < UTOP \<and> dstva mod PGSIZE \<noteq> 0 then Return (- E_INVAL) s
      else case curenv s of None \<Rightarrow> Fault ''sys_ipc_recv: NULL curenv''
           | Some c \<Rightarrow>
               let s = upd_env c (\<lambda>x. x\<lparr>env_ipc_dstva := dstva, env_ipc_recving := True, env_status := ENV_NOT_RUNNABLE\<rparr>) s
               in obind (sys_yield s) (\<lambda>_ s. Return 0 s))"

section \<open>Dispatcher\<close>

definition SYS_cputs :: u32 where "SYS_cputs = 0"
definition SYS_cgetc :: u32 where "SYS_cgetc = 1"
definition SYS_getenvid :: u32 where "SYS_getenvid = 2"
definition SYS_env_destroy :: u32 where "SYS_env_destroy = 3"
definition SYS_page_alloc :: u32 where "SYS_page_alloc = 4"
definition SYS_page_map :: u32 where "SYS_page_map = 5"
definition SYS_page_unmap :: u32 where "SYS_page_unmap = 6"
definition SYS_exofork :: u32 where "SYS_exofork = 7"
definition SYS_env_set_status :: u32 where "SYS_env_set_status = 8"
definition SYS_env_set_pgfault_upcall :: u32 where "SYS_env_set_pgfault_upcall = 9"
definition SYS_yield :: u32 where "SYS_yield = 10"
definition SYS_ipc_try_send :: u32 where "SYS_ipc_try_send = 11"
definition SYS_ipc_recv :: u32 where "SYS_ipc_recv = 12"

lemmas sys_numbers = SYS_cputs_def SYS_cgetc_def SYS_getenvid_def SYS_env_destroy_def SYS_page_alloc_def
  SYS_page_map_def SYS_page_unmap_def SYS_exofork_def SYS_env_set_status_def SYS_env_set_pgfault_upcall_def
  SYS_yield_def SYS_ipc_try_send_def SYS_ipc_recv_def

text \<open>The messages of \<open>sys_env_destroy\<close> and of the \<open>env_alloc\<close> in \<open>sys_exofork\<close>.\<close>

definition note_sys_destroy :: "envid_t \<Rightarrow> machine \<Rightarrow> machine" where
  "note_sys_destroy envid m =
     (case envid2env envid True (kern m) of
        Return (r, Some e) s \<Rightarrow>
          if sint r < 0 then m
          else note_destroy e (kprint (cur_text s @ (if curenv s = Some e then ''exiting gracefully''
                 else ''destroying '' @ hex_text 8 (env_id (envs s e))) @ nl) m)
      | _ \<Rightarrow> m)"

definition note_exofork :: "machine \<Rightarrow> machine" where
  "note_exofork m =
     (case sys_exofork (kern m) of
        Return r _ \<Rightarrow> if r = - E_NO_MEM \<or> r = - E_NO_FREE_ENV then m
                      else kprint (cur_text (kern m) @ ''new env '' @ hex_text 8 r @ nl) m
      | _ \<Rightarrow> m)"

text \<open>\<open>SYS_yield\<close> falls through to \<open>SYS_exofork\<close> should \<open>sys_yield\<close> ever return.\<close>

definition syscall :: "u32 \<Rightarrow> u32 \<Rightarrow> u32 \<Rightarrow> u32 \<Rightarrow> u32 \<Rightarrow> u32 \<Rightarrow> machine \<Rightarrow> u32 mres" where
  "syscall syscallno a1 a2 a3 a4 a5 m =
     (let k = (\<lambda>f. lift_kern (f (kern m)) m) in
      if syscallno = SYS_cputs then obind (sys_cputs a1 a2 m) (\<lambda>_ m. Return 0 m)
      else if syscallno = SYS_cgetc then sys_cgetc m
      else if syscallno = SYS_getenvid then k sys_getenvid
      else if syscallno = SYS_env_destroy then lift_kern (sys_env_destroy a1 (kern m)) (note_sys_destroy a1 m)
      else if syscallno = SYS_yield then obind (lift_kern (sys_yield (kern m)) m) (\<lambda>_ m. lift_kern (sys_exofork (kern m)) (note_exofork m))
      else if syscallno = SYS_exofork then lift_kern (sys_exofork (kern m)) (note_exofork m)
      else if syscallno = SYS_env_set_status then k (sys_env_set_status a1 a2)
      else if syscallno = SYS_page_alloc then k (sys_page_alloc a1 a2 a3)
      else if syscallno = SYS_page_map then k (sys_page_map a1 a2 a3 a4 a5)
      else if syscallno = SYS_page_unmap then k (sys_page_unmap a1 a2)
      else if syscallno = SYS_ipc_try_send then k (sys_ipc_try_send a1 a2 a3 a4)
      else if syscallno = SYS_ipc_recv then k (sys_ipc_recv a1)
      else Return (- E_INVAL) m)"

lemma kprint_kern [simp]: "kern (kprint str m) = kern m"
  by (simp add: kprint_def)

lemma note_kern [simp]:
  "kern (note_destroy e m) = kern m" "kern (note_sys_destroy envid m) = kern m" "kern (note_exofork m) = kern m"
  by (auto simp: note_destroy_def note_sys_destroy_def note_exofork_def split: outcome.split prod.split option.split)

end
