(* ===== verification/Trap.thy ===== *)
theory Trap
  imports Syscall
begin

text \<open>
  Traps, \<^verbatim>\<open>kern/trap.c\<close>: the descriptor tables, the messages about trap frames, the
  dispatch of exceptions, system calls and interrupts, and the way back to an environment.
  The entry points of \<^verbatim>\<open>kern/trapentry.S\<close> are addresses given as a parameter; the writes to
  the local APIC that acknowledge the clock interrupt are left out.
\<close>

section \<open>Descriptors\<close>

record Segdesc =
  sd_lim_15_0 :: u32
  sd_base_15_0 :: u32
  sd_base_23_16 :: u32
  sd_type :: u32
  sd_s :: u32
  sd_dpl :: u32
  sd_p :: u32
  sd_lim_19_16 :: u32
  sd_avl :: u32
  sd_rsv1 :: u32
  sd_db :: u32
  sd_g :: u32
  sd_base_31_24 :: u32

record Gatedesc =
  gd_off_15_0 :: u32
  gd_sel :: u32
  gd_args :: u32
  gd_rsv1 :: u32
  gd_type :: u32
  gd_s :: u32
  gd_dpl :: u32
  gd_p :: u32
  gd_off_31_16 :: u32

definition SEG_NULL :: Segdesc where
  "SEG_NULL = \<lparr>sd_lim_15_0 = 0, sd_base_15_0 = 0, sd_base_23_16 = 0, sd_type = 0, sd_s = 0, sd_dpl = 0, sd_p = 0,
     sd_lim_19_16 = 0, sd_avl = 0, sd_rsv1 = 0, sd_db = 0, sd_g = 0, sd_base_31_24 = 0\<rparr>"

definition SEG :: "u32 \<Rightarrow> u32 \<Rightarrow> u32 \<Rightarrow> u32 \<Rightarrow> Segdesc" where
  "SEG ty base lim dpl = \<lparr>sd_lim_15_0 = drop_bit 12 lim AND 0xffff, sd_base_15_0 = base AND 0xffff,
     sd_base_23_16 = drop_bit 16 base AND 0xff, sd_type = ty, sd_s = 1, sd_dpl = dpl, sd_p = 1,
     sd_lim_19_16 = drop_bit 28 lim, sd_avl = 0, sd_rsv1 = 0, sd_db = 1, sd_g = 1, sd_base_31_24 = drop_bit 24 base\<rparr>"

definition SEG16 :: "u32 \<Rightarrow> u32 \<Rightarrow> u32 \<Rightarrow> u32 \<Rightarrow> Segdesc" where
  "SEG16 ty base lim dpl = \<lparr>sd_lim_15_0 = lim AND 0xffff, sd_base_15_0 = base AND 0xffff,
     sd_base_23_16 = drop_bit 16 base AND 0xff, sd_type = ty, sd_s = 1, sd_dpl = dpl, sd_p = 1,
     sd_lim_19_16 = drop_bit 16 lim, sd_avl = 0, sd_rsv1 = 0, sd_db = 1, sd_g = 0, sd_base_31_24 = drop_bit 24 base\<rparr>"

definition STA_X :: u32 where "STA_X = 0x8"
definition STA_W :: u32 where "STA_W = 0x2"
definition STA_R :: u32 where "STA_R = 0x2"
definition STS_T32A :: u32 where "STS_T32A = 0x9"
definition STS_IG32 :: u32 where "STS_IG32 = 0xE"
definition STS_TG32 :: u32 where "STS_TG32 = 0xF"

definition SETGATE :: "bool \<Rightarrow> u32 \<Rightarrow> u32 \<Rightarrow> u32 \<Rightarrow> Gatedesc \<Rightarrow> Gatedesc" where
  "SETGATE istrap sel off dpl gate = gate\<lparr>gd_off_15_0 := off AND 0xffff, gd_sel := sel, gd_args := 0, gd_rsv1 := 0,
     gd_type := (if istrap then STS_TG32 else STS_IG32), gd_s := 0, gd_dpl := dpl, gd_p := 1,
     gd_off_31_16 := drop_bit 16 off\<rparr>"

text \<open>The tables, and the task register the processor has loaded.\<close>

record descriptors =
  gdt :: "nat \<Rightarrow> Segdesc"
  idt :: "nat \<Rightarrow> Gatedesc"
  task_reg :: u32

definition initial_gdt :: "nat \<Rightarrow> Segdesc" where
  "initial_gdt = (\<lambda>_. SEG_NULL)(1 := SEG (STA_X OR STA_R) 0 0xffffffff 0, 2 := SEG STA_W 0 0xffffffff 0,
     3 := SEG (STA_X OR STA_R) 0 0xffffffff 3, 4 := SEG STA_W 0 0xffffffff 3)"

definition T_BRKPT :: u32 where "T_BRKPT = 3"
definition T_PGFLT :: u32 where "T_PGFLT = 14"
definition T_SYSCALL :: u32 where "T_SYSCALL = 48"
definition IRQ_OFFSET :: u32 where "IRQ_OFFSET = 32"
definition IRQ_TIMER :: u32 where "IRQ_TIMER = 0"
definition IRQ_SPURIOUS :: u32 where "IRQ_SPURIOUS = 7"

text \<open>
  \<open>tss_at c\<close> is the address of the task state segment of CPU \<open>c\<close>, 104 bytes long. The
  segment limit is its size less one.
\<close>

definition trap_init_percpu :: "(nat \<Rightarrow> u32) \<Rightarrow> descriptors \<Rightarrow> kstate \<Rightarrow> descriptors \<times> kstate" where
  "trap_init_percpu tss_at t s =
     (let c = this_cpu s;
          s = s\<lparr>cpus := (cpus s)(c := (cpus s c)\<lparr>cpu_ts := (cpu_ts (cpus s c))
                \<lparr>ts_esp0 := KSTACKTOP - of_nat c * (KSTKSIZE + KSTKGAP), ts_ss0 := GD_KD, ts_iomb := 104\<rparr>\<rparr>)\<rparr>;
          n = unat (drop_bit 3 GD_TSS0) + c;
          t = t\<lparr>gdt := (gdt t)(n := (SEG16 STS_T32A (tss_at c) (104 - 1) 0)\<lparr>sd_s := 0\<rparr>)\<rparr>
      in (t\<lparr>task_reg := ucast GD_TSS0 + of_nat c * 8\<rparr>, s))"

text \<open>\<open>vec n\<close> is the entry point \<open>Trap_n\<close>; only breakpoints and system calls are open to users.\<close>

definition trap_vectors :: "nat list" where
  "trap_vectors = [0, 1, 2, 3, 4, 5, 6, 7, 8, 10, 11, 12, 13, 14, 16, 17, 18, 19, 48, 32]"

definition trap_init :: "(nat \<Rightarrow> u32) \<Rightarrow> (nat \<Rightarrow> u32) \<Rightarrow> descriptors \<Rightarrow> kstate \<Rightarrow> descriptors \<times> kstate" where
  "trap_init vec tss_at t s =
     (let t = fold (\<lambda>n t. t\<lparr>idt := (idt t)(n := SETGATE False (ucast GD_KT) (vec n) (if n = 3 \<or> n = 48 then 3 else 0) (idt t n))\<rparr>)
                trap_vectors t
      in trap_init_percpu tss_at t s)"

section \<open>Messages\<close>

definition excnames :: "string list" where
  "excnames = [''Divide error'', ''Debug'', ''Non-Maskable Interrupt'', ''Breakpoint'', ''Overflow'', ''BOUND Range Exceeded'',
     ''Invalid Opcode'', ''Device Not Available'', ''Double Fault'', ''Coprocessor Segment Overrun'', ''Invalid TSS'',
     ''Segment Not Present'', ''Stack Fault'', ''General Protection'', ''Page Fault'', ''(unknown trap)'',
     ''x87 FPU Floating-Point Error'', ''Alignment Check'', ''Machine-Check'', ''SIMD Floating-Point Exception'']"

definition trapname :: "u32 \<Rightarrow> string" where
  "trapname trapno =
     (if unat trapno < length excnames then excnames ! unat trapno
      else if trapno = T_SYSCALL then ''System call''
      else if sint trapno \<ge> sint IRQ_OFFSET \<and> sint trapno < sint (IRQ_OFFSET + 16) then ''Hardware Interrupt''
      else ''(unknown trap)'')"

definition print_regs :: "PushRegs \<Rightarrow> string" where
  "print_regs r =
     ''  edi  0x'' @ hex_text 8 (reg_edi r) @ nl @ ''  esi  0x'' @ hex_text 8 (reg_esi r) @ nl @
     ''  ebp  0x'' @ hex_text 8 (reg_ebp r) @ nl @ ''  oesp 0x'' @ hex_text 8 (reg_oesp r) @ nl @
     ''  ebx  0x'' @ hex_text 8 (reg_ebx r) @ nl @ ''  edx  0x'' @ hex_text 8 (reg_edx r) @ nl @
     ''  ecx  0x'' @ hex_text 8 (reg_ecx r) @ nl @ ''  eax  0x'' @ hex_text 8 (reg_eax r) @ nl"

text \<open>
  \<open>addr\<close> is the address of the frame, \<open>is_last\<close> tells whether it is the frame of the trap
  being handled, for which \<open>cr2v\<close>, the faulting address, is meaningful.
\<close>

definition print_trapframe :: "u32 \<Rightarrow> bool \<Rightarrow> u32 \<Rightarrow> nat \<Rightarrow> Trapframe \<Rightarrow> string" where
  "print_trapframe addr is_last cr2v cpu tf =
     ''TRAP frame at 0x'' @ hex_text 0 addr @ '' from CPU '' @ dec_text (of_nat cpu) @ nl @
     print_regs (tf_regs tf) @
     ''  es   0x----'' @ hex_text 4 (ucast (tf_es tf)) @ nl @
     ''  ds   0x----'' @ hex_text 4 (ucast (tf_ds tf)) @ nl @
     ''  trap 0x'' @ hex_text 8 (tf_trapno tf) @ '' '' @ trapname (tf_trapno tf) @ nl @
     (if is_last \<and> tf_trapno tf = T_PGFLT then ''  cr2  0x'' @ hex_text 8 cr2v @ nl else []) @
     ''  err  0x'' @ hex_text 8 (tf_err tf) @
     (if tf_trapno tf = T_PGFLT
      then '' ['' @ (if tf_err tf AND 4 \<noteq> 0 then ''user'' else ''kernel'') @ '', '' @
           (if tf_err tf AND 2 \<noteq> 0 then ''write'' else ''read'') @ '', '' @
           (if tf_err tf AND 1 \<noteq> 0 then ''protection'' else ''not-present'') @ '']'' @ nl
      else nl) @
     ''  eip  0x'' @ hex_text 8 (tf_eip tf) @ nl @
     ''  cs   0x----'' @ hex_text 4 (ucast (tf_cs tf)) @ nl @
     ''  flag 0x'' @ hex_text 8 (tf_eflags tf) @ nl @
     (if tf_cs tf AND 3 \<noteq> 0
      then ''  esp  0x'' @ hex_text 8 (tf_esp tf) @ nl @ ''  ss   0x----'' @ hex_text 4 (ucast (tf_ss tf)) @ nl else [])"

section \<open>Dispatch\<close>

text \<open>
  The trap frame the handlers work on is on the kernel stack, or the one saved in an
  environment. Registers and addresses that only the processor knows are in \<open>cpu_entry\<close>:
  \<open>cr2\<close>, the interrupt flag, the kernel stack and frame pointer, and the address at which a
  frame is printed.
\<close>

datatype tf_ref = StackTf Trapframe | EnvTf nat

record cpu_entry =
  cr2 :: u32
  if_flag :: bool
  kstk :: "u32 \<Rightarrow> u32"
  kebp :: u32
  tf_addr :: u32

definition get_tf :: "tf_ref \<Rightarrow> kstate \<Rightarrow> Trapframe" where
  "get_tf r s = (case r of StackTf tf \<Rightarrow> tf | EnvTf e \<Rightarrow> env_tf (envs s e))"

definition set_eax :: "tf_ref \<Rightarrow> u32 \<Rightarrow> kstate \<Rightarrow> kstate" where
  "set_eax r v s =
     (case r of StackTf tf \<Rightarrow> s
      | EnvTf e \<Rightarrow> upd_env e (\<lambda>x. x\<lparr>env_tf := (env_tf x)\<lparr>tf_regs := (tf_regs (env_tf x))\<lparr>reg_eax := v\<rparr>\<rparr>\<rparr>) s)"

definition print_tf :: "cpu_entry \<Rightarrow> tf_ref \<Rightarrow> machine \<Rightarrow> machine" where
  "print_tf p r m = m\<lparr>con := cons_puts (print_trapframe (tf_addr p) True (cr2 p) (this_cpu (kern m)) (get_tf r (kern m))) (con m)\<rparr>"

definition page_fault_handler :: "cpu_entry \<Rightarrow> tf_ref \<Rightarrow> machine \<Rightarrow> unit mres" where
  "page_fault_handler p r m =
     (if tf_cs (get_tf r (kern m)) AND 3 = 0 then Panic ''Kernel-mode page fault!!''
      else case curenv (kern m) of None \<Rightarrow> Fault ''page_fault_handler: NULL curenv''
           | Some c \<Rightarrow>
               let m = m\<lparr>con := cons_puts (''['' @ hex_text 8 (env_id (envs (kern m) c)) @ ''] user fault va '' @ hex_text 8 (cr2 p) @
                            '' ip '' @ hex_text 8 (tf_eip (get_tf r (kern m))) @ nl) (con m)\<rparr>;
                   m = print_tf p r m
               in destroy_env c m)"

text \<open>\<open>monitor\<close> only returns when a command returns a negative value, which none does.\<close>

definition trap_dispatch :: "cpu_entry \<Rightarrow> tf_ref \<Rightarrow> machine \<Rightarrow> unit mres" where
  "trap_dispatch p r m =
     (let tf = get_tf r (kern m) in
      if tf_trapno tf = T_BRKPT then Leave MonitorForever m
      else if tf_trapno tf = T_PGFLT then page_fault_handler p r m
      else if tf_trapno tf = T_SYSCALL then
        obind (syscall (reg_eax (tf_regs tf)) (reg_edx (tf_regs tf)) (reg_ecx (tf_regs tf)) (reg_ebx (tf_regs tf))
                 (reg_edi (tf_regs tf)) (reg_esi (tf_regs tf)) m)
          (\<lambda>resultado m. Return () (m\<lparr>kern := set_eax r resultado (kern m)\<rparr>))
      else if tf_trapno tf = IRQ_OFFSET + IRQ_SPURIOUS then
        Return () (print_tf p r (m\<lparr>con := cons_puts (''Spurious interrupt on irq 7'' @ nl) (con m)\<rparr>))
      else if tf_trapno tf = IRQ_OFFSET + IRQ_TIMER then lift_kern (sched_yield (kern m)) m
      else let m = print_tf p r m in
        if tf_cs tf = GD_KT then Panic ''unhandled trap in kernel''
        else case curenv (kern m) of None \<Rightarrow> Fault ''trap_dispatch: NULL curenv''
             | Some c \<Rightarrow> destroy_env c m)"

text \<open>The part of \<open>trap\<close> for traps from user mode: lock, collect a dying environment, save the frame.\<close>

definition trap_user :: "cpu_entry \<Rightarrow> Trapframe \<Rightarrow> kstate \<Rightarrow> tf_ref kres" where
  "trap_user p tf s =
     obind (lock_kernel (kstk p) (kebp p) s) (\<lambda>_ s.
     obind (assert_that (curenv s \<noteq> None) ''assertion failed: curenv'' s) (\<lambda>_ s.
       case curenv s of None \<Rightarrow> Fault ''trap: NULL curenv''
       | Some c \<Rightarrow>
           obind (if env_status (envs s c) = ENV_DYING
                  then obind (env_free c s) (\<lambda>_ s. sched_yield (set_curenv None s))
                  else Return () s) (\<lambda>_ s.
             Return (EnvTf c) (upd_env c (\<lambda>x. x\<lparr>env_tf := tf\<rparr>) s))))"

text \<open>What \<open>env_free\<close> prints about a dying environment.\<close>

definition note_dying :: "machine \<Rightarrow> machine" where
  "note_dying m =
     (case curenv (kern m) of None \<Rightarrow> m
      | Some c \<Rightarrow> if env_status (envs (kern m) c) = ENV_DYING then kprint (free_message (kern m) c) m else m)"

definition trap :: "cpu_entry \<Rightarrow> Trapframe \<Rightarrow> machine \<Rightarrow> unit mres" where
  "trap p tf m =
     (let s = kern m in
      if panicstr s then Leave HaltCpu m
      else
        obind (let old = cpu_status (cpus s (this_cpu s)); s = set_cpu_status CPU_STARTED s in
               lift_kern (if old = CPU_HALTED then lock_kernel (kstk p) (kebp p) s else Return () s) m) (\<lambda>_ m.
        obind (assert_that (\<not> if_flag p) ''assertion failed: !(read_eflags() & FL_IF)'' m) (\<lambda>_ m.
        obind (if tf_cs tf AND 3 = 3 then lift_kern (trap_user p tf (kern m)) (note_dying m) else Return (StackTf tf) m) (\<lambda>r m.
        obind (trap_dispatch p r m) (\<lambda>_ m.
          case curenv (kern m) of
            Some c \<Rightarrow> if env_status (envs (kern m) c) = ENV_RUNNING then lift_kern (env_run c (kern m)) m
                      else lift_kern (sched_yield (kern m)) m
          | None \<Rightarrow> lift_kern (sched_yield (kern m)) m)))))"

end
