(* ===== verification/Monitor.thy ===== *)
theory Monitor
  imports KDebug Trap
begin

text \<open>
  The kernel monitor, \<^verbatim>\<open>kern/monitor.c\<close>: splitting a command line into arguments in place,
  the commands, and the loop around them. What a command prints is given as text.
\<close>

section \<open>Commands\<close>

record kernel_symbols =
  sym_start :: u32
  sym_entry :: u32
  sym_etext :: u32
  sym_edata :: u32
  sym_end :: u32

definition commands :: "(string \<times> string) list" where
  "commands = [(''help'', ''Display this list of commands''), (''kerninfo'', ''Display information about the kernel''),
     (''backtrace'', ''Display the current backtrace'')]"

definition mon_help :: string where
  "mon_help = concat (map (\<lambda>(n, d). n @ '' - '' @ d @ nl) commands)"

definition mon_kerninfo :: "kernel_symbols \<Rightarrow> string" where
  "mon_kerninfo y =
     ''Special kernel symbols:'' @ nl @
     ''  _start                  '' @ hex_text 8 (sym_start y) @ '' (phys)'' @ nl @
     concat (map (\<lambda>(n, a). ''  '' @ n @ hex_text 8 a @ '' (virt)  '' @ hex_text 8 (a - KERNBASE) @ '' (phys)'' @ nl)
       [(''entry  '', sym_entry y), (''etext  '', sym_etext y), (''edata  '', sym_edata y), (''end    '', sym_end y)]) @
     ''Kernel executable memory footprint: '' @ dec_text (ROUNDUP (sym_end y - sym_entry y) 1024 div 1024) @ ''KB'' @ nl"

text \<open>
  The text \<open>%s\<close> and \<open>%.*s\<close> print for a pointer, as \<open>print_str\<close> computes it.
\<close>

definition text_at :: "mem \<Rightarrow> u32 \<Rightarrow> int \<Rightarrow> string" where
  "text_at m p prec = (case print_str m p (fmt_init\<lparr>width := 0, precision := prec\<rparr>) of None \<Rightarrow> [] | Some cs \<Rightarrow> map (\<lambda>ch. char_of (unat ch)) cs)"

definition frame_text :: "mem \<Rightarrow> u32 \<Rightarrow> u32 \<Rightarrow> Eipdebuginfo \<Rightarrow> string" where
  "frame_text m ebp eip d =
     ''  ebp '' @ hex_text 8 ebp @ '' eip '' @ hex_text 8 eip @ '' args'' @
     concat (map (\<lambda>k. '' '' @ hex_text 8 (read32 m (ebp + 4 * k))) [2, 3, 4, 5, 6]) @ nl @
     ''       '' @ text_at m (eip_file d) (-1) @ '':'' @ dec_text (eip_line d) @ '': '' @
     text_at m (eip_fn_name d) (sint (eip_fn_namelen d)) @ ''+'' @ dec_text (eip - eip_fn_addr d) @ nl"

text \<open>The frames of the stack: \<open>n\<close> bounds their number, more would be a cyclic or endless chain.\<close>

primrec mon_backtrace :: "nat \<Rightarrow> mem \<Rightarrow> stab_data \<Rightarrow> u32 \<Rightarrow> u32 \<Rightarrow> kstate \<Rightarrow> string kres" where
  "mon_backtrace 0 m d unknown ebp s = (if ebp = 0 then Return [] s else Diverge)"
| "mon_backtrace (Suc n) m d unknown ebp s =
     (if ebp = 0 then Return [] s
      else let eip = read32 m (ebp + 4) in
        obind (debuginfo_eip m d unknown eip s) (\<lambda>(_, info) s.
        obind (mon_backtrace n m d unknown (read32 m ebp) s) (\<lambda>rest s.
          Return (frame_text m ebp eip info @ rest) s)))"

section \<open>Command lines\<close>

definition MAXARGS :: nat where "MAXARGS = 16"

definition whitespace :: "u8 \<Rightarrow> bool" where
  "whitespace b \<longleftrightarrow> b \<in> set [9, 13, 10, 32]"

partial_function (option) gobble :: "mem \<Rightarrow> u32 \<Rightarrow> (mem \<times> u32) option" where
  "gobble m p = (if m p \<noteq> 0 \<and> whitespace (m p) then gobble (m(p := 0)) (p + 1) else Some (m, p))"

partial_function (option) scan_arg :: "mem \<Rightarrow> u32 \<Rightarrow> u32 option" where
  "scan_arg m p = (if m p \<noteq> 0 \<and> \<not> whitespace (m p) then scan_arg m (p + 1) else Some p)"

text \<open>The memory with the separators cleared, and \<open>argv\<close>; \<open>Inl\<close>: too many arguments.\<close>

partial_function (option) parse_args :: "mem \<Rightarrow> u32 \<Rightarrow> u32 list \<Rightarrow> (mem + mem \<times> u32 list) option" where
  "parse_args m p argv =
     (case gobble m p of None \<Rightarrow> None
      | Some r \<Rightarrow>
          if fst r (snd r) = 0 then Some (Inr (fst r, argv))
          else if length argv = MAXARGS - 1 then Some (Inl (fst r))
          else (case scan_arg (fst r) (snd r) of None \<Rightarrow> None
                | Some q \<Rightarrow> parse_args (fst r) q (argv @ [snd r])))"

text \<open>\<open>strcmp(p, name) == 0\<close> for a string constant.\<close>

definition equals :: "mem \<Rightarrow> u32 \<Rightarrow> string \<Rightarrow> bool" where
  "equals m p name \<longleftrightarrow> list_all (\<lambda>i. m (p + of_nat i) = (bytes_of name @ [0]) ! i) [0..<Suc (length name)]"

record mon_env =
  syms :: kernel_symbols
  kernel_stabs :: stab_data
  unknown_str :: u32
  mon_ebp :: u32
  max_frames :: nat

text \<open>The return value and the text printed.\<close>

definition runcmd :: "mon_env \<Rightarrow> mem \<Rightarrow> u32 \<Rightarrow> kstate \<Rightarrow> (int \<times> string) kres" where
  "runcmd v m line s =
     (case parse_args m line [] of None \<Rightarrow> Diverge
      | Some (Inl m) \<Rightarrow> Return (0, ''Too many arguments (max '' @ dec_text (of_nat MAXARGS) @ '')'' @ nl) s
      | Some (Inr (m, [])) \<Rightarrow> Return (0, []) s
      | Some (Inr (m, a # _)) \<Rightarrow>
          if equals m a ''help'' then Return (0, mon_help) s
          else if equals m a ''kerninfo'' then Return (0, mon_kerninfo (syms v)) s
          else if equals m a ''backtrace''
          then obind (mon_backtrace (max_frames v) m (kernel_stabs v) (unknown_str v) (mon_ebp v) s) (\<lambda>t s. Return (0, t) s)
          else Return (0, ''Unknown command '' @ [CHR 0x27] @ text_at m a (-1) @ [CHR 0x27] @ nl) s)"

text \<open>
  The loop of \<open>monitor\<close> over the buffers that successive calls of \<open>readline\<close> fill (the
  address of the line, NULL after an error): it ends when a command returns a negative
  number, and otherwise waits for more input, which is \<open>Diverge\<close>.
\<close>

fun monitor :: "mon_env \<Rightarrow> (mem \<times> u32) list \<Rightarrow> kstate \<Rightarrow> unit kres" where
  "monitor v [] s = Diverge"
| "monitor v ((m, line) # lines) s =
     (if line = 0 then monitor v lines s
      else obind (runcmd v m line s) (\<lambda>(r, _) s. if r < 0 then Return () s else monitor v lines s))"

end
