(* ===== verification/MonitorProps.thy ===== *)
theory MonitorProps
  imports Monitor
begin

text \<open>
  The command line parser splits its line into the whitespace-separated words, in place; and
  no command makes the monitor return.
\<close>

section \<open>Lemmas\<close>

function tokens :: "u8 list \<Rightarrow> u8 list list" where
  "tokens bs = (let ds = dropWhile whitespace bs in
     if ds = [] then [] else takeWhile (\<lambda>b. \<not> whitespace b) ds # tokens (dropWhile (\<lambda>b. \<not> whitespace b) ds))"
  by pat_completeness auto

termination
proof (relation "measure length")
  fix bs ds :: "u8 list"
  assume ds: "ds = dropWhile whitespace bs" "\<not> ds = []"
  then have "\<not> whitespace (hd ds)" using hd_dropWhile by blast
  then have "length (dropWhile (\<lambda>b. \<not> whitespace b) ds) < length ds"
    using ds(2) by (cases ds) (auto simp: length_dropWhile_le less_Suc_eq_le)
  moreover have "length ds \<le> length bs" by (simp add: ds(1) length_dropWhile_le)
  ultimately show "(dropWhile (\<lambda>b. \<not> whitespace b) ds, bs) \<in> measure length" by simp
qed simp

declare tokens.simps [simp del]

text \<open>Changes confined to the \<open>n\<close> bytes at \<open>p\<close>.\<close>

definition within :: "u32 \<Rightarrow> nat \<Rightarrow> mem \<Rightarrow> mem \<Rightarrow> bool" where
  "within p n m m' \<longleftrightarrow> (\<forall>a. n \<le> unat (a - p) \<longrightarrow> m' a = m a)"

lemma cstr_cong: "(\<And>i. i \<le> length bs \<Longrightarrow> m' (p + of_nat i) = m (p + of_nat i)) \<Longrightarrow> cstr m' p bs = cstr m p bs"
proof (induction bs arbitrary: p)
  case Nil
  from Nil [of 0] show ?case by simp
next
  case (Cons b bs)
  have "m' (p + 1 + of_nat i) = m (p + 1 + of_nat i)" if "i \<le> length bs" for i
    using Cons.prems [of "Suc i"] that by (simp add: add.assoc)
  moreover have "m' p = m p" using Cons.prems [of 0] by simp
  ultimately show ?case using Cons.IH by simp
qed

lemma off_0: "unat (p + of_nat i - p :: u32) = i" if "i < 2 ^ 32"
  using that by (simp add: unat_of_nat)

lemma cstr_append: "cstr m p (as @ bs) \<Longrightarrow> cstr m (p + of_nat (length as)) bs"
proof (induction as arbitrary: p)
  case (Cons a as)
  then show ?case using Cons.IH [of "p + 1"] by (simp add: add.assoc)
qed simp

lemma gobble_spec:
  assumes "cstr m p bs" "length bs < 2 ^ 32 - 1"
  shows "\<exists>m'. gobble m p = Some (m', p + of_nat (length (takeWhile whitespace bs))) \<and>
    cstr m' (p + of_nat (length (takeWhile whitespace bs))) (dropWhile whitespace bs) \<and>
    within p (length (takeWhile whitespace bs)) m m' \<and> (bs \<noteq> [] \<longrightarrow> whitespace (hd bs) \<longrightarrow> m' p = 0)"
  using assms
proof (induction bs arbitrary: m p)
  case Nil
  then show ?case by (subst gobble.simps) (simp add: within_def)
next
  case (Cons b bs)
  show ?case
  proof (cases "whitespace b")
    case False
    then show ?thesis using Cons.prems by (subst gobble.simps) (simp add: within_def)
  next
    case True
    let ?m = "m(p := 0)" and ?k = "length (takeWhile whitespace bs)"
    have ne: "p + 1 + of_nat i \<noteq> p" if "i \<le> length bs" for i
    proof
      assume "p + 1 + of_nat i = p"
      then have "(of_nat (Suc i) :: u32) = 0" by simp
      then have "unat (of_nat (Suc i) :: u32) = 0" by (simp only: unat_0)
      then show False using that Cons.prems(2) by (simp add: unat_of_nat del: of_nat_Suc)
    qed
    have "cstr ?m (p + 1) bs = cstr m (p + 1) bs" by (rule cstr_cong) (use ne in simp)
    then have c: "cstr ?m (p + 1) bs" using Cons.prems(1) by simp
    have l: "length bs < 2 ^ 32 - 1" using Cons.prems(2) by simp
    obtain m' where m': "gobble ?m (p + 1) = Some (m', p + 1 + of_nat ?k)" "cstr m' (p + 1 + of_nat ?k) (dropWhile whitespace bs)"
        "within (p + 1) ?k ?m m'"
      using Cons.IH [OF c l] by blast
    have k: "?k \<le> length bs" by (simp add: length_takeWhile_le)
    have "m' a = m a" if "Suc ?k \<le> unat (a - p)" for a
    proof -
      have "unat (a - p) = unat (a - (p + 1)) + 1" using that unat_minus_one [of "a - p"] by (cases "a = p") (auto simp: algebra_simps)
      then have "m' a = ?m a" using m'(3) that by (simp add: within_def)
      then show ?thesis using that by (cases "a = p") auto
    qed
    moreover have "m' p = 0"
    proof -
      have "?k \<le> unat (p - (p + 1))" using k l unat_sub_1 [of p p] by simp
      then show ?thesis using m'(3) by (simp add: within_def)
    qed
    moreover have "gobble m p = gobble ?m (p + 1)" using True Cons.prems(1) by (subst gobble.simps) simp
    ultimately show ?thesis using m'(1,2) True by (auto simp: within_def add.assoc)
  qed
qed

lemma scan_arg_spec:
  "cstr m p bs \<Longrightarrow> scan_arg m p = Some (p + of_nat (length (takeWhile (\<lambda>b. \<not> whitespace b) bs)))"
proof (induction bs arbitrary: p)
  case Nil
  then show ?case by (subst scan_arg.simps) simp
next
  case (Cons b bs)
  then show ?case by (subst scan_arg.simps) (simp add: add.assoc)
qed

lemma tokens_length: "length (tokens bs) \<le> length bs"
proof (induction bs rule: tokens.induct)
  case (1 bs)
  let ?ds = "dropWhile whitespace bs"
  show ?case
  proof (cases "?ds = []")
    case True
    then show ?thesis by (subst tokens.simps) simp
  next
    case False
    then have "\<not> whitespace (hd ?ds)" using hd_dropWhile by blast
    then have "length (dropWhile (\<lambda>b. \<not> whitespace b) ?ds) < length ?ds"
      using False by (cases ?ds) (auto simp: length_dropWhile_le less_Suc_eq_le)
    moreover have "length ?ds \<le> length bs" by (simp add: length_dropWhile_le)
    ultimately show ?thesis using 1 False by (subst tokens.simps) (auto simp: Let_def)
  qed
qed

text \<open>The pointers found, with the words they point to, and nothing written outside the line.\<close>

definition parsed :: "mem \<Rightarrow> u32 \<Rightarrow> u8 list \<Rightarrow> mem \<Rightarrow> u32 list \<Rightarrow> bool" where
  "parsed m p bs m' ptrs \<longleftrightarrow> list_all2 (cstr m') ptrs (tokens bs) \<and> within p (length bs) m m' \<and>
     (bs \<noteq> [] \<longrightarrow> whitespace (hd bs) \<longrightarrow> m' p = 0)"

lemma cstr_prefix:
  "cstr m p (as @ bs) \<Longrightarrow> (\<And>i. i < length as \<Longrightarrow> m' (p + of_nat i) = m (p + of_nat i)) \<Longrightarrow>
   m' (p + of_nat (length as)) = 0 \<Longrightarrow> cstr m' p as"
proof (induction as arbitrary: p)
  case (Cons a as)
  have "m' (p + 1 + of_nat i) = m (p + 1 + of_nat i)" if "i < length as" for i
    using Cons.prems(2) [of "Suc i"] that by (simp add: add.assoc)
  then have "cstr m' (p + 1) as" using Cons by (simp add: add.assoc)
  then show ?case using Cons.prems(1) Cons.prems(2) [of 0] by simp
qed simp

lemma outside_tail:
  assumes "j + e = n" "n < 2 ^ 32" "unat (a - p) < j \<or> n \<le> unat (a - p)"
  shows "e \<le> unat (a - (p + of_nat j) :: u32)"
proof -
  have uj: "unat (of_nat j :: u32) = j" using assms(1,2) by (simp add: unat_of_nat)
  have "unat ((a - p) - of_nat j) = (if j \<le> unat (a - p) then unat (a - p) - j else unat (a - p) + 2 ^ 32 - j)"
    using uj unat_sub_if_size [of "a - p" "of_nat j :: u32"] by (simp add: word_size)
  moreover have "a - (p + of_nat j) = (a - p) - of_nat j" by (rule diff_add_eq_diff_diff_swap [of a "of_nat j" p, simplified add.commute])
  ultimately show ?thesis using assms by (simp only:) (auto split: if_splits)
qed

lemma parse_args_spec:
  assumes "cstr m p bs" "length bs < 2 ^ 32 - 1" "length argv + length (tokens bs) < MAXARGS"
  shows "\<exists>m' ptrs. parse_args m p argv = Some (Inr (m', argv @ ptrs)) \<and> parsed m p bs m' ptrs"
  using assms
proof (induction bs arbitrary: m p argv rule: tokens.induct)
  case (1 bs)
  let ?k = "length (takeWhile whitespace bs)" and ?ds = "dropWhile whitespace bs"
  obtain m1 where m1: "gobble m p = Some (m1, p + of_nat ?k)" "cstr m1 (p + of_nat ?k) ?ds" "within p ?k m m1"
      "bs \<noteq> [] \<longrightarrow> whitespace (hd bs) \<longrightarrow> m1 p = 0"
    using gobble_spec [OF 1(2,3)] by blast
  have kl: "?k + length ?ds = length bs" by (metis length_append takeWhile_dropWhile_id)
  show ?case
  proof (cases "?ds = []")
    case True
    then have "m1 (p + of_nat ?k) = 0" using m1(2) by (simp only: cstr.simps)
    then have "parse_args m p argv = Some (Inr (m1, argv @ []))" using m1(1) by (subst parse_args.simps) simp
    moreover have "?k = length bs" using kl unfolding True by (simp only: list.size)
    then have "within p (length bs) m m1" using m1(3) by (simp only:)
    moreover have "tokens bs = []" using True by (subst tokens.simps) simp
    ultimately have "parsed m p bs m1 []" using m1(4) by (simp add: parsed_def)
    with \<open>parse_args m p argv = _\<close> show ?thesis by blast
  next
    case False
    let ?q = "p + of_nat ?k" and ?w = "takeWhile (\<lambda>b. \<not> whitespace b) ?ds" and ?es = "dropWhile (\<lambda>b. \<not> whitespace b) ?ds"
    have tk: "tokens bs = ?w # tokens ?es" using False by (subst tokens.simps) (simp add: Let_def)
    have wl: "length ?w + length ?es = length ?ds" by (metis length_append takeWhile_dropWhile_id)
    have es: "cstr m1 (?q + of_nat (length ?w)) ?es" using m1(2) cstr_append [of m1 ?q ?w ?es] by simp
    have nz: "m1 ?q \<noteq> 0" using m1(2) False by (cases ?ds) auto
    have n15: "length argv \<noteq> MAXARGS - 1" using 1(4) tk by simp
    have lb: "length ?es < 2 ^ 32 - 1" using 1(3) kl wl by simp
    have la: "length (argv @ [?q]) + length (tokens ?es) < MAXARGS" using 1(4) tk by simp
    obtain m2 ptrs where m2: "parse_args m1 (?q + of_nat (length ?w)) (argv @ [?q]) = Some (Inr (m2, (argv @ [?q]) @ ptrs))"
        "parsed m1 (?q + of_nat (length ?w)) ?es m2 ptrs"
      using 1(1) [OF refl False es lb la] by blast
    have "parse_args m p argv = Some (Inr (m2, argv @ ?q # ptrs))"
      using m1(1) nz n15 scan_arg_spec [OF m1(2)] m2(1) by (subst parse_args.simps) simp
    moreover have "parsed m p bs m2 (?q # ptrs)"
    proof -
      let ?j = "?k + length ?w"
      have j: "?q + of_nat (length ?w) = p + of_nat ?j" by (simp add: add.assoc)
      have jb: "?j + length ?es = length bs" "length bs < 2 ^ 32 - 1" using kl wl 1(3) by simp_all
      have keep: "m2 a = m1 a" if "unat (a - p) < ?j \<or> length bs \<le> unat (a - p)" for a
      proof -
        have "length ?es \<le> unat (a - (p + of_nat ?j))" by (rule outside_tail) (use jb that in auto)
        then show ?thesis using m2(2) by (simp add: parsed_def within_def j)
      qed
      have "m2 (?q + of_nat (length ?w)) = 0"
      proof (cases "?es = []")
        case True
        then have jn: "?j = length bs" using jb(1) by (simp only: list.size add_0_right)
        have "m1 (p + of_nat ?j) = 0" using es True unfolding j by (simp only: cstr.simps)
        moreover have "unat (p + of_nat ?j - p) = ?j" by (rule off_0) (use jb jn in simp)
        ultimately show ?thesis using keep [of "p + of_nat ?j"] unfolding j by (simp only: jn) simp
      next
        case False
        then have "whitespace (hd ?es)" using hd_dropWhile [of "\<lambda>b. \<not> whitespace b" ?ds] by blast
        then show ?thesis using m2(2) False by (simp add: parsed_def)
      qed
      moreover have "m2 (?q + of_nat i) = m1 (?q + of_nat i)" if "i < length ?w" for i
        using keep [of "?q + of_nat i"] off_0 [of "?k + i" p] jb that by (simp add: add.assoc)
      ultimately have "cstr m2 ?q ?w" using cstr_prefix [of m1 ?q ?w ?es m2] m1(2) by simp
      moreover have "m2 a = m a" if "length bs \<le> unat (a - p)" for a
        using keep [of a] m1(3) that kl by (simp add: within_def)
      moreover have "m2 p = 0" if "bs \<noteq> []" "whitespace (hd bs)"
      proof -
        have "0 < ?k" using that by (cases bs) auto
        then show ?thesis using keep [of p] m1(4) that by simp
      qed
      ultimately show ?thesis using m2(2) tk by (simp add: parsed_def within_def)
    qed
    ultimately show ?thesis by blast
  qed
qed

lemma parse_args_overflow:
  assumes "cstr m p bs" "length bs < 2 ^ 32 - 1" "length argv < MAXARGS" "MAXARGS \<le> length argv + length (tokens bs)"
  shows "\<exists>m'. parse_args m p argv = Some (Inl m')"
  using assms
proof (induction bs arbitrary: m p argv rule: tokens.induct)
  case (1 bs)
  let ?k = "length (takeWhile whitespace bs)" and ?ds = "dropWhile whitespace bs"
  let ?q = "p + of_nat ?k" and ?w = "takeWhile (\<lambda>b. \<not> whitespace b) ?ds" and ?es = "dropWhile (\<lambda>b. \<not> whitespace b) ?ds"
  obtain m1 where m1: "gobble m p = Some (m1, ?q)" "cstr m1 ?q ?ds" using gobble_spec [OF 1(2,3)] by blast
  have "tokens bs \<noteq> []" using 1(4,5) by auto
  then have ne: "?ds \<noteq> []" using tokens.simps [of bs] by (auto simp only: Let_def split: if_splits)
  then have tk: "tokens bs = ?w # tokens ?es" by (subst tokens.simps) (simp add: Let_def)
  have nz: "m1 ?q \<noteq> 0" using m1(2) ne by (cases ?ds) auto
  show ?case
  proof (cases "length argv = MAXARGS - 1")
    case True
    then show ?thesis using m1(1) nz by (subst parse_args.simps) simp
  next
    case False
    have es: "cstr m1 (?q + of_nat (length ?w)) ?es" using m1(2) cstr_append [of m1 ?q ?w ?es] by simp
    have "length ?es \<le> length bs" by (meson length_dropWhile_le order_trans)
    then have "length ?es < 2 ^ 32 - 1" using 1(3) by simp
    moreover have "length (argv @ [?q]) < MAXARGS" "MAXARGS \<le> length (argv @ [?q]) + length (tokens ?es)"
      using False 1(4,5) tk by simp_all
    ultimately have "\<exists>m'. parse_args m1 (?q + of_nat (length ?w)) (argv @ [?q]) = Some (Inl m')"
      using 1(1) [OF refl ne es] by blast
    then show ?thesis using m1(1) nz False scan_arg_spec [OF m1(2)] by (subst parse_args.simps) simp
  qed
qed

lemma runcmd_nonneg: "runcmd v m line s = Return (r, txt) t \<Longrightarrow> r = 0"
  by (auto simp: runcmd_def obind_Return_iff split: option.splits sum.splits prod.splits list.splits if_splits)

lemma monitor_stays: "monitor v lines s \<noteq> Return () t"
proof (induction v lines s rule: monitor.induct)
  case (2 v m line lines s)
  show ?case
  proof (cases "line = 0")
    case False
    then show ?thesis using 2(2)
      by (cases "runcmd v m line s") (auto split: prod.splits dest!: runcmd_nonneg)
  qed (use 2 in simp)
qed simp

section \<open>Property\<close>

text \<open>
  C40. The command line parser always returns. Up to 15 words it fills \<open>argv\<close> with pointers to
  the whitespace-separated words of the line, in order, each terminated in place, and
  writes nothing outside the line; with 16 words or more, although its message says
  ``max 16'', it gives up.
\<close>

theorem runcmd_arguments:
  assumes "cstr m line bs" "length bs < 2 ^ 32 - 1"
  shows "if length (tokens bs) < MAXARGS
    then \<exists>m' argv. parse_args m line [] = Some (Inr (m', argv)) \<and> list_all2 (cstr m') argv (tokens bs) \<and>
           (\<forall>a. length bs \<le> unat (a - line) \<longrightarrow> m' a = m a)
    else \<forall>v s. runcmd v m line s = Return (0, ''Too many arguments (max '' @ dec_text 16 @ '')'' @ nl) s"
proof (cases "length (tokens bs) < MAXARGS")
  case True
  then show ?thesis using parse_args_spec [OF assms, of "[]"] by (auto simp: parsed_def within_def)
next
  case False
  then obtain m' where "parse_args m line [] = Some (Inl m')"
    using parse_args_overflow [OF assms, of "[]"] by (auto simp: MAXARGS_def)
  then show ?thesis using False by (simp add: runcmd_def MAXARGS_def)
qed

theorem runcmd_arguments_witness:
  "\<exists>m' argv. parse_args (with_string 0x1000 '' help me'' (\<lambda>_. 0)) 0x1000 [] = Some (Inr (m', argv)) \<and>
     list_all2 (cstr m') argv [bytes_of ''help'', bytes_of ''me'']"
proof -
  let ?bs = "bytes_of '' help me''"
  have tk: "tokens ?bs = [bytes_of ''help'', bytes_of ''me'']"
    by (simp add: bytes_of_def tokens.simps whitespace_def Let_def)
  have "cstr (with_string 0x1000 '' help me'' (\<lambda>_. 0)) 0x1000 ?bs"
    by (simp add: bytes_of_def with_string_def)
  then have "\<exists>m' argv. parse_args (with_string 0x1000 '' help me'' (\<lambda>_. 0)) 0x1000 [] = Some (Inr (m', argv)) \<and>
      list_all2 (cstr m') argv (tokens ?bs) \<and> (\<forall>a. length ?bs \<le> unat (a - 0x1000) \<longrightarrow> m' a = with_string 0x1000 '' help me'' (\<lambda>_. 0) a)"
    using runcmd_arguments [of "with_string 0x1000 '' help me'' (\<lambda>_. 0)" "0x1000" ?bs]
    by (simp add: tk MAXARGS_def) (simp add: bytes_of_def)
  then show ?thesis unfolding tk by blast
qed

end
