(* ===== verification/MemInit.thy ===== *)
theory MemInit
  imports EnvMgr
begin

text \<open>
  Setting up virtual memory at boot, \<open>mem_init\<close> of \<^verbatim>\<open>kern/pmap.c\<close>, with the self-tests it
  runs: \<open>check_page_free_list\<close>, \<open>check_page\<close>, \<open>check_kern_pgdir\<close> and
  \<open>check_page_installed_pgdir\<close> (\<open>check_page_alloc\<close> is with the allocator). Addresses the
  linker chooses are parameters, collected in \<open>link_map\<close>. The messages about success are
  left out.
\<close>

record link_map =
  kend :: u32
  bootstack :: u32
  percpu_kstacks :: "nat \<Rightarrow> u32"

section \<open>The free list test\<close>

text \<open>
  The pointers \<open>tp[0]\<close> and \<open>tp[1]\<close> of the reordering loop point to the local variables
  \<open>pp1\<close> and \<open>pp2\<close> or to the link field of a page.
\<close>

datatype link_ref = Local | LinkOf nat

record split_state =
  sp_pages :: "nat \<Rightarrow> PageInfo"
  sp_pp1 :: "nat option"
  sp_pp2 :: "nat option"
  sp_tp0 :: link_ref
  sp_tp1 :: link_ref

definition store_tp :: "bool \<Rightarrow> nat option \<Rightarrow> split_state \<Rightarrow> split_state" where
  "store_tp high v x =
     (case (if high then sp_tp1 x else sp_tp0 x) of
        Local \<Rightarrow> if high then x\<lparr>sp_pp2 := v\<rparr> else x\<lparr>sp_pp1 := v\<rparr>
      | LinkOf p \<Rightarrow> x\<lparr>sp_pages := (sp_pages x)(p := (sp_pages x p)\<lparr>pp_link := v\<rparr>)\<rparr>)"

definition split_step :: "nat \<Rightarrow> nat \<Rightarrow> split_state \<Rightarrow> split_state" where
  "split_step pdx_limit pp x =
     (let pagetype = (unat (PDX (page2pa pp)) \<ge> pdx_limit);
          x = store_tp pagetype (Some pp) x
      in if pagetype then x\<lparr>sp_tp1 := LinkOf pp\<rparr> else x\<lparr>sp_tp0 := LinkOf pp\<rparr>)"

partial_function (option) split_loop :: "nat \<Rightarrow> nat option \<Rightarrow> split_state \<Rightarrow> split_state option" where
  "split_loop lim p x =
     (case p of None \<Rightarrow> Some x
      | Some pp \<Rightarrow> split_loop lim (pp_link (sp_pages (split_step lim pp x) pp)) (split_step lim pp x))"

definition low_first :: "nat \<Rightarrow> kstate \<Rightarrow> kstate option" where
  "low_first lim s =
     (case split_loop lim (page_free_list s) \<lparr>sp_pages = pages s, sp_pp1 = None, sp_pp2 = None, sp_tp0 = Local, sp_tp1 = Local\<rparr> of
        None \<Rightarrow> None
      | Some x \<Rightarrow>
          let x = store_tp True None x; x = store_tp False (sp_pp2 x) x
          in Some (s\<lparr>pages := sp_pages x, page_free_list := sp_pp1 x\<rparr>))"

text \<open>A loop over the free list; the body does not change the links.\<close>

partial_function (option) free_pages :: "kstate \<Rightarrow> nat option \<Rightarrow> nat list \<Rightarrow> nat list option" where
  "free_pages s p acc = (case p of None \<Rightarrow> Some (rev acc) | Some pp \<Rightarrow> free_pages s (pp_link (pages s pp)) (pp # acc))"

definition scribble :: "nat \<Rightarrow> nat \<Rightarrow> kstate \<Rightarrow> unit kres" where
  "scribble lim pp s =
     (if unat (PDX (page2pa pp)) < lim
      then obind (page2kva pp s) (\<lambda>kva s.
             Return () (fold (\<lambda>i. store_pte (kva_frame kva, i) 0x97979797) [0..<32] s))
      else Return () s)"

definition check_free_page :: "u32 \<Rightarrow> nat \<Rightarrow> kstate \<Rightarrow> unit kres" where
  "check_free_page first_free_page pp s =
     obind (assert_that (pp < npages s) ''assertion failed: pp < pages + npages'' s) (\<lambda>_ s.
     obind (assert_that (page2pa pp \<noteq> 0) ''assertion failed: page2pa(pp) != 0'' s) (\<lambda>_ s.
     obind (assert_that (page2pa pp \<noteq> IOPHYSMEM) ''assertion failed: page2pa(pp) != IOPHYSMEM'' s) (\<lambda>_ s.
     obind (assert_that (page2pa pp \<noteq> EXTPHYSMEM - PGSIZE) ''assertion failed: page2pa(pp) != EXTPHYSMEM - PGSIZE'' s) (\<lambda>_ s.
     obind (assert_that (page2pa pp \<noteq> EXTPHYSMEM) ''assertion failed: page2pa(pp) != EXTPHYSMEM'' s) (\<lambda>_ s.
     obind (if page2pa pp < EXTPHYSMEM then Return () s
            else obind (page2kva pp s) (\<lambda>kva s.
              assert_that (kva \<ge> first_free_page) ''assertion failed: page2kva(pp) >= first_free_page'' s)) (\<lambda>_ s.
     assert_that (page2pa pp \<noteq> MPENTRY_PADDR) ''assertion failed: page2pa(pp) != MPENTRY_PADDR'' s))))))"

definition check_page_free_list :: "u32 \<Rightarrow> bool \<Rightarrow> kstate \<Rightarrow> unit kres" where
  "check_page_free_list ke only_low_memory s =
     (let pdx_limit = (if only_low_memory then 1 else 1024) in
      if page_free_list s = None then Panic ''page_free_list is a null pointer!''
      else case (if only_low_memory then low_first pdx_limit s else Some s) of None \<Rightarrow> Diverge
      | Some s \<Rightarrow>
          (case free_pages s (page_free_list s) [] of None \<Rightarrow> Diverge
           | Some pps \<Rightarrow>
               obind (ofold (scribble pdx_limit) pps s) (\<lambda>_ s.
               obind (boot_alloc ke 0 s) (\<lambda>first_free_page s.
               obind (ofold (check_free_page first_free_page) pps s) (\<lambda>_ s.
               obind (assert_that (\<exists>pp \<in> set pps. page2pa pp < EXTPHYSMEM) ''assertion failed: nfree_basemem > 0'' s) (\<lambda>_ s.
               assert_that (\<exists>pp \<in> set pps. \<not> page2pa pp < EXTPHYSMEM) ''assertion failed: nfree_extmem > 0'' s))))))"

section \<open>The page table tests\<close>

text \<open>The assertions of the tests, as steps that are run one after the other.\<close>

type_synonym check = "kstate \<Rightarrow> unit kres"

definition steps :: "check list \<Rightarrow> check" where
  "steps fs s = ofold (\<lambda>f s. f s) fs s"

definition c_that :: "(kstate \<Rightarrow> bool) \<Rightarrow> check" where
  "c_that P s = assert_that (P s) ''assertion failed'' s"

definition c_no_page :: check where
  "c_no_page s = assert_no_page s"

definition c_alloc :: "nat \<Rightarrow> check" where
  "c_alloc pp s = obind (page_alloc 0 s) (\<lambda>r s. assert_that (r = Some pp) ''assertion failed: pp = page_alloc(0)'' s)"

definition c_insert :: "nat \<Rightarrow> u32 \<Rightarrow> u32 \<Rightarrow> check" where
  "c_insert pp va perm s =
     obind (page_insert (kern_pgdir s) (Some pp) va perm s) (\<lambda>r s. assert_that (r = 0) ''assertion failed: page_insert == 0'' s)"

definition c_insert_fails :: "nat \<Rightarrow> u32 \<Rightarrow> u32 \<Rightarrow> check" where
  "c_insert_fails pp va perm s =
     obind (page_insert (kern_pgdir s) (Some pp) va perm s) (\<lambda>r s. assert_that (sint r < 0) ''assertion failed: page_insert < 0'' s)"

definition c_remove :: "u32 \<Rightarrow> check" where
  "c_remove va s = page_remove (kern_pgdir s) va s"

definition c_maps :: "u32 \<Rightarrow> u32 \<Rightarrow> check" where
  "c_maps va pa s = obind (check_va2pa (kern_pgdir s) va s) (\<lambda>r s. assert_that (r = pa) ''assertion failed: check_va2pa'' s)"

definition c_ref :: "nat \<Rightarrow> u16 \<Rightarrow> check" where
  "c_ref pp n s = assert_that (pp_ref (pages s pp) = n) ''assertion failed: pp_ref'' s"

definition c_pte :: "u32 \<Rightarrow> (u32 \<Rightarrow> bool) \<Rightarrow> check" where
  "c_pte va P s =
     obind (pgdir_walk (kern_pgdir s) va False s) (\<lambda>p s.
       case p of None \<Rightarrow> Fault ''NULL pte'' | Some p \<Rightarrow> assert_that (P (load_pte p s)) ''assertion failed: pte'' s)"

definition c_clear_pte :: "u32 \<Rightarrow> check" where
  "c_clear_pte va s =
     obind (pgdir_walk (kern_pgdir s) va False s) (\<lambda>p s.
       case p of None \<Rightarrow> Fault ''NULL pte'' | Some p \<Rightarrow> Return () (store_pte p 0 s))"

definition c_pde :: "nat \<Rightarrow> (u32 \<Rightarrow> bool) \<Rightarrow> check" where
  "c_pde i P s = assert_that (P (pmem s (kern_pgdir s) i)) ''assertion failed: pde'' s"

definition c_take_back :: "nat \<Rightarrow> nat \<Rightarrow> check" where
  "c_take_back i pp s = Return () (upd_page pp (\<lambda>p. p\<lparr>pp_ref := 0\<rparr>) (store_pte (kern_pgdir s, i) 0 s))"

definition c_free_list :: "nat option \<Rightarrow> check" where
  "c_free_list fl s = Return () (s\<lparr>page_free_list := fl\<rparr>)"

text \<open>The three tests of \<open>pgdir_walk\<close>: the entry it returns, and that new tables are empty.\<close>

definition c_walk_index :: "u32 \<Rightarrow> bool \<Rightarrow> check" where
  "c_walk_index va create s =
     obind (pgdir_walk (kern_pgdir s) va create s) (\<lambda>p s.
     obind (KADDR (PTE_ADDR (pmem s (kern_pgdir s) (pdx va))) s) (\<lambda>kva s.
       assert_that (p = Some (kva_frame kva, ptx va)) ''assertion failed: pgdir_walk'' s))"

definition c_fresh_table :: "nat \<Rightarrow> check" where
  "c_fresh_table pp0 s =
     obind (page2kva pp0 s) (\<lambda>kva s.
     let s = fill_frame (kva_frame kva) 0xFFFFFFFF s in
     obind (page_free pp0 s) (\<lambda>_ s.
     obind (pgdir_walk (kern_pgdir s) 0 True s) (\<lambda>_ s.
     obind (page2kva pp0 s) (\<lambda>ptep s.
       assert_that (list_all (\<lambda>i. pmem s (kva_frame ptep) i AND PTE_P = 0) [0..<1024]) ''assertion failed: (ptep[i] & PTE_P) == 0'' s))))"

definition check_mmio :: check where
  "check_mmio s =
     obind (mmio_map_region 0 4097 s) (\<lambda>mm1 s.
     obind (mmio_map_region 0 4096 s) (\<lambda>mm2 s.
     steps [c_that (\<lambda>_. mm1 \<ge> MMIOBASE \<and> mm1 + 8096 < MMIOLIM),
            c_that (\<lambda>_. mm2 \<ge> MMIOBASE \<and> mm2 + 8096 < MMIOLIM),
            c_that (\<lambda>_. mm1 mod PGSIZE = 0 \<and> mm2 mod PGSIZE = 0),
            c_that (\<lambda>_. mm1 + 8096 \<le> mm2),
            c_maps mm1 0, c_maps (mm1 + PGSIZE) PGSIZE, c_maps mm2 0, c_maps (mm2 + PGSIZE) (NOT 0),
            c_pte mm1 (\<lambda>e. e AND (PTE_W OR PTE_PWT OR PTE_PCD) \<noteq> 0),
            c_pte mm1 (\<lambda>e. e AND PTE_U = 0),
            c_clear_pte mm1, c_clear_pte (mm1 + PGSIZE), c_clear_pte mm2] s))"

definition check_page :: check where
  "check_page s =
     obind (assert_page_alloc s) (\<lambda>pp0 s.
     obind (assert_page_alloc s) (\<lambda>pp1 s.
     obind (assert_page_alloc s) (\<lambda>pp2 s.
     obind (assert_that (three_distinct pp0 pp1 pp2) ''assertion failed: distinct'' s) (\<lambda>_ s.
     let fl = page_free_list s; s = s\<lparr>page_free_list := None\<rparr> in
     obind (assert_no_page s) (\<lambda>_ s.
     obind (page_lookup (kern_pgdir s) 0 s) (\<lambda>(r, _) s.
     obind (assert_that (r = None) ''assertion failed: page_lookup == NULL'' s) (\<lambda>_ s.
     steps
      [c_insert_fails pp1 0 PTE_W,
       page_free pp0, c_insert pp1 0 PTE_W,
       c_pde 0 (\<lambda>e. PTE_ADDR e = page2pa pp0), c_maps 0 (page2pa pp1), c_ref pp1 1, c_ref pp0 1,
       c_insert pp2 PGSIZE PTE_W, c_maps PGSIZE (page2pa pp2), c_ref pp2 1,
       c_no_page,
       c_insert pp2 PGSIZE PTE_W, c_maps PGSIZE (page2pa pp2), c_ref pp2 1,
       c_no_page,
       c_walk_index PGSIZE False,
       c_insert pp2 PGSIZE (PTE_W OR PTE_U), c_maps PGSIZE (page2pa pp2), c_ref pp2 1,
       c_pte PGSIZE (\<lambda>e. e AND PTE_U \<noteq> 0), c_pde 0 (\<lambda>e. e AND PTE_U \<noteq> 0),
       c_insert pp2 PGSIZE PTE_W, c_pte PGSIZE (\<lambda>e. e AND PTE_W \<noteq> 0), c_pte PGSIZE (\<lambda>e. e AND PTE_U = 0),
       c_insert_fails pp0 PTSIZE PTE_W,
       c_insert pp1 PGSIZE PTE_W, c_pte PGSIZE (\<lambda>e. e AND PTE_U = 0),
       c_maps 0 (page2pa pp1), c_maps PGSIZE (page2pa pp1), c_ref pp1 2, c_ref pp2 0,
       c_alloc pp2,
       c_remove 0, c_maps 0 (NOT 0), c_maps PGSIZE (page2pa pp1), c_ref pp1 1, c_ref pp2 0,
       c_insert pp1 PGSIZE 0, c_that (\<lambda>s. pp_ref (pages s pp1) \<noteq> 0), c_that (\<lambda>s. pp_link (pages s pp1) = None),
       c_remove PGSIZE, c_maps 0 (NOT 0), c_maps PGSIZE (NOT 0), c_ref pp1 0, c_ref pp2 0,
       c_alloc pp1,
       c_no_page,
       c_pde 0 (\<lambda>e. PTE_ADDR e = page2pa pp0), c_ref pp0 1, c_take_back 0 pp0,
       page_free pp0, c_walk_index (PGSIZE * 1024 + PGSIZE) True, c_take_back (pdx (PGSIZE * 1024 + PGSIZE)) pp0,
       c_fresh_table pp0, c_take_back 0 pp0,
       c_free_list fl, page_free pp0, page_free pp1, page_free pp2,
       check_mmio] s)))))))"

text \<open>A word read or written by the kernel at address \<open>PGSIZE\<close> through the installed tables.\<close>

definition word_at :: "u32 \<Rightarrow> kstate \<Rightarrow> pte_ptr option" where
  "word_at va s =
     (let pde = pmem s (unat (PGNUM (cr3 s))) (pdx va); pte = pmem s (unat (PGNUM pde)) (ptx va) in
      if pde AND PTE_P \<noteq> 0 \<and> pte AND PTE_P \<noteq> 0 then Some (unat (PGNUM pte), unat (PGOFF va) div 4) else None)"

definition c_word :: "u32 \<Rightarrow> u32 \<Rightarrow> check" where
  "c_word va v s = (case word_at va s of None \<Rightarrow> Panic ''page fault'' | Some p \<Rightarrow> assert_that (load_pte p s = v) ''assertion failed: word'' s)"

definition c_store_word :: "u32 \<Rightarrow> u32 \<Rightarrow> check" where
  "c_store_word va v s = (case word_at va s of None \<Rightarrow> Panic ''page fault'' | Some p \<Rightarrow> Return () (store_pte p v s))"

definition c_fill :: "nat \<Rightarrow> u32 \<Rightarrow> check" where
  "c_fill pp w s = obind (page2kva pp s) (\<lambda>kva s. Return () (fill_frame (kva_frame kva) w s))"

definition c_insert_any :: "nat \<Rightarrow> u32 \<Rightarrow> u32 \<Rightarrow> check" where
  "c_insert_any pp va perm s = obind (page_insert (kern_pgdir s) (Some pp) va perm s) (\<lambda>_ s. Return () s)"

definition check_page_installed_pgdir :: check where
  "check_page_installed_pgdir s =
     obind (assert_page_alloc s) (\<lambda>pp0 s.
     obind (assert_page_alloc s) (\<lambda>pp1 s.
     obind (assert_page_alloc s) (\<lambda>pp2 s.
     steps
      [page_free pp0, c_fill pp1 0x01010101, c_fill pp2 0x02020202,
       c_insert_any pp1 PGSIZE PTE_W, c_ref pp1 1, c_word PGSIZE 0x01010101,
       c_insert_any pp2 PGSIZE PTE_W, c_word PGSIZE 0x02020202, c_ref pp2 1, c_ref pp1 0,
       c_store_word PGSIZE 0x03030303,
       (\<lambda>s. obind (page2kva pp2 s) (\<lambda>kva s. assert_that (pmem s (kva_frame kva) 0 = 0x03030303) ''assertion failed: page2kva(pp2)'' s)),
       c_remove PGSIZE, c_ref pp2 0,
       c_pde 0 (\<lambda>e. PTE_ADDR e = page2pa pp0), c_ref pp0 1, c_take_back 0 pp0, page_free pp0] s)))"

section \<open>The kernel directory\<close>

definition SIZEOF_PageInfo :: u32 where "SIZEOF_PageInfo = 8"
definition SIZEOF_Env :: u32 where "SIZEOF_Env = 124"

text \<open>A loop that checks consecutive pages of a region.\<close>

definition check_region :: "u32 \<Rightarrow> u32 \<Rightarrow> u32 \<Rightarrow> check" where
  "check_region va n pa s = ofold (\<lambda>i. c_maps (va + of_nat i * PGSIZE) (pa + of_nat i * PGSIZE)) [0..<unat (n div PGSIZE)] s"

definition check_hole :: "u32 \<Rightarrow> u32 \<Rightarrow> check" where
  "check_hole va n s = ofold (\<lambda>i. c_maps (va + of_nat i * PGSIZE) (NOT 0)) [0..<unat (n div PGSIZE)] s"

definition check_pde :: "nat \<Rightarrow> check" where
  "check_pde i =
     (if i \<in> {pdx UVPT, pdx (KSTACKTOP - 1), pdx UPAGES, pdx UENVS, pdx MMIOBASE} then c_pde i (\<lambda>e. e AND PTE_P \<noteq> 0)
      else if i \<ge> pdx KERNBASE then (\<lambda>s. steps [c_pde i (\<lambda>e. e AND PTE_P \<noteq> 0), c_pde i (\<lambda>e. e AND PTE_W \<noteq> 0)] s)
      else c_pde i (\<lambda>e. e = 0))"

definition check_kern_pgdir :: "link_map \<Rightarrow> u32 \<Rightarrow> u32 \<Rightarrow> check" where
  "check_kern_pgdir lm pages_va envs_va s =
     obind (PADDR pages_va s) (\<lambda>pages_pa s.
     obind (check_region UPAGES (ROUNDUP (of_nat (npages s) * SIZEOF_PageInfo) PGSIZE) pages_pa s) (\<lambda>_ s.
     obind (PADDR envs_va s) (\<lambda>envs_pa s.
     obind (check_region UENVS (ROUNDUP (of_nat NENV * SIZEOF_Env) PGSIZE) envs_pa s) (\<lambda>_ s.
     obind (check_region KERNBASE (of_nat (npages s) * PGSIZE) 0 s) (\<lambda>_ s.
     obind (ofold (\<lambda>n s.
              let base = KSTACKTOP - (KSTKSIZE + KSTKGAP) * (of_nat n + 1) in
              obind (PADDR (percpu_kstacks lm n) s) (\<lambda>pa s.
              obind (check_region (base + KSTKGAP) KSTKSIZE pa s) (\<lambda>_ s. check_hole base KSTKGAP s))) [0..<NCPU] s) (\<lambda>_ s.
     ofold check_pde [0..<1024] s))))))"

definition mem_init_mp :: "link_map \<Rightarrow> check" where
  "mem_init_mp lm s =
     ofold (\<lambda>i s.
       obind (PADDR (percpu_kstacks lm i) s) (\<lambda>kstacktop_pa s.
         boot_map_region (kern_pgdir s) (KSTACKTOP - KSTKSIZE - of_nat i * (KSTKSIZE + KSTKGAP)) KSTKSIZE kstacktop_pa
           (PTE_W OR PTE_P) s)) [0..<NCPU] s"

text \<open>
  The arrays \<open>pages\<close> and \<open>envs\<close> are not part of the modelled physical memory, but the
  place \<open>boot_alloc\<close> reserves for them is.
\<close>

definition mem_init :: "link_map \<Rightarrow> (nat \<Rightarrow> u8) \<Rightarrow> kstate \<Rightarrow> unit kres" where
  "mem_init lm cmos s =
     (let s = i386_detect_memory cmos s in
     obind (boot_alloc (kend lm) PGSIZE s) (\<lambda>kva s.
     let s = s\<lparr>kern_pgdir := kva_frame kva\<rparr>; s = fill_frame (kern_pgdir s) 0 s in
     obind (PADDR kva s) (\<lambda>pa s.
     let s = store_pte (kern_pgdir s, pdx UVPT) (pa OR PTE_U OR PTE_P) s in
     obind (boot_alloc (kend lm) (of_nat (npages s) * SIZEOF_PageInfo) s) (\<lambda>pages_va s.
     let s = s\<lparr>pages := (\<lambda>p. if p < npages s then zero_page else pages s p)\<rparr> in
     obind (boot_alloc (kend lm) (of_nat NENV * SIZEOF_Env) s) (\<lambda>envs_va s.
     let s = s\<lparr>envs := (\<lambda>e. if e < NENV then zero_env else envs s e)\<rparr> in
     obind (page_init (kend lm) s) (\<lambda>_ s.
     obind (check_page_free_list (kend lm) True s) (\<lambda>_ s.
     obind (check_page_alloc s) (\<lambda>_ s.
     obind (check_page s) (\<lambda>_ s.
     obind (PADDR pages_va s) (\<lambda>pages_pa s.
     obind (boot_map_region (kern_pgdir s) UPAGES (of_nat (npages s) * SIZEOF_PageInfo) pages_pa (PTE_U OR PTE_P) s) (\<lambda>_ s.
     obind (PADDR envs_va s) (\<lambda>envs_pa s.
     obind (boot_map_region (kern_pgdir s) UENVS (of_nat NENV * SIZEOF_Env) envs_pa (PTE_U OR PTE_P) s) (\<lambda>_ s.
     obind (PADDR (bootstack lm) s) (\<lambda>stack_pa s.
     obind (boot_map_region (kern_pgdir s) (KSTACKTOP - KSTKSIZE) KSTKSIZE stack_pa (PTE_P OR PTE_W) s) (\<lambda>_ s.
     obind (boot_map_region (kern_pgdir s) KERNBASE (NOT 0 - KERNBASE + 1) 0 (PTE_P OR PTE_W) s) (\<lambda>_ s.
     obind (mem_init_mp lm s) (\<lambda>_ s.
     obind (check_kern_pgdir lm pages_va envs_va s) (\<lambda>_ s.
     obind (PADDR (pgdir_kva (Some (kern_pgdir s))) s) (\<lambda>pa s.
     let s = lcr3 pa s in
     obind (check_page_free_list (kend lm) False s) (\<lambda>_ s.
     check_page_installed_pgdir s))))))))))))))))))))"

end
