(* ===== verification/Boot.thy ===== *)
theory Boot
  imports Console EnvMgr
begin

text \<open>
  The boot loader, \<^verbatim>\<open>boot/main.c\<close>: it reads the kernel from the IDE disk into physical memory and
  jumps to it. The state is the memory, the I/O ports (the input ports deliver arbitrary bytes, the
  output ports record what is written) and the contents of the disk. The disk answers a
  transfer with the sector whose number was written to its registers, the low 28 bits of
  it (LBA mode), as the controllers do. Then the page directory of the first instructions,
  \<^verbatim>\<open>kern/entrypgdir.c\<close>.
\<close>

section \<open>State\<close>

record loader =
  ports :: console
  ram :: mem
  disk :: "u32 \<Rightarrow> mem"

definition SECTSIZE :: u32 where "SECTSIZE = 512"
definition ELFHDR :: u32 where "ELFHDR = 0x10000"

text \<open>The byte last written to a port, and the sector the disk registers select.\<close>

definition latched :: "u32 \<Rightarrow> console \<Rightarrow> u8" where
  "latched p c = (case find (\<lambda>(q, v). q = p) (rev (outs c)) of None \<Rightarrow> 0 | Some (_, v) \<Rightarrow> v)"

definition selected :: "console \<Rightarrow> u32" where
  "selected c = ucast (latched 0x1F3 c) OR push_bit 8 (ucast (latched 0x1F4 c)) OR push_bit 16 (ucast (latched 0x1F5 c)) OR
     push_bit 24 (ucast (latched 0x1F6 c) AND 0x0F)"

section \<open>Reading\<close>

text \<open>The loops over the status register may never end.\<close>

partial_function (option) waitdisk :: "console \<Rightarrow> console option" where
  "waitdisk c = (if fst (inb 0x1F7 c) AND 0xC0 \<noteq> 0x40 then waitdisk (snd (inb 0x1F7 c)) else Some (snd (inb 0x1F7 c)))"

text \<open>\<open>insl\<close>: \<open>n\<close> words from the data register, of the sector \<open>d\<close> starting at byte \<open>pos\<close>.\<close>

primrec insl :: "nat \<Rightarrow> u32 \<Rightarrow> u32 \<Rightarrow> mem \<Rightarrow> mem \<Rightarrow> mem" where
  "insl 0 dst pos d m = m"
| "insl (Suc n) dst pos d m =
     insl n (dst + 4) (pos + 4) d (m(dst := d pos, dst + 1 := d (pos + 1), dst + 2 := d (pos + 2), dst + 3 := d (pos + 3)))"

definition select_sector :: "u32 \<Rightarrow> console \<Rightarrow> console" where
  "select_sector offset c =
     (let c = outb 0x1F2 1 c;
          c = outb 0x1F3 (ucast offset) c;
          c = outb 0x1F4 (ucast (drop_bit 8 offset)) c;
          c = outb 0x1F5 (ucast (drop_bit 16 offset)) c;
          c = outb 0x1F6 (ucast (drop_bit 24 offset OR 0xE0)) c
      in outb 0x1F7 0x20 c)"

definition readsect :: "u32 \<Rightarrow> u32 \<Rightarrow> loader \<Rightarrow> loader option" where
  "readsect dst offset b =
     (case waitdisk (ports b) of None \<Rightarrow> None
      | Some c \<Rightarrow>
          (case waitdisk (select_sector offset c) of None \<Rightarrow> None
           | Some c \<Rightarrow> Some (b\<lparr>ports := c, ram := insl (unat (SECTSIZE div 4)) dst 0 (disk b (selected c)) (ram b)\<rparr>)))"

partial_function (option) readseg_loop :: "u32 \<Rightarrow> u32 \<Rightarrow> u32 \<Rightarrow> loader \<Rightarrow> loader option" where
  "readseg_loop pa end_pa offset b =
     (if pa < end_pa
      then (case readsect pa offset b of None \<Rightarrow> None | Some b \<Rightarrow> readseg_loop (pa + SECTSIZE) end_pa (offset + 1) b)
      else Some b)"

definition readseg :: "u32 \<Rightarrow> u32 \<Rightarrow> u32 \<Rightarrow> loader \<Rightarrow> loader option" where
  "readseg pa count offset b =
     (let end_pa = pa + count;
          pa = pa AND NOT (SECTSIZE - 1);
          offset = offset div SECTSIZE + 1
      in readseg_loop pa end_pa offset b)"

section \<open>Starting the kernel\<close>

text \<open>
  The headers are read from memory when they are needed: a segment that overwrites them
  changes what is loaded next. The loader ends in a jump to the kernel, or writes two words
  to port 0x8A00 and loops.
\<close>

datatype boot_end = Jump u32 | BadKernel

definition p_pa :: "mem \<Rightarrow> u32 \<Rightarrow> u32" where
  "p_pa m ph = read32 m (ph + 12)"

partial_function (option) boot_segments :: "u32 \<Rightarrow> u32 \<Rightarrow> loader \<Rightarrow> loader option" where
  "boot_segments ph eph b =
     (if ph < eph
      then (case readseg (p_pa (ram b) ph) (p_memsz (prog_header (ram b) ph)) (p_offset (prog_header (ram b) ph)) b of
              None \<Rightarrow> None | Some b \<Rightarrow> boot_segments (ph + 32) eph b)
      else Some b)"

definition outw :: "u32 \<Rightarrow> u16 \<Rightarrow> console \<Rightarrow> console" where
  "outw p v c = c\<lparr>outs := outs c @ [(p, ucast v), (p + 1, ucast (drop_bit 8 v))]\<rparr>"

definition bootmain :: "loader \<Rightarrow> (boot_end \<times> loader) option" where
  "bootmain b =
     (case readseg ELFHDR (SECTSIZE * 8) 0 b of None \<Rightarrow> None
      | Some b \<Rightarrow>
          let elf = elf_header (\<lambda>a. ram b (ELFHDR + a)) in
          if e_magic elf \<noteq> ELF_MAGIC
          then Some (BadKernel, b\<lparr>ports := outw 0x8A00 0x8E00 (outw 0x8A00 0x8A00 (ports b))\<rparr>)
          else let ph = ELFHDR + e_phoff elf; eph = ph + 32 * ucast (e_phnum elf) in
            (case boot_segments ph eph b of None \<Rightarrow> None
             | Some b \<Rightarrow> Some (Jump (e_entry (elf_header (\<lambda>a. ram b (ELFHDR + a)))), b)))"

section \<open>The first page directory\<close>

definition entry_pgdir :: "nat \<Rightarrow> u32" where
  "entry_pgdir = (\<lambda>_. 0)(0 := 0 + PTE_P + PTE_PS, unat (drop_bit 22 KERNBASE) := 0 + PTE_P + PTE_W + PTE_PS)"

text \<open>How the processor translates with 4 MB pages: the address, and whether it may be written.\<close>

definition translate_ps :: "(nat \<Rightarrow> u32) \<Rightarrow> u32 \<Rightarrow> (u32 \<times> bool) option" where
  "translate_ps pd va =
     (let pde = pd (pdx va) in
      if pde AND PTE_P = 0 \<or> pde AND PTE_PS = 0 then None
      else Some ((pde AND 0xFFC00000) OR (va AND 0x003FFFFF), pde AND PTE_W \<noteq> 0))"

end
