(* ===== verification/BootProps.thy ===== *)
theory BootProps
  imports Boot ConsoleProps
begin

text \<open>
  The boot loader loads the kernel: reading terminates when the disk becomes ready
  again and again, every byte of a segment comes from its place in the file, and the loader
  jumps to the entry point with all segments in memory.
\<close>

section \<open>The disk\<close>

definition disk_ready :: "console \<Rightarrow> bool" where
  "disk_ready c \<longleftrightarrow> (\<forall>n. \<exists>k \<ge> n. inp c 0x1F7 k AND 0xC0 = 0x40)"

lemma waitdisk_returns:
  assumes "disk_ready c"
  shows "\<exists>c'. waitdisk c = Some c' \<and> outs c' = outs c \<and> inp c' = inp c"
proof -
  obtain k where "k \<ge> nread c 0x1F7" "inp c 0x1F7 k AND 0xC0 = 0x40" using assms unfolding disk_ready_def by blast
  then show ?thesis
  proof (induction "k - nread c 0x1F7" arbitrary: c)
    case 0
    then have "inp c 0x1F7 (nread c 0x1F7) AND 0xC0 = 0x40" by simp
    then show ?case by (subst waitdisk.simps) (simp add: inb_def)
  next
    case (Suc n)
    let ?c = "snd (inb 0x1F7 c)"
    have c: "outs ?c = outs c" "inp ?c = inp c" "nread ?c 0x1F7 = Suc (nread c 0x1F7)" by (simp_all add: inb_def)
    have "n = k - nread ?c 0x1F7" "nread ?c 0x1F7 \<le> k" using Suc.hyps(2) c(3) by simp_all
    then obtain c' where "waitdisk ?c = Some c'" "outs c' = outs c" "inp c' = inp c"
      using Suc.hyps(1) [of ?c] Suc.prems(2) c by auto
    then show ?case using c by (subst waitdisk.simps) auto
  qed
qed

lemma disk_ready_cong: "inp c' = inp c \<Longrightarrow> disk_ready c' = disk_ready c"
  by (simp add: disk_ready_def)

lemma latched_outb: "latched p (outb q v c) = (if p = q then v else latched p c)"
  by (simp add: latched_def outb_def)

lemma latched_cong: "outs c' = outs c \<Longrightarrow> latched p c' = latched p c"
  by (simp add: latched_def)

lemma selected_sector:
  assumes "unat offset < 2 ^ 28"
  shows "selected (select_sector offset c) = offset"
proof (rule bit_word_eqI)
  fix n assume n: "n < LENGTH(32)"
  have hi: "\<not> bit offset i" if "28 \<le> i" for i
  proof -
    have "(2 :: nat) ^ 28 \<le> 2 ^ i" using that by (intro power_increasing) simp_all
    then have "unat offset div 2 ^ i = 0" using assms by simp
    then have "\<not> bit (unat offset) i" by (simp add: bit_iff_odd)
    then show ?thesis by (auto simp: bit_unsigned_iff dest: bit_imp_le_length)
  qed
  have l: "latched 0x1F3 (select_sector offset c) = ucast offset" "latched 0x1F4 (select_sector offset c) = ucast (drop_bit 8 offset)"
    "latched 0x1F5 (select_sector offset c) = ucast (drop_bit 16 offset)"
    "latched 0x1F6 (select_sector offset c) = ucast (drop_bit 24 offset OR 0xE0)"
    by (simp_all add: select_sector_def Let_def latched_outb)
  have "n < 32" using n by simp
  then consider "n < 24" | "n = 24" | "n = 25" | "n = 26" | "n = 27" | "28 \<le> n" "n = 28 \<or> n = 29 \<or> n = 30 \<or> n = 31" by linarith
  then show "bit (selected (select_sector offset c)) n = bit offset n"
  proof cases
    case 1
    then show ?thesis unfolding selected_def l
      by (cases "n < 8"; cases "n < 16")
         (auto simp: bit_or_iff bit_and_iff bit_push_bit_iff bit_ucast_iff bit_drop_bit_eq)
  qed (use hi [of n] in \<open>auto simp: selected_def l bit_or_iff bit_and_iff bit_push_bit_iff bit_ucast_iff bit_drop_bit_eq\<close>)
qed

lemma unat_sub_add:
  "unat ((x :: u32) - (d + c)) = (if unat (x - d) < unat c then 2 ^ 32 - unat c + unat (x - d) else unat (x - d) - unat c)"
proof -
  have eq: "x - (d + c) = (x - d) - c" by (simp add: diff_diff_eq)
  have "unat (y - c) = (if unat y < unat c then 2 ^ 32 - unat c + unat y else unat y - unat c)" for y :: u32
    using unsigned_less [of c, where 'a = nat] by (auto simp: unat_sub_if' word_le_nat_alt)
  then show ?thesis unfolding eq .
qed

lemma insl_apply:
  assumes "4 * n \<le> 2 ^ 32"
  shows "insl n dst pos d m x = (if unat (x - dst) < 4 * n then d (pos + (x - dst)) else m x)"
  using assms
proof (induction n arbitrary: dst pos m)
  case (Suc n)
  let ?m = "m(dst := d pos, dst + 1 := d (pos + 1), dst + 2 := d (pos + 2), dst + 3 := d (pos + 3))"
  define k where "k = unat (x - dst)"
  have x: "x = dst + of_nat k" by (simp add: k_def)
  have k32: "k < 2 ^ 32" using unsigned_less [of "x - dst"] by (simp add: k_def)
  have "insl (Suc n) dst pos d m x = (if unat (x - (dst + 4)) < 4 * n then d (pos + 4 + (x - (dst + 4))) else ?m x)"
    using Suc by simp
  moreover have "unat (x - (dst + 4)) = (if k < 4 then 2 ^ 32 - 4 + k else k - 4)"
    using unat_sub_add [of x dst 4] by (simp add: k_def)
  moreover have "?m x = (if k < 4 then d (pos + of_nat k) else m x)"
  proof (cases "k < 4")
    case True
    then have "k = 0 \<or> k = 1 \<or> k = 2 \<or> k = 3" by auto
    then show ?thesis by (auto simp: x)
  next
    case False
    have "dst + of_nat k \<noteq> dst + of_nat j" if "j < 4" for j
      using False that k32 by (auto simp: word_of_nat_eq_iff take_bit_eq_mod)
    from this [of 0] this [of 1] this [of 2] this [of 3] show ?thesis using False by (simp add: x)
  qed
  moreover have "pos + 4 + (x - (dst + 4)) = pos + (x - dst)" by simp
  moreover have "pos + (x - dst) = pos + of_nat k" by (simp add: k_def)
  ultimately show ?case using Suc.prems k32 unfolding k_def [symmetric] by auto
qed simp

lemma readsect_spec:
  assumes "disk_ready (ports b)" "unat offset < 2 ^ 28"
  shows "\<exists>b'. readsect dst offset b = Some b' \<and> disk b' = disk b \<and> disk_ready (ports b') \<and>
    (\<forall>x. ram b' x = (if unat (x - dst) < 512 then disk b offset (x - dst) else ram b x))"
proof -
  obtain c where c: "waitdisk (ports b) = Some c" "inp c = inp (ports b)" using waitdisk_returns [OF assms(1)] by blast
  have "inp (select_sector offset c) = inp c" by (simp add: select_sector_def outb_def)
  moreover from this have "disk_ready (select_sector offset c)" using assms(1) c(2) by (simp add: disk_ready_def)
  ultimately obtain c' where c': "waitdisk (select_sector offset c) = Some c'" "outs c' = outs (select_sector offset c)"
      "inp c' = inp (ports b)" using waitdisk_returns c(2) by metis
  have "selected c' = offset"
    using selected_sector [OF assms(2), of c] latched_cong [OF c'(2)] by (simp add: selected_def)
  then show ?thesis using c(1) c'(1,3) assms(1)
    by (simp add: readsect_def SECTSIZE_def insl_apply disk_ready_def)
qed

section \<open>Segments\<close>

lemma readseg_loop_spec:
  assumes "disk_ready (ports b)" "unat pa + 512 * n < 2 ^ 32" "unat offset + n \<le> 2 ^ 28"
    "unat end_pa \<le> unat pa + 512 * n" "n = 0 \<or> unat pa + 512 * (n - 1) < unat end_pa"
  shows "\<exists>b'. readseg_loop pa end_pa offset b = Some b' \<and> disk b' = disk b \<and> disk_ready (ports b') \<and>
    (\<forall>x. ram b' x = (if unat (x - pa) < 512 * n
       then disk b (offset + of_nat (unat (x - pa) div 512)) (of_nat (unat (x - pa) mod 512)) else ram b x))"
  using assms
proof (induction n arbitrary: pa offset b)
  case 0
  then have "\<not> pa < end_pa" by (simp add: word_less_nat_alt)
  then show ?case using 0(1) by (subst readseg_loop.simps) simp
next
  case (Suc n)
  have lt: "pa < end_pa" using Suc.prems(5) by (simp add: word_less_nat_alt)
  obtain b1 where b1: "readsect pa offset b = Some b1" "disk b1 = disk b" "disk_ready (ports b1)"
      "\<And>x. ram b1 x = (if unat (x - pa) < 512 then disk b offset (x - pa) else ram b x)"
    using readsect_spec [OF Suc.prems(1), of offset pa] Suc.prems(3) by auto
  have pa: "unat (pa + 512) = unat pa + 512" using Suc.prems(2) by (simp add: unat_word_ariths)
  have off: "unat (offset + 1) = unat offset + 1" using Suc.prems(3) by (simp add: unat_word_ariths)
  have "\<exists>b'. readseg_loop (pa + 512) end_pa (offset + 1) b1 = Some b' \<and> disk b' = disk b1 \<and> disk_ready (ports b') \<and>
    (\<forall>x. ram b' x = (if unat (x - (pa + 512)) < 512 * n
       then disk b1 (offset + 1 + of_nat (unat (x - (pa + 512)) div 512)) (of_nat (unat (x - (pa + 512)) mod 512)) else ram b1 x))"
    by (rule Suc.IH [OF b1(3)]) (use Suc.prems pa off in \<open>auto simp: diff_Suc split: nat.splits\<close>)
  then obtain b' where b': "readseg_loop (pa + 512) end_pa (offset + 1) b1 = Some b'" "disk b' = disk b" "disk_ready (ports b')"
      "\<And>x. ram b' x = (if unat (x - (pa + 512)) < 512 * n
       then disk b (offset + 1 + of_nat (unat (x - (pa + 512)) div 512)) (of_nat (unat (x - (pa + 512)) mod 512)) else ram b1 x)"
    using b1(2) by auto
  have "ram b' x = (if unat (x - pa) < 512 * Suc n
       then disk b (offset + of_nat (unat (x - pa) div 512)) (of_nat (unat (x - pa) mod 512)) else ram b x)" for x
  proof (cases "unat (x - pa) < 512")
    case True
    then have "\<not> unat (x - (pa + 512)) < 512 * n" using unat_sub_add [of x pa 512] Suc.prems(2) by simp
    then show ?thesis using True by (simp add: b'(4) b1(4))
  next
    case False
    then obtain k where k: "unat (x - pa) = 512 + k" using le_Suc_ex by (metis not_less)
    then have k': "unat (x - (pa + 512)) = k" using unat_sub_add [of x pa 512] by simp
    have "(512 + k) div 512 = Suc (k div 512)" "(512 + k) mod 512 = k mod 512" by simp_all
    then show ?thesis unfolding b'(4) k' b1(4) k by (simp add: add.assoc)
  qed
  then show ?case using lt b1(1) b'(1-3) by (subst readseg_loop.simps) (simp add: SECTSIZE_def)
qed

text \<open>The file the disk holds from its second sector on.\<close>

definition file_byte :: "loader \<Rightarrow> mem" where
  "file_byte b a = disk b (a div 512 + 1) (a mod 512)"

lemma sector_start: "unat (pa AND NOT (512 - 1) :: u32) = unat pa div 512 * 512"
proof -
  have s: "pa AND NOT (mask 9) = push_bit 9 (drop_bit 9 pa)"
    by (auto intro!: bit_word_eqI simp: bit_and_iff bit_not_iff bit_mask_iff bit_push_bit_iff bit_drop_bit_eq)
  have "(512 - 1 :: u32) = mask 9" by (simp add: mask_eq_exp_minus_1)
  then have "unat (pa AND NOT (512 - 1)) = unat (push_bit 9 (drop_bit 9 pa))" by (simp only: s)
  also have "\<dots> = unat pa div 512 * 512"
  proof -
    have "unat pa div 512 * 512 \<le> unat pa" by simp
    then have "unat pa div 512 * 512 < 2 ^ 32" using unsigned_less [of pa, where 'a = nat] by simp
    then show ?thesis by (simp add: push_bit_eq_mult drop_bit_eq_div unat_word_ariths unat_div)
  qed
  finally show ?thesis .
qed

lemma file_byte_shift:
  assumes "unat (offset :: u32) + i < 2 ^ 32" "k = unat offset mod 512 + i"
  shows "file_byte b (offset + of_nat i) = disk b (offset div 512 + 1 + of_nat (k div 512)) (of_nat (k mod 512))"
proof -
  have u: "unat (offset + of_nat i) = unat offset + i" using assms(1) by (simp add: unat_word_ariths unat_of_nat)
  have s: "unat offset + i = unat offset div 512 * 512 + k" using assms(2) by simp
  have "(offset + of_nat i) div 512 = offset div 512 + of_nat (k div 512)"
  proof -
    have "unat ((offset + of_nat i) div 512) = unat offset div 512 + k div 512" by (simp add: unat_div u s)
    also have "\<dots> = unat (offset div 512 + of_nat (k div 512))"
    proof -
      have "unat offset div 512 + k div 512 \<le> unat offset + i" using s by (simp add: div_le_dividend trans_le_add1 add_mono)
      then show ?thesis using assms(1) by (simp add: unat_word_ariths unat_of_nat unat_div)
    qed
    finally show ?thesis by (simp add: word_unat_eq_iff)
  qed
  moreover have "(offset + of_nat i) mod 512 = of_nat (k mod 512)"
    by (simp add: word_unat_eq_iff unat_mod u s unat_of_nat)
  ultimately show ?thesis by (simp add: file_byte_def ac_simps)
qed

lemma readseg_spec:
  assumes r: "disk_ready (ports b)" and e: "unat pa + unat count + 512 \<le> 2 ^ 32" "unat offset + unat count \<le> 2 ^ 32"
    and m: "unat pa mod 512 = unat offset mod 512"
  shows "\<exists>b'. readseg pa count offset b = Some b' \<and> disk b' = disk b \<and> disk_ready (ports b') \<and>
    (\<forall>i < unat count. ram b' (pa + of_nat i) = file_byte b (offset + of_nat i)) \<and>
    (\<forall>x. unat x div 512 < unat pa div 512 \<or> (unat pa + unat count + 511) div 512 \<le> unat x div 512 \<longrightarrow> ram b' x = ram b x)"
proof -
  define p where "p = pa AND NOT (512 - 1)"
  define B where "B = unat pa div 512 * 512"
  define n where "n = (unat pa + unat count + 511) div 512 - unat pa div 512"
  have B: "unat p = B" "B + unat pa mod 512 = unat pa" using sector_start [of pa] by (simp_all add: B_def p_def)
  have en: "unat (pa + count) = unat pa + unat count" using e(1) by (simp add: unat_word_ariths)
  have n: "unat pa + unat count \<le> B + 512 * n" "B + 512 * n < unat pa + unat count + 512"
    "n = 0 \<or> B + 512 * (n - 1) < unat pa + unat count" unfolding B_def n_def by linarith+
  have off: "unat (offset div 512 + 1) = unat offset div 512 + 1"
    using unsigned_less [of offset, where 'a = nat] by (simp add: unat_word_ariths unat_div)
  have lim: "unat (offset div 512 + 1) + n \<le> 2 ^ 28"
    using off n(2) e(1) unsigned_less [of offset, where 'a = nat] by simp
  obtain b' where b': "readseg_loop p (pa + count) (offset div 512 + 1) b = Some b'" "disk b' = disk b" "disk_ready (ports b')"
    "\<And>x. ram b' x = (if unat (x - p) < 512 * n then disk b (offset div 512 + 1 + of_nat (unat (x - p) div 512))
         (of_nat (unat (x - p) mod 512)) else ram b x)"
    using readseg_loop_spec [OF r _ lim, of p "pa + count"] n e(1) unfolding B(1) en by auto
  have "ram b' (pa + of_nat i) = file_byte b (offset + of_nat i)" if i: "i < unat count" for i
  proof -
    have "unat (pa + of_nat i) = unat pa + i" using i e(1) by (simp add: unat_word_ariths unat_of_nat)
    then have k: "unat (pa + of_nat i - p) = unat pa mod 512 + i" using B by (simp add: unat_sub_if' word_le_nat_alt)
    moreover have "unat pa mod 512 + i < 512 * n" using n(1) B(2) i by linarith
    ultimately show ?thesis using file_byte_shift [of offset i "unat pa mod 512 + i" b] i e(2) m by (simp add: b'(4))
  qed
  moreover have "ram b' x = ram b x"
    if x: "unat x div 512 < unat pa div 512 \<or> (unat pa + unat count + 511) div 512 \<le> unat x div 512" for x
  proof -
    have "unat x < B \<or> B + 512 * n \<le> unat x" using x unfolding B_def n_def by linarith
    then have "512 * n \<le> unat (x - p)" using n(2) e(1) by (auto simp: unat_sub_if' word_le_nat_alt B(1))
    then show ?thesis by (simp add: b'(4))
  qed
  ultimately show ?thesis using b' by (simp add: readseg_def Let_def SECTSIZE_def p_def)
qed

section \<open>The kernel\<close>

text \<open>
  Segment \<open>k\<close> of the file (address, size, offset), and the files the loader can load: the
  headers are in the first 4 KB, the segments are congruent to their place in the file, lie
  behind the scratch space and share no sector.
\<close>

definition phdr :: "loader \<Rightarrow> nat \<Rightarrow> u32" where
  "phdr b k = e_phoff (elf_header (file_byte b)) + of_nat (32 * k)"

definition seg_pa :: "loader \<Rightarrow> nat \<Rightarrow> u32" where "seg_pa b k = p_pa (file_byte b) (phdr b k)"
definition seg_size :: "loader \<Rightarrow> nat \<Rightarrow> u32" where "seg_size b k = p_memsz (prog_header (file_byte b) (phdr b k))"
definition seg_off :: "loader \<Rightarrow> nat \<Rightarrow> u32" where "seg_off b k = p_offset (prog_header (file_byte b) (phdr b k))"
definition seg_count :: "loader \<Rightarrow> nat" where "seg_count b = unat (e_phnum (elf_header (file_byte b)))"

definition seg_end :: "loader \<Rightarrow> nat \<Rightarrow> nat" where
  "seg_end b k = (unat (seg_pa b k) + unat (seg_size b k) + 511) div 512"

definition seg_ok :: "loader \<Rightarrow> nat \<Rightarrow> bool" where
  "seg_ok b k \<longleftrightarrow> unat (seg_pa b k) mod 512 = unat (seg_off b k) mod 512 \<and> 0x11000 \<le> unat (seg_pa b k) \<and>
     unat (seg_pa b k) + unat (seg_size b k) + 512 \<le> 2 ^ 32 \<and> unat (seg_off b k) + unat (seg_size b k) \<le> 2 ^ 32 \<and>
     (\<forall>j < k. seg_end b j \<le> unat (seg_pa b k) div 512 \<or> seg_end b k \<le> unat (seg_pa b j) div 512)"

definition kernel_ok :: "loader \<Rightarrow> bool" where
  "kernel_ok b \<longleftrightarrow> unat (e_phoff (elf_header (file_byte b))) + 32 * seg_count b \<le> 4096 \<and> (\<forall>k < seg_count b. seg_ok b k)"

definition seg_loaded :: "loader \<Rightarrow> mem \<Rightarrow> nat \<Rightarrow> bool" where
  "seg_loaded b m k \<longleftrightarrow> (\<forall>i < unat (seg_size b k). m (seg_pa b k + of_nat i) = file_byte b (seg_off b k + of_nat i))"

text \<open>The headers in memory are those of the file.\<close>

definition header_loaded :: "loader \<Rightarrow> mem \<Rightarrow> bool" where
  "header_loaded b m \<longleftrightarrow> (\<forall>a. unat a < 4096 \<longrightarrow> m (ELFHDR + a) = file_byte b a)"

lemma header_read32:
  assumes "header_loaded b m" "unat a + 4 \<le> 4096"
  shows "read32 m (ELFHDR + a) = read32 (file_byte b) a"
proof -
  have "m (ELFHDR + a + c) = file_byte b (a + c)" if "unat c < 4" for c
  proof -
    have "unat (a + c) < 4096" using assms(2) that by (simp add: unat_word_ariths)
    then show ?thesis using assms(1) by (simp add: header_loaded_def add.assoc)
  qed
  from this [of 0] this [of 1] this [of 2] this [of 3] show ?thesis by (simp add: read32_def)
qed

lemma header_elf:
  assumes "header_loaded b m"
  shows "elf_header (\<lambda>a. m (ELFHDR + a)) = elf_header (file_byte b)"
proof -
  have "m (ELFHDR + a) = file_byte b a" if "unat a < 4096" for a using assms that by (simp add: header_loaded_def)
  with this [of 0] show ?thesis by (simp add: elf_header_def read32_def read16_def)
qed

lemma phdr_bound:
  assumes "kernel_ok b" "k < seg_count b"
  shows "unat (phdr b k) = unat (e_phoff (elf_header (file_byte b))) + 32 * k" "unat (phdr b k) + 32 \<le> 4096"
proof -
  have "unat (e_phoff (elf_header (file_byte b))) + 32 * k + 32 \<le> 4096" using assms by (simp add: kernel_ok_def)
  then show "unat (phdr b k) = unat (e_phoff (elf_header (file_byte b))) + 32 * k" "unat (phdr b k) + 32 \<le> 4096"
    by (simp_all add: phdr_def unat_word_ariths unat_of_nat)
qed

lemma header_phdr:
  assumes "header_loaded b m" "kernel_ok b" "k < seg_count b"
  shows "p_pa m (ELFHDR + phdr b k) = seg_pa b k" "p_memsz (prog_header m (ELFHDR + phdr b k)) = seg_size b k"
    "p_offset (prog_header m (ELFHDR + phdr b k)) = seg_off b k"
proof -
  have "read32 m (ELFHDR + phdr b k + c) = read32 (file_byte b) (phdr b k + c)" if "unat c \<le> 28" for c
  proof -
    have "unat (phdr b k + c) + 4 \<le> 4096" using phdr_bound(2) [OF assms(2,3)] that by (simp add: unat_word_ariths)
    then show ?thesis using header_read32 [OF assms(1), of "phdr b k + c"] by (simp add: add.assoc)
  qed
  from this [of 12] this [of 4] this [of 20]
  show "p_pa m (ELFHDR + phdr b k) = seg_pa b k" "p_memsz (prog_header m (ELFHDR + phdr b k)) = seg_size b k"
    "p_offset (prog_header m (ELFHDR + phdr b k)) = seg_off b k"
    by (simp_all add: p_pa_def prog_header_def seg_pa_def seg_size_def seg_off_def)
qed

lemma file_byte_cong: "disk b' = disk b \<Longrightarrow> file_byte b' = file_byte b"
  by (simp add: file_byte_def fun_eq_iff)

lemma load_one:
  assumes k: "kernel_ok b0" "k < seg_count b0" and b: "disk b = disk b0" "disk_ready (ports b)" "header_loaded b0 (ram b)"
    and j: "\<forall>j < k. seg_loaded b0 (ram b) j"
  shows "\<exists>b'. readseg (seg_pa b0 k) (seg_size b0 k) (seg_off b0 k) b = Some b' \<and> disk b' = disk b0 \<and> disk_ready (ports b') \<and>
    header_loaded b0 (ram b') \<and> (\<forall>j < Suc k. seg_loaded b0 (ram b') j)"
proof -
  have ok: "seg_ok b0 k" "\<And>j. j < k \<Longrightarrow> seg_ok b0 j" using k by (auto simp: kernel_ok_def)
  obtain b' where b': "readseg (seg_pa b0 k) (seg_size b0 k) (seg_off b0 k) b = Some b'" "disk b' = disk b0" "disk_ready (ports b')"
      "\<forall>i < unat (seg_size b0 k). ram b' (seg_pa b0 k + of_nat i) = file_byte b0 (seg_off b0 k + of_nat i)"
      "\<And>x. unat x div 512 < unat (seg_pa b0 k) div 512 \<or> seg_end b0 k \<le> unat x div 512 \<Longrightarrow> ram b' x = ram b x"
    using readseg_spec [OF b(2), of "seg_pa b0 k" "seg_size b0 k" "seg_off b0 k"] ok(1) b(1) file_byte_cong [OF b(1)]
    by (auto simp: seg_ok_def seg_end_def)
  have "header_loaded b0 (ram b')"
    unfolding header_loaded_def
  proof (intro allI impI)
    fix a :: u32 assume a: "unat a < 4096"
    then have "unat (ELFHDR + a) = 0x10000 + unat a" by (simp add: ELFHDR_def unat_word_ariths)
    moreover have "0x11000 \<le> unat (seg_pa b0 k)" using ok(1) by (simp add: seg_ok_def)
    moreover from this have "0x11000 div 512 \<le> unat (seg_pa b0 k) div 512" by (intro div_le_mono) simp
    moreover have "(0x10000 + unat a) div 512 \<le> (0x10FFF :: nat) div 512" using a by (intro div_le_mono) simp
    ultimately have "unat (ELFHDR + a) div 512 < unat (seg_pa b0 k) div 512" by simp
    then show "ram b' (ELFHDR + a) = file_byte b0 a" using b'(5) b(3) a by (simp add: header_loaded_def)
  qed
  moreover have "seg_loaded b0 (ram b') j" if jk: "j < k" for j
    unfolding seg_loaded_def
  proof (intro allI impI)
    fix i assume i: "i < unat (seg_size b0 j)"
    let ?x = "seg_pa b0 j + of_nat i"
    have "unat (seg_pa b0 j) + unat (seg_size b0 j) + 512 \<le> 2 ^ 32" using ok(2) [OF jk] by (simp add: seg_ok_def)
    then have x: "unat ?x = unat (seg_pa b0 j) + i" using i by (simp add: unat_word_ariths unat_of_nat)
    have "unat ?x div 512 < seg_end b0 j" "unat (seg_pa b0 j) div 512 \<le> unat ?x div 512"
      unfolding seg_end_def x using i by linarith+
    moreover have "seg_end b0 j \<le> unat (seg_pa b0 k) div 512 \<or> seg_end b0 k \<le> unat (seg_pa b0 j) div 512"
      using ok(1) jk by (simp add: seg_ok_def)
    ultimately have "ram b' ?x = ram b ?x" by (intro b'(5)) linarith
    then show "ram b' ?x = file_byte b0 (seg_off b0 j + of_nat i)" using j jk i by (simp add: seg_loaded_def)
  qed
  moreover have "seg_loaded b0 (ram b') k" using b'(4) by (simp add: seg_loaded_def)
  ultimately show ?thesis using b'(1-3) by (auto simp: less_Suc_eq)
qed

lemma boot_segments_spec:
  assumes k: "kernel_ok b0" "k + n = seg_count b0"
    and b: "disk b = disk b0" "disk_ready (ports b)" "header_loaded b0 (ram b)" "\<forall>j < k. seg_loaded b0 (ram b) j"
  shows "\<exists>b'. boot_segments (ELFHDR + phdr b0 0 + of_nat (32 * k)) (ELFHDR + phdr b0 0 + of_nat (32 * seg_count b0)) b = Some b' \<and>
    header_loaded b0 (ram b') \<and> (\<forall>j < seg_count b0. seg_loaded b0 (ram b') j)"
  using k(2) b
proof (induction n arbitrary: k b)
  case 0
  then show ?case by (subst boot_segments.simps) simp
next
  case (Suc n)
  let ?ph = "ELFHDR + phdr b0 0"
  have lt: "k < seg_count b0" using Suc.prems(1) by simp
  have "unat (e_phoff (elf_header (file_byte b0))) + 32 * seg_count b0 \<le> 4096" using k(1) by (simp add: kernel_ok_def)
  then have "unat (?ph + of_nat (32 * j)) = 0x10000 + unat (e_phoff (elf_header (file_byte b0))) + 32 * j" if "j \<le> seg_count b0" for j
    using that by (simp add: phdr_def ELFHDR_def unat_word_ariths unat_of_nat)
  then have ph: "?ph + of_nat (32 * k) < ?ph + of_nat (32 * seg_count b0)" using lt by (simp add: word_less_nat_alt)
  have eq: "?ph + of_nat (32 * k) = ELFHDR + phdr b0 k" "?ph + of_nat (32 * k) + 32 = ?ph + of_nat (32 * Suc k)"
    by (simp_all add: phdr_def add.assoc)
  obtain b1 where b1: "readseg (seg_pa b0 k) (seg_size b0 k) (seg_off b0 k) b = Some b1" "disk b1 = disk b0" "disk_ready (ports b1)"
      "header_loaded b0 (ram b1)" "\<forall>j < Suc k. seg_loaded b0 (ram b1) j"
    using load_one [OF k(1) lt Suc.prems(2-5)] by blast
  obtain b' where "boot_segments (?ph + of_nat (32 * Suc k)) (?ph + of_nat (32 * seg_count b0)) b1 = Some b'"
      "header_loaded b0 (ram b')" "\<forall>j < seg_count b0. seg_loaded b0 (ram b') j"
    using Suc.IH [of "Suc k" b1] Suc.prems(1) b1 by auto
  moreover have "boot_segments (ELFHDR + phdr b0 k) e b = boot_segments (ELFHDR + phdr b0 k + 32) e b1"
    if "ELFHDR + phdr b0 k < e" for e
    using that b1(1) header_phdr [OF Suc.prems(4) k(1) lt] by (subst boot_segments.simps) simp
  note step = this [OF ph [unfolded eq(1)]]
  ultimately show ?case unfolding eq(1) step unfolding eq(1) [symmetric] eq(2) by blast
qed

text \<open>
  C33. The boot loader. When the disk becomes ready again and again, \<open>bootmain\<close> ends: with a
  file that is no ELF file it gives up; with a kernel whose segments are congruent to their place in the
  file (modulo the sector size), behind the scratch space of the loader and in sectors of
  their own, it jumps to the entry point of the header, every byte of every segment being in
  memory at its physical address.
\<close>

theorem bootmain_correct:
  assumes r: "disk_ready (ports b)"
  shows "(e_magic (elf_header (file_byte b)) \<noteq> ELF_MAGIC \<longrightarrow> (\<exists>b'. bootmain b = Some (BadKernel, b'))) \<and>
    (e_magic (elf_header (file_byte b)) = ELF_MAGIC \<and> kernel_ok b \<longrightarrow>
      (\<exists>b'. bootmain b = Some (Jump (e_entry (elf_header (file_byte b))), b') \<and> (\<forall>k < seg_count b. seg_loaded b (ram b') k)))"
proof -
  obtain b1 where b1: "readseg ELFHDR (SECTSIZE * 8) 0 b = Some b1" "disk b1 = disk b" "disk_ready (ports b1)"
      "\<forall>i < 4096. ram b1 (ELFHDR + of_nat i) = file_byte b (of_nat i)"
    using readseg_spec [OF r, of ELFHDR "SECTSIZE * 8" 0] by (auto simp: ELFHDR_def SECTSIZE_def)
  have h: "header_loaded b (ram b1)"
    unfolding header_loaded_def
  proof (intro allI impI)
    fix a :: u32 assume "unat a < 4096"
    then show "ram b1 (ELFHDR + a) = file_byte b a" using b1(4) [rule_format, of "unat a"] by simp
  qed
  have p0: "phdr b 0 = e_phoff (elf_header (file_byte b))" by (simp add: phdr_def)
  have cnt: "32 * ucast (e_phnum (elf_header (file_byte b))) = (of_nat (32 * seg_count b) :: u32)"
    by (simp add: seg_count_def)
  show ?thesis
  proof (intro conjI impI; (elim conjE)?)
    assume "e_magic (elf_header (file_byte b)) \<noteq> ELF_MAGIC"
    then show "\<exists>b'. bootmain b = Some (BadKernel, b')" by (simp add: bootmain_def b1(1) header_elf [OF h] Let_def)
  next
    assume m: "e_magic (elf_header (file_byte b)) = ELF_MAGIC" and k: "kernel_ok b"
    obtain b' where b': "boot_segments (ELFHDR + phdr b 0) (ELFHDR + phdr b 0 + of_nat (32 * seg_count b)) b1 = Some b'"
        "header_loaded b (ram b')" "\<forall>j < seg_count b. seg_loaded b (ram b') j"
      using boot_segments_spec [OF k, of 0 "seg_count b" b1] b1(2,3) h by auto
    then have "bootmain b = Some (Jump (e_entry (elf_header (file_byte b))), b')"
      by (simp add: bootmain_def b1(1) header_elf [OF h] header_elf [OF b'(2)] Let_def m cnt p0 [symmetric])
    then show "\<exists>b'. bootmain b = Some (Jump (e_entry (elf_header (file_byte b))), b') \<and> (\<forall>k < seg_count b. seg_loaded b (ram b') k)"
      using b'(3) by blast
  qed
qed

text \<open>A disk with a kernel of one segment of 16 bytes at 1 MB.\<close>

definition tiny_file :: mem where
  "tiny_file = (\<lambda>_. 0)(0 := 0x7F, 1 := 0x45, 2 := 0x4C, 3 := 0x46, 24 := 0x0C, 26 := 0x10, 28 := 52, 44 := 1,
     57 := 0x10, 66 := 0x10, 72 := 16, 4096 := 0xFA)"

definition tiny_disk :: loader where
  "tiny_disk = \<lparr>ports = quiet_console\<lparr>inp := (\<lambda>_ _. 0x40)\<rparr>, ram = (\<lambda>_. 0), disk = (\<lambda>s i. tiny_file ((s - 1) * 512 + i))\<rparr>"

theorem bootmain_correct_witness:
  "\<exists>b. bootmain tiny_disk = Some (Jump 0x10000C, b) \<and> ram b 0x100000 = 0xFA"
proof -
  have "(a div 512) * 512 + a mod 512 = (a :: u32)" for a by (simp add: div_mult_mod_eq)
  then have f: "file_byte tiny_disk = tiny_file" by (simp add: file_byte_def tiny_disk_def fun_eq_iff)
  have r: "disk_ready (ports tiny_disk)" by (auto simp: disk_ready_def tiny_disk_def)
  have elf: "elf_header tiny_file = \<lparr>e_magic = ELF_MAGIC, e_entry = 0x10000C, e_phoff = 52, e_phnum = 1\<rparr>"
    by (simp add: elf_header_def read32_def read16_def tiny_file_def ELF_MAGIC_def)
  have ph: "phdr tiny_disk 0 = 52" by (simp add: phdr_def f elf)
  have seg: "seg_pa tiny_disk 0 = 0x100000" "seg_size tiny_disk 0 = 16" "seg_off tiny_disk 0 = 0x1000" "seg_count tiny_disk = 1"
    by (simp_all add: seg_pa_def seg_size_def seg_off_def seg_count_def ph f elf p_pa_def prog_header_def read32_def)
       (simp_all add: tiny_file_def)
  have "kernel_ok tiny_disk" by (simp add: kernel_ok_def seg seg_ok_def f elf)
  then obtain b where "bootmain tiny_disk = Some (Jump 0x10000C, b)" "\<forall>k < seg_count tiny_disk. seg_loaded tiny_disk (ram b) k"
    using bootmain_correct [OF r] by (auto simp: f elf)
  moreover from this have "ram b 0x100000 = tiny_file 0x1000" using seg by (auto simp: seg_loaded_def f dest: spec [of _ 0])
  ultimately show ?thesis by (simp add: tiny_file_def)
qed

end
