(* ===== verification/Smp.thy ===== *)
theory Smp
  imports Trap MemInit
begin

text \<open>
  Several processors and the start of the kernel: the multiprocessor configuration tables
  (\<^verbatim>\<open>kern/mpconfig.c\<close>), the local interrupt controller (\<^verbatim>\<open>kern/lapic.c\<close>), the clock chip
  (\<^verbatim>\<open>kern/kclock.c\<close>) and \<^verbatim>\<open>kern/init.c\<close>. The tables are read from physical memory, the registers
  of the local controller deliver arbitrary values and record what is written. The ID register
  holds the number of the processor that reads it, so \<^verbatim>\<open>cpunum\<close> is \<open>this_cpu\<close> once the controller is
  mapped. Messages on the console are left out, except those of \<^verbatim>\<open>_panic\<close> and \<^verbatim>\<open>_warn\<close>.
\<close>

section \<open>State\<close>

record smp =
  mc :: machine
  desc :: descriptors
  bootcpu :: nat
  ismp :: bool
  ncpu :: nat
  lapicaddr :: u32
  lapic :: u32
  lapic_in :: "u32 \<Rightarrow> nat \<Rightarrow> u32"
  lapic_reads :: "u32 \<Rightarrow> nat"
  lapic_outs :: "(u32 \<times> u32) list"
  mpentry_kstack :: u32

type_synonym 'a sres = "(smp, 'a) outcome"

fun lift_mach :: "'a mres \<Rightarrow> smp \<Rightarrow> 'a sres" where
  "lift_mach (Return a m) x = Return a (x\<lparr>mc := m\<rparr>)"
| "lift_mach (Panic e) x = Panic e"
| "lift_mach (Leave l m) x = Leave l (x\<lparr>mc := m\<rparr>)"
| "lift_mach (Fault e) x = Fault e"
| "lift_mach Diverge x = Diverge"

definition on_kern :: "(kstate \<Rightarrow> 'a kres) \<Rightarrow> smp \<Rightarrow> 'a sres" where
  "on_kern f x = lift_mach (lift_kern (f (kern (mc x))) (mc x)) x"

definition on_con :: "(console \<Rightarrow> console) \<Rightarrow> smp \<Rightarrow> smp" where
  "on_con f x = x\<lparr>mc := (mc x)\<lparr>con := f (con (mc x))\<rparr>\<rparr>"

definition cpunum :: "smp \<Rightarrow> nat" where
  "cpunum x = (if lapic x \<noteq> 0 then this_cpu (kern (mc x)) else 0)"

text \<open>Bytes of physical memory.\<close>

definition phys_byte :: "kstate \<Rightarrow> mem" where
  "phys_byte s pa = get_byte (pmem s (unat (PGNUM pa)) (unat (PGOFF pa) div 4)) (unat (PGOFF pa) mod 4)"

definition set_phys_byte :: "u32 \<Rightarrow> u8 \<Rightarrow> kstate \<Rightarrow> kstate" where
  "set_phys_byte pa v s =
     (let f = unat (PGNUM pa); off = unat (PGOFF pa)
      in store_pte (f, off div 4) (set_byte (pmem s f (off div 4)) (off mod 4) v) s)"

section \<open>Clock chip\<close>

definition IO_RTC :: u32 where "IO_RTC = 0x70"

definition mc146818_read :: "u8 \<Rightarrow> console \<Rightarrow> u32 \<times> console" where
  "mc146818_read r c = (let (v, c) = inb (IO_RTC + 1) (outb IO_RTC r c) in (ucast v, c))"

definition mc146818_write :: "u8 \<Rightarrow> u8 \<Rightarrow> console \<Rightarrow> console" where
  "mc146818_write r datum c = outb (IO_RTC + 1) datum (outb IO_RTC r c)"

section \<open>Configuration tables\<close>

definition MPPROC_BOOT :: u8 where "MPPROC_BOOT = 2"
definition MPPROC :: u8 where "MPPROC = 0"
definition MPBUS :: u8 where "MPBUS = 1"
definition MPIOAPIC :: u8 where "MPIOAPIC = 2"
definition MPIOINTR :: u8 where "MPIOINTR = 3"
definition MPLINTR :: u8 where "MPLINTR = 4"

text \<open>Fields of \<open>struct mp\<close> (16 bytes), \<open>struct mpconf\<close> (44 bytes before its entries) and \<open>struct mpproc\<close> (20 bytes).\<close>

record mp =
  mp_physaddr :: u32
  mp_type :: u8
  mp_imcrp :: u8

definition read_mp :: "mem \<Rightarrow> u32 \<Rightarrow> mp" where
  "read_mp m a = \<lparr>mp_physaddr = read32 m (a + 4), mp_type = m (a + 11), mp_imcrp = m (a + 12)\<rparr>"

record mpconf =
  conf_length :: u16
  conf_version :: u8
  conf_entry :: u16
  conf_lapicaddr :: u32
  conf_xlength :: u16
  conf_xchecksum :: u8

definition read_mpconf :: "mem \<Rightarrow> u32 \<Rightarrow> mpconf" where
  "read_mpconf m a = \<lparr>conf_length = read16 m (a + 4), conf_version = m (a + 6), conf_entry = read16 m (a + 34),
     conf_lapicaddr = read32 m (a + 36), conf_xlength = read16 m (a + 40), conf_xchecksum = m (a + 42)\<rparr>"

record mpproc =
  proc_apicid :: u8
  proc_flags :: u8

definition read_mpproc :: "mem \<Rightarrow> u32 \<Rightarrow> mpproc" where
  "read_mpproc m a = \<lparr>proc_apicid = m (a + 1), proc_flags = m (a + 3)\<rparr>"

text \<open>The sum of \<open>len\<close> bytes, as an \<open>int\<close>, returned as a byte.\<close>

definition mp_sum :: "mem \<Rightarrow> u32 \<Rightarrow> nat \<Rightarrow> u8" where
  "mp_sum m a len = ucast (fold (\<lambda>i s. s + ucast (m (a + of_nat i))) [0..<len] (0 :: u32))"

definition has_signature :: "string \<Rightarrow> mem \<Rightarrow> u32 \<Rightarrow> bool" where
  "has_signature sig m a = (map (\<lambda>i. m (a + of_nat i)) [0..<4] = bytes_of sig)"

definition mp_valid :: "mem \<Rightarrow> u32 \<Rightarrow> bool" where
  "mp_valid m a \<longleftrightarrow> has_signature ''_MP_'' m a \<and> mp_sum m a 16 = 0"

definition mpsearch1 :: "u32 \<Rightarrow> u32 \<Rightarrow> kstate \<Rightarrow> u32 option kres" where
  "mpsearch1 a len s =
     obind (KADDR a s) (\<lambda>_ s.
     obind (KADDR (a + len) s) (\<lambda>_ s.
       Return (find (mp_valid (phys_byte s)) (map (\<lambda>i. a + of_nat (16 * i)) [0..<(unat len + 15) div 16])) s))"

definition mpsearch :: "kstate \<Rightarrow> u32 option kres" where
  "mpsearch s =
     obind (KADDR 0x400 s) (\<lambda>_ s.
     let p = read16 (phys_byte s) (0x400 + 0x0E) in
     obind (if p \<noteq> 0 then mpsearch1 (push_bit 4 (ucast p)) 1024 s
            else mpsearch1 (ucast (read16 (phys_byte s) (0x400 + 0x13)) * 1024 - 1024) 1024 s) (\<lambda>mp s.
       case mp of Some mp \<Rightarrow> Return (Some mp) s | None \<Rightarrow> mpsearch1 0xF0000 0x10000 s))"

text \<open>The physical addresses of the floating pointer and of the table.\<close>

definition mpconfig :: "kstate \<Rightarrow> (u32 \<times> u32) option kres" where
  "mpconfig s =
     obind (mpsearch s) (\<lambda>mp s.
       case mp of None \<Rightarrow> Return None s
       | Some mp \<Rightarrow>
           let p = read_mp (phys_byte s) mp in
           if mp_physaddr p = 0 \<or> mp_type p \<noteq> 0 then Return None s
           else obind (KADDR (mp_physaddr p) s) (\<lambda>_ s.
             let m = phys_byte s; conf = mp_physaddr p; f = read_mpconf m conf; n = unat (conf_length f) in
             if \<not> has_signature ''PCMP'' m conf then Return None s
             else if mp_sum m conf n \<noteq> 0 then Return None s
             else if conf_version f \<noteq> 1 \<and> conf_version f \<noteq> 4 then Return None s
             else if mp_sum m (conf + of_nat n) (unat (conf_xlength f)) + conf_xchecksum f \<noteq> 0 then Return None s
             else Return (Some (mp, conf)) s))"

text \<open>One entry of the table: the number of bytes to skip, or \<open>None\<close> for an unknown type.\<close>

definition mp_entry :: "mem \<Rightarrow> u32 \<Rightarrow> smp \<Rightarrow> u32 option \<times> smp" where
  "mp_entry m p x =
     (if m p = MPPROC then
        let x = (if proc_flags (read_mpproc m p) AND MPPROC_BOOT \<noteq> 0 then x\<lparr>bootcpu := ncpu x\<rparr> else x);
            x = (if ncpu x < NCPU
                 then x\<lparr>mc := (mc x)\<lparr>kern := (kern (mc x))\<lparr>cpus := (cpus (kern (mc x)))(ncpu x := (cpus (kern (mc x)) (ncpu x))\<lparr>cpu_id := of_nat (ncpu x)\<rparr>)\<rparr>\<rparr>,
                        ncpu := ncpu x + 1\<rparr>
                 else x)
        in (Some 20, x)
      else if m p \<in> {MPBUS, MPIOAPIC, MPIOINTR, MPLINTR} then (Some 8, x)
      else (None, x\<lparr>ismp := False\<rparr>))"

primrec mp_entries :: "nat \<Rightarrow> mem \<Rightarrow> u32 \<Rightarrow> smp \<Rightarrow> smp" where
  "mp_entries 0 m p x = x"
| "mp_entries (Suc n) m p x =
     (case mp_entry m p x of (Some k, x) \<Rightarrow> mp_entries n m (p + k) x | (None, x) \<Rightarrow> x)"

text \<open>
  \<open>bootcpu\<close> is \<open>&cpus[ncpu]\<close> when the flagged processor is seen, also when the array is full:
  the store to its status is then outside of \<open>cpus\<close>.
\<close>

definition mp_init :: "smp \<Rightarrow> unit sres" where
  "mp_init x =
     (let x = x\<lparr>bootcpu := 0\<rparr> in
     obind (on_kern mpconfig x) (\<lambda>r x.
       case r of None \<Rightarrow> Return () x
       | Some (mp, conf) \<Rightarrow>
           let m = phys_byte (kern (mc x)); f = read_mpconf m conf;
               x = x\<lparr>ismp := True, lapicaddr := conf_lapicaddr f\<rparr>;
               x = mp_entries (unat (conf_entry f)) m (conf + 44) x in
           if bootcpu x \<ge> NCPU then Fault ''mp_init: bootcpu outside of cpus''
           else let x = x\<lparr>mc := (mc x)\<lparr>kern := (kern (mc x))\<lparr>cpus := (cpus (kern (mc x)))(bootcpu x := (cpus (kern (mc x)) (bootcpu x))\<lparr>cpu_status := CPU_STARTED\<rparr>)\<rparr>\<rparr>\<rparr> in
             if \<not> ismp x then Return () (x\<lparr>ncpu := 1, lapicaddr := 0\<rparr>)
             else if mp_imcrp (read_mp m mp) \<noteq> 0
             then Return () (on_con (\<lambda>c. let c = outb 0x22 0x70 c; (v, c) = inb 0x23 c in outb 0x23 (v OR 1) c) x)
             else Return () x))"

section \<open>Local interrupt controller\<close>

definition ID :: u32 where "ID = 0x0020 div 4"
definition VER :: u32 where "VER = 0x0030 div 4"
definition TPR :: u32 where "TPR = 0x0080 div 4"
definition EOI :: u32 where "EOI = 0x00B0 div 4"
definition SVR :: u32 where "SVR = 0x00F0 div 4"
definition ENABLE :: u32 where "ENABLE = 0x00000100"
definition ESR :: u32 where "ESR = 0x0280 div 4"
definition ICRLO :: u32 where "ICRLO = 0x0300 div 4"
definition INIT :: u32 where "INIT = 0x00000500"
definition STARTUP :: u32 where "STARTUP = 0x00000600"
definition DELIVS :: u32 where "DELIVS = 0x00001000"
definition ASSERT :: u32 where "ASSERT = 0x00004000"
definition LEVEL :: u32 where "LEVEL = 0x00008000"
definition BCAST :: u32 where "BCAST = 0x00080000"
definition OTHERS :: u32 where "OTHERS = 0x000C0000"
definition FIXED :: u32 where "FIXED = 0x00000000"
definition ICRHI :: u32 where "ICRHI = 0x0310 div 4"
definition TIMER :: u32 where "TIMER = 0x0320 div 4"
definition X1 :: u32 where "X1 = 0x0000000B"
definition PERIODIC :: u32 where "PERIODIC = 0x00020000"
definition PCINT :: u32 where "PCINT = 0x0340 div 4"
definition LINT0 :: u32 where "LINT0 = 0x0350 div 4"
definition LINT1 :: u32 where "LINT1 = 0x0360 div 4"
definition ERROR :: u32 where "ERROR = 0x0370 div 4"
definition MASKED :: u32 where "MASKED = 0x00010000"
definition TICR :: u32 where "TICR = 0x0380 div 4"
definition TDCR :: u32 where "TDCR = 0x03E0 div 4"
definition IRQ_ERROR :: u32 where "IRQ_ERROR = 19"

definition lapic_read :: "u32 \<Rightarrow> smp \<Rightarrow> u32 \<times> smp" where
  "lapic_read i x = (lapic_in x i (lapic_reads x i), x\<lparr>lapic_reads := (lapic_reads x)(i := Suc (lapic_reads x i))\<rparr>)"

text \<open>A write waits for its end by reading the ID register; without a mapped controller it goes through NULL.\<close>

definition lapicw :: "u32 \<Rightarrow> u32 \<Rightarrow> smp \<Rightarrow> unit sres" where
  "lapicw i v x =
     (if lapic x = 0 then Fault ''lapicw: NULL lapic''
      else Return () (snd (lapic_read ID (x\<lparr>lapic_outs := lapic_outs x @ [(i, v)]\<rparr>))))"

definition lapicws :: "(u32 \<times> u32) list \<Rightarrow> smp \<Rightarrow> unit sres" where
  "lapicws ws x = ofold (\<lambda>(i, v) x. lapicw i v x) ws x"

partial_function (option) lapic_wait :: "smp \<Rightarrow> smp option" where
  "lapic_wait x = (if fst (lapic_read ICRLO x) AND DELIVS \<noteq> 0 then lapic_wait (snd (lapic_read ICRLO x))
                   else Some (snd (lapic_read ICRLO x)))"

definition lapic_init :: "smp \<Rightarrow> unit sres" where
  "lapic_init x =
     (if lapicaddr x = 0 then Return () x
      else obind (on_kern (mmio_map_region (lapicaddr x) 4096) x) (\<lambda>va x.
        let x = x\<lparr>lapic := va\<rparr> in
        obind (lapicws [(SVR, ENABLE OR (IRQ_OFFSET + IRQ_SPURIOUS)), (TDCR, X1), (TIMER, PERIODIC OR (IRQ_OFFSET + IRQ_TIMER)),
                        (TICR, 10000000)] x) (\<lambda>_ x.
        obind (if cpunum x \<noteq> bootcpu x then lapicw LINT0 MASKED x else Return () x) (\<lambda>_ x.
        obind (lapicw LINT1 MASKED x) (\<lambda>_ x.
        let (ver, x) = lapic_read VER x in
        obind (if drop_bit 16 ver AND 0xFF \<ge> 4 then lapicw PCINT MASKED x else Return () x) (\<lambda>_ x.
        obind (lapicws [(ERROR, IRQ_OFFSET + IRQ_ERROR), (ESR, 0), (ESR, 0), (EOI, 0), (ICRHI, 0), (ICRLO, BCAST OR INIT OR LEVEL)] x) (\<lambda>_ x.
        case lapic_wait x of None \<Rightarrow> Diverge | Some x \<Rightarrow> lapicw TPR 0 x)))))))"

definition lapic_eoi :: "smp \<Rightarrow> unit sres" where
  "lapic_eoi x = (if lapic x \<noteq> 0 then lapicw EOI 0 x else Return () x)"

text \<open>The warm reset vector is two unaligned half words at 0x467.\<close>

definition lapic_startap :: "u8 \<Rightarrow> u32 \<Rightarrow> smp \<Rightarrow> unit sres" where
  "lapic_startap apicid addr x =
     (let x = on_con (\<lambda>c. outb (IO_RTC + 1) 0x0A (outb IO_RTC 0xF c)) x in
      obind (on_kern (KADDR 0x467) x) (\<lambda>_ x.
      let v = drop_bit 4 addr;
          x = x\<lparr>mc := (mc x)\<lparr>kern := fold (\<lambda>(a, b). set_phys_byte a b) [(0x467, 0), (0x468, 0), (0x469, ucast v), (0x46A, ucast (drop_bit 8 v))] (kern (mc x))\<rparr>\<rparr>
      in lapicws ([(ICRHI, push_bit 24 (ucast apicid)), (ICRLO, INIT OR LEVEL OR ASSERT), (ICRLO, INIT OR LEVEL)] @
                  concat (replicate 2 [(ICRHI, push_bit 24 (ucast apicid)), (ICRLO, STARTUP OR drop_bit 12 addr)])) x))"

definition lapic_ipi :: "u32 \<Rightarrow> smp \<Rightarrow> unit sres" where
  "lapic_ipi vector x =
     obind (lapicw ICRLO (OTHERS OR FIXED OR vector) x) (\<lambda>_ x.
       case lapic_wait x of None \<Rightarrow> Diverge | Some x \<Rightarrow> Return () x)"

section \<open>Start of the kernel\<close>

text \<open>
  The static data of the kernel that the linker and the assembler files fix: addresses, the code for the
  other processors, the trap entry points, the task states and the caller's stack for the lock.
\<close>

record kernel_image =
  links :: link_map
  vectors :: "nat \<Rightarrow> u32"
  tss_at :: "nat \<Rightarrow> u32"
  mpentry :: "u8 list"
  stack_mem :: "u32 \<Rightarrow> u32"
  stack_ebp :: u32

definition trap_percpu :: "kernel_image \<Rightarrow> smp \<Rightarrow> smp" where
  "trap_percpu im x =
     (let (d, s) = trap_init_percpu (tss_at im) (desc x) (kern (mc x)) in x\<lparr>desc := d, mc := (mc x)\<lparr>kern := s\<rparr>\<rparr>)"

text \<open>\<open>mp_main\<close> on another processor: the part before the lock, which tells \<open>boot_aps\<close> it is up, and all of it.\<close>

definition mp_setup :: "kernel_image \<Rightarrow> smp \<Rightarrow> unit sres" where
  "mp_setup im x =
     obind (on_kern (\<lambda>s. PADDR (pgdir_kva (Some (kern_pgdir s))) s) x) (\<lambda>pa x.
     let x = x\<lparr>mc := (mc x)\<lparr>kern := lcr3 pa (kern (mc x))\<rparr>\<rparr> in
     obind (lapic_init x) (\<lambda>_ x.
     let x = trap_percpu im x in
     Return () (x\<lparr>mc := (mc x)\<lparr>kern := set_cpu_status CPU_STARTED (kern (mc x))\<rparr>\<rparr>)))"

definition mp_main :: "kernel_image \<Rightarrow> smp \<Rightarrow> unit sres" where
  "mp_main im x =
     obind (mp_setup im x) (\<lambda>_ x.
     obind (on_kern (lock_kernel (stack_mem im) (stack_ebp im)) x) (\<lambda>_ x. on_kern sched_yield x))"

text \<open>
  While \<open>boot_aps\<close> waits, processor \<open>c\<close> runs \<open>mp_setup\<close> with its own \<open>cr3\<close> and TLB and
  then waits for the lock.
\<close>

definition run_ap :: "kernel_image \<Rightarrow> nat \<Rightarrow> smp \<Rightarrow> unit sres" where
  "run_ap im c x =
     (let s = kern (mc x); me = this_cpu s; mycr3 = cr3 s; mytlb = tlb s;
          x = x\<lparr>mc := (mc x)\<lparr>kern := s\<lparr>this_cpu := c, tlb := Map.empty\<rparr>\<rparr>\<rparr> in
      obind (mp_setup im x) (\<lambda>_ x.
        Return () (x\<lparr>mc := (mc x)\<lparr>kern := (kern (mc x))\<lparr>this_cpu := me, cr3 := mycr3, tlb := mytlb\<rparr>\<rparr>\<rparr>)))"

definition boot_ap :: "kernel_image \<Rightarrow> nat \<Rightarrow> smp \<Rightarrow> unit sres" where
  "boot_ap im c x =
     (if c = cpunum x then Return () x
      else let x = x\<lparr>mpentry_kstack := percpu_kstacks (links im) c + KSTKSIZE\<rparr> in
        obind (lapic_startap (cpu_id (cpus (kern (mc x)) c)) MPENTRY_PADDR x) (\<lambda>_ x.
        obind (run_ap im c x) (\<lambda>_ x.
          if cpu_status (cpus (kern (mc x)) c) \<noteq> CPU_STARTED then Diverge else Return () x)))"

definition boot_aps :: "kernel_image \<Rightarrow> smp \<Rightarrow> unit sres" where
  "boot_aps im x =
     obind (on_kern (KADDR MPENTRY_PADDR) x) (\<lambda>_ x.
     let x = x\<lparr>mc := (mc x)\<lparr>kern := fold (\<lambda>i. set_phys_byte (MPENTRY_PADDR + of_nat i) (mpentry im ! i)) [0..<length (mpentry im)] (kern (mc x))\<rparr>\<rparr>
     in ofold (boot_ap im) [0..<ncpu x] x)"

text \<open>Clearing the static variables: memory, the registers of the processor and the devices stay.\<close>

definition clear_bss :: "smp \<Rightarrow> smp" where
  "clear_bss x =
     (let s = kern (mc x); c = con (mc x) in
      x\<lparr>mc := \<lparr>kern = bss_state\<lparr>pmem := pmem s, tlb := tlb s, cr3 := cr3 s, this_cpu := this_cpu s\<rparr>,
              con = c\<lparr>serial_exists := False, addr_6845 := 0, crt_buf := 0, crt_pos := 0, shift := 0,
                       cons := \<lparr>buf = replicate (CONSBUFSIZE) 0, rpos = 0, wpos = 0\<rparr>, didinit := False\<rparr>\<rparr>,
        bootcpu := 0, ismp := False, ncpu := 0, lapicaddr := 0, lapic := 0, mpentry_kstack := 0\<rparr>)"

text \<open>\<open>programs\<close> are the user programs \<open>ENV_CREATE\<close> names, \<open>cmos\<close> the memory of the clock chip.\<close>

definition i386_init :: "kernel_image \<Rightarrow> (nat \<Rightarrow> u8) \<Rightarrow> mem list \<Rightarrow> smp \<Rightarrow> unit sres" where
  "i386_init im cmos programs x =
     (let x = clear_bss x in
      case cons_init (con (mc x)) of None \<Rightarrow> Diverge
      | Some c \<Rightarrow>
          let x = x\<lparr>mc := (mc x)\<lparr>con := cons_puts (''6828 decimal is 15254 octal!'' @ nl) c\<rparr>\<rparr> in
          obind (on_kern (mem_init (links im) cmos) x) (\<lambda>_ x.
          let x = x\<lparr>mc := (mc x)\<lparr>kern := env_init (kern (mc x))\<rparr>\<rparr>;
              (d, s) = trap_init (vectors im) (tss_at im) (desc x) (kern (mc x));
              x = x\<lparr>desc := d, mc := (mc x)\<lparr>kern := s\<rparr>\<rparr> in
          obind (mp_init x) (\<lambda>_ x.
          obind (lapic_init x) (\<lambda>_ x.
          let x = on_con pic_init x in
          obind (on_kern (lock_kernel (stack_mem im) (stack_ebp im)) x) (\<lambda>_ x.
          obind (boot_aps im x) (\<lambda>_ x.
          obind (ofold (\<lambda>binary. on_kern (env_create binary ENV_TYPE_USER)) programs x) (\<lambda>_ x.
          on_kern sched_yield x)))))))"

section \<open>Panics\<close>

text \<open>\<open>_panic\<close> and \<open>_warn\<close>, with the formatted message; the first panic sets \<open>panicstr\<close>.\<close>

definition kernel_panic :: "string \<Rightarrow> u32 \<Rightarrow> string \<Rightarrow> smp \<Rightarrow> unit sres" where
  "kernel_panic file line msg x =
     (if panicstr (kern (mc x)) then Leave MonitorForever x
      else let text = ''>>>'' @ nl @ ''>>> kernel panic on CPU '' @ dec_text (of_nat (cpunum x)) @ '' at '' @ file @ '':'' @ dec_text line @ '': '' @
                      msg @ nl @ ''>>>'' @ nl;
               x = x\<lparr>mc := (mc x)\<lparr>kern := (kern (mc x))\<lparr>panicstr := True\<rparr>\<rparr>\<rparr>
           in Leave MonitorForever (on_con (cons_puts text) x))"

definition kernel_warn :: "string \<Rightarrow> u32 \<Rightarrow> string \<Rightarrow> smp \<Rightarrow> smp" where
  "kernel_warn file line msg x =
     on_con (cons_puts (''kernel warning at '' @ file @ '':'' @ dec_text line @ '': '' @ msg @ nl)) x"

end
