(* ===== verification/SmpProps.thy ===== *)
theory SmpProps
  imports Smp ConsoleProps
begin

text \<open>
  What the kernel learns from the multiprocessor tables: the processors it will start, the
  boot processor and the address of the local interrupt controller.
\<close>

section \<open>The table as a list\<close>

text \<open>The processors in the table with their boot flags, and whether every entry was known.\<close>

primrec mp_parse :: "nat \<Rightarrow> mem \<Rightarrow> u32 \<Rightarrow> bool list \<times> bool" where
  "mp_parse 0 m p = ([], True)"
| "mp_parse (Suc n) m p =
     (if m p = MPPROC then let (fs, ok) = mp_parse n m (p + 20) in ((m (p + 3) AND MPPROC_BOOT \<noteq> 0) # fs, ok)
      else if m p \<in> {MPBUS, MPIOAPIC, MPIOINTR, MPLINTR} then mp_parse n m (p + 8)
      else ([], False))"

text \<open>The slot of the boot processor when the flags are \<open>fs\<close> and \<open>k\<close> processors are known: the last flagged one counts.\<close>

fun boot_slot :: "nat \<Rightarrow> nat \<Rightarrow> bool list \<Rightarrow> nat" where
  "boot_slot k b [] = b"
| "boot_slot k b (f # fs) = boot_slot (min NCPU (Suc k)) (if f then k else b) fs"

text \<open>What reading entries with the flags \<open>fs\<close> does to the processors.\<close>

definition mp_read :: "smp \<Rightarrow> bool list \<Rightarrow> bool \<Rightarrow> smp \<Rightarrow> bool" where
  "mp_read x fs ok y \<longleftrightarrow> ncpu y = min NCPU (ncpu x + length fs) \<and> bootcpu y = boot_slot (ncpu x) (bootcpu x) fs \<and>
     ismp y = (ismp x \<and> ok) \<and> lapicaddr y = lapicaddr x \<and>
     (\<forall>i. (i < ncpu x \<longrightarrow> cpus (kern (mc y)) i = cpus (kern (mc x)) i) \<and>
          (ncpu x \<le> i \<and> i < ncpu y \<longrightarrow> cpu_id (cpus (kern (mc y)) i) = of_nat i))"

lemma mp_entry_proc:
  assumes "m p = MPPROC" "ncpu x \<le> NCPU"
  shows "\<exists>z. mp_entry m p x = (Some 20, z) \<and> mp_read x [m (p + 3) AND MPPROC_BOOT \<noteq> 0] True z"
  using assms by (auto simp: mp_entry_def mp_read_def read_mpproc_def Let_def min_def less_Suc_eq_le dest!: le_antisym)

lemma mp_read_Cons:
  assumes "mp_read x [f] True z" "mp_read z fs ok y" "ncpu x \<le> NCPU"
  shows "mp_read x (f # fs) ok y"
proof -
  have n: "ncpu z = min NCPU (Suc (ncpu x))" using assms(1) by (simp add: mp_read_def)
  have "cpu_id (cpus (kern (mc y)) i) = of_nat i" if "ncpu x \<le> i" "i < ncpu y" for i
  proof (cases "i < ncpu z")
    case True
    then have "cpus (kern (mc y)) i = cpus (kern (mc z)) i" using assms(2) by (simp add: mp_read_def)
    then show ?thesis using assms(1) that True by (simp add: mp_read_def)
  next
    case False
    then show ?thesis using assms(2) that by (simp add: mp_read_def)
  qed
  moreover have "cpus (kern (mc y)) i = cpus (kern (mc x)) i" if "i < ncpu x" for i
    using assms that n by (auto simp: mp_read_def)
  moreover have "ncpu y = min NCPU (ncpu x + length (f # fs))" using assms(2) n by (simp add: mp_read_def min_def)
  moreover have "bootcpu y = boot_slot (ncpu x) (bootcpu x) (f # fs)" "ismp y = (ismp x \<and> ok)" "lapicaddr y = lapicaddr x"
    using assms(1,2) n by (simp_all add: mp_read_def)
  ultimately show ?thesis unfolding mp_read_def by blast
qed

lemma mp_entries_spec:
  assumes "mp_parse n m p = (fs, ok)" "ncpu x \<le> NCPU"
  shows "mp_read x fs ok (mp_entries n m p x)"
  using assms
proof (induction n arbitrary: p x fs)
  case 0
  then show ?case by (auto simp: mp_read_def)
next
  case (Suc n)
  consider (proc) "m p = MPPROC" | (skip) "m p \<noteq> MPPROC" "m p \<in> {MPBUS, MPIOAPIC, MPIOINTR, MPLINTR}"
    | (bad) "m p \<noteq> MPPROC" "m p \<notin> {MPBUS, MPIOAPIC, MPIOINTR, MPLINTR}" by blast
  then show ?case
  proof cases
    case proc
    then obtain gs where g: "mp_parse n m (p + 20) = (gs, ok)" "fs = (m (p + 3) AND MPPROC_BOOT \<noteq> 0) # gs"
      using Suc.prems(1) by (auto split: prod.splits)
    obtain z where z: "mp_entry m p x = (Some 20, z)" "mp_read x [m (p + 3) AND MPPROC_BOOT \<noteq> 0] True z"
      using mp_entry_proc [of m p x] proc Suc.prems(2) by blast
    have "mp_read z gs ok (mp_entries n m (p + 20) z)" using Suc.IH [OF g(1)] z(2) by (simp add: mp_read_def)
    then show ?thesis using mp_read_Cons [OF z(2) _ Suc.prems(2)] z(1) g(2) by simp
  next
    case skip
    then have "mp_entry m p x = (Some 8, x)" "mp_parse n m (p + 8) = (fs, ok)" using Suc.prems(1) by (simp_all add: mp_entry_def)
    then show ?thesis using Suc.IH Suc.prems(2) by simp
  next
    case bad
    then have "mp_entry m p x = (None, x\<lparr>ismp := False\<rparr>)" "fs = []" "\<not> ok" using Suc.prems(1) by (simp_all add: mp_entry_def)
    then show ?thesis using Suc.prems(2) by (auto simp: mp_read_def)
  qed
qed

text \<open>
  C34. What \<open>mp_init\<close> makes of the tables. Without a valid table nothing changes but the boot
  processor, which is processor 0. With a table of known entries the processors get consecutive
  ids, at most \<open>NCPU\<close> of them, the boot processor (the last one flagged) is marked started
  and the address of the local controller is that of the table. An unknown entry turns
  multiprocessing off. If the flagged processor comes after the first \<open>NCPU\<close> ones, the
  status of the boot processor is written outside of the array.
\<close>

theorem mp_init_correct:
  assumes conf: "mpconfig (kern (mc x)) = Return r (kern (mc x))" and n: "ncpu x = 0"
  shows "(r = None \<longrightarrow> mp_init x = Return () (x\<lparr>bootcpu := 0\<rparr>)) \<and>
    (\<forall>mp a fs ok. r = Some (mp, a) \<and>
       mp_parse (unat (conf_entry (read_mpconf (phys_byte (kern (mc x))) a))) (phys_byte (kern (mc x))) (a + 44) = (fs, ok) \<longrightarrow>
       (if boot_slot 0 0 fs \<ge> NCPU then mp_init x = Fault ''mp_init: bootcpu outside of cpus''
        else \<exists>y. mp_init x = Return () y \<and> bootcpu y = boot_slot 0 0 fs \<and> ismp y = ok \<and>
               cpu_status (cpus (kern (mc y)) (bootcpu y)) = CPU_STARTED \<and>
               (if ok then ncpu y = min NCPU (length fs) \<and> lapicaddr y = conf_lapicaddr (read_mpconf (phys_byte (kern (mc x))) a) \<and>
                           (\<forall>i < ncpu y. cpu_id (cpus (kern (mc y)) i) = of_nat i)
                else ncpu y = 1 \<and> lapicaddr y = 0)))"
proof (intro conjI impI allI)
  assume "r = None"
  then show "mp_init x = Return () (x\<lparr>bootcpu := 0\<rparr>)" using conf by (simp add: mp_init_def on_kern_def Let_def)
next
  fix mp a fs ok
  let ?m = "phys_byte (kern (mc x))"
  let ?f = "read_mpconf ?m a"
  assume h: "r = Some (mp, a) \<and> mp_parse (unat (conf_entry ?f)) ?m (a + 44) = (fs, ok)"
  let ?x = "x\<lparr>bootcpu := 0, ismp := True, lapicaddr := conf_lapicaddr ?f\<rparr>"
  define y where "y = mp_entries (unat (conf_entry ?f)) ?m (a + 44) ?x"
  have "mp_read ?x fs ok y" unfolding y_def using mp_entries_spec [of _ ?m "a + 44" fs ok ?x] h n by simp
  then have y: "ncpu y = min NCPU (length fs)" "bootcpu y = boot_slot 0 0 fs" "ismp y = ok" "lapicaddr y = conf_lapicaddr ?f"
    "\<And>i. i < ncpu y \<Longrightarrow> cpu_id (cpus (kern (mc y)) i) = of_nat i" using n by (simp_all add: mp_read_def)
  let ?z = "y\<lparr>mc := (mc y)\<lparr>kern := (kern (mc y))\<lparr>cpus := (cpus (kern (mc y)))(bootcpu y := (cpus (kern (mc y)) (bootcpu y))\<lparr>cpu_status := CPU_STARTED\<rparr>)\<rparr>\<rparr>\<rparr>"
  have "mp_init x = (if bootcpu y \<ge> NCPU then Fault ''mp_init: bootcpu outside of cpus''
    else if \<not> ok then Return () (?z\<lparr>ncpu := 1, lapicaddr := 0\<rparr>)
    else if mp_imcrp (read_mp ?m mp) \<noteq> 0
    then Return () (on_con (\<lambda>c. let c = outb 0x22 0x70 c; (v, c) = inb 0x23 c in outb 0x23 (v OR 1) c) ?z) else Return () ?z)"
    using conf h y(3) by (simp add: mp_init_def on_kern_def y_def Let_def)
  then show "if boot_slot 0 0 fs \<ge> NCPU then mp_init x = Fault ''mp_init: bootcpu outside of cpus''
        else \<exists>y. mp_init x = Return () y \<and> bootcpu y = boot_slot 0 0 fs \<and> ismp y = ok \<and>
               cpu_status (cpus (kern (mc y)) (bootcpu y)) = CPU_STARTED \<and>
               (if ok then ncpu y = min NCPU (length fs) \<and> lapicaddr y = conf_lapicaddr ?f \<and>
                           (\<forall>i < ncpu y. cpu_id (cpus (kern (mc y)) i) = of_nat i)
                else ncpu y = 1 \<and> lapicaddr y = 0)"
    using y by (auto simp: on_con_def)
qed

text \<open>A machine with two processors, the first of them the boot processor.\<close>

definition two_cpu_mem :: "nat \<Rightarrow> nat \<Rightarrow> u32" where
  "two_cpu_mem = (\<lambda>_ _. 0)(0 := (\<lambda>_. 0)(0x103 := 0x9FC00000),
     0x9F := (\<lambda>_. 0)(0x300 := 0x5F504D5F, 0x301 := 0x9FC10, 0x302 := 0x008B0401, 0x304 := 0x504D4350, 0x305 := 0x6B040054,
       0x30C := 0x20000, 0x30D := 0xFEE00000, 0x30F := 0x03140000, 0x314 := 0x01140100))"

definition two_cpus :: smp where
  "two_cpus = \<lparr>mc = \<lparr>kern = bss_state\<lparr>npages := 256, pmem := two_cpu_mem\<rparr>, con = quiet_console\<rparr>,
     desc = \<lparr>gdt = initial_gdt, idt = (\<lambda>_. \<lparr>gd_off_15_0 = 0, gd_sel = 0, gd_args = 0, gd_rsv1 = 0, gd_type = 0, gd_s = 0, gd_dpl = 0, gd_p = 0, gd_off_31_16 = 0\<rparr>), task_reg = 0\<rparr>,
     bootcpu = 0, ismp = False, ncpu = 0, lapicaddr = 0, lapic = 0, lapic_in = (\<lambda>_ _. 0), lapic_reads = (\<lambda>_. 0),
     lapic_outs = [], mpentry_kstack = 0\<rparr>"

lemma two_cpu_bytes:
  "phys_byte (kern (mc two_cpus)) a = get_byte (two_cpu_mem (unat (PGNUM a)) (unat (PGOFF a) div 4)) (unat (PGOFF a) mod 4)"
  by (simp add: phys_byte_def two_cpus_def)

lemmas two_cpu_eval = two_cpu_bytes PGNUM_def PGOFF_def two_cpu_mem_def get_byte_def upt_rec layout_defs

lemma two_cpus_sums:
  "mp_sum (phys_byte (kern (mc two_cpus))) 0x9FC00 16 = 0" "mp_sum (phys_byte (kern (mc two_cpus))) 0x9FC10 84 = 0"
  unfolding mp_sum_def by (simp_all add: two_cpu_eval)

lemma two_cpus_signatures:
  "has_signature ''_MP_'' (phys_byte (kern (mc two_cpus))) 0x9FC00" "has_signature ''PCMP'' (phys_byte (kern (mc two_cpus))) 0x9FC10"
  unfolding has_signature_def by (simp_all add: two_cpu_eval bytes_of_def)

lemma two_cpus_fields:
  "read16 (phys_byte (kern (mc two_cpus))) 0x40E = 0x9FC0"
  "read_mp (phys_byte (kern (mc two_cpus))) 0x9FC00 = \<lparr>mp_physaddr = 0x9FC10, mp_type = 0, mp_imcrp = 0\<rparr>"
  "read_mpconf (phys_byte (kern (mc two_cpus))) 0x9FC10 =
     \<lparr>conf_length = 84, conf_version = 4, conf_entry = 2, conf_lapicaddr = 0xFEE00000, conf_xlength = 0, conf_xchecksum = 0\<rparr>"
  by (simp_all add: read_mp_def read_mpconf_def read16_def read32_def two_cpu_eval)

lemma two_cpus_config: "mpconfig (kern (mc two_cpus)) = Return (Some (0x9FC00, 0x9FC10)) (kern (mc two_cpus))"
proof -
  let ?s = "kern (mc two_cpus)"
  have k: "npages ?s = 256" by (simp add: two_cpus_def)
  have hd: "find P (map f [0..<n]) = Some (f 0)" if "P (f 0)" "0 < n" for P n and f :: "nat \<Rightarrow> u32"
    using that by (simp add: upt_conv_Cons)
  have v: "mp_valid (phys_byte ?s) 0x9FC00" using two_cpus_sums(1) two_cpus_signatures(1) by (simp add: mp_valid_def)
  have "find (mp_valid (phys_byte ?s)) (map (\<lambda>i. 0x9FC00 + of_nat (16 * i)) [0..<(unat (1024 :: u32) + 15) div 16]) = Some 0x9FC00"
    using hd [of "mp_valid (phys_byte ?s)" "\<lambda>i. 0x9FC00 + of_nat (16 * i)" "(unat (1024 :: u32) + 15) div 16"] v
    by (simp del: upt_rec_numeral)
  then have "mpsearch1 0x9FC00 1024 ?s = Return (Some 0x9FC00) ?s"
    unfolding mpsearch1_def by (simp add: KADDR_def k PGNUM_def PTXSHIFT_def del: upt_rec_numeral)
  then have "mpsearch ?s = Return (Some 0x9FC00) ?s"
    by (simp add: mpsearch_def KADDR_def k PGNUM_def layout_defs two_cpus_fields Let_def)
  then show ?thesis
    using two_cpus_sums(2) two_cpus_signatures(2)
    by (simp add: mpconfig_def KADDR_def k PGNUM_def layout_defs two_cpus_fields Let_def mp_sum_def [of _ _ 0])
qed

theorem mp_init_correct_witness:
  "\<exists>y. mp_init two_cpus = Return () y \<and> ncpu y = 2 \<and> bootcpu y = 0 \<and> ismp y \<and> lapicaddr y = 0xFEE00000"
proof -
  have "mp_parse (Suc (Suc 0)) (phys_byte (kern (mc two_cpus))) 0x9FC3C = ([True, False], True)"
    by (simp add: MPPROC_def MPPROC_BOOT_def two_cpu_eval)
  moreover have "2 = Suc (Suc 0)" by simp
  ultimately have "mp_parse 2 (phys_byte (kern (mc two_cpus))) 0x9FC3C = ([True, False], True)" by (simp only:)
  moreover have "ncpu two_cpus = 0" by (simp add: two_cpus_def)
  ultimately show ?thesis using mp_init_correct [OF two_cpus_config] by (fastforce simp: two_cpus_fields NCPU_def)
qed

end
