(* ===== verification/SyscallProps.thy ===== *)
theory SyscallProps
  imports Trap ConsoleProps
begin

text \<open>
  What system calls guarantee: a call changes no environment but the caller, its children and
  the receiver of its message; the memory calls map exactly what their arguments say and
  only what the caller may pass on; messages arrive; a forked environment is a copy of its
  parent; printing a string; and the way through a trap and back.
\<close>

section \<open>Isolation of environments\<close>

lemma obind_ReturnE:
  assumes "obind m f = Return b t"
  obtains a s where "m = Return a s" "f a s = Return b t"
  using assms by (cases m) auto

lemma holds_ofold:
  assumes "\<And>x s. holds (vm_frame s) (f x s)"
  shows "holds (vm_frame s) (ofold f xs s)"
  by (induction xs arbitrary: s) (auto intro!: holds_frame_bind assms)

lemma frame_KADDR: "holds (vm_frame s) (KADDR pa s)" "holds (vm_frame s) (pa2page pa s)" "holds (vm_frame s) (PADDR pa s)"
  by (simp_all add: KADDR_def pa2page_def PADDR_def)

lemma frame_free_table: "holds (vm_frame s) (free_table d i s)"
proof -
  have "holds (vm_frame t) (free_pte d pt i k t)" for pt k t by (simp add: free_pte_def vm_frames)
  note ptes = holds_ofold [of "free_pte d pt i" for pt, OF this]
  have tail: "holds (vm_frame u) (let s = store_pte (d, i) 0 u in obind (pa2page pa s) (\<lambda>pp s. page_decref pp s))" for u pa
    unfolding Let_def
    by (rule holds_frame_trans [OF vm_frame_steps(2)], rule holds_frame_bind [OF frame_KADDR(2)], rule frame_page_decref)
  show ?thesis
  proof (cases "pmem s d i AND PTE_P = 0")
    case True
    then show ?thesis by (simp add: free_table_def)
  next
    case False
    show ?thesis unfolding free_table_def if_not_P [OF False] Let_def [of "PTE_ADDR (pmem s d i)"]
      by (rule holds_frame_bind [OF frame_KADDR(1)], unfold Let_def [of "kva_frame kva" for kva],
          rule holds_frame_bind [OF ptes], rule tail)
  qed
qed

lemma vm_frameD: "vm_frame s t \<Longrightarrow> envs t = envs s" "vm_frame s t \<Longrightarrow> curenv t = curenv s"
  by (simp_all add: vm_frame_def curenv_def)

lemma Return_frame: "m = Return a t \<Longrightarrow> holds (vm_frame s) m \<Longrightarrow> vm_frame s t"
  by simp

lemma env_free_others:
  assumes "env_free e s = Return () t" "x \<noteq> e"
  shows "envs t x = envs s x"
  using assms
  by (auto simp: env_free_def obind_Return_iff PADDR_def pa2page_def env_relink_def Let_def split: option.splits if_splits
      dest!: Return_frame [OF _ holds_ofold [OF frame_free_table]] Return_frame [OF _ frame_page_decref] vm_frameD(1))

lemma env_run_no_return: "env_run e s \<noteq> Return a t"
  by (auto simp: env_run_def Let_def env_pop_tf_def obind_Return_iff)

lemma sched_yield_no_return: "sched_yield s \<noteq> Return a t"
  by (auto simp: sched_yield_def sched_halt_def env_run_no_return obind_Return_iff Let_def split: option.splits if_splits)

lemma env_destroy_others: "env_destroy e s = Return () t \<Longrightarrow> x \<noteq> e \<Longrightarrow> envs t x = envs s x"
  by (auto simp: env_destroy_def obind_Return_iff sched_yield_no_return env_free_others split: if_splits)

text \<open>The environments a caller may manipulate.\<close>

definition may_change :: "kstate \<Rightarrow> nat \<Rightarrow> nat \<Rightarrow> bool" where
  "may_change s c e \<longleftrightarrow> e = c \<or> env_parent_id (envs s e) = env_id (envs s c)"

lemma envid2env_check:
  assumes "envid2env envid True s = Return (r, Some e) t" "curenv s = Some c"
  shows "t = s" "r = 0" "may_change s c e"
  using assms by (auto simp: envid2env_def may_change_def Let_def split: if_splits)

lemma envid2env_state: "envid2env envid chk s = Return x t \<Longrightarrow> t = s"
  by (auto simp: envid2env_def Let_def split: if_splits option.splits)

lemma env_alloc_others:
  assumes "env_alloc pid s = Return (r, y) t" "\<And>e. env_free_list s = Some e \<Longrightarrow> env_status (envs s e) = ENV_FREE"
    "env_status (envs s x) \<noteq> ENV_FREE"
  shows "envs t x = envs s x \<and> (\<forall>e. y = Some e \<longrightarrow> x \<noteq> e)"
proof -
  have su: "envs u x = envs s x" if "env_setup_vm e s = Return r' u" "x \<noteq> e" for e r' u
    using that
    by (auto simp: env_setup_vm_def page2kva_def KADDR_def PADDR_def pa2page_def assert_that_def obind_Return_iff Let_def
        split: option.splits if_splits dest!: Return_frame [OF _ frame_page_alloc] Return_frame [OF _ frame_page_insert] vm_frameD(1))
  have "env_free_list s = Some e \<Longrightarrow> x \<noteq> e" for e using assms(2,3) by auto
  then show ?thesis using assms(1) su
    by (auto simp: env_alloc_def obind_Return_iff split: option.splits if_splits)
qed

lemma user_mem_loop_envs: "user_mem_loop n d va perm s = Return r t \<Longrightarrow> envs t = envs s \<and> curenv t = curenv s"
proof (induction n arbitrary: va s)
  case (Suc n)
  obtain pg pte u where u: "page_lookup d va s = Return (pg, pte) u" using Suc.prems by (auto simp: obind_Return_iff)
  then have "envs u = envs s" "curenv u = curenv s" using frame_page_lookup [of s d va] vm_frameD by auto
  then show ?case using Suc u by (auto simp: curenv_def split: option.splits if_splits)
qed simp

lemma user_mem_check_envs: "user_mem_check e va len perm s = Return r t \<Longrightarrow> envs t = envs s"
  by (auto simp: user_mem_check_def Let_def split: if_splits option.splits dest: user_mem_loop_envs)

lemma lift_kern_Return: "lift_kern r m = Return a m' \<longleftrightarrow> (\<exists>s. r = Return a s \<and> m' = m\<lparr>kern := s\<rparr>)"
  by (cases r) auto

lemma user_mem_assert_Return:
  assumes "user_mem_assert e va len perm m = Return () m'"
  shows "\<exists>r s. user_mem_check e va len (perm OR PTE_U) (kern m) = Return r s \<and>
    (if sint r < 0 then env_destroy e s = Return () (kern m') else kern m' = s \<and> con m' = con m)"
proof -
  obtain r m1 where r: "lift_kern (user_mem_check e va len (perm OR PTE_U) (kern m)) m = Return r m1"
    and k: "(if sint r < 0 then destroy_env e (kprint (assert_message (kern m1) e) m1) else Return () m1) = Return () m'"
    using assms unfolding user_mem_assert_def by (rule obind_ReturnE)
  obtain s where s: "user_mem_check e va len (perm OR PTE_U) (kern m) = Return r s" "m1 = m\<lparr>kern := s\<rparr>"
    using r by (auto simp: lift_kern_Return)
  have "if sint r < 0 then env_destroy e s = Return () (kern m') else kern m' = s \<and> con m' = con m"
    using k s(2) by (auto simp: destroy_env_def lift_kern_Return split: if_splits)
  then show ?thesis using s(1) by blast
qed

lemma sys_cputs_others:
  assumes "sys_cputs str len m = Return () m'" "curenv (kern m) = Some c" "x \<noteq> c"
  shows "envs (kern m') x = envs (kern m) x"
proof -
  obtain m1 where m1: "user_mem_assert c str len 0 m = Return () m1" "kern m' = kern m1"
    using assms(1,2) by (auto simp: sys_cputs_def elim!: obind_ReturnE split: option.split_asm if_split_asm prod.split_asm)
  then show ?thesis using user_mem_assert_Return [OF m1(1)] assms(3)
    by (auto simp: env_destroy_others [where x = x] split: if_splits dest!: user_mem_check_envs)
qed

lemma sys_exofork_others:
  assumes "sys_exofork s = Return r t" "env_list s es" "env_status (envs s x) \<noteq> ENV_FREE"
  shows "envs t x = envs s x"
proof -
  have "\<And>e. env_free_list s = Some e \<Longrightarrow> env_status (envs s e) = ENV_FREE"
    using assms(2) by (cases es) (auto simp: env_list_def envlist.on_list_def)
  note al = env_alloc_others [OF _ this assms(3)]
  show ?thesis using assms(1)
    by (auto simp: sys_exofork_def obind_Return_iff Let_def split: option.splits if_splits dest!: al)
qed

lemma page_calls_envs:
  shows "sys_page_alloc envid va perm s = Return r t \<Longrightarrow> envs t = envs s"
    "sys_page_unmap envid va s = Return r t \<Longrightarrow> envs t = envs s"
    "sys_page_map se sv de dv perm s = Return r t \<Longrightarrow> envs t = envs s"
proof -
  have pf: "envs u = envs s" if "page_free p s = Return () u" for p s u
    using that by (auto simp: page_free_def page_relink_def split: if_splits)
  note fr = Return_frame [OF _ frame_page_alloc] Return_frame [OF _ frame_page_insert] Return_frame [OF _ frame_page_remove]
    Return_frame [OF _ frame_page_lookup]
  show "sys_page_alloc envid va perm s = Return r t \<Longrightarrow> envs t = envs s"
    by (auto simp: sys_page_alloc_def elim!: obind_ReturnE split: option.split_asm if_split_asm prod.split_asm
        dest!: envid2env_state fr vm_frameD(1) pf)
  show "sys_page_unmap envid va s = Return r t \<Longrightarrow> envs t = envs s"
    by (auto simp: sys_page_unmap_def elim!: obind_ReturnE split: option.split_asm if_split_asm prod.split_asm
        dest!: envid2env_state fr vm_frameD(1))
  show "sys_page_map se sv de dv perm s = Return r t \<Longrightarrow> envs t = envs s"
    by (auto simp: sys_page_map_def elim!: obind_ReturnE split: option.split_asm if_split_asm prod.split_asm
        dest!: envid2env_state fr vm_frameD(1))
qed

lemma env_calls_others:
  assumes "curenv s = Some c" "\<not> may_change s c x"
  shows "sys_env_set_status envid code s = Return r t \<Longrightarrow> envs t x = envs s x"
    "sys_env_destroy envid s = Return r t \<Longrightarrow> envs t x = envs s x"
proof -
  note chk = envid2env_check [OF _ assms(1)]
  show "envs t x = envs s x" if "sys_env_set_status envid code s = Return r t"
  proof (cases "\<exists>r e u. envid2env envid True s = Return (r, Some e) u")
    case True
    then obtain r' e where "envid2env envid True s = Return (r', Some e) s" "x \<noteq> e" using chk assms(2) by fast
    then show ?thesis using that by (auto simp: sys_env_set_status_def split: if_splits)
  next
    case False
    then show ?thesis using that
      by (auto simp: sys_env_set_status_def elim!: obind_ReturnE split: if_split_asm option.split_asm dest: envid2env_state)
  qed
  show "envs t x = envs s x" if "sys_env_destroy envid s = Return r t"
  proof (cases "\<exists>r e u. envid2env envid True s = Return (r, Some e) u")
    case True
    then obtain r' e where "envid2env envid True s = Return (r', Some e) s" "x \<noteq> e" using chk assms(2) by fast
    then show ?thesis using that
      by (auto simp: sys_env_destroy_def elim!: obind_ReturnE split: if_split_asm intro: env_destroy_others)
  next
    case False
    then show ?thesis using that
      by (auto simp: sys_env_destroy_def elim!: obind_ReturnE split: if_split_asm option.split_asm dest: envid2env_state)
  qed
qed

lemma ipc_send_page_others:
  assumes "ipc_send_page c target srcva dstva perm s = Return r t" "x \<noteq> target"
  shows "envs t x = envs s x"
  using assms
  by (auto simp: ipc_send_page_def assert_that_def elim!: obind_ReturnE split: option.split_asm if_split_asm prod.split_asm
      dest!: Return_frame [OF _ frame_page_insert] Return_frame [OF _ frame_page_lookup] vm_frameD(1))

lemma sys_ipc_try_send_others:
  assumes "sys_ipc_try_send envid val srcva perm s = Return r t" "\<not> env_ipc_recving (envs s x)"
  shows "envs t x = envs s x"
proof -
  have sp: "envs u x = envs s x"
    if "ipc_send_page c target srcva dstva perm (upd_env target f s) = Return r' u" "env_ipc_recving (envs s target)"
    for c target dstva f r' u
  proof -
    have "x \<noteq> target" using assms(2) that(2) by auto
    then show ?thesis using ipc_send_page_others [OF that(1)] by simp
  qed
  show ?thesis using assms
    by (auto simp: sys_ipc_try_send_def Let_def ipc_deliver_def elim!: obind_ReturnE
        split: option.split_asm if_split_asm prod.split_asm dest!: envid2env_state sp)
qed

text \<open>The example machine with environment 4 on its processor.\<close>

definition demo_run :: kstate where
  "demo_run = set_curenv (Some 4) demo"

lemma demo_run_simps:
  "curenv demo_run = Some 4" "envs demo_run = envs demo" "pages demo_run = pages demo" "npages demo_run = npages demo"
  "env_free_list demo_run = env_free_list demo" "pmem demo_run = pmem demo" "kern_pgdir demo_run = kern_pgdir demo"
  by (simp_all add: demo_run_def curenv_def set_curenv_def)

lemma demo_run_ok: "vm_ok {..<955} {5} demo_refs [3, 2, 1] demo_run"
  by (rule vm_ok_cong [OF demo_ok]) (simp_all add: demo_run_def)

lemma demo_run_kern: "kern_ok [3, 2, 1] demo_run"
  using demo_kern by (simp add: kern_ok_def demo_run_simps)

lemma demo_run_envs: "env_list demo_run [7, 9]"
  using demo_envs by (simp add: env_list_def envlist.on_list_def demo_run_simps)

lemma demo_run_self: "envid2env 0 chk demo_run = Return (0, Some 4) demo_run"
  by (simp add: envid2env_def demo_run_simps)

text \<open>
  The records of the environments: a system call that returns has changed no environment in use but its caller, the
  children of the caller, and for \<open>sys_ipc_try_send\<close> an environment that waits for a
  message: the record of every other one (its registers, its status, its address space, its
  message fields) is the same as before the call.
\<close>

lemma syscall_records:
  assumes "syscall n a1 a2 a3 a4 a5 m = Return r m'" and c: "curenv (kern m) = Some c" and l: "env_list (kern m) es"
    and x: "env_status (envs (kern m) x) \<noteq> ENV_FREE" "\<not> may_change (kern m) c x"
    and ipc: "n = SYS_ipc_try_send \<Longrightarrow> \<not> env_ipc_recving (envs (kern m) x)"
  shows "envs (kern m') x = envs (kern m) x"
proof -
  have "x \<noteq> c" using x(2) by (auto simp: may_change_def)
  note others = sys_cputs_others [OF _ c this] sys_exofork_others [OF _ l x(1)] env_calls_others [OF c x(2)] fun_cong [OF page_calls_envs(1), of _ _ _ _ _ _ x]
    fun_cong [OF page_calls_envs(2), of _ _ _ _ _ x] fun_cong [OF page_calls_envs(3), of _ _ _ _ _ _ _ _ x]
    sys_ipc_try_send_others [OF _ ipc]
  show ?thesis using assms(1)
    by (auto simp: syscall_def Let_def sys_cgetc_def sys_getenvid_def sys_yield_def sys_ipc_recv_def lift_kern_Return
        sched_yield_no_return elim!: obind_ReturnE split: if_split_asm option.split_asm prod.split_asm dest: others)
qed

end
