(* ===== verification/SyscallMem.thy ===== *)
theory SyscallMem
  imports SyscallProps
begin

text \<open>
  The memory calls \<^verbatim>\<open>sys_page_alloc\<close>, \<^verbatim>\<open>sys_page_map\<close>, \<^verbatim>\<open>sys_page_unmap\<close> and the messages between
  environments, on every branch.
\<close>

section \<open>Memory outside the tables\<close>

lemma pmem_decref: "page_decref p s = Return () t \<Longrightarrow> pmem t = pmem s"
  by (auto simp: page_decref_def page_free_def Let_def split: if_splits)

lemma page_remove_pmem:
  assumes ok: "vm_ok I D E xs s" and d: "d \<in> D" "pdx va \<in> I"
    and t: "page_remove d va s = Return () t" and q: "q \<noteq> table s d (pdx va)"
  shows "pmem t q = pmem s q"
  using t q page_lookup_spec [OF ok d]
  by (auto simp: page_remove_def elim!: obind_ReturnE split: if_split_asm dest!: pmem_decref)

lemma page_insert_pmem_present:
  assumes ok: "vm_ok I D E xs s" and d: "d \<in> D" "pdx va \<in> I" and pr: "present s d (pdx va)"
    and pp: "pp \<notin> set xs" "unat (pp_ref (pages s pp)) < 65535"
    and t: "page_insert d (Some pp) va perm s = Return r t" and q: "q \<noteq> table s d (pdx va)"
  shows "pmem t q = pmem s q"
proof -
  let ?u = "upd_page pp (\<lambda>q. q\<lparr>pp_ref := pp_ref q + 1\<rparr>) s"
  have "table ?u d (pdx va) = table s d (pdx va)" by (simp add: table_def)
  note rm = page_remove_pmem [OF vm_ok_incref [OF ok pp] d]
  show ?thesis
    using t q rm [of _ q] walk_present [OF tables_okD(3) [OF vm_okD(5) [OF ok] d] vm_okD(1) [OF ok] pr, of True]
    by (auto simp: page_insert_def Let_def table_def elim!: obind_ReturnE split: if_split_asm)
qed

text \<open>When the table is missing, insertion first creates it in the first free page.\<close>

lemma page_insert_with_table:
  assumes ok: "vm_ok I D E (x # ys) s" and d: "d \<in> D" "pdx va \<in> I" and np: "\<not> present s d (pdx va)"
  shows "vm_ok I D E ys (with_table d (pdx va) x s)"
    "present (with_table d (pdx va) x s) d (pdx va)" "table (with_table d (pdx va) x s) d (pdx va) = x"
    "page_insert d pp va perm (with_table d (pdx va) x s) = page_insert d pp va perm s"
proof -
  let ?u = "with_table d (pdx va) x s"
  note n = tables_okD(3) [OF vm_okD(5) [OF ok] d]
  have x: "x < 2 ^ 20" using vm_okD(1,2) [OF ok] by (simp add: free_list_def mem_ok_def)
  show u: "vm_ok I D E ys ?u" by (rule vm_ok_with_table [OF ok d np])
  show pr: "present ?u d (pdx va)" "table ?u d (pdx va) = x" by (rule with_table_pde [OF x])+
  have "pgdir_walk d va True ?u = Return (Some (table ?u d (pdx va), ptx va)) ?u"
    by (rule walk_present [OF tables_okD(3) [OF vm_okD(5) [OF u] d] vm_okD(1) [OF u] pr(1)])
  moreover have "pgdir_walk d va True s = Return (Some (table ?u d (pdx va), ptx va)) ?u"
    unfolding pr(2) by (rule walk_create [OF n vm_okD(1) [OF ok] np vm_okD(2) [OF ok]])
  ultimately show "page_insert d pp va perm ?u = page_insert d pp va perm s" by (simp add: page_insert_def)
qed

lemma page_insert_pmem:
  assumes ok: "vm_ok I D E xs s" and d: "d \<in> D" "pdx va \<in> I"
    and pp: "pp \<notin> set xs" "unat (pp_ref (pages s pp)) < 65535"
    and t: "page_insert d (Some pp) va perm s = Return r t"
    and q: "q \<noteq> d" "q \<notin> set xs" "present s d (pdx va) \<Longrightarrow> q \<noteq> table s d (pdx va)"
  shows "pmem t q = pmem s q"
proof (cases "present s d (pdx va)")
  case True
  show ?thesis by (rule page_insert_pmem_present [OF ok d True pp t q(3) [OF True]])
next
  case False
  show ?thesis
  proof (cases xs)
    case Nil
    then show ?thesis using t page_insert_no_table [OF ok [unfolded Nil] d False] by simp
  next
    case (Cons x ys)
    let ?u = "with_table d (pdx va) x s"
    note u = page_insert_with_table [OF ok [unfolded Cons] d False]
    have "pp_ref (pages ?u pp) = pp_ref (pages s pp)" "pmem ?u q = pmem s q"
      using pp(1) q Cons by (auto simp: with_table_def)
    moreover have "pmem t q = pmem ?u q"
      using pp q(2) Cons t u(3,4) calculation(1)
      by (intro page_insert_pmem_present [OF u(1) d u(2), where pp = pp and perm = perm and r = r]) auto
    ultimately show ?thesis by simp
  qed
qed

section \<open>Free pages\<close>

text \<open>Insertion and removal never use more than one free page, the one for the table.\<close>

lemma page_decref_free:
  assumes fl: "free_list s xs" and q: "q \<notin> set xs" "q < npages s" and t: "page_decref q s = Return () t"
  shows "\<exists>ys. free_list t ys \<and> length xs \<le> length ys"
proof -
  let ?s = "upd_page q (\<lambda>p. p\<lparr>pp_ref := pp_ref p - 1\<rparr>) s"
  have fl': "free_list ?s xs" using fl q(1) by (simp add: free_list_ref)
  show ?thesis
  proof (cases "pp_ref (pages s q) = 1")
    case True
    then have r0: "pp_ref (pages ?s q) = 0" by simp
    then have "t = page_relink q ?s" using t True page_free_Return [OF fl' q(1) r0] by (simp add: page_decref_def)
    then show ?thesis using page_relink_free_list [OF fl' q(1) _ r0] q(2) by (intro exI [of _ "q # xs"]) simp
  next
    case False
    then have "t = ?s" using t by (simp add: page_decref_def)
    then show ?thesis using fl' by blast
  qed
qed

lemma mapped_not_free:
  assumes ok: "vm_ok I D E xs s" and d: "d \<in> D" "pdx va \<in> I" and m: "mapped d va s"
  shows "mapped_page d va s < npages s" "mapped_page d va s \<notin> set xs"
proof -
  show "mapped_page d va s < npages s"
    using mapped_page_exists [OF ok d PTX_bound [of va]] m by (simp add: mapped_def mapped_page_def va_slot_def)
  have "va_slot d va \<in> maps I D s (mapped_page d va s)"
    using d m PTX_bound [of va] by (simp add: maps_def mapped_def mapped_page_def va_slot_def)
  then show "mapped_page d va s \<notin> set xs" using free_page_unused(1) [OF ok] by blast
qed

lemma page_remove_free:
  assumes ok: "vm_ok I D E xs s" and d: "d \<in> D" "pdx va \<in> I" and t: "page_remove d va s = Return () t"
  shows "\<exists>ys. free_list t ys \<and> length xs \<le> length ys"
proof (cases "mapped d va s")
  case False
  then have "t = s" using t by (simp add: page_remove_def page_lookup_spec [OF ok d] mapped_def)
  then show ?thesis using vm_okD(2) [OF ok] by blast
next
  case True
  then have "present s d (pdx va)" by (auto simp: mapped_def slot_def va_slot_def split: if_splits)
  then obtain u where u: "page_decref (mapped_page d va s) s = Return () u"
      "page_free_list t = page_free_list u" "pages t = pages u" "npages t = npages u"
    using t True by (auto simp: page_remove_def page_lookup_spec [OF ok d] mapped_def mapped_page_def tlb_invalidate_def
        elim!: obind_ReturnE split: if_split_asm option.split_asm)
  have "free_list t zs = free_list u zs" for zs using u(2-4) by (simp add: free_list_def pglist.on_list_def)
  then show ?thesis using page_decref_free [OF vm_okD(2) [OF ok] _ _ u(1)] mapped_not_free [OF ok d True] by auto
qed

lemma page_insert_free:
  assumes ok: "vm_ok I D E xs s" and d: "d \<in> D" "pdx va \<in> I"
    and pp: "pp \<notin> set xs" "unat (pp_ref (pages s pp)) < 65535"
    and t: "page_insert d (Some pp) va perm s = Return r t"
  shows "\<exists>ys. free_list t ys \<and> length xs \<le> Suc (length ys)"
proof -
  have main: "\<exists>ys. free_list t ys \<and> length zs \<le> length ys"
    if u: "vm_ok I D E zs u" "present u d (pdx va)" "page_insert d (Some pp) va perm u = Return r t"
      "pp \<notin> set zs" "unat (pp_ref (pages u pp)) < 65535" for u zs
  proof -
    let ?u = "upd_page pp (\<lambda>q. q\<lparr>pp_ref := pp_ref q + 1\<rparr>) u"
    note inc = vm_ok_incref [OF u(1,4,5)]
    obtain v where v: "page_remove d va ?u = Return () v \<or> v = ?u"
        "t = store_pte (table u d (pdx va), ptx va) (page2pa pp OR perm OR PTE_P) v"
      using u(3) walk_present [OF tables_okD(3) [OF vm_okD(5) [OF u(1)] d] vm_okD(1) [OF u(1)] u(2), of True]
      by (fastforce simp: page_insert_def Let_def elim!: obind_ReturnE split: if_split_asm)
    have "free_list t ys = free_list v ys" for ys using v(2) by (simp add: free_list_def pglist.on_list_def)
    then show ?thesis using v(1) page_remove_free [OF inc d] vm_okD(2) [OF inc] by auto
  qed
  show ?thesis
  proof (cases "present s d (pdx va) \<or> xs = []")
    case True
    then show ?thesis
    proof
      assume "present s d (pdx va)"
      then show ?thesis using main [OF ok _ t pp] by fastforce
    next
      assume n: "xs = []"
      then show ?thesis
        using t page_insert_no_table [OF ok [unfolded n] d] vm_okD(2) [OF ok] main [OF ok _ t pp]
        by (cases "present s d (pdx va)") auto
    qed
  next
    case False
    then obtain x zs where xs: "xs = x # zs" by (cases xs) auto
    note u = page_insert_with_table [OF ok [unfolded xs] d]
    have np: "\<not> present s d (pdx va)" using False by simp
    have "pp_ref (pages (with_table d (pdx va) x s) pp) = pp_ref (pages s pp)" using pp(1) xs by simp
    then show ?thesis using main [OF u(1) [OF np] u(2) [OF np]] u(4) [OF np] pp t xs by fastforce
  qed
qed

text \<open>Only free pages become tables.\<close>

lemma dirs_is_table: "(\<And>e. e \<in> D \<Longrightarrow> pmem t e = pmem s e) \<Longrightarrow> is_table I D t y = is_table I D s y"
  by (auto simp: is_table_def present_def table_def)

lemma page_insert_is_table:
  assumes ok: "vm_ok I D E xs s" and d: "d \<in> D" "pdx va \<in> I"
    and pp: "pp \<notin> set xs" "unat (pp_ref (pages s pp)) < 65535"
    and t: "page_insert d (Some pp) va perm s = Return r t" and y: "is_table I D t y"
  shows "is_table I D s y \<or> y \<in> set xs"
proof -
  have main: "is_table I D u y"
    if u: "vm_ok I D E zs u" "present u d (pdx va)" "page_insert d (Some pp) va perm u = Return r t"
      "pp \<notin> set zs" "unat (pp_ref (pages u pp)) < 65535" for u zs
  proof -
    have "pmem t e = pmem u e" if "e \<in> D" for e
      using tables_okD(4) [OF vm_okD(5) [OF u(1)] d u(2)] that
      by (intro page_insert_pmem_present [OF u(1) d u(2,4,5,3)]) auto
    then show ?thesis using y dirs_is_table by metis
  qed
  consider "present s d (pdx va)" | "\<not> present s d (pdx va)" "xs = []"
    | x zs where "\<not> present s d (pdx va)" "xs = x # zs" by (cases xs) auto
  then show ?thesis
  proof cases
    case 1
    then show ?thesis using main [OF ok _ t pp] by blast
  next
    case 2
    then show ?thesis using t y page_insert_no_table [OF ok [unfolded 2(2)] d 2(1)] by simp
  next
    case 3
    note u = page_insert_with_table [OF ok [unfolded 3(2)] d 3(1)]
    have x: "x < 2 ^ 20" using vm_okD(1,2) [OF ok] 3(2) by (simp add: free_list_def mem_ok_def)
    have "is_table I D (with_table d (pdx va) x s) y"
      using 3(2) pp t u(4) by (intro main [OF u(1,2)]) auto
    then have "is_table I D s y \<or> y = x"
      using with_table_dir [OF vm_okD(5) [OF ok [unfolded 3(2)]] x] by (auto simp: is_table_def split: if_splits)
    then show ?thesis using 3(2) by auto
  qed
qed

section \<open>Memory calls\<close>

lemma perm_bound:
  assumes "perm AND NOT PTE_SYSCALL = 0"
  shows "perm < 4096"
proof -
  have "perm = perm AND (PTE_SYSCALL OR NOT PTE_SYSCALL)" by simp
  also have "\<dots> = perm AND PTE_SYSCALL" using assms by (simp only: bit.conj_disj_distrib or.right_neutral)
  also have "\<dots> \<le> PTE_SYSCALL" by (rule word_and_le1)
  also have "\<dots> < 4096" by (simp add: layout_defs)
  finally show ?thesis .
qed

text \<open>Taking a zeroed page off the list and putting it back only clears the page.\<close>

lemma alloc_zero_free:
  assumes fl: "free_list s (p # xs)" and m: "mem_ok s"
  shows "page_alloc ALLOC_ZERO s = Return (Some p) (fill_frame p 0 (page_unlink s))"
    "page_free p (fill_frame p 0 (page_unlink s)) = Return () (fill_frame p 0 s)"
proof -
  show "page_alloc ALLOC_ZERO s = Return (Some p) (fill_frame p 0 (page_unlink s))"
    using page_alloc_Cons [OF fl m, of ALLOC_ZERO] by (simp add: ALLOC_ZERO_def)
  have hd: "page_free_list s = Some p" "pp_ref (pages s p) = 0"
    using fl by (auto simp: pglist.on_list_def free_list_def)
  then show "page_free p (fill_frame p 0 (page_unlink s)) = Return () (fill_frame p 0 s)"
    by (cases s) (simp add: page_free_def page_relink_def page_unlink_def upd_page_def fill_frame_def)
qed

lemma E_codes_ne [simp]: "E_NO_MEM \<noteq> 0" "E_BAD_ENV \<noteq> 0" "E_INVAL \<noteq> 0"
  by (simp_all add: E_NO_MEM_def E_BAD_ENV_def E_INVAL_def)

text \<open>The arguments \<open>sys_page_alloc\<close> accepts.\<close>

definition user_page :: "u32 \<Rightarrow> bool" where
  "user_page va \<longleftrightarrow> va < UTOP \<and> va mod PGSIZE = 0"

lemma user_page_pdx: "user_page va \<Longrightarrow> pdx va \<in> {..<955}"
  using UTOP_PDX by (simp add: user_page_def)

lemma valid_perm_bound: "valid_perm perm \<Longrightarrow> perm < 4096"
  by (rule perm_bound) (simp add: valid_perm_def)

text \<open>
  Success of \<open>sys_page_alloc\<close>: besides the mapping, the page is zeroed and has one
  reference, and memory outside of the directory, its table and the free pages is unchanged.
\<close>

lemma sys_page_alloc_ok:
  assumes ok: "vm_ok {..<955} D E (p # ys) s" and e: "envid2env envid True s = Return (0, Some e) s"
    and d: "env_pgdir (envs s e) = Some d" "d \<in> D"
    and a: "user_page va" "valid_perm perm" "present s d (pdx va) \<or> ys \<noteq> []"
  shows "\<exists>t zs. sys_page_alloc envid va perm s = Return 0 t \<and> vm_ok {..<955} D E zs t \<and>
    slot_effect {..<955} D d va (page2pa p OR perm OR PTE_P) s t \<and> (\<forall>k. pmem t p k = 0) \<and>
    vm_frame s t \<and> pp_ref (pages t p) = 1 \<and> length ys \<le> Suc (length zs) \<and>
    (\<forall>q. is_table {..<955} D t q \<longrightarrow> is_table {..<955} D s q \<or> q \<in> set ys) \<and>
    (\<forall>q. q \<noteq> d \<and> q \<notin> set (p # ys) \<and> (present s d (pdx va) \<longrightarrow> q \<noteq> table s d (pdx va)) \<longrightarrow> pmem t q = pmem s q)"
proof -
  let ?u = "fill_frame p 0 (page_unlink s)"
  note al = alloc_zero_free [OF vm_okD(2,1) [OF ok]]
  note u = vm_ok_alloc [OF ok al(1)]
  note i = user_page_pdx [OF a(1)] and perm = valid_perm_bound [OF a(2)]
  have dp: "d \<noteq> p" using tables_okD(2) [OF vm_okD(5) [OF ok] d(2)] by simp
  have pr: "present ?u d (pdx va) = present s d (pdx va)" "table ?u d (pdx va) = table s d (pdx va)"
    using dp by (simp_all add: present_def table_def)
  have p: "p < npages ?u" "p \<notin> set ys" "pp_ref (pages ?u p) = 0"
    using free_list_head [OF vm_okD(2) [OF ok]] vm_okD(2) [OF ok] pglist.on_list_distinct [of s "p # ys"]
    by (auto simp: free_list_def page_unlink_def)
  obtain t zs where t: "page_insert d (Some p) va perm ?u = Return 0 t" "vm_ok {..<955} D E zs t"
    "slot_effect {..<955} D d va (page2pa p OR perm OR PTE_P) ?u t" "refs_effect (Some p) d va ys ?u t"
    using page_insert_spec [of "{..<955}" D E ys ?u d va p perm] u d(2) i p perm a(3) pr by auto
  have tb: "p \<noteq> table s d (pdx va)" if "present s d (pdx va)"
    using tables_okD(5) [OF vm_okD(5) [OF ok] d(2) i that] by auto
  have out: "pmem t q = pmem ?u q" if "q \<noteq> d" "q \<notin> set ys" "present s d (pdx va) \<Longrightarrow> q \<noteq> table s d (pdx va)" for q
    using u d(2) i p pr that by (intro page_insert_pmem [OF _ _ _ _ _ t(1), of "{..<955}" D E ys]) auto
  have "\<exists>ws. free_list t ws \<and> length ys \<le> Suc (length ws)"
    using u d(2) i p by (intro page_insert_free [OF _ _ _ _ _ t(1), of "{..<955}" D E ys]) auto
  moreover have "is_table {..<955} D s q \<or> q \<in> set ys" if "is_table {..<955} D t q" for q
  proof -
    have "is_table {..<955} D ?u q = is_table {..<955} D s q"
      using tables_okD(2) [OF vm_okD(5) [OF ok]] by (intro dirs_is_table) auto
    moreover have "is_table {..<955} D ?u q \<or> q \<in> set ys"
      using u d(2) i p that by (intro page_insert_is_table [OF _ _ _ _ _ t(1), of "{..<955}" D E ys]) auto
    ultimately show ?thesis by blast
  qed
  moreover from calculation(1) have "length ys \<le> Suc (length zs)" using free_list_unique [OF vm_okD(2) [OF t(2)]] by auto
  moreover have "pmem t p = pmem ?u p" by (rule out) (use dp p(2) tb in auto)
  moreover have "sys_page_alloc envid va perm s = Return 0 t"
    using a(1,2) al u d(1) t(1) by (auto simp: sys_page_alloc_def e user_page_def)
  moreover have "slot_effect {..<955} D d va (page2pa p OR perm OR PTE_P) s t"
    using t(3) u tables_okD(2) [OF vm_okD(5) [OF ok]] by (auto simp: slot_effect_def)
  moreover have "pp_ref (pages t p) = 1"
  proof -
    have "\<not> (mapped d va ?u \<and> mapped_page d va ?u = p)"
    proof
      assume m: "mapped d va ?u \<and> mapped_page d va ?u = p"
      have "va_slot d va \<in> maps {..<955} D ?u p"
        using d(2) i m PTX_bound [of va] by (simp add: maps_def mapped_def mapped_page_def va_slot_def)
      then have "va_slot d va \<in> maps {..<955} D s p" using u by (auto simp: maps_def)
      then show False using free_page_unused(1) [OF ok] by auto
    qed
    then show ?thesis using t(4) p(2,3) by (auto simp: refs_effect_def)
  qed
  moreover have "vm_frame s t"
    using Return_frame [OF t(1) frame_page_insert] vm_frame_trans [of s ?u t] vm_frame_trans [of s "page_unlink s" ?u] by simp
  ultimately show ?thesis using t(2) out by (intro exI [of _ t] exI [of _ zs]) auto
qed

text \<open>
  C12. \<open>sys_page_alloc\<close> on an environment the caller may manipulate. An address that is not
  page aligned below \<open>UTOP\<close> or a permission outside \<open>PTE_SYSCALL\<close> (or without \<open>PTE_U\<close> and
  \<open>PTE_P\<close>) gives \<open>-E_INVAL\<close>. Without a free page the result is \<open>-E_NO_MEM\<close>; so it is when
  the last free page is not enough because the table is missing too, and then the page is
  put back, only cleared. Otherwise the first free page is mapped at exactly that address
  with exactly these permissions, it is full of zeros, and the invariant (exact reference
  counts) holds.
\<close>

theorem sys_page_alloc_correct:
  assumes ok: "vm_ok {..<955} D E xs s" and e: "envid2env envid True s = Return (0, Some e) s"
    and d: "env_pgdir (envs s e) = Some d" "d \<in> D"
  shows "(\<not> (user_page va \<and> valid_perm perm) \<longrightarrow> sys_page_alloc envid va perm s = Return (- E_INVAL) s) \<and>
    (user_page va \<and> valid_perm perm \<and> xs = [] \<longrightarrow> sys_page_alloc envid va perm s = Return (- E_NO_MEM) s) \<and>
    (\<forall>p. user_page va \<and> valid_perm perm \<and> xs = [p] \<and> \<not> present s d (pdx va) \<longrightarrow>
       sys_page_alloc envid va perm s = Return (- E_NO_MEM) (fill_frame p 0 s)) \<and>
    (\<forall>p ys. user_page va \<and> valid_perm perm \<and> xs = p # ys \<and> (present s d (pdx va) \<or> ys \<noteq> []) \<longrightarrow>
       (\<exists>t zs. sys_page_alloc envid va perm s = Return 0 t \<and> vm_ok {..<955} D E zs t \<and>
          slot_effect {..<955} D d va (page2pa p OR perm OR PTE_P) s t \<and> (\<forall>k. pmem t p k = 0)))"
proof (intro conjI impI allI; (elim conjE)?)
  assume "\<not> (user_page va \<and> valid_perm perm)"
  then show "sys_page_alloc envid va perm s = Return (- E_INVAL) s" by (auto simp: sys_page_alloc_def e user_page_def)
next
  assume "user_page va" "valid_perm perm" "xs = []"
  then show "sys_page_alloc envid va perm s = Return (- E_NO_MEM) s"
    using page_alloc_empty vm_okD(2) [OF ok] by (auto simp: sys_page_alloc_def e user_page_def)
next
  fix p assume "user_page va" and a: "valid_perm perm" "xs = [p]" "\<not> present s d (pdx va)"
  note ok' = ok [unfolded a(2)]
  note al = alloc_zero_free [OF vm_okD(2,1) [OF ok']]
  note u = vm_ok_alloc [OF ok' al(1)]
  have i: "pdx va \<in> {..<955}" using \<open>user_page va\<close> UTOP_PDX by (simp add: user_page_def)
  have "d \<noteq> p" using tables_okD(2) [OF vm_okD(5) [OF ok'] d(2)] by simp
  then have "\<not> present (fill_frame p 0 (page_unlink s)) d (pdx va)" using a(3) by (simp add: present_def)
  then have "page_insert d (Some p) va perm (fill_frame p 0 (page_unlink s)) = Return (- E_NO_MEM) (fill_frame p 0 (page_unlink s))"
    using u d(2) i by (intro page_insert_no_table) auto
  then show "sys_page_alloc envid va perm s = Return (- E_NO_MEM) (fill_frame p 0 s)"
    using \<open>user_page va\<close> a(1) al u d(1) by (auto simp: sys_page_alloc_def e user_page_def)
next
  fix p ys assume a: "user_page va" "valid_perm perm" "xs = p # ys" "present s d (pdx va) \<or> ys \<noteq> []"
  show "\<exists>t zs. sys_page_alloc envid va perm s = Return 0 t \<and> vm_ok {..<955} D E zs t \<and>
      slot_effect {..<955} D d va (page2pa p OR perm OR PTE_P) s t \<and> (\<forall>k. pmem t p k = 0)"
    using sys_page_alloc_ok [OF ok [unfolded a(3)] e d a(1,2,4)] by blast
qed

theorem sys_page_alloc_correct_witness:
  "\<exists>t zs. sys_page_alloc 0 0x800000 7 demo_run = Return 0 t \<and> vm_ok {..<955} {5} demo_refs zs t \<and>
     slot_effect {..<955} {5} 5 0x800000 (page2pa 3 OR 7 OR PTE_P) demo_run t \<and> (\<forall>k. pmem t 3 k = 0)"
  using sys_page_alloc_correct [OF demo_run_ok demo_run_self, of 5 "0x800000" 7]
  by (simp add: demo_run_simps demo_simps user_page_def valid_perm_def layout_defs)

text \<open>Asking for write access to a page that is mapped read-only.\<close>

definition escalates :: "u32 \<Rightarrow> nat \<Rightarrow> u32 \<Rightarrow> kstate \<Rightarrow> bool" where
  "escalates perm d va s \<longleftrightarrow> perm AND PTE_W \<noteq> 0 \<and> slot s (va_slot d va) AND PTE_W = 0"

lemma lookup_mapped_page:
  assumes ok: "vm_ok I D E xs s" and d: "d \<in> D" "pdx va \<in> I"
  shows "page_lookup d va s = Return (if mapped d va s then Some (mapped_page d va s) else None,
      if present s d (pdx va) then Some (table s d (pdx va), ptx va) else None) s"
    "present s d (pdx va) \<Longrightarrow> load_pte (table s d (pdx va), ptx va) s = slot s (va_slot d va)"
    "mapped d va s \<Longrightarrow> present s d (pdx va)"
  by (simp_all add: page_lookup_spec [OF ok d] mapped_def mapped_page_def load_slot va_slot_def)
     (auto simp: slot_def split: if_splits)

lemma insert_shared:
  assumes ok: "vm_ok I D E xs s" and d: "d \<in> D" "pdx va \<in> I" "d' \<in> D" "pdx va' \<in> I" and perm: "perm < 4096"
    and mem: "present s d' (pdx va') \<or> xs \<noteq> []"
  shows "mapped d va s \<Longrightarrow> unat (pp_ref (pages s (mapped_page d va s))) < 65535 \<Longrightarrow>
      \<exists>t ys. page_insert d' (Some (mapped_page d va s)) va' perm s = Return 0 t \<and> vm_ok I D E ys t \<and>
        slot_effect I D d' va' (page2pa (mapped_page d va s) OR perm OR PTE_P) s t \<and>
        refs_effect (Some (mapped_page d va s)) d' va' xs s t"
    "page_insert d' None va' perm s = Fault ''page_insert: NULL page''"
proof -
  show "\<exists>t ys. page_insert d' (Some (mapped_page d va s)) va' perm s = Return 0 t \<and> vm_ok I D E ys t \<and>
        slot_effect I D d' va' (page2pa (mapped_page d va s) OR perm OR PTE_P) s t \<and>
        refs_effect (Some (mapped_page d va s)) d' va' xs s t"
    if m: "mapped d va s" "unat (pp_ref (pages s (mapped_page d va s))) < 65535"
    using page_insert_spec [OF ok d(3,4) mapped_not_free [OF ok d(1,2) m(1)] m(2) perm mem] by blast
  obtain u ys where "pgdir_walk d' va' True s = Return (Some (table u d' (pdx va'), ptx va')) u"
    using walk_create_spec [OF ok d(3,4) mem] by blast
  then show "page_insert d' None va' perm s = Fault ''page_insert: NULL page''" by (simp add: page_insert_def)
qed

lemma sys_page_map_unfold:
  assumes ok: "vm_ok {..<955} D E xs s"
    and src: "envid2env srcid True s = Return (0, Some e) s" "env_pgdir (envs s e) = Some sd" "sd \<in> D"
    and dst: "envid2env dstid True s = Return (0, Some f) s" "env_pgdir (envs s f) = Some dd" "dd \<in> D"
  shows "sys_page_map srcid srcva dstid dstva perm s =
    (if \<not> (user_page srcva \<and> user_page dstva \<and> valid_perm perm) \<or> \<not> present s sd (pdx srcva) \<or> escalates perm sd srcva s
     then Return (- E_INVAL) s
     else obind (page_insert dd (if mapped sd srcva s then Some (mapped_page sd srcva s) else None) dstva perm s)
            (\<lambda>r s. if r = - E_NO_MEM then Return (- E_NO_MEM) s else Return 0 s))"
proof (cases "user_page srcva \<and> user_page dstva \<and> valid_perm perm")
  case False
  then have "(UTOP \<le> srcva \<or> UTOP \<le> dstva \<or> srcva mod PGSIZE \<noteq> 0 \<or> dstva mod PGSIZE \<noteq> 0) \<or> \<not> valid_perm perm"
    by (auto simp: user_page_def linorder_not_less)
  then show ?thesis unfolding sys_page_map_def
    by (rule disjE) (use False in \<open>simp_all add: src(1) dst(1)\<close>)
next
  case True
  then have "pdx srcva \<in> {..<955}" using UTOP_PDX by (simp add: user_page_def)
  note lk = lookup_mapped_page(1,2) [OF ok src(3) this]
  have g: "\<not> (UTOP \<le> srcva \<or> UTOP \<le> dstva \<or> srcva mod PGSIZE \<noteq> 0 \<or> dstva mod PGSIZE \<noteq> 0)"
    using True by (simp add: user_page_def linorder_not_le)
  then show ?thesis unfolding sys_page_map_def by (simp add: src dst lk True escalates_def)
qed

text \<open>The call that succeeds is one insertion.\<close>

lemma sys_page_map_ok:
  assumes ok: "vm_ok {..<955} D E xs s"
    and src: "envid2env srcid True s = Return (0, Some e) s" "env_pgdir (envs s e) = Some sd" "sd \<in> D"
    and dst: "envid2env dstid True s = Return (0, Some f) s" "env_pgdir (envs s f) = Some dd" "dd \<in> D"
    and a: "user_page srcva" "user_page dstva" "valid_perm perm" "mapped sd srcva s" "\<not> escalates perm sd srcva s"
      "unat (pp_ref (pages s (mapped_page sd srcva s))) < 65535" "present s dd (pdx dstva) \<or> xs \<noteq> []"
  shows "\<exists>t ys. sys_page_map srcid srcva dstid dstva perm s = Return 0 t \<and>
    page_insert dd (Some (mapped_page sd srcva s)) dstva perm s = Return 0 t \<and> vm_ok {..<955} D E ys t \<and>
    slot_effect {..<955} D dd dstva (page2pa (mapped_page sd srcva s) OR perm OR PTE_P) s t \<and>
    refs_effect (Some (mapped_page sd srcva s)) dd dstva xs s t \<and> vm_frame s t"
proof -
  obtain t ys where t: "page_insert dd (Some (mapped_page sd srcva s)) dstva perm s = Return 0 t" "vm_ok {..<955} D E ys t"
      "slot_effect {..<955} D dd dstva (page2pa (mapped_page sd srcva s) OR perm OR PTE_P) s t"
      "refs_effect (Some (mapped_page sd srcva s)) dd dstva xs s t"
    using insert_shared(1) [OF ok src(3) user_page_pdx dst(3) user_page_pdx valid_perm_bound] a by blast
  moreover have "sys_page_map srcid srcva dstid dstva perm s = Return 0 t"
    using t(1) a lookup_mapped_page(3) [OF ok src(3) user_page_pdx [OF a(1)] a(4)]
    by (simp add: sys_page_map_unfold [OF ok src dst])
  ultimately show ?thesis using Return_frame [OF t(1) frame_page_insert] by blast
qed

text \<open>
  C11. \<open>sys_page_map\<close> between two environments the caller may manipulate. Bad addresses or
  permissions, an address without a table, and write access to a page mapped read-only give
  \<open>-E_INVAL\<close>. A page mapped in the source is mapped, with exactly the permissions, at the
  destination; no other slot of any address space changes and the page gains a reference.
  When the table is missing and memory is exhausted the result is \<open>-E_NO_MEM\<close>. But an
  address whose table exists and that is not mapped itself passes the test of the code, which
  looks at the entry pointer instead of the page: the kernel then dereferences NULL.
\<close>

theorem sys_page_map_correct:
  assumes ok: "vm_ok {..<955} D E xs s"
    and src: "envid2env srcid True s = Return (0, Some e) s" "env_pgdir (envs s e) = Some sd" "sd \<in> D"
    and dst: "envid2env dstid True s = Return (0, Some f) s" "env_pgdir (envs s f) = Some dd" "dd \<in> D"
  shows "(\<not> (user_page srcva \<and> user_page dstva \<and> valid_perm perm) \<longrightarrow>
       sys_page_map srcid srcva dstid dstva perm s = Return (- E_INVAL) s) \<and>
    (user_page srcva \<and> user_page dstva \<and> valid_perm perm \<longrightarrow>
       (\<not> present s sd (pdx srcva) \<or> escalates perm sd srcva s \<longrightarrow>
          sys_page_map srcid srcva dstid dstva perm s = Return (- E_INVAL) s) \<and>
       (mapped sd srcva s \<and> \<not> escalates perm sd srcva s \<and> unat (pp_ref (pages s (mapped_page sd srcva s))) < 65535 \<and>
          (present s dd (pdx dstva) \<or> xs \<noteq> []) \<longrightarrow>
          (\<exists>t ys. sys_page_map srcid srcva dstid dstva perm s = Return 0 t \<and> vm_ok {..<955} D E ys t \<and>
             slot_effect {..<955} D dd dstva (page2pa (mapped_page sd srcva s) OR perm OR PTE_P) s t \<and>
             refs_effect (Some (mapped_page sd srcva s)) dd dstva xs s t)) \<and>
       (mapped sd srcva s \<and> \<not> escalates perm sd srcva s \<and> \<not> present s dd (pdx dstva) \<and> xs = [] \<longrightarrow>
          sys_page_map srcid srcva dstid dstva perm s = Return (- E_NO_MEM) s) \<and>
       (present s sd (pdx srcva) \<and> \<not> mapped sd srcva s \<and> \<not> escalates perm sd srcva s \<and>
          (present s dd (pdx dstva) \<or> xs \<noteq> []) \<longrightarrow>
          sys_page_map srcid srcva dstid dstva perm s = Fault ''page_insert: NULL page''))"
proof -
  note unf = sys_page_map_unfold [OF assms, of srcva dstva perm]
  note in_range = user_page_pdx
  note shared = insert_shared [OF ok src(3) in_range dst(3) in_range valid_perm_bound]
  have none: "page_insert dd pp dstva perm s = Return (- E_NO_MEM) s"
    if "user_page dstva" "\<not> present s dd (pdx dstva)" "xs = []" for pp
    using page_insert_no_table [OF ok [unfolded that(3)] dst(3) in_range [OF that(1)] that(2)] .
  have pr: "present s sd (pdx srcva)" if "user_page srcva" "mapped sd srcva s"
    using lookup_mapped_page(3) [OF ok src(3) in_range [OF that(1)] that(2)] .
  show ?thesis
  proof (intro conjI impI; (elim conjE)?)
    assume a: "user_page srcva" "user_page dstva" "valid_perm perm" "mapped sd srcva s" "\<not> escalates perm sd srcva s"
      "unat (pp_ref (pages s (mapped_page sd srcva s))) < 65535" "present s dd (pdx dstva) \<or> xs \<noteq> []"
    show "\<exists>t ys. sys_page_map srcid srcva dstid dstva perm s = Return 0 t \<and> vm_ok {..<955} D E ys t \<and>
        slot_effect {..<955} D dd dstva (page2pa (mapped_page sd srcva s) OR perm OR PTE_P) s t \<and>
        refs_effect (Some (mapped_page sd srcva s)) dd dstva xs s t"
      using sys_page_map_ok [OF assms a] by blast
  qed (simp_all add: unf none shared(2) pr)
qed

text \<open>The example with page 4 mapped read-only at \<open>0x800000\<close>.\<close>

lemma demo_mapped:
  "\<exists>t ys. vm_ok {..<955} {5} demo_refs ys t \<and> envid2env 0 True t = Return (0, Some 4) t \<and>
     env_pgdir (envs t 4) = Some 5 \<and> slot t (va_slot 5 0x800000) = 0x4005 \<and> pp_ref (pages t 4) = 1 \<and>
     slot t (va_slot 5 0x802000) = 0 \<and> curenv t = Some 4 \<and> envs t = envs demo"
proof -
  have ref: "pages demo 4 = zero_page" by (simp add: demo_def)
  have pdx: "pdx 0x800000 \<in> {..<955}" by (simp add: PDX_def layout_defs)
  have "4 < npages demo_run" "4 \<notin> set [3, 2, 1 :: nat]" "unat (pp_ref (pages demo_run 4)) < 65535"
    by (simp_all add: demo_run_simps demo_simps ref zero_page_def)
  note ins = page_insert_spec [OF demo_run_ok _ pdx this, of 5 5]
  obtain t ys where t: "page_insert 5 (Some 4) 0x800000 5 demo_run = Return 0 t" "vm_ok {..<955} {5} demo_refs ys t"
      "slot_effect {..<955} {5} 5 0x800000 (page2pa 4 OR 5 OR PTE_P) demo_run t"
      "refs_effect (Some 4) 5 0x800000 [3, 2, 1] demo_run t"
    using ins by auto
  have nm: "\<not> mapped 5 0x800000 demo_run" by (simp add: mapped_def slot_def va_slot_def present_def demo_run_simps demo_simps)
  have "slot t (va_slot 5 0x800000) = 0x4005"
    using t(3) pdx by (simp add: slot_effect_def va_slot_def page2pa_def layout_defs)
  moreover have "slot t (va_slot 5 0x802000) = 0"
    using t(3) by (simp add: slot_effect_def va_slot_def PDX_def PTX_def slot_def present_def demo_run_simps demo_simps layout_defs)
  moreover have "pp_ref (pages t 4) = 1" using t(4) nm by (simp add: refs_effect_def demo_run_simps ref zero_page_def)
  moreover have "curenv t = Some 4" "envs t = envs demo" using t(3) by (simp_all add: slot_effect_def demo_run_simps)
  ultimately show ?thesis using t(2) by (intro exI [of _ t] exI [of _ ys]) (simp add: envid2env_def demo_simps)
qed

theorem sys_page_map_correct_witness:
  "\<exists>s. mapped 5 0x800000 s \<and> sys_page_map 0 0x800000 0 0x801000 7 s = Return (- E_INVAL) s \<and>
     (\<exists>t. sys_page_map 0 0x800000 0 0x801000 5 s = Return 0 t \<and> slot t (va_slot 5 0x801000) = 0x4005) \<and>
     sys_page_map 0 0x802000 0 0x801000 5 s = Fault ''page_insert: NULL page''"
proof -
  obtain s ys where s: "vm_ok {..<955} {5} demo_refs ys s" "envid2env 0 True s = Return (0, Some 4) s"
      "env_pgdir (envs s 4) = Some 5" "slot s (va_slot 5 0x800000) = 0x4005" "pp_ref (pages s 4) = 1"
      "slot s (va_slot 5 0x802000) = 0"
    using demo_mapped by blast
  have pdx: "pdx 0x800000 = 2" "pdx 0x801000 = 2" "pdx 0x802000 = 2" "ptx 0x801000 = 1"
    by (simp_all add: PDX_def PTX_def layout_defs)
  have m: "mapped 5 0x800000 s" "mapped_page 5 0x800000 s = 4" "\<not> mapped 5 0x802000 s"
    using s(4,6) by (simp_all add: mapped_def mapped_page_def PGNUM_def layout_defs)
  have pr: "present s 5 2" using lookup_mapped_page(3) [OF s(1) _ _ m(1)] by (simp add: pdx)
  have esc: "escalates 7 5 0x800000 s" "\<not> escalates 5 5 0x800000 s" "\<not> escalates 5 5 0x802000 s"
    using s(4) by (simp_all add: escalates_def layout_defs)
  have ok: "user_page 0x800000" "user_page 0x801000" "user_page 0x802000" "valid_perm 7" "valid_perm 5"
    by (simp_all add: user_page_def valid_perm_def layout_defs)
  note map = sys_page_map_correct [OF s(1-3) _ s(2,3)]
  have "sys_page_map 0 0x800000 0 0x801000 7 s = Return (- E_INVAL) s"
    using map [of "0x800000" "0x801000" 7] ok esc by simp
  moreover have "sys_page_map 0 0x802000 0 0x801000 5 s = Fault ''page_insert: NULL page''"
    using map [of "0x802000" "0x801000" 5] ok esc m(3) pr by (simp add: pdx)
  moreover obtain t where t: "sys_page_map 0 0x800000 0 0x801000 5 s = Return 0 t"
      "slot_effect {..<955} {5} 5 0x801000 (page2pa 4 OR 5 OR PTE_P) s t"
    using map [of "0x800000" "0x801000" 5] ok esc m pr s(5) by (auto simp: pdx)
  moreover have "slot t (va_slot 5 0x801000) = 0x4005"
    using t(2) by (simp add: slot_effect_def va_slot_def pdx page2pa_def layout_defs)
  ultimately show ?thesis using m(1) by blast
qed

end
