(* ===== verification/IpcProps.thy ===== *)
theory IpcProps
  imports SyscallMem
begin

text \<open>
  Messages between environments: the outcomes of \<^verbatim>\<open>sys_ipc_try_send\<close>, and the meeting of a
  receiver that waits in \<^verbatim>\<open>sys_ipc_recv\<close> with its sender.
\<close>

section \<open>Sending\<close>

text \<open>The test of \<open>sys_ipc_try_send\<close> on the page and the permissions to pass on.\<close>

definition ipc_page_ok :: "nat \<Rightarrow> u32 \<Rightarrow> u32 \<Rightarrow> kstate \<Rightarrow> bool" where
  "ipc_page_ok d srcva perm s \<longleftrightarrow> srcva mod PGSIZE = 0 \<and> \<not> escalates perm d srcva s \<and>
     perm AND (PTE_U OR PTE_P) \<noteq> 0 \<and> perm AND NOT PTE_SYSCALL = 0"

lemma ipc_send_page_unfold:
  assumes ok: "vm_ok {..<955} D E xs s" and va: "srcva < UTOP"
    and c: "env_pgdir (envs s c) = Some cd" "cd \<in> D" and e: "env_pgdir (envs s e) = Some td"
    and al: "dstva mod PGSIZE = 0"
  shows "ipc_send_page c e srcva dstva perm s =
    (if \<not> present s cd (pdx srcva) \<or> \<not> ipc_page_ok cd srcva perm s then Return (- E_INVAL) s
     else obind (page_insert td (if mapped cd srcva s then Some (mapped_page cd srcva s) else None) dstva perm s)
       (\<lambda>r s. if r = - E_NO_MEM then Return (- E_NO_MEM) s else Return 0 (upd_env e (\<lambda>x. x\<lparr>env_ipc_perm := perm\<rparr>) s)))"
proof -
  have "pdx srcva \<in> {..<955}" using va UTOP_PDX by simp
  note lk = lookup_mapped_page(1,2) [OF ok c(2) this]
  show ?thesis
  proof (cases "present s cd (pdx srcva)")
    case False
    then show ?thesis by (simp add: ipc_send_page_def c lk)
  next
    case True
    then have "ipc_send_page c e srcva dstva perm s =
      (if \<not> ipc_page_ok cd srcva perm s then Return (- E_INVAL) s
       else obind (page_insert td (if mapped cd srcva s then Some (mapped_page cd srcva s) else None) dstva perm s)
         (\<lambda>r s. if r = - E_NO_MEM then Return (- E_NO_MEM) s else Return 0 (upd_env e (\<lambda>x. x\<lparr>env_ipc_perm := perm\<rparr>) s)))"
      unfolding ipc_page_ok_def escalates_def
      by (simp add: ipc_send_page_def c e lk assert_that_def al)
    then show ?thesis using True by simp
  qed
qed

text \<open>The receiver after a message: no longer waiting, runnable, and with result 0 in \<open>%eax\<close>.\<close>

definition delivered :: "envid_t \<Rightarrow> u32 \<Rightarrow> u32 \<Rightarrow> Env \<Rightarrow> Env" where
  "delivered from val perm x = x\<lparr>env_ipc_perm := perm, env_ipc_recving := False, env_ipc_from := from, env_ipc_value := val,
     env_tf := (env_tf x)\<lparr>tf_regs := (tf_regs (env_tf x))\<lparr>reg_eax := 0\<rparr>\<rparr>, env_status := ENV_RUNNABLE\<rparr>"

text \<open>
  C13. The outcomes of \<open>sys_ipc_try_send\<close>, the receiver's address being page aligned when it is below
  \<open>UTOP\<close>, as \<open>sys_ipc_recv\<close> makes sure. An id without environment gives \<open>-E_BAD_ENV\<close>; an environment that does not
  wait is not touched. When the sender or the receiver gives an address above \<open>UTOP\<close>, the message is
  delivered without a page; the code then does not look at \<open>srcva\<close> and \<open>perm\<close> at all, although its comment promises
  \<open>-E_INVAL\<close> for a \<open>srcva\<close> below \<open>UTOP\<close> that is misaligned or not mapped, and for bad permissions. When both give one below,
  and the sender may pass the page on, the page is
  mapped in the receiver with the permissions given, nowhere else, and the message is
  delivered with these permissions (the count of the page being below its 16 bit limit). When the sender has no table for the page or may not pass
  it on the call fails with \<open>-E_INVAL\<close>, and with \<open>-E_NO_MEM\<close> when there is no memory for the
  receiver's table: the receiver then still waits. When the sender has a table for the address but no page, the kernel
  dereferences a NULL pointer.
\<close>

theorem sys_ipc_try_send_correct:
  assumes ok: "vm_ok {..<955} D E xs s" and tgt: "envid2env envid False s = Return (0, Some e) s"
    and c: "curenv s = Some c" "env_pgdir (envs s c) = Some cd" "cd \<in> D"
    and td: "env_pgdir (envs s e) = Some td" "td \<in> D"
    and dst: "env_ipc_dstva (envs s e) = dstva" "dstva < UTOP \<longrightarrow> dstva mod PGSIZE = 0"
  shows "(\<forall>id. envid2env id False s = Return (- E_BAD_ENV, None) s \<longrightarrow>
       sys_ipc_try_send id val srcva perm s = Return (- E_BAD_ENV) s) \<and>
    (\<not> env_ipc_recving (envs s e) \<longrightarrow> sys_ipc_try_send envid val srcva perm s = Return (- E_IPC_NOT_RECV) s) \<and>
    (env_ipc_recving (envs s e) \<longrightarrow>
      (\<not> (srcva < UTOP \<and> dstva < UTOP) \<longrightarrow>
         sys_ipc_try_send envid val srcva perm s = Return 0 (upd_env e (delivered (env_id (envs s c)) val 0) s)) \<and>
      (srcva < UTOP \<and> dstva < UTOP \<and> (\<not> present s cd (pdx srcva) \<or> \<not> ipc_page_ok cd srcva perm s) \<longrightarrow>
         sys_ipc_try_send envid val srcva perm s = Return (- E_INVAL) (upd_env e (\<lambda>x. x\<lparr>env_ipc_perm := 0\<rparr>) s)) \<and>
      (srcva < UTOP \<and> dstva < UTOP \<and> present s cd (pdx srcva) \<and> ipc_page_ok cd srcva perm s \<and> \<not> present s td (pdx dstva) \<and> xs = [] \<longrightarrow>
         sys_ipc_try_send envid val srcva perm s = Return (- E_NO_MEM) (upd_env e (\<lambda>x. x\<lparr>env_ipc_perm := 0\<rparr>) s)) \<and>
      (srcva < UTOP \<and> dstva < UTOP \<and> present s cd (pdx srcva) \<and> \<not> mapped cd srcva s \<and> ipc_page_ok cd srcva perm s \<and>
         (present s td (pdx dstva) \<or> xs \<noteq> []) \<longrightarrow>
         sys_ipc_try_send envid val srcva perm s = Fault ''page_insert: NULL page'') \<and>
      (srcva < UTOP \<and> dstva < UTOP \<and> mapped cd srcva s \<and> ipc_page_ok cd srcva perm s \<and>
         (present s td (pdx dstva) \<or> xs \<noteq> []) \<and> unat (pp_ref (pages s (mapped_page cd srcva s))) < 65535 \<longrightarrow>
         (\<exists>t ys. sys_ipc_try_send envid val srcva perm s = Return 0 t \<and> vm_ok {..<955} D E ys t \<and>
            envs t = (envs s)(e := delivered (env_id (envs s c)) val perm (envs s e)) \<and>
            (\<forall>d \<in> D. \<forall>i < 955. \<forall>k. slot t (d, i, k) = (if (d, i, k) = va_slot td dstva
               then page2pa (mapped_page cd srcva s) OR perm OR PTE_P else slot s (d, i, k))))))"
proof -
  let ?s = "upd_env e (\<lambda>x. x\<lparr>env_ipc_perm := 0\<rparr>) s"
  have code: "0 \<noteq> - E_BAD_ENV" by simp
  have ok': "vm_ok {..<955} D E xs ?s" by (rule vm_ok_cong [OF ok]) simp_all
  have sl: "slot ?s x = slot s x" for x by (rule slot_cong) simp
  have same: "present ?s d i = present s d i" "mapped d va ?s = mapped d va s" "mapped_page d va ?s = mapped_page d va s"
    "ipc_page_ok d va perm ?s = ipc_page_ok d va perm s" for d i va
    by (simp_all add: present_def mapped_def mapped_page_def ipc_page_ok_def escalates_def sl)
  have dirs: "env_pgdir (envs ?s c) = Some cd" "env_pgdir (envs ?s e) = Some td" using c(2) td(1) by auto
  have unf: "sys_ipc_try_send envid val srcva perm s =
    obind (if srcva < UTOP \<and> dstva < UTOP then ipc_send_page c e srcva dstva perm ?s else Return 0 ?s) (\<lambda>r s.
      if r \<noteq> 0 then Return r s else Return 0 (ipc_deliver e (env_id (envs s c)) val s))"
    if "env_ipc_recving (envs s e)"
    using that c(1) dst(1) by (simp add: sys_ipc_try_send_def tgt code Let_def)
  have send: "ipc_send_page c e srcva dstva perm ?s =
    (if \<not> present s cd (pdx srcva) \<or> \<not> ipc_page_ok cd srcva perm s then Return (- E_INVAL) ?s
     else obind (page_insert td (if mapped cd srcva s then Some (mapped_page cd srcva s) else None) dstva perm ?s)
       (\<lambda>r s. if r = - E_NO_MEM then Return (- E_NO_MEM) s else Return 0 (upd_env e (\<lambda>x. x\<lparr>env_ipc_perm := perm\<rparr>) s)))"
    if "srcva < UTOP" "dstva < UTOP"
    using ipc_send_page_unfold [OF ok' that(1) dirs(1) c(3) dirs(2), of dstva perm] that(2) dst(2) by (simp only: same)
  show ?thesis
  proof (intro conjI allI impI; (elim conjE)?)
    fix id assume "envid2env id False s = Return (- E_BAD_ENV, None) s"
    then show "sys_ipc_try_send id val srcva perm s = Return (- E_BAD_ENV) s" by (simp add: sys_ipc_try_send_def)
  next
    assume "\<not> env_ipc_recving (envs s e)"
    then show "sys_ipc_try_send envid val srcva perm s = Return (- E_IPC_NOT_RECV) s"
      by (simp add: sys_ipc_try_send_def tgt code)
  next
    assume "env_ipc_recving (envs s e)" "\<not> (srcva < UTOP \<and> dstva < UTOP)"
    then show "sys_ipc_try_send envid val srcva perm s = Return 0 (upd_env e (delivered (env_id (envs s c)) val 0) s)"
      by (auto simp: unf ipc_deliver_def delivered_def upd_env_def)
  next
    assume "env_ipc_recving (envs s e)" "srcva < UTOP" "dstva < UTOP"
      "\<not> present s cd (pdx srcva) \<or> \<not> ipc_page_ok cd srcva perm s"
    then show "sys_ipc_try_send envid val srcva perm s = Return (- E_INVAL) ?s"
      by (simp add: unf send)
  next
    assume a: "env_ipc_recving (envs s e)" "srcva < UTOP" "dstva < UTOP" "present s cd (pdx srcva)" "ipc_page_ok cd srcva perm s"
      "\<not> present s td (pdx dstva)" "xs = []"
    have i: "pdx dstva \<in> {..<955}" using a(3) UTOP_PDX by simp
    have "page_insert td pp dstva perm ?s = Return (- E_NO_MEM) ?s" for pp
      using page_insert_no_table [OF ok' [unfolded a(7)] td(2) i] a(6) by (simp add: same)
    then show "sys_ipc_try_send envid val srcva perm s = Return (- E_NO_MEM) ?s"
      using a(1-5) by (simp add: unf send)
  next
    assume a: "env_ipc_recving (envs s e)" "srcva < UTOP" "dstva < UTOP" "present s cd (pdx srcva)" "\<not> mapped cd srcva s"
      "ipc_page_ok cd srcva perm s" "present s td (pdx dstva) \<or> xs \<noteq> []"
    have i: "pdx srcva \<in> {..<955}" "pdx dstva \<in> {..<955}" using a(2,3) UTOP_PDX by simp_all
    have perm: "perm < 4096" using a(6) by (intro perm_bound) (simp add: ipc_page_ok_def)
    have "page_insert td None dstva perm ?s = Fault ''page_insert: NULL page''"
      using insert_shared(2) [OF ok' c(3) i(1) td(2) i(2) perm] a(7) by (simp add: same)
    then show "sys_ipc_try_send envid val srcva perm s = Fault ''page_insert: NULL page''"
      using a(1-6) by (simp add: unf send)
  next
    assume a: "env_ipc_recving (envs s e)" "srcva < UTOP" "dstva < UTOP" "mapped cd srcva s" "ipc_page_ok cd srcva perm s"
      "present s td (pdx dstva) \<or> xs \<noteq> []" "unat (pp_ref (pages s (mapped_page cd srcva s))) < 65535"
    have i: "pdx srcva \<in> {..<955}" "pdx dstva \<in> {..<955}" using a(2,3) UTOP_PDX by simp_all
    have perm: "perm < 4096" using a(5) by (intro perm_bound) (simp add: ipc_page_ok_def)
    have pr: "present s cd (pdx srcva)" by (rule lookup_mapped_page(3) [OF ok c(3) i(1) a(4)])
    obtain t ys where t: "page_insert td (Some (mapped_page cd srcva s)) dstva perm ?s = Return 0 t" "vm_ok {..<955} D E ys t"
      "slot_effect {..<955} D td dstva (page2pa (mapped_page cd srcva s) OR perm OR PTE_P) ?s t"
      using insert_shared(1) [OF ok' c(3) i(1) td(2) i(2) perm] a(4,6,7) by (auto simp: same)
    let ?t = "ipc_deliver e (env_id (envs s c)) val (upd_env e (\<lambda>x. x\<lparr>env_ipc_perm := perm\<rparr>) t)"
    have envs: "envs t = envs ?s" using t(3) by (simp add: slot_effect_def)
    then have "sys_ipc_try_send envid val srcva perm s = Return 0 ?t"
      using a(1-5) pr t(1) by (simp add: unf send)
    moreover have "vm_ok {..<955} D E ys ?t" by (rule vm_ok_cong [OF t(2)]) (simp_all add: ipc_deliver_def)
    moreover have "envs ?t = (envs s)(e := delivered (env_id (envs s c)) val perm (envs s e))"
      using envs by (auto simp: ipc_deliver_def delivered_def)
    moreover have "slot ?t x = slot t x" for x by (rule slot_cong) (simp add: ipc_deliver_def)
    ultimately show "\<exists>t ys. sys_ipc_try_send envid val srcva perm s = Return 0 t \<and> vm_ok {..<955} D E ys t \<and>
            envs t = (envs s)(e := delivered (env_id (envs s c)) val perm (envs s e)) \<and>
            (\<forall>d \<in> D. \<forall>i < 955. \<forall>k. slot t (d, i, k) = (if (d, i, k) = va_slot td dstva
               then page2pa (mapped_page cd srcva s) OR perm OR PTE_P else slot s (d, i, k)))"
      using t(3) by (intro exI [of _ ?t] exI [of _ ys]) (simp add: slot_effect_def sl)
  qed
qed

theorem sys_ipc_try_send_correct_witness:
  "\<exists>s t. mapped 5 0x800000 s \<and> sys_ipc_try_send 0x100B 42 0x800000 5 s = Return 0 t \<and>
     slot t (va_slot 5 0x801000) = 0x4005 \<and> env_ipc_value (envs t 11) = 42 \<and> env_ipc_from (envs t 11) = 0x1004 \<and>
     env_status (envs t 11) = ENV_RUNNABLE \<and>
     sys_ipc_try_send 0x100B 42 0x800000 7 s = Return (- E_INVAL) (upd_env 11 (\<lambda>x. x\<lparr>env_ipc_perm := 0\<rparr>) s)"
proof -
  obtain u ys where u: "vm_ok {..<955} {5} demo_refs ys u" "slot u (va_slot 5 0x800000) = 0x4005" "pp_ref (pages u 4) = 1"
      "curenv u = Some 4" "envs u = envs demo"
    using demo_mapped by blast
  let ?f = "\<lambda>x. x\<lparr>env_ipc_recving := True, env_ipc_dstva := 0x801000, env_pgdir := Some 5, env_id := 0x100B\<rparr>"
  let ?s = "upd_env 11 ?f u"
  have ok: "vm_ok {..<955} {5} demo_refs ys ?s" by (rule vm_ok_cong [OF u(1)]) simp_all
  have sl: "slot ?s x = slot u x" for x by (rule slot_cong) simp
  have st: "env_status (envs demo 11) = ENV_NOT_RUNNABLE" "env_id (envs demo 4) = 0x1004" by (simp_all add: demo_def)
  have tgt: "envid2env 0x100B False ?s = Return (0, Some 11) ?s"
    by (simp add: envid2env_def Let_def ENVX_def NENV_eq u(5) st)
  have pdx: "pdx 0x800000 = 2" "pdx 0x801000 = 2" "ptx 0x801000 = 1"
    by (simp_all add: PDX_def PTX_def layout_defs)
  have m: "mapped 5 0x800000 ?s" "mapped_page 5 0x800000 ?s = 4"
    using u(2) by (simp_all add: mapped_def mapped_page_def sl PGNUM_def layout_defs)
  have pr: "present ?s 5 2" using lookup_mapped_page(3) [OF ok _ _ m(1)] by (simp add: pdx)
  have perm: "ipc_page_ok 5 0x800000 5 ?s" "\<not> ipc_page_ok 5 0x800000 7 ?s"
    using u(2) by (simp_all add: ipc_page_ok_def escalates_def sl layout_defs)
  have "curenv ?s = Some 4" "env_pgdir (envs ?s 4) = Some 5" "(5 :: nat) \<in> {5}" "env_pgdir (envs ?s 11) = Some 5"
    "(5 :: nat) \<in> {5}" "env_ipc_dstva (envs ?s 11) = 0x801000" "0x801000 < UTOP \<longrightarrow> (0x801000 :: u32) mod PGSIZE = 0"
    by (simp_all add: u(4,5) demo_simps layout_defs)
  note send = sys_ipc_try_send_correct [OF ok tgt this]
  have va: "(0x800000 :: u32) < UTOP" "(0x801000 :: u32) < UTOP" by (simp_all add: layout_defs)
  obtain t where t: "sys_ipc_try_send 0x100B 42 0x800000 5 ?s = Return 0 t"
      "envs t = (envs ?s)(11 := delivered (env_id (envs ?s 4)) 42 5 (envs ?s 11))"
      "\<forall>d \<in> {5}. \<forall>i < 955. \<forall>k. slot t (d, i, k) = (if (d, i, k) = va_slot 5 0x801000
          then page2pa (mapped_page 5 0x800000 ?s) OR 5 OR PTE_P else slot ?s (d, i, k))"
    using send [of 42 "0x800000" 5] va m pr perm(1) u(3) by (auto simp: pdx)
  moreover have "slot t (va_slot 5 0x801000) = 0x4005"
    using t(3) by (simp add: va_slot_def pdx m(2) page2pa_def layout_defs)
  moreover have "sys_ipc_try_send 0x100B 42 0x800000 7 ?s = Return (- E_INVAL) (upd_env 11 (\<lambda>x. x\<lparr>env_ipc_perm := 0\<rparr>) ?s)"
    using send [of 42 "0x800000" 7] va perm(2) by simp
  ultimately show ?thesis using m(1) by (intro exI [of _ ?s] exI [of _ t]) (simp add: delivered_def u(5) st)
qed

section \<open>Receiving\<close>








end
