(* ===== verification/TrapProps.thy ===== *)
theory TrapProps
  imports IpcProps
begin

text \<open>
  Forking, and the way of a system call through \<^verbatim>\<open>trap\<close>: the lock is taken, the frame saved,
  the call executed, and the caller resumed with the result in \<^verbatim>\<open>%eax\<close>.
\<close>

section \<open>Fork\<close>

text \<open>The registers of a child: those of its parent, with 0 as the result of the call.\<close>

definition child_tf :: "Trapframe \<Rightarrow> Trapframe" where
  "child_tf tf = tf\<lparr>tf_regs := (tf_regs tf)\<lparr>reg_eax := 0\<rparr>\<rparr>"

lemma E_NO_FREE_ENV_ne [simp]: "E_NO_FREE_ENV \<noteq> 0"
  by (simp add: E_NO_FREE_ENV_def)

text \<open>
  C15. \<open>sys_exofork\<close> with memory at hand creates a child that is a copy of its parent: same
  registers except for the result 0, not runnable, in a new address space that is empty but for the
  VGA page. The parent gets the positive id of the child, and may use it in the calls that
  check permissions; no other environment may: for every environment but the child itself and the parent the
  id is refused with \<open>-E_BAD_ENV\<close>. No other environment and no other address space changes. Without a free
  environment or a free page the result is the error and nothing changes.
\<close>

theorem sys_exofork_correct:
  assumes c: "curenv s = Some c" "env_status (envs s c) \<noteq> ENV_FREE"
  shows "(env_list s [] \<longrightarrow> sys_exofork s = Return (- E_NO_FREE_ENV) s) \<and>
    (env_list s (e # es) \<and> free_list s [] \<longrightarrow> sys_exofork s = Return (- E_NO_MEM) s) \<and>
    (env_list s (e # es) \<and> vm_ok {..<955} D E (p # xs) s \<and> kern_ok (p # xs) s \<and> xs \<noteq> [] \<and> 0 \<le> sint (env_id (envs s e)) \<longrightarrow>
      (\<exists>t ys. sys_exofork s = Return (env_id (envs t e)) t \<and> 0 < sint (env_id (envs t e)) \<and>
        vm_ok {..<955} (insert p D) E ys t \<and> env_list t es \<and> slots_kept {..<955} D (\<lambda>_. False) s t \<and>
        (\<forall>i < 955. \<forall>l. slot t (p, i, l) = (if (p, i, l) = va_slot p VGA_USER then vga_entry else 0)) \<and>
        (\<forall>x. x \<noteq> e \<longrightarrow> envs t x = envs s x) \<and> env_pgdir (envs t e) = Some p \<and>
        env_status (envs t e) = ENV_NOT_RUNNABLE \<and> env_parent_id (envs t e) = env_id (envs s c) \<and>
        env_tf (envs t e) = child_tf (env_tf (envs s c)) \<and>
        envid2env (env_id (envs t e)) True t = Return (0, Some e) t \<and>
        (\<forall>u x. envs u = envs t \<and> curenv u = Some x \<and> x \<noteq> e \<and> env_id (envs s x) \<noteq> env_id (envs s c) \<longrightarrow>
           envid2env (env_id (envs t e)) True u = Return (- E_BAD_ENV, None) u)))"
proof (intro conjI impI; (elim conjE)?)
  assume "env_list s []"
  then have "env_alloc (env_id (envs s c)) s = Return (- E_NO_FREE_ENV, None) s"
    by (simp add: env_alloc_def env_list_def envlist.on_list_def)
  then show "sys_exofork s = Return (- E_NO_FREE_ENV) s" by (simp add: sys_exofork_def c)
next
  assume "env_list s (e # es)" "free_list s []"
  moreover have "sint (- E_NO_MEM) < 0" by (simp add: E_NO_MEM_def)
  ultimately have "env_alloc (env_id (envs s c)) s = Return (- E_NO_MEM, None) s"
    by (simp add: env_alloc_def env_list_def envlist.on_list_def env_setup_vm_def page_alloc_empty)
  then show "sys_exofork s = Return (- E_NO_MEM) s" by (simp add: sys_exofork_def c)
next
  assume l: "env_list s (e # es)" and ok: "vm_ok {..<955} D E (p # xs) s" "kern_ok (p # xs) s" "xs \<noteq> []"
    and old: "0 \<le> sint (env_id (envs s e))"
  have e: "e < NENV" "c \<noteq> e" using l c(2) by (auto simp: env_list_def)
  let ?id = "next_env_id e (env_id (envs s e))"
  note id = next_env_id_props [OF e(1) old]
  obtain u ys where u: "env_alloc (env_id (envs s c)) s = Return (0, Some e) u" "vm_ok {..<955} (insert p D) E ys u"
    "slots_kept {..<955} D (\<lambda>_. False) s u"
    "\<forall>i < 955. \<forall>l. slot u (p, i, l) = (if (p, i, l) = va_slot p VGA_USER then vga_entry else 0)"
    "env_list u es" "envs u = (envs s)(e := fresh_env e (env_id (envs s c)) ((envs s e)\<lparr>env_pgdir := Some p\<rparr>))"
    "cpus u = cpus s" "this_cpu u = this_cpu s"
    using env_alloc_spec [OF ok l, of "env_id (envs s c)"] by blast
  let ?t = "upd_env e (\<lambda>x. x\<lparr>env_status := ENV_NOT_RUNNABLE, env_tf := child_tf (env_tf (envs s c))\<rparr>) u"
  have sl: "slot ?t x = slot u x" for x by (rule slot_cong) simp
  have "sys_exofork s = Return ?id ?t"
    using u(1,6) e(2) c by (simp add: sys_exofork_def Let_def child_tf_def upd_env_def)
  moreover have "vm_ok {..<955} (insert p D) E ys ?t" by (rule vm_ok_cong [OF u(2)]) simp_all
  moreover have "slots_kept {..<955} D (\<lambda>_. False) s ?t" using u(3) by (simp add: slots_kept_def sl)
  moreover have "env_list ?t es"
  proof -
    have "en_link ?t = en_link u" "env_free_list ?t = env_free_list u" by auto
    then have "envlist.on_list ?t es" using u(5) on_list_cong [of ?t u] by (simp add: env_list_def)
    moreover have "e \<notin> set es" using u(5,6) by (auto simp: env_list_def)
    ultimately show ?thesis using u(5) by (auto simp: env_list_def)
  qed
  moreover have "curenv ?t = Some c" using c(1) u(7,8) by (simp add: curenv_def)
  moreover have "?id \<noteq> 0" using id(1) by auto
  ultimately show "\<exists>t ys. sys_exofork s = Return (env_id (envs t e)) t \<and> 0 < sint (env_id (envs t e)) \<and>
        vm_ok {..<955} (insert p D) E ys t \<and> env_list t es \<and> slots_kept {..<955} D (\<lambda>_. False) s t \<and>
        (\<forall>i < 955. \<forall>l. slot t (p, i, l) = (if (p, i, l) = va_slot p VGA_USER then vga_entry else 0)) \<and>
        (\<forall>x. x \<noteq> e \<longrightarrow> envs t x = envs s x) \<and> env_pgdir (envs t e) = Some p \<and>
        env_status (envs t e) = ENV_NOT_RUNNABLE \<and> env_parent_id (envs t e) = env_id (envs s c) \<and>
        env_tf (envs t e) = child_tf (env_tf (envs s c)) \<and>
        envid2env (env_id (envs t e)) True t = Return (0, Some e) t \<and>
        (\<forall>u x. envs u = envs t \<and> curenv u = Some x \<and> x \<noteq> e \<and> env_id (envs s x) \<noteq> env_id (envs s c) \<longrightarrow>
           envid2env (env_id (envs t e)) True u = Return (- E_BAD_ENV, None) u)"
    using u(4,6) id e by (intro exI [of _ ?t] exI [of _ ys]) (simp add: sl envid2env_def Let_def)
qed

theorem sys_exofork_correct_witness:
  "\<exists>t. sys_exofork demo_run = Return (env_id (envs t 7)) t \<and> env_status (envs t 7) = ENV_NOT_RUNNABLE \<and>
       env_parent_id (envs t 7) = 0x1004 \<and> envid2env (env_id (envs t 7)) True t = Return (0, Some 7) t \<and>
       envid2env (env_id (envs t 7)) True (set_curenv (Some 11) t) = Return (- E_BAD_ENV, None) (set_curenv (Some 11) t)"
proof -
  have c: "curenv demo_run = Some 4" "env_status (envs demo_run 4) \<noteq> ENV_FREE" "env_id (envs demo_run 4) = 0x1004"
    "0 \<le> sint (env_id (envs demo_run 7))" "env_id (envs demo_run 11) \<noteq> 0x1004"
    by (simp_all add: demo_run_simps demo_simps, simp_all add: demo_def zero_env_def)
  obtain t where t: "sys_exofork demo_run = Return (env_id (envs t 7)) t" "env_status (envs t 7) = ENV_NOT_RUNNABLE"
      "env_parent_id (envs t 7) = 0x1004" "envid2env (env_id (envs t 7)) True t = Return (0, Some 7) t"
      "\<forall>u x. envs u = envs t \<and> curenv u = Some x \<and> x \<noteq> 7 \<and> env_id (envs demo_run x) \<noteq> env_id (envs demo_run 4) \<longrightarrow>
         envid2env (env_id (envs t 7)) True u = Return (- E_BAD_ENV, None) u"
    using sys_exofork_correct [of demo_run 4 7 "[9]" "{5}" demo_refs 3 "[2, 1]"] demo_run_ok demo_run_kern demo_run_envs c(1-4)
    by auto
  have "envid2env (env_id (envs t 7)) True (set_curenv (Some 11) t) = Return (- E_BAD_ENV, None) (set_curenv (Some 11) t)"
    by (rule t(5) [rule_format, of _ 11]) (simp add: c(3,5) curenv_def set_curenv_def)
  then show ?thesis using t(1-4) by blast
qed

section \<open>System calls through the trap handler\<close>

text \<open>What a system call that returns leaves alone: the processors and the lock.\<close>

definition cpu_kept :: "kstate \<Rightarrow> kstate \<Rightarrow> bool" where
  "cpu_kept s t \<longleftrightarrow> cpus t = cpus s \<and> this_cpu t = this_cpu s \<and> kernel_lock t = kernel_lock s"

lemma cpu_keptD: "cpu_kept s t \<Longrightarrow> curenv t = curenv s" "cpu_kept s t \<Longrightarrow> has_lock t = has_lock s"
  by (simp_all add: cpu_kept_def curenv_def has_lock_def)

lemma cpu_kept_trans: "cpu_kept s t \<Longrightarrow> cpu_kept t u \<Longrightarrow> cpu_kept s u"
  by (simp add: cpu_kept_def)

lemma cpu_kept_refl [simp]: "cpu_kept s s" "cpu_kept s (upd_env e f s)"
  by (simp_all add: cpu_kept_def)

lemma frame_cpu: "vm_frame s t \<Longrightarrow> cpu_kept s t"
  by (simp add: vm_frame_def cpu_kept_def)

lemmas frames_cpu = Return_frame [OF _ frame_page_alloc, THEN frame_cpu] Return_frame [OF _ frame_page_insert, THEN frame_cpu]
  Return_frame [OF _ frame_page_remove, THEN frame_cpu] Return_frame [OF _ frame_page_lookup, THEN frame_cpu]
  Return_frame [OF _ frame_page_decref, THEN frame_cpu] Return_frame [OF _ holds_ofold [OF frame_free_table], THEN frame_cpu]

lemma env_free_cpu: "env_free e s = Return () t \<Longrightarrow> cpu_kept s t"
  by (auto simp: env_free_def obind_Return_iff PADDR_def pa2page_def env_relink_def Let_def split: option.splits if_splits
      dest!: frames_cpu) (simp_all add: cpu_kept_def)

lemma env_destroy_cpu: "env_destroy e s = Return () t \<Longrightarrow> cpu_kept s t"
  by (auto simp: env_destroy_def obind_Return_iff sched_yield_no_return split: if_splits dest: env_free_cpu)

lemma env_setup_vm_cpu: "env_setup_vm e s = Return r t \<Longrightarrow> cpu_kept s t"
  by (auto simp: env_setup_vm_def page2kva_def KADDR_def PADDR_def pa2page_def assert_that_def Let_def elim!: obind_ReturnE
      split: option.split_asm if_split_asm dest!: frames_cpu) (simp_all add: cpu_kept_def)

lemma env_unlink_cpu: "cpu_kept s t \<Longrightarrow> cpu_kept s (env_unlink (upd_env e f t))"
  by (simp add: cpu_kept_def)

lemma env_alloc_cpu: "env_alloc pid s = Return (r, y) t \<Longrightarrow> cpu_kept s t"
  by (auto simp: env_alloc_def env_unlink_cpu elim!: obind_ReturnE split: option.split_asm if_split_asm dest!: env_setup_vm_cpu)

lemma user_mem_loop_cpu: "user_mem_loop n d va perm s = Return r t \<Longrightarrow> cpu_kept s t"
proof (induction n arbitrary: va s)
  case (Suc n)
  obtain pg pte u where u: "page_lookup d va s = Return (pg, pte) u" using Suc.prems by (auto simp: obind_Return_iff)
  then have "cpu_kept s u" by (rule frames_cpu(4))
  then show ?case using Suc u by (auto split: option.splits if_splits intro: cpu_kept_trans simp: cpu_kept_def)
qed simp

lemma user_mem_check_cpu: "user_mem_check e va len perm s = Return r t \<Longrightarrow> cpu_kept s t"
  by (auto simp: user_mem_check_def Let_def cpu_kept_def split: if_splits option.splits dest: user_mem_loop_cpu [unfolded cpu_kept_def])

lemma page_free_cpu: "page_free p s = Return () t \<Longrightarrow> cpu_kept s t"
  by (auto simp: page_free_def page_relink_def cpu_kept_def split: if_splits)

lemmas splits_asm = option.split_asm if_split_asm prod.split_asm

lemma page_calls_cpu:
  "sys_page_alloc envid va perm s = Return r t \<Longrightarrow> cpu_kept s t"
  "sys_page_unmap envid va s = Return r t \<Longrightarrow> cpu_kept s t"
  "sys_page_map se sv de dv perm s = Return r t \<Longrightarrow> cpu_kept s t"
  by (auto simp: sys_page_alloc_def sys_page_unmap_def sys_page_map_def elim!: obind_ReturnE split: splits_asm
      dest!: envid2env_state frames_cpu page_free_cpu) (simp_all add: cpu_kept_def)

lemma env_calls_cpu:
  "sys_env_set_status envid code s = Return r t \<Longrightarrow> cpu_kept s t"
  "sys_env_destroy envid s = Return r t \<Longrightarrow> cpu_kept s t"
  "sys_exofork s = Return r t \<Longrightarrow> cpu_kept s t"
  by (auto simp: sys_env_set_status_def sys_env_destroy_def sys_exofork_def Let_def elim!: obind_ReturnE split: splits_asm
      dest!: envid2env_state env_destroy_cpu env_alloc_cpu) (simp_all add: cpu_kept_def)

lemma send_cpu: "sys_ipc_try_send envid val srcva perm s = Return r t \<Longrightarrow> cpu_kept s t"
  by (auto simp: sys_ipc_try_send_def ipc_send_page_def ipc_deliver_def assert_that_def Let_def elim!: obind_ReturnE split: splits_asm
      dest!: envid2env_state frames_cpu) (simp_all add: cpu_kept_def)

lemma cputs_cpu:
  assumes "sys_cputs str len m = Return () m'"
  shows "cpu_kept (kern m) (kern m')"
proof -
  obtain c m1 where m1: "user_mem_assert c str len 0 m = Return () m1" "kern m' = kern m1"
    using assms by (auto simp: sys_cputs_def elim!: obind_ReturnE split: splits_asm)
  then show ?thesis using user_mem_assert_Return [OF m1(1)]
    by (auto dest!: user_mem_check_cpu env_destroy_cpu split: if_splits) (simp_all add: cpu_kept_def)
qed

lemma syscall_cpu: "syscall n a1 a2 a3 a4 a5 m = Return r m' \<Longrightarrow> cpu_kept (kern m) (kern m')"
  by (auto simp: syscall_def Let_def sys_cgetc_def sys_getenvid_def sys_yield_def sys_ipc_recv_def lift_kern_Return
      sched_yield_no_return elim!: obind_ReturnE split: splits_asm dest: cputs_cpu page_calls_cpu env_calls_cpu send_cpu)

text \<open>The caller keeps its registers and its address space.\<close>

lemma env_destroy_self: "env_destroy c s = Return () t \<Longrightarrow> curenv s \<noteq> Some c"
  by (auto simp: env_destroy_def sched_yield_no_return elim!: obind_ReturnE split: splits_asm
      dest!: env_free_cpu cpu_keptD(1))

lemma sys_env_destroy_own:
  assumes "sys_env_destroy envid s = Return r t" "curenv s = Some c"
  shows "envs t c = envs s c"
  using assms
  by (auto simp: sys_env_destroy_def elim!: obind_ReturnE split: splits_asm dest!: envid2env_state)
     (metis env_destroy_others env_destroy_self)

lemma cputs_own:
  assumes "sys_cputs str len m = Return () m'" "curenv (kern m) = Some c"
  shows "envs (kern m') c = envs (kern m) c"
proof -
  obtain m1 where m1: "user_mem_assert c str len 0 m = Return () m1" "kern m' = kern m1"
    using assms by (auto simp: sys_cputs_def elim!: obind_ReturnE split: splits_asm)
  have "env_destroy c u \<noteq> Return () t" if "user_mem_check c va len perm (kern m) = Return r u" for va len perm r u t
    using user_mem_check_cpu [OF that, THEN cpu_keptD(1)] env_destroy_self [of c u t] assms(2) by auto
  then show ?thesis using user_mem_assert_Return [OF m1(1)] m1(2) user_mem_check_envs
    by (auto split: if_splits)
qed

lemma syscall_own:
  assumes r: "syscall n a1 a2 a3 a4 a5 m = Return r m'" and c: "curenv (kern m) = Some c" and l: "env_list (kern m) es"
    and x: "env_status (envs (kern m) c) \<noteq> ENV_FREE" and ipc: "\<not> env_ipc_recving (envs (kern m) c)"
  shows "env_tf (envs (kern m') c) = env_tf (envs (kern m) c) \<and> env_pgdir (envs (kern m') c) = env_pgdir (envs (kern m) c)"
proof -
  have st: "env_tf (envs t c) = env_tf (envs s c) \<and> env_pgdir (envs t c) = env_pgdir (envs s c)"
    if "sys_env_set_status envid code s = Return r t" for envid code s r t
    using that by (auto simp: sys_env_set_status_def elim!: obind_ReturnE split: splits_asm dest!: envid2env_state)
  note own = sys_env_destroy_own [OF _ c] sys_exofork_others [OF _ l x] page_calls_envs
    sys_ipc_try_send_others [OF _ ipc] st
  show ?thesis using r
    by (auto simp: syscall_def Let_def sys_cgetc_def sys_getenvid_def sys_yield_def sys_ipc_recv_def lift_kern_Return
        sched_yield_no_return elim!: obind_ReturnE split: splits_asm dest: own
        dest!: cputs_own [OF _ c])
qed

text \<open>The machine when the system call starts: the lock is taken and the frame saved.\<close>

definition entered :: "cpu_entry \<Rightarrow> Trapframe \<Rightarrow> nat \<Rightarrow> machine \<Rightarrow> machine" where
  "entered p tf c m =
     m\<lparr>kern := upd_env c (\<lambda>x. x\<lparr>env_tf := tf\<rparr>)
        ((set_cpu_status CPU_STARTED (kern m))\<lparr>kernel_lock := (kernel_lock (kern m))
          \<lparr>locked := 1, lk_cpu := Some (this_cpu (kern m)), pcs := get_caller_pcs 10 (kstk p) (kebp p)\<rparr>\<rparr>)\<rparr>"

definition user_entry :: "cpu_entry \<Rightarrow> Trapframe \<Rightarrow> nat \<Rightarrow> machine \<Rightarrow> bool" where
  "user_entry p tf c m \<longleftrightarrow> tf_cs tf AND 3 = 3 \<and> \<not> if_flag p \<and> \<not> panicstr (kern m) \<and>
     cpu_status (cpus (kern m) (this_cpu (kern m))) \<noteq> CPU_HALTED \<and> locked (kernel_lock (kern m)) = 0 \<and>
     curenv (kern m) = Some c \<and> env_status (envs (kern m) c) = ENV_RUNNING \<and> dir_ok (env_pgdir (envs (kern m) c))"

lemma set_cpu_status_simps [simp]:
  "envs (set_cpu_status x s) = envs s" "kernel_lock (set_cpu_status x s) = kernel_lock s"
  "this_cpu (set_cpu_status x s) = this_cpu s" "curenv (set_cpu_status x s) = curenv s"
  "env_free_list (set_cpu_status x s) = env_free_list s" "panicstr (set_cpu_status x s) = panicstr s"
  by (simp_all add: set_cpu_status_def curenv_def)

lemma entered_simps [simp]:
  "envs (kern (entered p tf c m)) = (envs (kern m))(c := (envs (kern m) c)\<lparr>env_tf := tf\<rparr>)"
  "curenv (kern (entered p tf c m)) = curenv (kern m)" "env_free_list (kern (entered p tf c m)) = env_free_list (kern m)"
  "has_lock (kern (entered p tf c m))"
  by (simp_all add: entered_def set_cpu_status_def curenv_def has_lock_def holding_def upd_env_def)

lemma trap_from_user:
  assumes "user_entry p tf c m"
  shows "trap p tf m = obind (trap_dispatch p (EnvTf c) (entered p tf c m)) (\<lambda>_ m.
    case curenv (kern m) of
      Some c \<Rightarrow> if env_status (envs (kern m) c) = ENV_RUNNING then lift_kern (env_run c (kern m)) m
                else lift_kern (sched_yield (kern m)) m
    | None \<Rightarrow> lift_kern (sched_yield (kern m)) m)"
proof -
  let ?s = "set_cpu_status CPU_STARTED (kern m)"
  have "curenv (?s\<lparr>kernel_lock := l\<rparr>) = Some c" for l using assms by (simp add: user_entry_def curenv_def set_cpu_status_def)
  moreover have "note_dying (m\<lparr>kern := ?s\<rparr>) = m\<lparr>kern := ?s\<rparr>"
    using assms by (simp add: note_dying_def user_entry_def curenv_def set_cpu_status_def)
  ultimately have "lift_kern (trap_user p tf ?s) (note_dying (m\<lparr>kern := ?s\<rparr>)) = Return (EnvTf c) (entered p tf c m)"
    using assms by (simp add: trap_user_def user_entry_def lock_kernel_def spin_lock_def holding_def entered_def assert_that_def)
  then show ?thesis using assms by (simp add: trap_def Let_def user_entry_def assert_that_def)
qed

text \<open>
  C8. A system call from user mode comes back to its caller: when the call returns \<open>r\<close> and
  the caller is still running, \<open>trap\<close> resumes the caller, in its own address space, with the
  registers it had except that \<open>%eax\<close> is \<open>r\<close>, and the kernel lock is released. What the call
  does between, on any environment, cannot change these registers.
\<close>

theorem syscall_returns_to_caller:
  assumes u: "user_entry p tf c m" and no: "tf_trapno tf = T_SYSCALL"
    and l: "env_list (kern m) es" and ipc: "\<not> env_ipc_recving (envs (kern m) c)"
    and call: "syscall (reg_eax (tf_regs tf)) (reg_edx (tf_regs tf)) (reg_ecx (tf_regs tf)) (reg_ebx (tf_regs tf))
                 (reg_edi (tf_regs tf)) (reg_esi (tf_regs tf)) (entered p tf c m) = Return r m'"
    and run: "env_status (envs (kern m') c) = ENV_RUNNING"
  shows "\<exists>t. trap p tf m = Leave (RunEnv c) t \<and>
    env_tf (envs (kern t) c) = tf\<lparr>tf_regs := (tf_regs tf)\<lparr>reg_eax := r\<rparr>\<rparr> \<and>
    curenv (kern t) = Some c \<and> env_status (envs (kern t) c) = ENV_RUNNING \<and> locked (kernel_lock (kern t)) = 0 \<and>
    cr3 (kern t) = page2pa (the (env_pgdir (envs (kern m) c)))"
proof -
  let ?m = "entered p tf c m"
  have c: "curenv (kern ?m) = Some c" "env_status (envs (kern ?m) c) \<noteq> ENV_FREE" "\<not> env_ipc_recving (envs (kern ?m) c)"
    using u ipc by (simp_all add: user_entry_def)
  have "en_link (kern ?m) = en_link (kern m)" by auto
  then have "env_list (kern ?m) es" using l on_list_cong [of "kern ?m" "kern m"] by (auto simp: env_list_def)
  note own = syscall_own [OF call c(1) this c(2,3)] and kept = syscall_cpu [OF call]
  let ?k = "set_eax (EnvTf c) r (kern m')"
  let ?t = "m'\<lparr>kern := dispatched c ?k\<rparr>"
  have "has_lock (kern m')" "curenv (kern m') = Some c" using cpu_keptD [OF kept] c(1) by simp_all
  then have k: "curenv ?k = Some c" "has_lock ?k" "env_status (envs ?k c) = ENV_RUNNING" "env_pgdir (envs ?k c) = env_pgdir (envs (kern m) c)"
      "env_tf (envs ?k c) = tf\<lparr>tf_regs := (tf_regs tf)\<lparr>reg_eax := r\<rparr>\<rparr>"
    using own run by (simp_all add: set_eax_def has_lock_def)
  have "trap_dispatch p (EnvTf c) ?m = Return () (m'\<lparr>kern := ?k\<rparr>)"
    using call by (simp add: trap_dispatch_def get_tf_def no T_SYSCALL_def T_BRKPT_def T_PGFLT_def)
  moreover have "env_run c ?k = Leave (RunEnv c) (dispatched c ?k)"
    using u k by (intro env_run_ok) (simp_all add: user_entry_def)
  ultimately have "trap p tf m = Leave (RunEnv c) ?t" using k by (simp add: trap_from_user [OF u])
  moreover have "env_tf (envs (dispatched c ?k) c) = env_tf (envs ?k c)"
    by (simp add: dispatched_def preempt_def split: option.splits)
  ultimately show ?thesis using k by (intro exI [of _ ?t]) (simp add: dispatched_simps)
qed

text \<open>The example: environment 4 asks for its id.\<close>

definition demo_tf :: Trapframe where
  "demo_tf = user_tf\<lparr>tf_trapno := T_SYSCALL, tf_regs := (tf_regs user_tf)\<lparr>reg_eax := SYS_getenvid\<rparr>\<rparr>"

definition demo_entry :: cpu_entry where
  "demo_entry = \<lparr>cr2 = 0, if_flag = False, kstk = (\<lambda>_. 0), kebp = 0, tf_addr = 0xEFFFFFBC\<rparr>"

definition demo_machine :: machine where
  "demo_machine = \<lparr>kern = upd_env 4 (\<lambda>x. x\<lparr>env_status := ENV_RUNNING\<rparr>) demo_run, con = quiet_console\<rparr>"

theorem syscall_returns_to_caller_witness:
  "\<exists>t. trap demo_entry demo_tf demo_machine = Leave (RunEnv 4) t \<and> reg_eax (tf_regs (env_tf (envs (kern t) 4))) = 0x1004 \<and>
       locked (kernel_lock (kern t)) = 0"
proof -
  let ?m = "entered demo_entry demo_tf 4 demo_machine"
  have u: "user_entry demo_entry demo_tf 4 demo_machine"
    by (simp add: user_entry_def demo_entry_def demo_machine_def demo_tf_def demo_run_simps demo_simps dir_ok_def)
       (simp add: demo_run_def demo_def bss_state_def zero_cpu_def set_curenv_def user_tf_def upd_env_def)
  have l: "env_list (kern demo_machine) [7, 9]"
  proof -
    have "en_link (kern demo_machine) = en_link demo_run" "env_free_list (kern demo_machine) = env_free_list demo_run"
      by (auto simp: demo_machine_def)
    then show ?thesis using demo_run_envs on_list_cong [of "kern demo_machine" demo_run]
      by (auto simp: env_list_def demo_machine_def demo_run_simps demo_simps)
  qed
  have e: "env_id (envs (kern demo_machine) 4) = 0x1004" "env_status (envs (kern demo_machine) 4) = ENV_RUNNING"
      "\<not> env_ipc_recving (envs (kern demo_machine) 4)"
    by (simp_all add: demo_machine_def demo_run_simps, simp_all add: demo_def zero_env_def)
  have "curenv (kern ?m) = Some 4" using u by (simp add: user_entry_def)
  then have "syscall SYS_getenvid a1 a2 a3 a4 a5 ?m = Return 0x1004 ?m" for a1 a2 a3 a4 a5
    using e by (simp add: syscall_def Let_def sys_numbers sys_getenvid_def)
  then show ?thesis
    using syscall_returns_to_caller [OF u _ l e(3), of "0x1004" ?m] e by (auto simp: demo_tf_def)
qed

end
