(* ===== verification/KernelInv.thy ===== *)
theory KernelInv
  imports TrapProps
begin

text \<open>
  The invariant of the whole kernel. \<open>kernel_inv E s\<close> says that the page tables of all
  environments and of the kernel satisfy the virtual memory invariant together, that user
  space maps data pages only (never a page table, a directory or a page of the kernel, except
  the VGA page that every environment shares), that all address spaces agree above
  \<open>UTOP\<close>, that every environment in use has a directory of its own and an id that
  leads to it, that the free environments are those on the free list, and that
  the directory loaded in \<open>cr3\<close> is the one of the current environment, which is in use.
  This theory shows that the page table routines and the environment routines keep it.
\<close>

section \<open>Address spaces\<close>

text \<open>
  The directories \<open>D\<close> include the kernel's, whose user part is empty. \<open>user_data\<close> are the
  pages that user space may map.
\<close>

definition user_data :: "nat set \<Rightarrow> (nat \<Rightarrow> nat) \<Rightarrow> kstate \<Rightarrow> nat \<Rightarrow> bool" where
  "user_data D E s q \<longleftrightarrow> \<not> is_table {..<955} D s q \<and> (E q = 0 \<or> q = 0xb8)"

definition upper_part :: "kstate \<Rightarrow> nat \<Rightarrow> bool" where
  "upper_part s d \<longleftrightarrow> (\<forall>i \<ge> 955. pmem s d i =
     (if i = pdx UVPT then page2pa d OR PTE_P OR PTE_U else pmem s (kern_pgdir s) i))"

definition space_ok :: "nat set \<Rightarrow> (nat \<Rightarrow> nat) \<Rightarrow> nat list \<Rightarrow> kstate \<Rightarrow> bool" where
  "space_ok D E xs s \<longleftrightarrow> vm_ok {..<955} D E xs s \<and> kern_pgdir s \<in> D \<and> npages s \<le> 2 ^ 16 \<and>
     (\<forall>i < 955. pmem s (kern_pgdir s) i = 0) \<and> (\<forall>d \<in> D. d \<noteq> kern_pgdir s \<longrightarrow> upper_part s d) \<and>
     0xb8 < npages s \<and> 0 < E 0xb8 \<and> user_data D E s 0xb8 \<and>
     (\<forall>q. maps {..<955} D s q \<noteq> {} \<longrightarrow> user_data D E s q)"

lemma space_okD:
  assumes "space_ok D E xs s"
  shows "vm_ok {..<955} D E xs s" "kern_pgdir s \<in> D" "npages s \<le> 2 ^ 16" "\<forall>i < 955. pmem s (kern_pgdir s) i = 0"
    "\<forall>d \<in> D. d \<noteq> kern_pgdir s \<longrightarrow> upper_part s d" "0xb8 < npages s" "0 < E 0xb8" "user_data D E s 0xb8"
    "maps {..<955} D s q \<noteq> {} \<Longrightarrow> user_data D E s q"
  using assms by (simp_all add: space_ok_def)

lemma space_dir_bound: "space_ok D E xs s \<Longrightarrow> d \<in> D \<Longrightarrow> d < 2 ^ 16"
  using tables_okD(1) [OF vm_okD(5) [OF space_okD(1)], of D E xs s d] space_okD(3) [of D E xs s] by linarith

lemma held_not_free:
  assumes "vm_ok I D E xs s" "0 < E q"
  shows "q \<notin> set xs"
  using free_page_unused(3) [OF assms(1), of q] assms(2) by auto

lemma mapped_is_data:
  assumes "space_ok D E xs s" "maps {..<955} D s q \<noteq> {}"
  shows "user_data D E s q \<and> q \<notin> set xs"
  using free_page_unused(1) [OF space_okD(1) [OF assms(1)], of q] space_okD(9) [OF assms] assms(2) by auto

lemma space_kern_ok:
  assumes ok: "space_ok D E xs s" and r: "unat (pp_ref (pages s 0xb8)) < 65535"
  shows "kern_ok xs s"
proof -
  have "kern_pgdir s \<notin> set xs" using tables_okD(2) [OF vm_okD(5) [OF space_okD(1) [OF ok]] space_okD(2) [OF ok]] .
  moreover have "0xb8 \<notin> set xs" by (rule held_not_free [OF space_okD(1,7) [OF ok]])
  ultimately show ?thesis
    using ok r space_dir_bound [OF ok space_okD(2) [OF ok]] by (simp add: kern_ok_def space_ok_def)
qed

text \<open>
  A step that keeps the directories above \<open>UTOP\<close> and the kernel's directory, maps only data
  pages, and turns only free pages into tables.
\<close>

lemma space_ok_step:
  assumes ok: "space_ok D E xs s" and t: "vm_ok {..<955} D E ys t" "kern_pgdir t = kern_pgdir s" "npages t = npages s"
    and dir: "\<And>e j. e \<in> D \<Longrightarrow> e = kern_pgdir s \<or> 955 \<le> j \<Longrightarrow> pmem t e j = pmem s e j"
    and map: "\<And>q. maps {..<955} D t q \<noteq> {} \<Longrightarrow> user_data D E s q \<and> q \<notin> set xs"
    and tab: "\<And>q. is_table {..<955} D t q \<Longrightarrow> is_table {..<955} D s q \<or> q \<in> set xs"
  shows "space_ok D E ys t"
proof -
  have data: "user_data D E t q" if "user_data D E s q" "q \<notin> set xs" for q
    using that tab [of q] by (auto simp: user_data_def)
  have "0xb8 \<notin> set xs" by (rule held_not_free [OF space_okD(1,7) [OF ok]])
  then have "user_data D E t 0xb8" by (rule data [OF space_okD(8) [OF ok]])
  moreover have "upper_part t d" if "d \<in> D" "d \<noteq> kern_pgdir s" for d
    using space_okD(2,5) [OF ok] that dir by (simp add: upper_part_def t(2))
  moreover have "\<forall>i < 955. pmem t (kern_pgdir t) i = 0"
    using space_okD(2,4) [OF ok] dir by (simp add: t(2))
  ultimately show ?thesis using ok t data map unfolding space_ok_def by simp
qed

lemma space_ok_cong:
  assumes "space_ok D E xs s" "pmem t = pmem s" "npages t = npages s" "pages t = pages s"
    "page_free_list t = page_free_list s" "kern_pgdir t = kern_pgdir s"
  shows "space_ok D E xs t"
proof (rule space_ok_step [OF assms(1) vm_ok_cong [OF space_okD(1) [OF assms(1)] assms(2-5)] assms(6,3)])
  show "user_data D E s q \<and> q \<notin> set xs" if "maps {..<955} D t q \<noteq> {}" for q
    using that mapped_is_data [OF assms(1)] by (simp add: maps_pmem [OF assms(2)])
qed (simp_all add: assms(2) is_table_cong [OF assms(2)])

section \<open>Page table operations\<close>

text \<open>A page that may be inserted: it exists, is not free, and is data.\<close>

definition insertable :: "nat set \<Rightarrow> (nat \<Rightarrow> nat) \<Rightarrow> nat list \<Rightarrow> kstate \<Rightarrow> nat \<Rightarrow> bool" where
  "insertable D E xs s pp \<longleftrightarrow> pp < npages s \<and> pp \<notin> set xs \<and> user_data D E s pp \<and> unat (pp_ref (pages s pp)) < 65535"

lemma slot_effect_maps:
  assumes eff: "slot_effect I D d va v s t" and q: "maps I D t q \<noteq> {}"
  shows "maps I D s q \<noteq> {} \<or> v AND PTE_P \<noteq> 0 \<and> unat (PGNUM v) = q"
proof -
  obtain e j k where x: "e \<in> D" "j \<in> I" "k < 1024" "slot t (e, j, k) AND PTE_P \<noteq> 0" "unat (PGNUM (slot t (e, j, k))) = q"
    using q by (auto simp: maps_def)
  have "slot t (e, j, k) = (if (e, j, k) = va_slot d va then v else slot s (e, j, k))"
    using eff x(1,2) by (simp add: slot_effect_def)
  then show ?thesis using x by (auto simp: maps_def split: if_splits)
qed

lemma space_insert:
  assumes ok: "space_ok D E xs s" and d: "d \<in> D" "d \<noteq> kern_pgdir s" "pdx va \<in> {..<955}" and perm: "perm < 4096"
    and pp: "insertable D E xs s pp" and t: "page_insert d (Some pp) va perm s = Return r t"
  shows "\<exists>ys. space_ok D E ys t"
proof (cases "present s d (pdx va) \<or> xs \<noteq> []")
  case False
  then have "t = s" using page_insert_no_table [of "{..<955}" D E s d va "Some pp" perm] space_okD(1) [OF ok] d t by simp
  then show ?thesis using ok by blast
next
  case True
  note vm = space_okD(1) [OF ok]
  have p: "pp < npages s" "pp \<notin> set xs" "user_data D E s pp" "unat (pp_ref (pages s pp)) < 65535"
    using pp by (simp_all add: insertable_def)
  obtain ys where ys: "vm_ok {..<955} D E ys t" "slot_effect {..<955} D d va (page2pa pp OR perm OR PTE_P) s t"
    using page_insert_spec [OF vm d(1,3) p(1,2,4) perm True] t by auto
  have fr: "vm_frame s t" by (rule Return_frame [OF t frame_page_insert])
  have pp20: "pp < 2 ^ 20" using p(1) vm_okD(1) [OF vm] by (simp add: mem_ok_def)
  have "space_ok D E ys t"
  proof (rule space_ok_step [OF ok ys(1)])
    show "kern_pgdir t = kern_pgdir s" "npages t = npages s" using fr by (simp_all add: vm_frame_def)
    show "pmem t e j = pmem s e j" if "e \<in> D" "e = kern_pgdir s \<or> 955 \<le> j" for e j
      using ys(2) that d(2,3) by (auto simp: slot_effect_def)
    show "user_data D E s q \<and> q \<notin> set xs" if "maps {..<955} D t q \<noteq> {}" for q
      using slot_effect_maps [OF ys(2) that] new_entry(2) [OF pp20 perm] p(2,3) mapped_is_data [OF ok] by auto
    show "is_table {..<955} D s q \<or> q \<in> set xs" if "is_table {..<955} D t q" for q
      by (rule page_insert_is_table [OF vm d(1,3) p(2,4) t that])
  qed
  then show ?thesis by blast
qed

lemma space_remove:
  assumes ok: "space_ok D E xs s" and d: "d \<in> D" "pdx va \<in> {..<955}"
  shows "\<exists>t ys. page_remove d va s = Return () t \<and> space_ok D E ys t"
proof -
  note vm = space_okD(1) [OF ok]
  obtain t ys where t: "page_remove d va s = Return () t" "vm_ok {..<955} D E ys t"
      "slot_effect {..<955} D d va (if mapped d va s then 0 else slot s (va_slot d va)) s t"
      "\<forall>e \<in> D. pmem t e = pmem s e"
    using page_remove_spec [OF vm d] by blast
  have fr: "vm_frame s t" by (rule Return_frame [OF t(1) frame_page_remove])
  have m: "maps {..<955} D s q \<noteq> {}" if "maps {..<955} D t q \<noteq> {}" for q
    using slot_effect_maps [OF t(3) that] by (auto simp: mapped_def split: if_splits)
  have "space_ok D E ys t"
  proof (rule space_ok_step [OF ok t(2)])
    show "kern_pgdir t = kern_pgdir s" "npages t = npages s" using fr by (simp_all add: vm_frame_def)
    show "pmem t e j = pmem s e j" if "e \<in> D" for e j using t(4) that by simp
    show "user_data D E s q \<and> q \<notin> set xs" if "maps {..<955} D t q \<noteq> {}" for q
      by (rule mapped_is_data [OF ok m [OF that]])
    show "is_table {..<955} D s q \<or> q \<in> set xs" if "is_table {..<955} D t q" for q
      using that dirs_is_table [of D t s] t(4) by metis
  qed
  then show ?thesis using t(1) by blast
qed

text \<open>A page taken off the free list may be inserted anywhere, or put back.\<close>

lemma space_ok_data:
  assumes ok: "space_ok D E xs s" and q: "\<not> is_table {..<955} D s q"
  shows "space_ok D E xs (s\<lparr>pmem := (pmem s)(q := f)\<rparr>)"
proof -
  let ?t = "s\<lparr>pmem := (pmem s)(q := f)\<rparr>"
  have dir: "pmem ?t e = pmem s e" if "e \<in> D" for e using that q by (auto simp: is_table_def)
  have tab: "is_table {..<955} D ?t x = is_table {..<955} D s x" for x using dir by (rule dirs_is_table)
  have m: "maps {..<955} D ?t x = maps {..<955} D s x" for x
    using q by (intro maps_cong) (auto simp: slot_def is_table_def present_def table_def)
  note vm = space_okD(1) [OF ok]
  have tb: "tables_ok {..<955} D xs ?t"
    using vm_okD(5) [OF vm] dir unfolding tables_ok_def by (simp add: present_def table_def)
  have "vm_ok {..<955} D E xs ?t"
    using vm tb by (simp add: vm_ok_def refs_ok_def m tab mem_ok_def free_list_def pglist.on_list_def)
  then show ?thesis
  proof (rule space_ok_step [OF ok])
    show "user_data D E s x \<and> x \<notin> set xs" if "maps {..<955} D ?t x \<noteq> {}" for x
      using that mapped_is_data [OF ok] by (simp add: m)
    show "pmem ?t e j = pmem s e j" if "e \<in> D" for e j using dir [OF that] by simp
  qed (simp_all add: tab)
qed

lemma space_alloc:
  assumes ok: "space_ok D E xs s" and t: "page_alloc fl s = Return r t"
  shows "\<exists>ys. space_ok D E ys t \<and> (\<forall>p. r = Some p \<longrightarrow> insertable D E ys t p)"
proof (cases xs)
  case Nil
  then have "t = s" "r = None" using t page_alloc_empty vm_okD(2) [OF space_okD(1) [OF ok]] by simp_all
  then show ?thesis using ok by blast
next
  case (Cons x zs)
  note vm = space_okD(1) [OF ok [unfolded Cons]]
  note a = vm_ok_alloc [OF vm t]
  have t': "t = (if fl AND ALLOC_ZERO \<noteq> 0 then fill_frame x 0 (page_unlink s) else page_unlink s)"
    using t page_alloc_Cons [OF vm_okD(2,1) [OF vm], of fl] by auto
  have x: "x < npages s" "x \<notin> set zs" "pp_ref (pages s x) = 0"
    using vm_okD(2) [OF vm] free_list_distinct [of s "x # zs"] by (auto simp: free_list_def)
  have dir: "pmem t e = pmem s e" if "e \<in> D" for e
    using tables_okD(2) [OF vm_okD(5) [OF vm] that] t' by (auto split: if_splits)
  have tab: "is_table {..<955} D t q = is_table {..<955} D s q" for q using dir by (rule dirs_is_table)
  have fr: "vm_frame s t" by (rule Return_frame [OF t frame_page_alloc])
  have m: "maps {..<955} D t q = maps {..<955} D s q" for q using a by (intro maps_cong) simp
  have "space_ok D E zs t"
  proof (rule space_ok_step [OF ok])
    show "vm_ok {..<955} D E zs t" using a by blast
    show "kern_pgdir t = kern_pgdir s" "npages t = npages s" using fr by (simp_all add: vm_frame_def)
    show "user_data D E s q \<and> q \<notin> set xs" if "maps {..<955} D t q \<noteq> {}" for q
      using that mapped_is_data [OF ok] by (simp add: m)
  qed (simp_all add: dir tab)
  moreover have "user_data D E t x"
    using free_page_unused [OF vm, of x] by (simp add: user_data_def tab)
  moreover have "unat (pp_ref (pages t x)) < 65535"
    using x(3) t' by (simp add: page_unlink_def split: option.splits)
  ultimately show ?thesis using a x by (auto simp: insertable_def)
qed

lemma space_insert_fails:
  assumes ok: "space_ok D E xs s" and d: "d \<in> D" "pdx va \<in> {..<955}" and perm: "perm < 4096"
    and pp: "insertable D E xs s pp" and t: "page_insert d (Some pp) va perm s = Return (- E_NO_MEM) t"
  shows "t = s"
proof (cases "present s d (pdx va) \<or> xs \<noteq> []")
  case True
  have p: "pp < npages s" "pp \<notin> set xs" "unat (pp_ref (pages s pp)) < 65535" using pp by (simp_all add: insertable_def)
  show ?thesis using page_insert_spec [OF space_okD(1) [OF ok] d p perm True] t by auto
next
  case False
  then show ?thesis using page_insert_no_table [of "{..<955}" D E s d va "Some pp" perm] space_okD(1) [OF ok] d t by simp
qed

text \<open>Looking an address up changes nothing, whatever the address.\<close>

lemma page_lookup_state: "page_lookup d va s = Return r t \<Longrightarrow> t = s"
  by (auto simp: page_lookup_def pgdir_walk_def KADDR_def pa2page_def Let_def elim!: obind_ReturnE
      split: option.split_asm if_split_asm)

section \<open>Freeing and creating an address space\<close>

lemma maps_mono: "maps I (D - C) s q \<subseteq> maps I D s q"
  by (auto simp: maps_def)

lemma is_table_mono: "is_table I (D - C) s q \<Longrightarrow> is_table I D s q"
  by (auto simp: is_table_def)

lemma space_env_free:
  assumes ok: "space_ok D E xs s" and e: "env_pgdir (envs s e) = Some d" "d \<in> D" "d \<noteq> kern_pgdir s"
  shows "\<exists>t ys. env_free e s = Return () t \<and> space_ok (D - {d}) E ys t \<and>
    envs t = (envs s)(e := freed_env (env_free_list s) (envs s e)) \<and> env_free_list t = Some e \<and>
    cpus t = cpus s \<and> this_cpu t = this_cpu s \<and> kern_pgdir t = kern_pgdir s \<and>
    cr3 t = (if curenv s = Some e then page2pa (kern_pgdir s) else cr3 s)"
proof -
  obtain t ys where t: "env_free e s = Return () t" "vm_ok {..<955} (D - {d}) E ys t"
      "slots_kept {..<955} (D - {d}) (\<lambda>_. False) s t"
      "envs t = (envs s)(e := freed_env (env_free_list s) (envs s e))" "env_free_list t = Some e"
      "cpus t = cpus s" "this_cpu t = this_cpu s" "kern_pgdir t = kern_pgdir s" "npages t = npages s"
      "cr3 t = (if curenv s = Some e then page2pa (kern_pgdir s) else cr3 s)"
    using env_free_spec [OF space_okD(1) [OF ok] e(1,2) space_dir_bound [OF ok e(2)] space_dir_bound [OF ok space_okD(2) [OF ok]]]
    by auto
  note same = slots_kept_same [OF t(3)]
  have dir: "pmem t x = pmem s x" if "x \<in> D" "x \<noteq> d" for x using t(3) that by (auto simp: slots_kept_def)
  have data: "user_data (D - {d}) E t q" if "user_data D E s q" for q
    using that is_table_mono [of "{..<955}" D "{d}" s q] by (auto simp: user_data_def same(2))
  have "user_data (D - {d}) E t q" if "maps {..<955} (D - {d}) t q \<noteq> {}" for q
    using that maps_mono [of "{..<955}" D "{d}" s q] space_okD(9) [OF ok, of q] data [of q] unfolding same(1) by auto
  moreover have "kern_pgdir s \<in> D" by (rule space_okD(2) [OF ok])
  ultimately have "space_ok (D - {d}) E ys t"
    using ok t(2,8,9) e(3) data [OF space_okD(8) [OF ok]] dir unfolding space_ok_def by (simp add: upper_part_def)
  then show ?thesis using t by blast
qed

lemma setup_state_table:
  assumes ok: "vm_ok {..<955} D E (p # xs) s" and k: "kern_ok (p # xs) s"
    and q: "is_table {..<955} (insert p D) (setup_state e p s) q"
  shows "is_table {..<955} D s q \<or> q = p"
proof -
  note st = setup_state_ok [OF ok k, where e = e]
  have "\<not> present (setup_state e p s) p i" if "i < 955" for i
    using st(4) k that UVPT_pdx by (auto simp: present_def kern_ok_def)
  moreover have "pmem (setup_state e p s) x = pmem s x" if "x \<in> D" for x
    using st(2) that by (auto simp: slots_kept_def)
  ultimately show ?thesis using q by (auto simp: is_table_def present_def table_def)
qed

lemma env_alloc_tables:
  assumes ok: "vm_ok {..<955} D E (p # xs) s" and k: "kern_ok (p # xs) s"
    and t: "env_alloc pid s = Return (0, Some e) t" "env_free_list s = Some e"
  shows "is_table {..<955} (insert p D) t q \<Longrightarrow> is_table {..<955} D s q \<or> q \<in> set (p # xs)"
    and "cr3 t = cr3 s" and "npages t = npages s"
proof -
  let ?s = "setup_state e p s"
  obtain u where u: "page_insert p (Some 0xb8) VGA_USER vga_perm ?s = Return 0 u" "t = env_unlink (upd_env e (fresh_env e pid) u)"
    using t by (auto simp: env_alloc_def env_setup_vm_unfold [OF ok k] assert_that_def elim!: obind_ReturnE split: if_split_asm)
  have "0xb8 \<notin> set xs" using k by (auto simp: kern_ok_def)
  moreover have "pdx VGA_USER \<in> {..<955}" using UVPT_pdx by simp
  ultimately have "is_table {..<955} (insert p D) ?s q \<or> q \<in> set xs" if "is_table {..<955} (insert p D) u q"
    using page_insert_is_table [OF setup_state_ok(1) [OF ok k] _ _ _ setup_state_ok(5) [OF ok k] u(1) that] by simp
  moreover have "is_table {..<955} (insert p D) t q = is_table {..<955} (insert p D) u q" by (rule is_table_cong) (simp add: u(2))
  ultimately show "is_table {..<955} D s q \<or> q \<in> set (p # xs)" if "is_table {..<955} (insert p D) t q"
    using that setup_state_table [OF ok k] by auto
  have "vm_frame ?s u" using Return_frame [OF u(1) frame_page_insert] .
  then show "cr3 t = cr3 s" "npages t = npages s" using setup_state_frame [of e p s] by (simp_all add: u(2) vm_frame_def)
qed

lemma space_env_alloc:
  assumes ok: "space_ok D E (p # xs) s" and r: "unat (pp_ref (pages s 0xb8)) < 65535" and xs: "xs \<noteq> []"
    and l: "env_list s (e # es)"
  shows "\<exists>t ys. env_alloc pid s = Return (0, Some e) t \<and> space_ok (insert p D) E ys t \<and> env_list t es \<and>
    envs t = (envs s)(e := fresh_env e pid ((envs s e)\<lparr>env_pgdir := Some p\<rparr>)) \<and> p \<notin> D \<and>
    cpus t = cpus s \<and> this_cpu t = this_cpu s \<and> kern_pgdir t = kern_pgdir s \<and> cr3 t = cr3 s"
proof -
  note vm = space_okD(1) [OF ok] and k = space_kern_ok [OF ok r]
  note p = free_page_bounds [OF vm k]
  obtain t ys where t: "env_alloc pid s = Return (0, Some e) t" "vm_ok {..<955} (insert p D) E ys t"
    "slots_kept {..<955} D (\<lambda>_. False) s t"
    "\<forall>i < 955. \<forall>l. slot t (p, i, l) = (if (p, i, l) = va_slot p VGA_USER then vga_entry else 0)"
    "\<forall>i \<ge> 955. pmem t p i = (if i = pdx UVPT then page2pa p OR PTE_P OR PTE_U else pmem s (kern_pgdir s) i)"
    "env_list t es" "envs t = (envs s)(e := fresh_env e pid ((envs s e)\<lparr>env_pgdir := Some p\<rparr>))"
    "cpus t = cpus s" "this_cpu t = this_cpu s" "kern_pgdir t = kern_pgdir s"
    using env_alloc_spec [OF vm k xs l, of pid] by blast
  have "env_free_list s = Some e" using l by (simp add: env_list_def envlist.on_list_def)
  note tab = env_alloc_tables [OF vm k t(1) this]
  have dir: "pmem t x = pmem s x" if "x \<in> D" for x using t(3) that by (auto simp: slots_kept_def)
  have data: "user_data (insert p D) E t q" if "user_data D E s q \<and> q \<notin> set (p # xs)" for q
    using that tab(1) [of q] by (auto simp: user_data_def)
  have vga: "user_data (insert p D) E t 0xb8"
    using data space_okD(8) [OF ok] held_not_free [OF space_okD(1,7) [OF ok]] by blast
  have vp: "unat (PGNUM vga_entry) = 0xb8" by (simp add: vga_entry_def page2pa_def PGNUM_def layout_defs)
  have "maps {..<955} D s q \<noteq> {} \<or> q = 0xb8" if q: "maps {..<955} (insert p D) t q \<noteq> {}" for q
  proof -
    obtain x i k where x: "x \<in> insert p D" "i < 955" "k < 1024" "slot t (x, i, k) AND PTE_P \<noteq> 0"
        "unat (PGNUM (slot t (x, i, k))) = q"
      using q by (auto simp: maps_def)
    show ?thesis
    proof (cases "x \<in> D")
      case True
      then have "slot t (x, i, k) = slot s (x, i, k)" using t(3) x(2) by (simp add: slots_kept_def)
      then show ?thesis using True x by (auto simp: maps_def)
    next
      case False
      then show ?thesis using t(4) x vp by (auto split: if_splits)
    qed
  qed
  then have "user_data (insert p D) E t q" if "maps {..<955} (insert p D) t q \<noteq> {}" for q
    using that vga data mapped_is_data [OF ok] by blast
  moreover have "upper_part t x" if "x \<in> insert p D" "x \<noteq> kern_pgdir s" for x
    using that ok t(5,10) dir [OF space_okD(2) [OF ok]] dir by (auto simp: upper_part_def space_ok_def)
  ultimately have "space_ok (insert p D) E ys t"
    using ok t(2,10) tab(3) vga dir [OF space_okD(2) [OF ok]] unfolding space_ok_def by simp
  then show ?thesis using t tab(2) p(7) by blast
qed

section \<open>The invariant\<close>

abbreviation live :: "kstate \<Rightarrow> nat \<Rightarrow> bool" where
  "live s e \<equiv> e < NENV \<and> env_status (envs s e) \<noteq> ENV_FREE"

definition dirs :: "kstate \<Rightarrow> nat set" where
  "dirs s = {d. \<exists>e. live s e \<and> env_pgdir (envs s e) = Some d}"

definition envs_ok :: "kstate \<Rightarrow> bool" where
  "envs_ok s \<longleftrightarrow> (\<forall>e < NENV. 0 \<le> sint (env_id (envs s e))) \<and>
     (\<forall>e. live s e \<longrightarrow> env_id (envs s e) \<noteq> 0 \<and> ENVX (env_id (envs s e)) = e \<and>
        (\<exists>d. env_pgdir (envs s e) = Some d \<and> d \<noteq> kern_pgdir s)) \<and>
     (\<forall>e f. live s e \<longrightarrow> live s f \<longrightarrow> env_pgdir (envs s e) = env_pgdir (envs s f) \<longrightarrow> e = f)"

definition mem_inv :: "(nat \<Rightarrow> nat) \<Rightarrow> kstate \<Rightarrow> bool" where
  "mem_inv E s \<longleftrightarrow> (\<exists>xs. space_ok (insert (kern_pgdir s) (dirs s)) E xs s) \<and> envs_ok s \<and> (\<exists>es. env_list s es)"

definition cur_inv :: "kstate \<Rightarrow> bool" where
  "cur_inv s \<longleftrightarrow> (case curenv s of None \<Rightarrow> cr3 s = page2pa (kern_pgdir s)
     | Some c \<Rightarrow> live s c \<and> cr3 s = page2pa (the (env_pgdir (envs s c))))"

definition kernel_inv :: "(nat \<Rightarrow> nat) \<Rightarrow> kstate \<Rightarrow> bool" where
  "kernel_inv E s \<longleftrightarrow> mem_inv E s \<and> cur_inv s"

lemma live_dir:
  assumes "envs_ok s" "live s e"
  obtains d where "env_pgdir (envs s e) = Some d" "d \<noteq> kern_pgdir s" "d \<in> dirs s"
proof -
  obtain d where "env_pgdir (envs s e) = Some d" "d \<noteq> kern_pgdir s" using assms unfolding envs_ok_def by blast
  moreover from this(1) have "d \<in> dirs s" using assms(2) unfolding dirs_def by blast
  ultimately show ?thesis by (rule that)
qed

text \<open>
  The invariant depends on the memory and on five fields of the environments. \<open>same_envs\<close>:
  the environments have the ids, directories and links they had, and the same are free.
\<close>

definition same_envs :: "kstate \<Rightarrow> kstate \<Rightarrow> bool" where
  "same_envs s t \<longleftrightarrow> env_free_list t = env_free_list s \<and> kern_pgdir t = kern_pgdir s \<and>
     (\<forall>e. env_pgdir (envs t e) = env_pgdir (envs s e) \<and> env_link (envs t e) = env_link (envs s e) \<and>
          env_id (envs t e) = env_id (envs s e) \<and>
          (env_status (envs t e) = ENV_FREE \<longleftrightarrow> env_status (envs s e) = ENV_FREE))"

lemma same_envs_cong:
  assumes "same_envs s t"
  shows "dirs t = dirs s" "envs_ok t = envs_ok s" "env_list t es = env_list s es"
proof -
  show "dirs t = dirs s" "envs_ok t = envs_ok s" using assms by (simp_all add: same_envs_def dirs_def envs_ok_def)
  have "en_link t = en_link s" using assms by (simp add: same_envs_def)
  then show "env_list t es = env_list s es"
    using assms on_list_cong [of t s es] by (simp add: env_list_def same_envs_def)
qed

lemma mem_inv_step:
  assumes "mem_inv E s" "same_envs s t"
    "\<And>xs. space_ok (insert (kern_pgdir s) (dirs s)) E xs s \<Longrightarrow> \<exists>ys. space_ok (insert (kern_pgdir s) (dirs s)) E ys t"
  shows "mem_inv E t"
  using assms same_envs_cong [OF assms(2)] by (auto simp: mem_inv_def) (simp add: same_envs_def)

lemma mem_inv_cong:
  assumes "mem_inv E s" "same_envs s t" "pmem t = pmem s" "npages t = npages s" "pages t = pages s"
    "page_free_list t = page_free_list s"
  shows "mem_inv E t"
proof (rule mem_inv_step [OF assms(1,2)])
  show "\<exists>ys. space_ok (insert (kern_pgdir s) (dirs s)) E ys t"
    if "space_ok (insert (kern_pgdir s) (dirs s)) E xs s" for xs
    using space_ok_cong [OF that assms(3-6)] assms(2) by (auto simp: same_envs_def)
qed

lemma cur_inv_cong:
  "same_envs s t \<Longrightarrow> curenv t = curenv s \<Longrightarrow> cr3 t = cr3 s \<Longrightarrow> cur_inv t = cur_inv s"
  by (auto simp: cur_inv_def same_envs_def split: option.splits)

lemma frame_same_envs: "vm_frame s t \<Longrightarrow> same_envs s t"
  by (simp add: vm_frame_def same_envs_def)

lemma upd_env_same:
  assumes "\<And>x. env_pgdir (f x) = env_pgdir x" "\<And>x. env_link (f x) = env_link x" "\<And>x. env_id (f x) = env_id x"
    "env_status (f (envs s e)) = ENV_FREE \<longleftrightarrow> env_status (envs s e) = ENV_FREE"
  shows "same_envs s (upd_env e f s)"
  using assms by (simp add: same_envs_def)

text \<open>Changes of other fields of a live environment.\<close>

lemma kernel_inv_upd_env:
  assumes "kernel_inv E s" and f: "\<And>x. env_pgdir (f x) = env_pgdir x" "\<And>x. env_link (f x) = env_link x"
    "\<And>x. env_id (f x) = env_id x" and "env_status (f (envs s e)) = ENV_FREE \<longleftrightarrow> env_status (envs s e) = ENV_FREE"
  shows "kernel_inv E (upd_env e f s)"
proof -
  note sm = upd_env_same [OF f assms(5)]
  have "mem_inv E (upd_env e f s)" using assms(1) by (intro mem_inv_cong [OF _ sm]) (simp_all add: kernel_inv_def)
  moreover have "cur_inv (upd_env e f s)" using cur_inv_cong [OF sm] assms(1) by (simp add: kernel_inv_def)
  ultimately show ?thesis by (simp add: kernel_inv_def)
qed

end
