(* ===== verification/KernelSys.thy ===== *)
theory KernelSys
  imports KernelInv
begin

text \<open>
  The kernel invariant under the environment routines, the scheduler and every system call.
\<close>

section \<open>Environments\<close>

lemma mem_inv_space:
  assumes "mem_inv E s"
  obtains xs where "space_ok (insert (kern_pgdir s) (dirs s)) E xs s"
  using assms by (auto simp: mem_inv_def)

lemma freed_dirs:
  assumes inv: "envs_ok s" and e: "live s e" "env_pgdir (envs s e) = Some d"
    and t: "envs t = (envs s)(e := freed_env l (envs s e))" "kern_pgdir t = kern_pgdir s"
  shows "dirs t = dirs s - {d}" "envs_ok t"
proof -
  have other: "x = e" if "live s x" "env_pgdir (envs s x) = Some d" for x
    using inv e that unfolding envs_ok_def by metis
  have lv: "live t x \<longleftrightarrow> live s x \<and> x \<noteq> e" for x by (auto simp: t(1) freed_env_def)
  have pg: "env_pgdir (envs t x) = env_pgdir (envs s x)" if "x \<noteq> e" for x using that by (simp add: t(1))
  have "y \<in> dirs t \<longleftrightarrow> (\<exists>x. live s x \<and> x \<noteq> e \<and> env_pgdir (envs s x) = Some y)" for y
    unfolding dirs_def mem_Collect_eq lv using pg by metis
  moreover have "(\<exists>x. live s x \<and> x \<noteq> e \<and> env_pgdir (envs s x) = Some y) \<longleftrightarrow> y \<in> dirs s \<and> y \<noteq> d" for y
    using other e unfolding dirs_def mem_Collect_eq by (metis option.inject)
  ultimately show "dirs t = dirs s - {d}" by blast
  show "envs_ok t"
    unfolding envs_ok_def lv
  proof (intro conjI allI impI)
    show "0 \<le> sint (env_id (envs t x))" if "x < NENV" for x
      using inv that by (simp add: envs_ok_def t(1) freed_env_def)
  qed (use inv in \<open>auto simp: envs_ok_def t\<close>)
qed

lemma mem_inv_env_free:
  assumes inv: "mem_inv E s" and e: "live s e"
  shows "\<exists>t. env_free e s = Return () t \<and> mem_inv E t \<and> kern_pgdir t = kern_pgdir s \<and>
    cpus t = cpus s \<and> this_cpu t = this_cpu s \<and> (\<forall>x. x \<noteq> e \<longrightarrow> envs t x = envs s x) \<and>
    cr3 t = (if curenv s = Some e then page2pa (kern_pgdir s) else cr3 s)"
proof -
  let ?D = "insert (kern_pgdir s) (dirs s)"
  have ok: "envs_ok s" using inv by (simp add: mem_inv_def)
  obtain es where l: "env_list s es" using inv by (auto simp: mem_inv_def)
  obtain xs where sp: "space_ok ?D E xs s" using inv by (rule mem_inv_space)
  obtain d where d: "env_pgdir (envs s e) = Some d" "d \<noteq> kern_pgdir s" "d \<in> dirs s"
    using ok e by (rule live_dir)
  obtain t ys where t: "env_free e s = Return () t" "space_ok (?D - {d}) E ys t"
      "envs t = (envs s)(e := freed_env (env_free_list s) (envs s e))" "env_free_list t = Some e"
      "cpus t = cpus s" "this_cpu t = this_cpu s" "kern_pgdir t = kern_pgdir s"
      "cr3 t = (if curenv s = Some e then page2pa (kern_pgdir s) else cr3 s)"
    using space_env_free [OF sp d(1) insertI2 [OF d(3)] d(2)] by blast
  note fd = freed_dirs [OF ok e d(1) t(3,7)]
  have "env_list t (e # es)" using env_list_free [OF l _ _ t(3,4)] e by blast
  moreover have "?D - {d} = insert (kern_pgdir t) (dirs t)" using d(2) by (auto simp: fd(1) t(7))
  ultimately have "mem_inv E t" using t(2) fd(2) by (auto simp: mem_inv_def)
  then show ?thesis using t by auto
qed

lemma fresh_dirs:
  assumes inv: "envs_ok s" and e: "e < NENV" "env_status (envs s e) = ENV_FREE"
    and p: "p \<notin> insert (kern_pgdir s) (dirs s)"
    and t: "envs t = (envs s)(e := fresh_env e pid ((envs s e)\<lparr>env_pgdir := Some p\<rparr>))" "kern_pgdir t = kern_pgdir s"
  shows "dirs t = insert p (dirs s)" "envs_ok t"
proof -
  have lv: "live t x \<longleftrightarrow> live s x \<or> x = e" for x using e by (auto simp: t(1))
  have out: "env_pgdir (envs s x) \<noteq> Some p" if "live s x" for x using p that unfolding dirs_def by blast
  have "0 \<le> sint (env_id (envs s e))" using inv e(1) by (simp add: envs_ok_def)
  note id = next_env_id_props [OF e(1) this]
  have ne: "x \<noteq> e" if "live s x" for x using that e(2) by auto
  show "dirs t = insert p (dirs s)"
    unfolding dirs_def lv using e ne by (auto simp: t(1))
  show "envs_ok t"
    unfolding envs_ok_def lv
  proof (intro conjI allI impI)
    show "0 \<le> sint (env_id (envs t x))" if "x < NENV" for x
      using inv that id(1) by (auto simp: envs_ok_def t(1))
    fix x assume x: "live s x \<or> x = e"
    then have old: "live s x" if "x \<noteq> e" using that by blast
    have "env_id (envs t x) \<noteq> 0 \<and> ENVX (env_id (envs t x)) = x \<and> (\<exists>d. env_pgdir (envs t x) = Some d \<and> d \<noteq> kern_pgdir t)"
    proof (cases "x = e")
      case True
      then show ?thesis using id p by (auto simp: t)
    next
      case False
      then have "envs t x = envs s x" by (simp add: t(1))
      then show ?thesis using old [OF False] inv by (simp add: envs_ok_def t(2))
    qed
    then show "env_id (envs t x) \<noteq> 0" "ENVX (env_id (envs t x)) = x" "\<exists>d. env_pgdir (envs t x) = Some d \<and> d \<noteq> kern_pgdir t"
      by blast+
    fix y assume y: "live s y \<or> y = e" and eq: "env_pgdir (envs t x) = env_pgdir (envs t y)"
    show "x = y"
    proof (cases "x = e \<or> y = e")
      case True
      then show ?thesis using x y eq out [of x] out [of y] by (auto simp: t(1) split: if_splits)
    next
      case False
      then show ?thesis using x y eq inv by (auto simp: envs_ok_def t(1))
    qed
  qed
qed

text \<open>No page has as many references as its 16 bit counter can hold.\<close>

definition refs_bound :: "kstate \<Rightarrow> bool" where
  "refs_bound s \<longleftrightarrow> (\<forall>q. unat (pp_ref (pages s q)) < 65535)"

lemma E_NO_MEM_neg: "sint (- E_NO_MEM) < 0"
  by (simp add: E_NO_MEM_def)

lemma kernel_inv_new_env:
  assumes inv: "kernel_inv E s" and sp: "space_ok (insert (kern_pgdir s) (dirs s)) E (p # xs) s"
    and vr: "unat (pp_ref (pages s 0xb8)) < 65535" "xs \<noteq> []" and l: "env_list s (e # es)"
  shows "\<exists>u. env_alloc pid s = Return (0, Some e) u \<and> kernel_inv E u \<and> curenv u = curenv s \<and> live u e"
proof -
  have mi: "envs_ok s" "cur_inv s" using inv by (simp_all add: kernel_inv_def mem_inv_def)
  obtain u ys where u: "env_alloc pid s = Return (0, Some e) u"
      "space_ok (insert p (insert (kern_pgdir s) (dirs s))) E ys u" "env_list u es"
      "envs u = (envs s)(e := fresh_env e pid ((envs s e)\<lparr>env_pgdir := Some p\<rparr>))" "p \<notin> insert (kern_pgdir s) (dirs s)"
      "cpus u = cpus s" "this_cpu u = this_cpu s" "kern_pgdir u = kern_pgdir s" "cr3 u = cr3 s"
    using space_env_alloc [OF sp vr l, of pid] by blast
  have e: "e < NENV" "env_status (envs s e) = ENV_FREE" using l by (auto simp: env_list_def)
  note fd = fresh_dirs [OF mi(1) e u(5,4,8)]
  have "mem_inv E u" using u(2,3) fd by (auto simp: mem_inv_def u(8) insert_commute)
  moreover have cur: "curenv u = curenv s" using u(6,7) by (simp add: curenv_def)
  moreover have "cur_inv u"
  proof (cases "curenv s")
    case None
    then show ?thesis using mi(2) cur u(8,9) by (simp add: cur_inv_def)
  next
    case (Some c)
    then have "live s c" "c \<noteq> e" using mi(2) e(2) by (auto simp: cur_inv_def)
    then show ?thesis using mi(2) cur u(4,9) Some by (simp add: cur_inv_def)
  qed
  moreover have "live u e" using e(1) by (simp add: u(4))
  ultimately show ?thesis using u(1) by (simp add: kernel_inv_def)
qed

lemma kernel_inv_env_alloc:
  assumes inv: "kernel_inv E s" and r: "refs_bound s" and t: "env_alloc pid s = Return (r', y) t"
  shows "kernel_inv E t" "curenv t = curenv s"
    "y = None \<and> t = s \<and> (r' = - E_NO_MEM \<or> r' = - E_NO_FREE_ENV) \<or> (\<exists>e. y = Some e \<and> r' = 0 \<and> live t e)"
proof -
  have mi: "mem_inv E s" "envs_ok s" "cur_inv s" using inv by (simp_all add: kernel_inv_def mem_inv_def)
  obtain es where l: "env_list s es" using mi(1) by (auto simp: mem_inv_def)
  obtain xs where sp: "space_ok (insert (kern_pgdir s) (dirs s)) E xs s" using mi(1) by (rule mem_inv_space)
  note fl = vm_okD(2) [OF space_okD(1) [OF sp]]
  have vr: "unat (pp_ref (pages s 0xb8)) < 65535" using r by (simp add: refs_bound_def)
  consider "es = []" | e es' where "es = e # es'" "xs = []" | e es' p where "es = e # es'" "xs = [p]"
    | e es' p xs' where "es = e # es'" "xs = p # xs'" "xs' \<noteq> []"
    by (metis neq_Nil_conv)
  then have "kernel_inv E t \<and> curenv t = curenv s \<and>
    (y = None \<and> t = s \<and> (r' = - E_NO_MEM \<or> r' = - E_NO_FREE_ENV) \<or> (\<exists>e. y = Some e \<and> r' = 0 \<and> live t e))"
  proof cases
    case 1
    then show ?thesis using t l inv by (simp add: env_alloc_def env_list_def envlist.on_list_def)
  next
    case 2
    then show ?thesis using t l inv fl
      by (auto simp: env_alloc_def env_list_def envlist.on_list_def env_setup_vm_def page_alloc_empty E_NO_MEM_neg)
  next
    case 3
    then show ?thesis
      using t l env_setup_vm_panic [OF space_okD(1) [OF sp [unfolded 3(2)]] space_kern_ok [OF sp [unfolded 3(2)] vr]]
      by (simp add: env_alloc_def env_list_def envlist.on_list_def)
  next
    case 4
    obtain u where "env_alloc pid s = Return (0, Some e) u" "kernel_inv E u" "curenv u = curenv s" "live u e"
      using kernel_inv_new_env [OF inv sp [unfolded 4(2)] vr 4(3) l [unfolded 4(1)], of pid] by blast
    then show ?thesis using t by auto
  qed
  then show "kernel_inv E t" "curenv t = curenv s"
    "y = None \<and> t = s \<and> (r' = - E_NO_MEM \<or> r' = - E_NO_FREE_ENV) \<or> (\<exists>e. y = Some e \<and> r' = 0 \<and> live t e)"
    by blast+
qed

section \<open>Scheduling\<close>

lemma dispatched_same:
  assumes "live s e"
  shows "same_envs s (dispatched e s)"
  using assms
  by (auto simp: same_envs_def dispatched_def preempt_def drop_lock_def set_curenv_def lcr3_def upd_env_def split: option.splits)

lemma kernel_inv_dispatched:
  assumes "kernel_inv E s" "live s e"
  shows "kernel_inv E (dispatched e s)"
proof -
  have "mem_inv E (dispatched e s)"
    using assms by (intro mem_inv_cong [OF _ dispatched_same [OF assms(2)]]) (simp_all add: kernel_inv_def dispatched_def)
  moreover have "cur_inv (dispatched e s)"
    using assms(2) by (simp add: cur_inv_def dispatched_simps)
  ultimately show ?thesis by (simp add: kernel_inv_def)
qed

lemma kernel_inv_env_run:
  assumes inv: "kernel_inv E s" and e: "e < NENV"
  shows "holds (kernel_inv E) (env_run e s)"
proof (cases "env_status (envs (preempt s) e) = ENV_RUNNABLE \<and> has_lock s")
  case True
  then have l: "live s e" and st: "env_status (envs s e) = ENV_RUNNABLE \<or> curenv s = Some e \<and> env_status (envs s e) = ENV_RUNNING"
    using e by (auto simp: preempt_status split: if_splits)
  have "envs_ok s" "mem_inv E s" using inv by (simp_all add: kernel_inv_def mem_inv_def)
  obtain xs where sp: "space_ok (insert (kern_pgdir s) (dirs s)) E xs s" using \<open>mem_inv E s\<close> by (rule mem_inv_space)
  obtain d where d: "env_pgdir (envs s e) = Some d" "d \<in> dirs s" using \<open>envs_ok s\<close> l by (rule live_dir)
  then have "dir_ok (env_pgdir (envs s e))" using space_dir_bound [OF sp insertI2] by (simp add: dir_ok_def)
  then show ?thesis using env_run_ok [OF _ _ st] True kernel_inv_dispatched [OF inv l] by simp
next
  case False
  then show ?thesis
    by (auto simp: env_run_def assert_that_def PADDR_def unlock_kernel_def spin_unlock_def has_lock_def Let_def
        split: option.split)
qed

lemma cur_inv_cur_ok: "cur_inv s \<Longrightarrow> cur_ok (curenv s)"
  by (auto simp: cur_inv_def cur_ok_def)

lemma kernel_inv_sched_halt:
  assumes inv: "kernel_inv E s"
  shows "holds (kernel_inv E) (sched_halt s)"
proof -
  have mi: "mem_inv E s" using inv by (simp add: kernel_inv_def)
  obtain xs where sp: "space_ok (insert (kern_pgdir s) (dirs s)) E xs s" using mi by (rule mem_inv_space)
  have k: "kern_pgdir s < 2 ^ 16" by (rule space_dir_bound [OF sp insertI1])
  have "kernel_inv E (halted s)"
  proof -
    have "same_envs s (halted s)"
      by (simp add: same_envs_def halted_def drop_lock_def set_cpu_status_def lcr3_def set_curenv_def)
    then have "mem_inv E (halted s)" using mi
      by (intro mem_inv_cong [OF mi]) (simp_all add: halted_def drop_lock_def set_cpu_status_def lcr3_def set_curenv_def)
    moreover have "cur_inv (halted s)"
      by (simp add: cur_inv_def halted_def drop_lock_def set_cpu_status_def lcr3_def set_curenv_def curenv_def)
    ultimately show ?thesis by (simp add: kernel_inv_def)
  qed
  then show ?thesis
  proof (cases "has_lock s")
    case True
    then show ?thesis using \<open>kernel_inv E (halted s)\<close> inv by (simp add: sched_halt_ok [OF True k])
  next
    case False
    then have "\<not> has_lock (set_cpu_status CPU_HALTED (lcr3 pa (set_curenv None s)))" for pa
      by (simp add: has_lock_def set_cpu_status_def)
    then show ?thesis
      using inv by (auto simp: sched_halt_def PADDR_def unlock_kernel_def spin_unlock_def has_lock_def Let_def
          split: option.split)
  qed
qed

lemma kernel_inv_sched_yield:
  assumes inv: "kernel_inv E s"
  shows "holds (kernel_inv E) (sched_yield s)"
proof -
  have cur: "cur_ok (curenv s)" using inv by (simp add: kernel_inv_def cur_inv_cur_ok)
  have "e < NENV" if "find (\<lambda>idx. env_status (envs s idx) = ENV_RUNNABLE) (map (sched_idx (curenv s)) [1..<NENV + 1]) = Some e" for e
    using that unfolding sched_find_Some [OF cur] by (simp add: chosen_def)
  moreover have "c < NENV" if "curenv s = Some c" for c using cur that by (simp add: cur_ok_def)
  ultimately show ?thesis
    unfolding sched_yield_def using kernel_inv_env_run [OF inv] kernel_inv_sched_halt [OF inv]
    by (auto split: option.split)
qed

lemma kernel_inv_env_destroy:
  assumes inv: "kernel_inv E s" and e: "live s e"
  shows "holds (kernel_inv E) (env_destroy e s)"
proof (cases "env_status (envs s e) = ENV_RUNNING \<and> curenv s \<noteq> Some e")
  case True
  then show ?thesis using kernel_inv_upd_env [OF inv, of "\<lambda>x. x\<lparr>env_status := ENV_DYING\<rparr>" e] e by (simp add: env_destroy_def)
next
  case False
  have mi: "mem_inv E s" "cur_inv s" using inv by (simp_all add: kernel_inv_def)
  obtain t where t: "env_free e s = Return () t" "mem_inv E t" "kern_pgdir t = kern_pgdir s" "cpus t = cpus s" "this_cpu t = this_cpu s"
      "\<forall>x. x \<noteq> e \<longrightarrow> envs t x = envs s x" "cr3 t = (if curenv s = Some e then page2pa (kern_pgdir s) else cr3 s)"
    using mem_inv_env_free [OF mi(1) e] by blast
  have cur: "curenv t = curenv s" using t(4,5) by (simp add: curenv_def)
  show ?thesis
  proof (cases "curenv s = Some e")
    case True
    have "same_envs t (set_curenv None t)" by (simp add: same_envs_def)
    then have "mem_inv E (set_curenv None t)" by (intro mem_inv_cong [OF t(2)]) simp_all
    moreover have "cur_inv (set_curenv None t)" using True t(3,7) by (simp add: cur_inv_def)
    ultimately have "kernel_inv E (set_curenv None t)" by (simp add: kernel_inv_def)
    then show ?thesis using kernel_inv_sched_yield t(1) True False cur by (simp add: env_destroy_def)
  next
    case other: False
    then have "cur_inv t" using mi(2) t(3,6,7) cur by (auto simp: cur_inv_def split: option.splits)
    then show ?thesis using t(1,2) False other cur by (auto simp: env_destroy_def kernel_inv_def)
  qed
qed

section \<open>Memory calls\<close>

text \<open>Routines that return or stop, but never leave the kernel.\<close>

definition stays :: "('s, 'a) outcome \<Rightarrow> bool" where
  "stays m \<longleftrightarrow> (\<forall>l s. m \<noteq> Leave l s)"

lemma stays_simps [simp]:
  "stays (Return a s)" "stays (Panic e)" "stays (Fault e)" "stays Diverge" "\<not> stays (Leave l s)"
  "stays (assert_that b msg s)"
  by (simp_all add: stays_def assert_that_def)

lemma stays_obind: "stays m \<Longrightarrow> (\<And>a s. stays (f a s)) \<Longrightarrow> stays (obind m f)"
  by (cases m) simp_all

lemma stays_primitives: "stays (KADDR pa s)" "stays (PADDR kva s)" "stays (pa2page pa s)" "stays (page2kva p s)"
  by (simp_all add: KADDR_def PADDR_def pa2page_def page2kva_def)

lemma stays_page_alloc: "stays (page_alloc fl s)"
  by (auto simp: page_alloc_def page2kva_def Let_def intro!: stays_obind stays_primitives split: option.split)

lemma stays_pgdir_walk: "stays (pgdir_walk d va create s)"
  by (auto simp: pgdir_walk_def Let_def intro!: stays_obind stays_primitives stays_page_alloc split: option.split)

lemma stays_page_lookup: "stays (page_lookup d va s)"
  by (auto simp: page_lookup_def intro!: stays_obind stays_primitives stays_pgdir_walk split: option.split)

lemma stays_page_free: "stays (page_free p s)" "stays (page_decref p s)"
  by (simp_all add: page_free_def page_decref_def Let_def)

lemma stays_page_remove: "stays (page_remove d va s)"
  by (auto simp: page_remove_def intro!: stays_obind stays_page_lookup stays_page_free split: option.split)

lemma stays_page_insert: "stays (page_insert d pp va perm s)"
  by (auto simp: page_insert_def Let_def intro!: stays_obind stays_pgdir_walk stays_page_remove split: option.split)

lemma stays_envid2env: "stays (envid2env envid chk s)"
  by (simp add: envid2env_def Let_def split: option.split)

lemmas stays_rules = stays_page_alloc stays_page_lookup stays_page_free stays_page_remove stays_page_insert stays_envid2env

lemma holds_bind: "stays m \<Longrightarrow> (\<And>a t. m = Return a t \<Longrightarrow> holds P (f a t)) \<Longrightarrow> holds P (obind m f)"
  by (cases m) simp_all

lemma ENVX_bound: "ENVX envid < NENV"
proof -
  have "envid AND (of_nat NENV - 1) \<le> of_nat NENV - 1" by (rule word_and_le1)
  then have "ENVX envid \<le> unat (of_nat NENV - 1 :: u32)" unfolding ENVX_def by (rule word_le_nat_alt [THEN iffD1])
  then show ?thesis by (simp add: NENV_eq)
qed

lemma envid2env_live:
  assumes "kernel_inv E s" "envid2env envid chk s = Return (r, Some e) t"
  shows "t = s" "live s e"
proof -
  show "t = s" using assms(2) by (rule envid2env_state)
  have "live s e" if "curenv s = Some e" using assms(1) that by (simp add: kernel_inv_def cur_inv_def)
  then show "live s e" using assms(2) ENVX_bound [of envid]
    by (auto simp: envid2env_def Let_def split: if_split_asm option.split_asm)
qed

text \<open>The directories of the invariant, and what a page table routine has to keep.\<close>

abbreviation all_dirs :: "kstate \<Rightarrow> nat set" where
  "all_dirs s \<equiv> insert (kern_pgdir s) (dirs s)"

lemma kernel_inv_frame:
  assumes "kernel_inv E s" "vm_frame s t" "space_ok (all_dirs s) E ys t"
  shows "kernel_inv E t"
proof -
  note sm = frame_same_envs [OF assms(2)]
  have "mem_inv E t" by (rule mem_inv_step [OF _ sm]) (use assms in \<open>auto simp: kernel_inv_def\<close>)
  moreover have "cur_inv t" using cur_inv_cong [OF sm] vm_frame_curenv [OF assms(2)] assms(1,2)
    by (simp add: kernel_inv_def vm_frame_def)
  ultimately show ?thesis by (simp add: kernel_inv_def)
qed

lemma kernel_inv_space:
  assumes "kernel_inv E s"
  obtains xs where "space_ok (all_dirs s) E xs s"
  using assms by (auto simp: kernel_inv_def intro: mem_inv_space)

lemma kernel_inv_dir:
  assumes "kernel_inv E s" "live s e" "env_pgdir (envs s e) = Some d"
  shows "d \<in> all_dirs s" "d \<noteq> kern_pgdir s"
  using live_dir [of s e] assms by (auto simp: kernel_inv_def mem_inv_def)

lemma mapped_insertable:
  assumes sp: "space_ok D E xs s" and r: "refs_bound s" and d: "d \<in> D" "pdx va \<in> {..<955}" "mapped d va s"
  shows "insertable D E xs s (mapped_page d va s)"
proof -
  have "va_slot d va \<in> maps {..<955} D s (mapped_page d va s)"
    using d PTX_bound [of va] by (simp add: maps_def va_slot_def mapped_def mapped_page_def)
  then have "maps {..<955} D s (mapped_page d va s) \<noteq> {}" by blast
  then show ?thesis using mapped_is_data [OF sp] mapped_not_free [OF space_okD(1) [OF sp] d] r
    by (simp add: insertable_def refs_bound_def)
qed

text \<open>Inserting a page, or nothing, into the address space of a live environment.\<close>

lemma kernel_inv_insert:
  assumes inv: "kernel_inv E s" and sp: "space_ok (all_dirs s) E xs s" and e: "live s e" "env_pgdir (envs s e) = Some d"
    and va: "pdx va \<in> {..<955}" "perm < 4096"
    and pp: "\<And>p. pp = Some p \<Longrightarrow> insertable (all_dirs s) E xs s p" and t: "page_insert d pp va perm s = Return r t"
  shows "kernel_inv E t"
proof (cases pp)
  case (Some p)
  obtain ys where "space_ok (all_dirs s) E ys t"
    using space_insert [OF sp kernel_inv_dir [OF inv e] va pp [OF Some] t [unfolded Some]] by blast
  then show ?thesis by (rule kernel_inv_frame [OF inv Return_frame [OF t frame_page_insert]])
next
  case None
  note vm = space_okD(1) [OF sp] and d = kernel_inv_dir(1) [OF inv e]
  have "t = s"
  proof (cases "present s d (pdx va) \<or> xs \<noteq> []")
    case True
    then show ?thesis using insert_shared(2) [OF vm d va(1) d va True] t None by simp
  next
    case False
    then show ?thesis using page_insert_no_table [of "{..<955}" "all_dirs s" E s d va pp perm] vm d va(1) t by simp
  qed
  then show ?thesis using inv by simp
qed

lemma below_UTOP: "\<not> UTOP \<le> va \<Longrightarrow> pdx va \<in> {..<955}"
  by (simp add: UTOP_PDX [symmetric] linorder_not_le)

lemma holds_envid2env:
  assumes inv: "kernel_inv E s" and none: "\<And>r. holds P (f (r, None) s)" and some: "\<And>r e. live s e \<Longrightarrow> holds P (f (r, Some e) s)"
  shows "holds P (obind (envid2env envid chk s) f)"
proof (rule holds_bind [OF stays_envid2env])
  fix x t assume t: "envid2env envid chk s = Return x t"
  obtain r y where x: "x = (r, y)" by (cases x)
  show "holds P (f x t)"
  proof (cases y)
    case None
    then show ?thesis using none envid2env_state [OF t] by (simp add: x)
  next
    case (Some e)
    then show ?thesis using some envid2env_live [OF inv t [unfolded x Some]] by (simp add: x)
  qed
qed

lemma kernel_inv_page_unmap:
  assumes inv: "kernel_inv E s"
  shows "holds (kernel_inv E) (sys_page_unmap envid va s)"
  unfolding sys_page_unmap_def
proof (rule holds_envid2env [OF inv], goal_cases none some)
  case (some r e)
  obtain xs where sp: "space_ok (all_dirs s) E xs s" using inv by (rule kernel_inv_space)
  have "holds (kernel_inv E) (obind (page_remove d va s) (\<lambda>_ s. Return (0 :: u32) s))"
    if d: "env_pgdir (envs s e) = Some d" and va: "\<not> UTOP \<le> va" for d
  proof -
    obtain t ys where t: "page_remove d va s = Return () t" "space_ok (all_dirs s) E ys t"
      using space_remove [OF sp kernel_inv_dir(1) [OF inv some d] below_UTOP [OF va]] by blast
    then show ?thesis using kernel_inv_frame [OF inv Return_frame [OF t(1) frame_page_remove] t(2)] by simp
  qed
  then show ?case using inv by (auto split: option.split)
qed (use inv in simp)

text \<open>The end of \<open>sys_page_alloc\<close>: the page is inserted, or put back when that fails.\<close>

lemma kernel_inv_put_back:
  assumes inv: "kernel_inv E s" and sp: "space_ok (all_dirs s) E xs s" and u: "page_alloc ALLOC_ZERO s = Return (Some p) u"
  shows "\<exists>v. page_free p u = Return () v \<and> kernel_inv E v"
proof -
  note vm = space_okD(1) [OF sp]
  obtain zs where xs: "xs = p # zs"
    using u vm_okD(1,2) [OF vm] page_alloc_empty page_alloc_Cons by (cases xs) fastforce+
  note a = alloc_zero_free [OF vm_okD(2,1) [OF vm, unfolded xs]]
  have "\<not> is_table {..<955} (all_dirs s) s p" using free_page_unused(2) [OF vm] xs by simp
  then have "kernel_inv E (fill_frame p 0 s)" unfolding fill_frame_def
    using sp by (intro kernel_inv_frame [OF inv _ space_ok_data [OF sp]]) (simp_all add: vm_frame_def)
  then show ?thesis using u a by simp
qed

lemma kernel_inv_alloc_insert:
  assumes inv: "kernel_inv E s" and e: "live s e" "env_pgdir (envs s e) = Some d" and va: "pdx va \<in> {..<955}" "perm < 4096"
    and u: "page_alloc ALLOC_ZERO s = Return (Some p) u"
  shows "holds (kernel_inv E) (obind (page_insert d (Some p) va perm u) (\<lambda>r s.
    if r = - E_NO_MEM then obind (page_free p s) (\<lambda>_ s. Return (- E_NO_MEM) s) else Return 0 s))"
proof (rule holds_bind [OF stays_page_insert])
  fix r t assume t: "page_insert d (Some p) va perm u = Return r t"
  obtain xs where sp: "space_ok (all_dirs s) E xs s" using inv by (rule kernel_inv_space)
  obtain ys where ys: "space_ok (all_dirs s) E ys u" "insertable (all_dirs s) E ys u p"
    using space_alloc [OF sp u] by blast
  have fr: "vm_frame s u" by (rule Return_frame [OF u frame_page_alloc])
  have iu: "kernel_inv E u" by (rule kernel_inv_frame [OF inv fr ys(1)])
  have same: "all_dirs u = all_dirs s" "live u e" "env_pgdir (envs u e) = Some d"
    using same_envs_cong(1) [OF frame_same_envs [OF fr]] fr e by (simp_all add: vm_frame_def)
  note ys' = ys [folded same(1)]
  have "kernel_inv E t"
    by (rule kernel_inv_insert [OF iu ys'(1) same(2,3) va _ t]) (use ys'(2) in simp)
  moreover have "t = u" if "r = - E_NO_MEM"
    using space_insert_fails [OF ys'(1) kernel_inv_dir(1) [OF iu same(2,3)] va ys'(2)] t that by simp
  ultimately show "holds (kernel_inv E) (if r = - E_NO_MEM then obind (page_free p t) (\<lambda>_ s. Return (- E_NO_MEM) s) else Return 0 t)"
    using kernel_inv_put_back [OF inv sp u] by auto
qed

lemma kernel_inv_page_alloc:
  assumes inv: "kernel_inv E s"
  shows "holds (kernel_inv E) (sys_page_alloc envid va perm s)"
  unfolding sys_page_alloc_def
proof (rule holds_envid2env [OF inv], goal_cases none some)
  case (some r e)
  show ?case
  proof (cases "va \<ge> UTOP \<or> va mod PGSIZE \<noteq> 0 \<or> \<not> valid_perm perm")
    case True
    then show ?thesis unfolding prod.case option.case if_P [OF True] using inv by simp
  next
    case False
    then have va: "pdx va \<in> {..<955}" "perm < 4096" using below_UTOP [of va] valid_perm_bound by simp_all
    show ?thesis unfolding prod.case option.case if_not_P [OF False]
    proof (rule holds_bind [OF stays_page_alloc], goal_cases)
      case (1 page u)
      obtain xs where sp: "space_ok (all_dirs s) E xs s" using inv by (rule kernel_inv_space)
      have fr: "vm_frame s u" by (rule Return_frame [OF 1 frame_page_alloc])
      then have "kernel_inv E u" "envs u = envs s" using space_alloc [OF sp 1] kernel_inv_frame [OF inv fr] by (auto simp: vm_frame_def)
      then show ?case using kernel_inv_alloc_insert [OF inv some _ va] 1 by (auto split: option.split)
    qed
  qed
qed (use inv in simp)

text \<open>What \<open>sys_page_map\<close> and \<open>sys_ipc_try_send\<close> share: the page mapped in one environment is mapped in another.\<close>

lemma kernel_inv_share:
  assumes inv: "kernel_inv E s" and r: "refs_bound s" and e: "live s e" "env_pgdir (envs s e) = Some sd"
    and f: "live s f" "env_pgdir (envs s f) = Some dd"
    and va: "pdx srcva \<in> {..<955}" "pdx dstva \<in> {..<955}" "perm < 4096"
    and lk: "page_lookup sd srcva s = Return (pg, p) s" and t: "page_insert dd pg dstva perm s = Return c t"
  shows "kernel_inv E t"
proof -
  obtain xs where sp: "space_ok (all_dirs s) E xs s" using inv by (rule kernel_inv_space)
  note d = kernel_inv_dir(1) [OF inv e]
  have "pg = (if mapped sd srcva s then Some (mapped_page sd srcva s) else None)"
    using lookup_mapped_page(1) [OF space_okD(1) [OF sp] d va(1)] lk by simp
  then show ?thesis
    using mapped_insertable [OF sp r d va(1)] by (intro kernel_inv_insert [OF inv sp f va(2,3) _ t]) (auto split: if_splits)
qed

lemma kernel_inv_page_map:
  assumes inv: "kernel_inv E s" and r: "refs_bound s"
  shows "holds (kernel_inv E) (sys_page_map srcid srcva dstid dstva perm s)"
  unfolding sys_page_map_def
proof (rule holds_envid2env [OF inv], goal_cases none some)
  case (none r')
  show ?case unfolding prod.case
    by (rule holds_envid2env [OF inv]) (use inv in \<open>simp_all split: option.split\<close>)
next
  case (some r' e)
  show ?case unfolding prod.case
  proof (rule holds_envid2env [OF inv], goal_cases none some')
    case (some' r'' f)
    show ?case
    proof (cases "(srcva \<ge> UTOP \<or> dstva \<ge> UTOP \<or> srcva mod PGSIZE \<noteq> 0 \<or> dstva mod PGSIZE \<noteq> 0) \<or> \<not> valid_perm perm")
      case True
      then show ?thesis using inv by (simp only: prod.case option.case if_True if_False split: if_split) auto
    next
      case False
      then have va: "pdx srcva \<in> {..<955}" "pdx dstva \<in> {..<955}" "perm < 4096"
        using below_UTOP valid_perm_bound by simp_all
      have f1: "(srcva \<ge> UTOP \<or> dstva \<ge> UTOP \<or> srcva mod PGSIZE \<noteq> 0 \<or> dstva mod PGSIZE \<noteq> 0) = False" "valid_perm perm"
        using False by blast+
      have ins: "holds (kernel_inv E) (obind (page_insert dd pg dstva perm s) (\<lambda>r s. if r = - E_NO_MEM then Return (- E_NO_MEM) s else Return 0 s))"
        if d: "env_pgdir (envs s e) = Some sd" "env_pgdir (envs s f) = Some dd" and lk: "page_lookup sd srcva s = Return (pg, p) s"
        for sd dd pg p
        by (rule holds_bind [OF stays_page_insert]) (simp add: kernel_inv_share [OF inv r some d(1) some' d(2) va lk])
      have "holds (kernel_inv E) (obind (page_lookup sd srcva s) (\<lambda>(src_page, pte_ptr) s.
          case pte_ptr of None \<Rightarrow> Return (- E_INVAL) s
          | Some p \<Rightarrow> if perm AND PTE_W \<noteq> 0 \<and> load_pte p s AND PTE_W = 0 then Return (- E_INVAL) s
              else (case env_pgdir (envs s f) of None \<Rightarrow> Fault ''sys_page_map: NULL pgdir''
                | Some dd \<Rightarrow> obind (page_insert dd src_page dstva perm s) (\<lambda>r s.
                    if r = - E_NO_MEM then Return (- E_NO_MEM) s else Return 0 s))))"
        if d: "env_pgdir (envs s e) = Some sd" for sd
      proof (rule holds_bind [OF stays_page_lookup], goal_cases)
        case (1 x t)
        moreover from this have "t = s" by (rule page_lookup_state)
        ultimately show ?case using inv ins [OF d] by (cases x) (auto split: option.split)
      qed
      then show ?thesis unfolding prod.case option.case f1 by (simp split: option.split add: f1)
    qed
  qed (use inv in \<open>simp_all split: option.split\<close>)
qed

section \<open>Messages\<close>

lemma kernel_inv_send_page:
  assumes inv: "kernel_inv E s" and r: "refs_bound s" and c: "live s c" and e: "live s e"
    and va: "srcva < UTOP" "dstva < UTOP"
  shows "stays (ipc_send_page c e srcva dstva perm s)" "holds (\<lambda>t. kernel_inv E t \<and> live t e) (ipc_send_page c e srcva dstva perm s)"
proof -
  show "stays (ipc_send_page c e srcva dstva perm s)"
    by (auto simp: ipc_send_page_def intro!: stays_obind stays_rules split: option.split)
  let ?P = "\<lambda>t. kernel_inv E t \<and> live t e"
  have vs: "pdx srcva \<in> {..<955}" "pdx dstva \<in> {..<955}" using va below_UTOP by (simp_all add: linorder_not_le)
  have ins: "holds ?P (obind (page_insert td pg dstva perm s) (\<lambda>r s.
      if r = - E_NO_MEM then Return (- E_NO_MEM) s else Return 0 (upd_env e (\<lambda>x. x\<lparr>env_ipc_perm := perm\<rparr>) s)))"
    if d: "env_pgdir (envs s c) = Some cd" "env_pgdir (envs s e) = Some td" and lk: "page_lookup cd srcva s = Return (pg, p) s"
      and perm: "perm AND NOT PTE_SYSCALL = 0" for cd td pg p
  proof (rule holds_bind [OF stays_page_insert])
    fix r' t assume t: "page_insert td pg dstva perm s = Return r' t"
    have it: "kernel_inv E t" by (rule kernel_inv_share [OF inv r c d(1) e d(2) vs perm_bound [OF perm] lk t])
    have l: "live t e" using Return_frame [OF t frame_page_insert] e by (simp add: vm_frame_def)
    have "kernel_inv E (upd_env e (\<lambda>x. x\<lparr>env_ipc_perm := perm\<rparr>) t)" by (rule kernel_inv_upd_env [OF it]) simp_all
    then show "holds ?P (if r' = - E_NO_MEM then Return (- E_NO_MEM) t
        else Return 0 (upd_env e (\<lambda>x. x\<lparr>env_ipc_perm := perm\<rparr>) t))"
      using it l by simp
  qed
  show "holds ?P (ipc_send_page c e srcva dstva perm s)"
  proof (cases "env_pgdir (envs s c)")
    case None
    then show ?thesis by (simp add: ipc_send_page_def)
  next
    case (Some cd)
    show ?thesis
      unfolding ipc_send_page_def Some option.case
    proof (rule holds_bind [OF stays_page_lookup], goal_cases)
      case (1 x t)
      then have ts: "t = s" by (rule page_lookup_state [of cd srcva])
      obtain pg pt where x: "x = (pg, pt)" by (cases x)
      show ?case
        using inv e ins [OF Some _ 1 [unfolded ts x]]
        by (cases "dstva mod PGSIZE = 0") (auto simp: ts x assert_that_def split: option.split)
    qed
  qed
qed

lemma kernel_inv_deliver:
  assumes "kernel_inv E s" "live s e"
  shows "kernel_inv E (ipc_deliver e from val s)"
  unfolding ipc_deliver_def using assms by (intro kernel_inv_upd_env) simp_all

lemma kernel_inv_send:
  assumes inv: "kernel_inv E s" and r: "refs_bound s"
  shows "holds (kernel_inv E) (sys_ipc_try_send envid val srcva perm s)"
  unfolding sys_ipc_try_send_def
proof (rule holds_envid2env [OF inv], goal_cases none some)
  case (some r' e)
  let ?s = "upd_env e (\<lambda>x. x\<lparr>env_ipc_perm := 0\<rparr>) s" and ?dst = "env_ipc_dstva (envs s e)"
  have ki: "kernel_inv E ?s" by (rule kernel_inv_upd_env [OF inv]) simp_all
  have rs: "refs_bound ?s" "live ?s e" using r some by (simp_all add: refs_bound_def)
  have "holds (kernel_inv E) (obind (if srcva < UTOP \<and> ?dst < UTOP then ipc_send_page c e srcva ?dst perm ?s else Return 0 ?s)
      (\<lambda>r s. if r \<noteq> 0 then Return r s else Return 0 (ipc_deliver e (env_id (envs s c)) val s)))" if c: "curenv s = Some c" for c
  proof -
    have "live ?s c" using inv c by (auto simp: kernel_inv_def cur_inv_def)
    note sp = kernel_inv_send_page [OF ki rs(1) this rs(2), of srcva ?dst perm]
    show ?thesis
    proof (rule holds_bind)
      show "stays (if srcva < UTOP \<and> ?dst < UTOP then ipc_send_page c e srcva ?dst perm ?s else Return 0 ?s)" using sp(1) by simp
      fix a t assume "(if srcva < UTOP \<and> ?dst < UTOP then ipc_send_page c e srcva ?dst perm ?s else Return 0 ?s) = Return a t"
      then have "kernel_inv E t \<and> live t e" using sp(2) ki rs(2) by (auto split: if_splits)
      then show "holds (kernel_inv E) (if a \<noteq> 0 then Return a t else Return 0 (ipc_deliver e (env_id (envs t c)) val t))"
        using kernel_inv_deliver by simp
    qed
  qed
  note main = this
  have eq: "env_ipc_dstva (envs ?s e) = ?dst" "curenv ?s = curenv s" by simp_all
  show ?case
  proof (cases "r' = - E_BAD_ENV \<or> \<not> env_ipc_recving (envs s e)")
    case True
    then show ?thesis using inv by auto
  next
    case False
    then have "(r' = - E_BAD_ENV) = False" "(\<not> env_ipc_recving (envs s e)) = False" by simp_all
    then show ?thesis
      by (cases "curenv s") (simp_all only: prod.case option.case Let_def eq if_False holds_simps main)
  qed
qed (use inv in simp)

lemma kernel_inv_recv:
  assumes inv: "kernel_inv E s"
  shows "holds (kernel_inv E) (sys_ipc_recv dstva s)"
proof -
  have "holds (kernel_inv E) (obind (sched_yield (upd_env c (\<lambda>x. x\<lparr>env_ipc_dstva := dstva, env_ipc_recving := True,
      env_status := ENV_NOT_RUNNABLE\<rparr>) s)) (\<lambda>_ s. Return (0 :: u32) s))" if "curenv s = Some c" for c
  proof (rule holds_obind [OF kernel_inv_sched_yield])
    have "live s c" using inv that by (simp add: kernel_inv_def cur_inv_def)
    then show "kernel_inv E (upd_env c (\<lambda>x. x\<lparr>env_ipc_dstva := dstva, env_ipc_recving := True, env_status := ENV_NOT_RUNNABLE\<rparr>) s)"
      by (intro kernel_inv_upd_env [OF inv]) simp_all
  qed (simp add: sched_yield_no_return)
  then show ?thesis using inv by (auto simp: sys_ipc_recv_def sys_yield_def Let_def split: option.split)
qed

section \<open>Environment calls\<close>

lemma kernel_inv_set_status:
  assumes inv: "kernel_inv E s"
  shows "holds (kernel_inv E) (sys_env_set_status envid status s)"
proof -
  have "holds (kernel_inv E) (obind (envid2env envid True s) (\<lambda>(code, e) s.
        case e of None \<Rightarrow> Return (- E_BAD_ENV) s
        | Some e \<Rightarrow> Return 0 (upd_env e (\<lambda>x. x\<lparr>env_status :=
            (if status = status_runnable then ENV_RUNNABLE else ENV_NOT_RUNNABLE)\<rparr>) s)))"
  proof (rule holds_envid2env [OF inv], goal_cases none some)
    case (some r e)
    then show ?case using kernel_inv_upd_env [OF inv, of "\<lambda>x. x\<lparr>env_status :=
      (if status = status_runnable then ENV_RUNNABLE else ENV_NOT_RUNNABLE)\<rparr>" e] by simp
  qed (use inv in simp)
  then show ?thesis using inv by (simp add: sys_env_set_status_def)
qed

lemma kernel_inv_sys_destroy:
  assumes inv: "kernel_inv E s"
  shows "holds (kernel_inv E) (sys_env_destroy envid s)"
  unfolding sys_env_destroy_def
proof (rule holds_envid2env [OF inv], goal_cases none some)
  case (some r e)
  have "holds (kernel_inv E) (obind (env_destroy e s) (\<lambda>_ s. Return (0 :: u32) s))"
    by (rule holds_obind [OF kernel_inv_env_destroy [OF inv some]]) simp
  then show ?case using inv by simp
qed (use inv in simp)

lemma kernel_inv_exofork:
  assumes inv: "kernel_inv E s" and r: "refs_bound s"
  shows "holds (kernel_inv E) (sys_exofork s)"
proof (cases "curenv s")
  case None
  then show ?thesis by (simp add: sys_exofork_def)
next
  case (Some c)
  have child: "kernel_inv E (upd_env e h (upd_env e g (upd_env e (\<lambda>x. x\<lparr>env_status := ENV_NOT_RUNNABLE\<rparr>) t)))"
    if "kernel_inv E t" "live t e" "\<And>x. g x = x\<lparr>env_tf := v\<rparr>" "\<And>x. h x = x\<lparr>env_tf := w x\<rparr>" for t e g h v w
    using that by (intro kernel_inv_upd_env) simp_all
  show ?thesis
    unfolding sys_exofork_def Some option.case
  proof (rule holds_bind, goal_cases)
    case 1
    show ?case by (auto simp: env_alloc_def env_setup_vm_def Let_def intro!: stays_obind stays_rules stays_primitives split: option.split)
  next
    case (2 x t)
    obtain r' y where x: "x = (r', y)" by (cases x)
    note al = kernel_inv_env_alloc [OF inv r 2 [unfolded x]]
    show ?case using al(1,3) inv by (auto simp: x Let_def intro!: child)
  qed
qed

end
