(* ===== verification/KernelTrap.thy ===== *)
theory KernelTrap
  imports KernelSys
begin

text \<open>
  The kernel invariant through the dispatcher of system calls and the trap handler, and the
  kernel as a state machine: traps of any kind, stores of the running environment to its
  pages, and changes of the devices, in any order.
\<close>

section \<open>Printing\<close>

lemma holds_lift_kern: "holds (\<lambda>m. P (kern m)) (lift_kern r m) = holds P r"
  by (cases r) simp_all

lemma user_mem_loop_state:
  "user_mem_loop n d va perm s = Return r t \<Longrightarrow> \<exists>a. t = s\<lparr>user_mem_check_addr := a\<rparr>"
proof (induction n arbitrary: va s)
  case 0
  then have "t = s\<lparr>user_mem_check_addr := user_mem_check_addr s\<rparr>" by simp
  then show ?case by blast
next
  case (Suc n)
  obtain pg pte u where u: "page_lookup d va s = Return (pg, pte) u" using Suc.prems by (auto simp: obind_Return_iff)
  then have "u = s" by (rule page_lookup_state)
  then show ?case using Suc u by (auto split: option.split_asm if_split_asm)
qed

lemma stays_user_mem_loop: "stays (user_mem_loop n d va perm s)"
  by (induction n arbitrary: va s) (auto intro!: stays_obind stays_rules split: option.split)

text \<open>State the invariant does not mention.\<close>

lemma kernel_inv_other:
  assumes "kernel_inv E s" "envs t = envs s" "env_free_list t = env_free_list s" "kern_pgdir t = kern_pgdir s"
    "pmem t = pmem s" "npages t = npages s" "pages t = pages s" "page_free_list t = page_free_list s"
    "curenv t = curenv s" "cr3 t = cr3 s"
  shows "kernel_inv E t"
proof -
  have sm: "same_envs s t" using assms by (simp add: same_envs_def)
  have "mem_inv E t" using assms(1) by (intro mem_inv_cong [OF _ sm assms(5-8)]) (simp add: kernel_inv_def)
  moreover have "cur_inv t" using assms(1) cur_inv_cong [OF sm assms(9,10)] by (simp add: kernel_inv_def)
  ultimately show ?thesis by (simp add: kernel_inv_def)
qed

lemma check_addr_refl: "\<exists>a. s = s\<lparr>user_mem_check_addr := a\<rparr>"
  by (rule exI [of _ "user_mem_check_addr s"]) simp

lemma user_mem_check_state:
  assumes "user_mem_check e va len perm s = Return r t"
  shows "\<exists>a. t = s\<lparr>user_mem_check_addr := a\<rparr>"
proof (cases "ULIM \<le> va \<or> ULIM \<le> va + len \<or> va + len < va")
  case True
  then have "t = s\<lparr>user_mem_check_addr := (if ULIM \<le> va then va else ULIM)\<rparr>"
    using assms by (auto simp: user_mem_check_def Let_def split: if_splits)
  then show ?thesis by blast
next
  case False
  show ?thesis
  proof (cases "env_pgdir (envs s e)")
    case None
    then have "t = s" using assms False by (simp add: user_mem_check_def Let_def split: if_splits)
    then show ?thesis using check_addr_refl by simp
  next
    case (Some d)
    then show ?thesis using assms False
      by (intro user_mem_loop_state [of "unat (va + len - va)" d va perm s r]) (simp add: user_mem_check_def Let_def)
  qed
qed

lemma kernel_inv_destroy_env:
  assumes "kernel_inv E (kern m)" "live (kern m) e"
  shows "holds (\<lambda>m. kernel_inv E (kern m)) (destroy_env e m)"
  using kernel_inv_env_destroy [OF assms] by (simp add: destroy_env_def holds_lift_kern [of "kernel_inv E"])

lemma kernel_inv_mem_assert:
  assumes inv: "kernel_inv E (kern m)" and e: "live (kern m) e"
  shows "holds (\<lambda>m. kernel_inv E (kern m)) (user_mem_assert e va len perm m)"
  unfolding user_mem_assert_def
proof (rule holds_bind, goal_cases)
  case 1
  have "stays (user_mem_check e va len (perm OR PTE_U) (kern m))"
    by (simp add: user_mem_check_def Let_def stays_user_mem_loop split: option.split)
  then show ?case by (cases "user_mem_check e va len (perm OR PTE_U) (kern m)") simp_all
next
  case (2 r t)
  then obtain s where s: "user_mem_check e va len (perm OR PTE_U) (kern m) = Return r s" "kern t = s" by (auto simp: lift_kern_Return)
  obtain a where t: "s = (kern m)\<lparr>user_mem_check_addr := a\<rparr>" using user_mem_check_state [OF s(1)] by blast
  have "kernel_inv E s" by (rule kernel_inv_other [OF inv]) (simp_all add: t curenv_def)
  moreover have "live s e" using e by (simp add: t)
  ultimately show ?case using kernel_inv_destroy_env [of E "kprint (assert_message s e) t" e] by (simp add: s(2))
qed

lemma kernel_inv_cputs:
  assumes inv: "kernel_inv E (kern m)"
  shows "holds (\<lambda>m. kernel_inv E (kern m)) (sys_cputs str len m)"
proof (cases "curenv (kern m)")
  case None
  then show ?thesis by (simp add: sys_cputs_def)
next
  case (Some e)
  then have "live (kern m) e" using inv by (simp add: kernel_inv_def cur_inv_def)
  note a = kernel_inv_mem_assert [OF inv this]
  show ?thesis
    unfolding sys_cputs_def Some option.case
    by (rule holds_obind [OF a]) (auto split: option.split)
qed

section \<open>System calls\<close>

lemma holds_return: "holds P m \<Longrightarrow> holds P (obind m (\<lambda>_ s. Return a s))"
  by (cases m) simp_all

lemma kernel_inv_syscall:
  assumes inv: "kernel_inv E (kern m)" and r: "refs_bound (kern m)"
  shows "holds (\<lambda>m. kernel_inv E (kern m)) (syscall n a1 a2 a3 a4 a5 m)"
proof -
  note lift = holds_lift_kern [of "kernel_inv E"]
  have y: "holds (\<lambda>m. kernel_inv E (kern m)) (obind (lift_kern (sys_yield (kern m)) m) f)" for f :: "unit \<Rightarrow> machine \<Rightarrow> u32 mres"
    by (rule holds_obind) (simp_all add: lift sys_yield_def kernel_inv_sched_yield [OF inv] lift_kern_Return sched_yield_no_return)
  have g: "holds (kernel_inv E) (sys_getenvid (kern m))" using inv by (simp add: sys_getenvid_def split: option.split)
  have c: "holds (\<lambda>m. kernel_inv E (kern m)) (sys_cgetc m)" using inv by (auto simp: sys_cgetc_def split: option.split)
  show ?thesis
    unfolding syscall_def Let_def
    using inv by (auto simp: lift y g c holds_return kernel_inv_cputs [OF inv] kernel_inv_sys_destroy [OF inv] kernel_inv_exofork [OF inv r]
        kernel_inv_set_status [OF inv] kernel_inv_page_alloc [OF inv] kernel_inv_page_map [OF inv r] kernel_inv_page_unmap [OF inv]
        kernel_inv_send [OF inv r] kernel_inv_recv [OF inv] sys_env_set_pgfault_upcall_def)
qed

section \<open>Traps\<close>

abbreviation minv :: "(nat \<Rightarrow> nat) \<Rightarrow> machine \<Rightarrow> bool" where
  "minv E m \<equiv> kernel_inv E (kern m)"

lemma kernel_inv_lock:
  assumes "kernel_inv E s"
  shows "holds (kernel_inv E) (lock_kernel stk ebp s)" "kernel_inv E (set_cpu_status x s)"
proof -
  show "holds (kernel_inv E) (lock_kernel stk ebp s)"
    by (auto simp: lock_kernel_def spin_lock_def curenv_def intro!: kernel_inv_other [OF assms])
  show "kernel_inv E (set_cpu_status x s)"
    by (rule kernel_inv_other [OF assms]) (simp_all add: set_cpu_status_def curenv_def)
qed

lemma kernel_inv_destroy_current:
  assumes "minv E m" "curenv (kern m) = Some c"
  shows "holds (minv E) (destroy_env c m)"
proof -
  have "live (kern m) c" using assms by (simp add: kernel_inv_def cur_inv_def)
  then show ?thesis by (rule kernel_inv_destroy_env [OF assms(1)])
qed

lemma print_tf_kern [simp]: "kern (print_tf p r m) = kern m"
  by (simp add: print_tf_def)

lemma kernel_inv_dispatch:
  assumes inv: "minv E m" and r: "refs_bound (kern m)"
  shows "holds (minv E) (trap_dispatch p r' m)"
proof -
  have d: "holds (minv E) (case curenv (kern m') of None \<Rightarrow> Fault e | Some c \<Rightarrow> destroy_env c m')"
    if "minv E m'" for m' e
    using kernel_inv_destroy_current [OF that] by (simp split: option.split)
  have f: "holds (minv E) (page_fault_handler p r' m)"
  proof (cases "curenv (kern m)")
    case (Some c)
    have "holds (minv E) (destroy_env c (print_tf p r' (m\<lparr>con := x\<rparr>)))" for x
      using Some inv by (intro kernel_inv_destroy_current) simp_all
    then show ?thesis using Some by (simp add: page_fault_handler_def Let_def)
  qed (simp add: page_fault_handler_def)
  have eax: "kernel_inv E (set_eax r' v s)" if "kernel_inv E s" for v s
    using that by (auto simp: set_eax_def intro!: kernel_inv_upd_env split: tf_ref.split)
  have sy: "holds (minv E) (obind (syscall n a1 a2 a3 a4 a5 m) (\<lambda>v m. Return () (m\<lparr>kern := set_eax r' v (kern m)\<rparr>)))"
    for n a1 a2 a3 a4 a5
    by (rule holds_obind [OF kernel_inv_syscall [OF inv r]]) (simp add: eax)
  have y: "holds (minv E) (lift_kern (sched_yield (kern m)) m)"
    using kernel_inv_sched_yield [OF inv] by (simp add: holds_lift_kern [of "kernel_inv E"])
  show ?thesis
    unfolding trap_dispatch_def Let_def
    using inv f sy y d [of "print_tf p r' m"] by (simp only: holds_simps print_tf_kern split: if_split) auto
qed

lemma kernel_inv_trap_user:
  assumes inv: "kernel_inv E s"
  shows "holds (kernel_inv E) (trap_user p tf s)" 
  unfolding trap_user_def
proof (rule holds_obind [OF kernel_inv_lock(1) [OF inv]], rule holds_obind, goal_cases)
  case (2 _ t _ u)
  then have iu: "kernel_inv E u" by (simp add: assert_that_def split: if_split_asm)
  show ?case
  proof (cases "curenv u")
    case (Some c)
    then have c: "live u c" using iu by (simp add: kernel_inv_def cur_inv_def)
    have mi: "mem_inv E u" using iu by (simp add: kernel_inv_def)
    obtain v where v: "env_free c u = Return () v" "mem_inv E v" "kern_pgdir v = kern_pgdir u" "cr3 v = page2pa (kern_pgdir u)"
      using mem_inv_env_free [OF mi c] Some by auto
    have "mem_inv E (set_curenv None v)" by (rule mem_inv_cong [OF v(2)]) (simp_all add: same_envs_def)
    then have "kernel_inv E (set_curenv None v)" using v(3,4) by (simp add: kernel_inv_def cur_inv_def)
    note y = kernel_inv_sched_yield [OF this]
    have "kernel_inv E (upd_env c (\<lambda>x. x\<lparr>env_tf := tf\<rparr>) u)" by (rule kernel_inv_upd_env [OF iu]) simp_all
    then show ?thesis
      using y Some v(1) holds_obind [OF y, of "\<lambda>_ s. Return (EnvTf c) (upd_env c (\<lambda>x. x\<lparr>env_tf := tf\<rparr>) s)"]
      by (simp add: sched_yield_no_return)
  qed simp
qed simp

lemma lock_kernel_pages: "holds (\<lambda>t. pages t = pages s) (lock_kernel stk ebp s)"
  by (simp add: lock_kernel_def spin_lock_def)

lemma trap_user_Return: "trap_user p tf s = Return r t \<Longrightarrow> pages t = pages s"
  using lock_kernel_pages [of s "kstk p" "kebp p"]
  by (auto simp: trap_user_def assert_that_def sched_yield_no_return elim!: obind_ReturnE split: option.split_asm if_split_asm)

text \<open>The end of \<open>trap\<close>: back to the current environment, or to another one.\<close>

abbreviation resume :: "machine \<Rightarrow> unit mres" where
  "resume m \<equiv> (case curenv (kern m) of
     Some c \<Rightarrow> if env_status (envs (kern m) c) = ENV_RUNNING then lift_kern (env_run c (kern m)) m
               else lift_kern (sched_yield (kern m)) m
   | None \<Rightarrow> lift_kern (sched_yield (kern m)) m)"

lemma kernel_inv_resume:
  assumes m: "minv E m"
  shows "holds (minv E) (resume m)"
proof -
  have "c < NENV" if "curenv (kern m) = Some c" for c using m that by (simp add: kernel_inv_def cur_inv_def)
  then show ?thesis using kernel_inv_env_run [OF m] kernel_inv_sched_yield [OF m]
    by (auto simp: holds_lift_kern [of "kernel_inv E"] split: option.split)
qed

lemma note_dying_kern [simp]: "kern (note_dying m) = kern m"
  by (simp add: note_dying_def split: option.split)

lemma kernel_inv_handle:
  assumes m: "minv E m" "refs_bound (kern m)"
  shows "holds (minv E) (obind (if tf_cs tf AND 3 = 3 then lift_kern (trap_user p tf (kern m)) (note_dying m) else Return (StackTf tf) m)
    (\<lambda>r m. obind (trap_dispatch p r m) (\<lambda>_ m. resume m)))"
proof (rule holds_obind)
  show "holds (minv E) (if tf_cs tf AND 3 = 3 then lift_kern (trap_user p tf (kern m)) (note_dying m) else Return (StackTf tf) m)"
    using m kernel_inv_trap_user by (simp add: holds_lift_kern [of "kernel_inv E"])
  fix r m' assume "(if tf_cs tf AND 3 = 3 then lift_kern (trap_user p tf (kern m)) (note_dying m) else Return (StackTf tf) m) = Return r m'"
    and im: "minv E m'"
  then have "pages (kern m') = pages (kern m)" using trap_user_Return by (auto simp: lift_kern_Return split: if_splits)
  then have "refs_bound (kern m')" using m(2) by (simp add: refs_bound_def)
  then show "holds (minv E) (obind (trap_dispatch p r m') (\<lambda>_ m. resume m))"
    using im by (intro holds_obind kernel_inv_dispatch kernel_inv_resume)
qed

lemma kernel_inv_trap:
  assumes inv: "minv E m" and r: "refs_bound (kern m)"
  shows "holds (minv E) (trap p tf m)"
proof (cases "panicstr (kern m)")
  case True
  then show ?thesis using inv by (simp add: trap_def Let_def)
next
  case False
  let ?s = "set_cpu_status CPU_STARTED (kern m)"
  have ks: "kernel_inv E ?s" by (rule kernel_inv_lock(2) [OF inv])
  show ?thesis
    unfolding trap_def Let_def if_not_P [OF False]
  proof (rule holds_obind, goal_cases)
    case 1
    show ?case using kernel_inv_lock(1) [OF ks] ks by (simp add: holds_lift_kern [of "kernel_inv E"])
  next
    case (2 a m')
    have "pages (kern m') = pages (kern m)"
      using 2(1) lock_kernel_pages [of ?s "kstk p" "kebp p"]
      by (auto simp: lift_kern_Return set_cpu_status_def split: if_splits)
    then have "refs_bound (kern m')" using r by (simp add: refs_bound_def)
    then show ?case using kernel_inv_handle [OF 2(2)] by (simp add: assert_that_def)
  qed
qed

section \<open>The kernel as a state machine\<close>

text \<open>
  The calls that reach \<open>page_insert\<close> with the NULL page: \<open>sys_page_map\<close> and \<open>sys_ipc_try_send\<close> take
  the entry pointer that \<open>page_lookup\<close> stores for a sign of success, so a source address whose table exists
  but whose entry is empty gives them a NULL page. The code then increments the word at address 4. That
  is an address of the caller, who may have mapped page 0; what follows is not modelled, it is \<open>Fault\<close>.
\<close>

definition null_page :: "nat \<Rightarrow> u32 \<Rightarrow> kstate \<Rightarrow> bool" where
  "null_page e va s \<longleftrightarrow> va < UTOP \<and>
     (case env_pgdir (envs s e) of None \<Rightarrow> False | Some d \<Rightarrow> present s d (pdx va) \<and> \<not> mapped d va s)"

definition null_page_call :: "u32 \<Rightarrow> u32 \<Rightarrow> u32 \<Rightarrow> u32 \<Rightarrow> kstate \<Rightarrow> bool" where
  "null_page_call n a1 a2 a3 s \<longleftrightarrow>
     (if n = SYS_page_map then (case envid2env a1 True s of Return (_, Some e) _ \<Rightarrow> null_page e a2 s | _ \<Rightarrow> False)
      else if n = SYS_ipc_try_send then (case curenv s of Some c \<Rightarrow> null_page c a3 s | None \<Rightarrow> False)
      else False)"

definition null_page_trap :: "Trapframe \<Rightarrow> kstate \<Rightarrow> bool" where
  "null_page_trap tf s \<longleftrightarrow> tf_trapno tf = T_SYSCALL \<and>
     null_page_call (reg_eax (tf_regs tf)) (reg_edx (tf_regs tf)) (reg_ecx (tf_regs tf)) (reg_ebx (tf_regs tf)) s"

text \<open>
  One CPU: a trap with any frame, handled until the kernel leaves; a store of
  the current environment to a word below \<open>UTOP\<close> that its page tables let it write; the devices
  and the TLB change at any time. Two things the kernel does not guard are conditions of the
  step of a trap: that no 16 bit reference count is at its limit when the kernel is entered, and that the trap is
  no call with the NULL page.
\<close>

definition user_writable :: "nat \<Rightarrow> u32 \<Rightarrow> kstate \<Rightarrow> bool" where
  "user_writable d va s \<longleftrightarrow> va < UTOP \<and> slot s (va_slot d va) AND (PTE_P OR PTE_U OR PTE_W) = PTE_P OR PTE_U OR PTE_W"

inductive kernel_step :: "machine \<Rightarrow> machine \<Rightarrow> bool" where
  trap: "refs_bound (kern m) \<Longrightarrow> \<not> null_page_trap tf (kern m) \<Longrightarrow> trap p tf m = Leave l m' \<Longrightarrow> kernel_step m m'"
| user_store: "curenv (kern m) = Some c \<Longrightarrow> env_pgdir (envs (kern m) c) = Some d \<Longrightarrow> user_writable d va (kern m) \<Longrightarrow>
    kernel_step m (m\<lparr>kern := store_pte (mapped_page d va (kern m), unat (PGOFF va) div 4) v (kern m)\<rparr>)"
| device: "kernel_step m (m\<lparr>con := c\<rparr>)"
| tlb_change: "kernel_step m (m\<lparr>kern := (kern m)\<lparr>tlb := T\<rparr>\<rparr>)"

lemma user_writable_mapped:
  assumes "user_writable d va s"
  shows "mapped d va s" "pdx va \<in> {..<955}"
proof -
  have "slot s (va_slot d va) AND 7 = 7" using assms by (simp add: user_writable_def layout_defs)
  then have "(slot s (va_slot d va) AND 7) AND 1 = 1" by simp
  then have "slot s (va_slot d va) AND 1 = 1" by (simp add: and.assoc)
  then show "mapped d va s" by (simp add: mapped_def PTE_P_def)
  show "pdx va \<in> {..<955}" using assms below_UTOP [of va] by (simp add: user_writable_def linorder_not_le)
qed

lemma mapped_data:
  assumes sp: "space_ok D E xs s" and d: "d \<in> D" "pdx va \<in> {..<955}" "mapped d va s"
  shows "user_data D E s (mapped_page d va s)" "mapped_page d va s \<notin> set xs"
proof -
  have "va_slot d va \<in> maps {..<955} D s (mapped_page d va s)"
    using d PTX_bound [of va] by (simp add: maps_def va_slot_def mapped_def mapped_page_def)
  then show "user_data D E s (mapped_page d va s)" "mapped_page d va s \<notin> set xs" using mapped_is_data [OF sp] by blast+
qed

lemma kernel_inv_user_store:
  assumes inv: "kernel_inv E s" and c: "curenv s = Some c" "env_pgdir (envs s c) = Some d" and w: "user_writable d va s"
  shows "kernel_inv E (store_pte (mapped_page d va s, k) v s)"
proof -
  obtain xs where sp: "space_ok (all_dirs s) E xs s" using inv by (rule kernel_inv_space)
  have l: "live s c" using inv c(1) by (simp add: kernel_inv_def cur_inv_def)
  have "\<not> is_table {..<955} (all_dirs s) s (mapped_page d va s)"
    using mapped_data(1) [OF sp kernel_inv_dir(1) [OF inv l c(2)] user_writable_mapped(2,1) [OF w]] by (simp add: user_data_def)
  note sd = space_ok_data [OF sp this, of "(pmem s (mapped_page d va s))(k := v)"]
  show ?thesis
    by (rule kernel_inv_frame [OF inv]) (use sd in \<open>simp_all add: store_pte_def vm_frame_def\<close>)
qed

lemma kernel_step_inv:
  assumes "kernel_step m m'" "minv E m"
  shows "minv E m'"
  using assms
proof (cases rule: kernel_step.cases)
  case (trap tf p l)
  then show ?thesis using kernel_inv_trap [OF assms(2), of p tf] by simp
next
  case (user_store c d va v)
  then show ?thesis using kernel_inv_user_store [OF assms(2)] by simp
next
  case (tlb_change T)
  then show ?thesis by (auto intro!: kernel_inv_other [OF assms(2)] simp: curenv_def)
qed (use assms in simp)

interpretation kernel_run: kept_by_steps kernel_step "minv E" for E
  by unfold_locales (rule kernel_step_inv)

lemma kernel_inv_isolation:
  assumes inv: "kernel_inv E s" and e: "live s e" "env_pgdir (envs s e) = Some d"
    and va: "pdx va \<in> {..<955}" "mapped d va s"
  shows "\<not> free_page s (mapped_page d va s)" "mapped_page d va s \<noteq> kern_pgdir s"
    "\<And>f d'. live s f \<Longrightarrow> env_pgdir (envs s f) = Some d' \<Longrightarrow>
       mapped_page d va s \<noteq> d' \<and> (\<forall>i < 955. present s d' i \<longrightarrow> table s d' i \<noteq> mapped_page d va s)"
    "E (mapped_page d va s) = 0 \<or> mapped_page d va s = 0xb8"
proof -
  obtain xs where sp: "space_ok (all_dirs s) E xs s" using inv by (rule kernel_inv_space)
  note m = mapped_data [OF sp kernel_inv_dir(1) [OF inv e] va]
  show "\<not> free_page s (mapped_page d va s)" using m(2) free_page_iff [OF vm_okD(2) [OF space_okD(1) [OF sp]]] by simp
  have nt: "\<not> is_table {..<955} (all_dirs s) s (mapped_page d va s)" using m(1) by (simp add: user_data_def)
  then show "mapped_page d va s \<noteq> kern_pgdir s" by (auto simp: is_table_def)
  show "E (mapped_page d va s) = 0 \<or> mapped_page d va s = 0xb8" using m(1) by (simp add: user_data_def)
  show "mapped_page d va s \<noteq> d' \<and> (\<forall>i < 955. present s d' i \<longrightarrow> table s d' i \<noteq> mapped_page d va s)"
    if "live s f" "env_pgdir (envs s f) = Some d'" for f d'
    using nt kernel_inv_dir(1) [OF inv that] unfolding is_table_def by blast
qed

section \<open>An example\<close>

text \<open>
  A machine after boot: pages 3, 2, 1 free, the kernel's directory in page 200 with one
  reference, the VGA page held by the kernel, and no environment.
\<close>

definition boot :: kstate where
  "boot = env_init (bss_state\<lparr>npages := 256, kern_pgdir := 200, page_free_list := Some 3, cr3 := page2pa 200,
     pages := (\<lambda>_. zero_page)(3 := \<lparr>pp_link = Some 2, pp_ref = 0\<rparr>, 2 := \<lparr>pp_link = Some 1, pp_ref = 0\<rparr>,
                200 := \<lparr>pp_link = None, pp_ref = 1\<rparr>, 184 := \<lparr>pp_link = None, pp_ref = 1\<rparr>),
     cpus := (\<lambda>_. zero_cpu\<lparr>cpu_status := CPU_HALTED\<rparr>)\<rparr>)"

lemma env_init_simps:
  "pmem (env_init s) = pmem s" "npages (env_init s) = npages s" "pages (env_init s) = pages s"
  "page_free_list (env_init s) = page_free_list s" "kern_pgdir (env_init s) = kern_pgdir s" "cr3 (env_init s) = cr3 s"
  "cpus (env_init s) = cpus s" "this_cpu (env_init s) = this_cpu s" "kernel_lock (env_init s) = kernel_lock s"
  "panicstr (env_init s) = panicstr s"
proof -
  let ?f = "\<lambda>i. upd_env i (\<lambda>x. x\<lparr>env_status := ENV_FREE, env_id := 0, env_link := Some (i + 1)\<rparr>)"
  have f: "pmem (fold ?f xs s) = pmem s" "npages (fold ?f xs s) = npages s" "pages (fold ?f xs s) = pages s"
    "page_free_list (fold ?f xs s) = page_free_list s" "kern_pgdir (fold ?f xs s) = kern_pgdir s" "cr3 (fold ?f xs s) = cr3 s"
    "cpus (fold ?f xs s) = cpus s" "this_cpu (fold ?f xs s) = this_cpu s" "kernel_lock (fold ?f xs s) = kernel_lock s"
    "panicstr (fold ?f xs s) = panicstr s" for xs
    by (induction xs arbitrary: s) (simp_all add: upd_env_def)
  then show "pmem (env_init s) = pmem s" "npages (env_init s) = npages s" "pages (env_init s) = pages s"
    "page_free_list (env_init s) = page_free_list s" "kern_pgdir (env_init s) = kern_pgdir s" "cr3 (env_init s) = cr3 s"
    "cpus (env_init s) = cpus s" "this_cpu (env_init s) = this_cpu s" "kernel_lock (env_init s) = kernel_lock s"
    "panicstr (env_init s) = panicstr s"
    by (simp_all add: env_init_def Let_def upd_env_def)
qed

lemma boot_simps:
  "npages boot = 256" "kern_pgdir boot = 200" "pmem boot = (\<lambda>_ _. 0)" "curenv boot = None" "cr3 boot = page2pa 200"
  "this_cpu boot = 0" "locked (kernel_lock boot) = 0" "\<not> panicstr boot" "cpu_status (cpus boot 0) = CPU_HALTED"
  by (simp_all add: boot_def env_init_simps bss_state_def curenv_def zero_cpu_def)

lemma boot_space: "space_ok {200} demo_refs [3, 2, 1] boot"
proof -
  have ab: "\<not> present boot d i" for d i by (simp add: present_def boot_simps)
  have sl: "slot boot x = 0" for x using ab by (cases x) (simp add: slot_def)
  have m: "maps {..<955} {200} boot q = {}" for q by (auto simp: maps_def sl)
  have tab: "is_table {..<955} {200} boot q \<longleftrightarrow> q = 200" for q using ab by (auto simp: is_table_def)
  have "refs_ok {..<955} {200} demo_refs boot"
    by (auto simp: refs_ok_def m tab) (auto simp: boot_def env_init_simps zero_page_def)
  moreover have "tables_ok {..<955} {200} [3, 2, 1] boot"
    using ab by (auto simp: tables_ok_def table_def boot_simps PGNUM_def)
  moreover have "free_list boot [3, 2, 1]"
    by (auto simp: free_list_def pglist.on_list_def boot_def env_init_simps zero_page_def)
  ultimately have "vm_ok {..<955} {200} demo_refs [3, 2, 1] boot" by (simp add: vm_ok_def mem_ok_def boot_simps)
  then show ?thesis by (simp add: space_ok_def user_data_def tab m boot_simps)
qed

lemma boot_envs: "env_list boot [0..<NENV]" "e < NENV \<Longrightarrow> env_id (envs boot e) = 0"
  using env_init_correct [of "bss_state\<lparr>npages := 256, kern_pgdir := 200, page_free_list := Some 3, cr3 := page2pa 200,
     pages := (\<lambda>_. zero_page)(3 := \<lparr>pp_link = Some 2, pp_ref = 0\<rparr>, 2 := \<lparr>pp_link = Some 1, pp_ref = 0\<rparr>,
                200 := \<lparr>pp_link = None, pp_ref = 1\<rparr>, 184 := \<lparr>pp_link = None, pp_ref = 1\<rparr>),
     cpus := (\<lambda>_. zero_cpu\<lparr>cpu_status := CPU_HALTED\<rparr>)\<rparr>"]
  unfolding boot_def by (simp_all add: bss_state_def zero_env_def)

lemma boot_inv: "kernel_inv demo_refs boot"
proof -
  have no: "\<not> live boot e" for e using boot_envs(1) by (auto simp: env_list_def)
  then have "dirs boot = {}" by (simp add: dirs_def)
  moreover have "envs_ok boot" unfolding envs_ok_def using no boot_envs(2) by auto
  ultimately show ?thesis using boot_space boot_envs(1)
    by (auto simp: kernel_inv_def mem_inv_def cur_inv_def boot_simps)
qed

lemma boot_refs: "refs_bound boot"
  by (simp add: refs_bound_def boot_def env_init_simps zero_page_def)

end
