(* ===== verification/KernelProps.thy ===== *)
theory KernelProps
  imports KernelTrap
begin

text \<open>
  What the kernel invariant gives: isolation over the runs of one CPU, and two ways in which the code can leave the invariant
  that its conditions exclude: reference counts that wrap around, and environments freed
  while another CPU runs them.
\<close>

section \<open>An example run\<close>

text \<open>A clock interrupt on the halted CPU dispatches the environment that was created.\<close>

definition first_env :: kstate where
  "first_env = (env_unlink (upd_env 0 (fresh_env 0 0) (upd_env 0 (\<lambda>x. x\<lparr>env_pgdir := Some 5\<rparr>) boot)))
     \<lparr>pages := (pages boot)(5 := \<lparr>pp_link = None, pp_ref = 1\<rparr>),
      pmem := (\<lambda>_ _. 0)(5 := (\<lambda>_. 0)(957 := page2pa 5 OR PTE_P OR PTE_U))\<rparr>"

lemma first_env_simps:
  "npages first_env = 256" "kern_pgdir first_env = 200" "curenv first_env = None" "cr3 first_env = page2pa 200"
  "pmem first_env = (\<lambda>_ _. 0)(5 := (\<lambda>_. 0)(957 := page2pa 5 OR PTE_P OR PTE_U))"
  "pages first_env = (pages boot)(5 := \<lparr>pp_link = None, pp_ref = 1\<rparr>)" "page_free_list first_env = page_free_list boot"
  "envs first_env = (envs boot)(0 := fresh_env 0 0 ((envs boot 0)\<lparr>env_pgdir := Some 5\<rparr>))"
  "this_cpu first_env = 0" "locked (kernel_lock first_env) = 0" "cpu_status (cpus first_env 0) = CPU_HALTED"
  by (simp_all add: first_env_def boot_simps curenv_def)
     (simp_all add: env_unlink_def boot_def env_init_simps bss_state_def zero_cpu_def split: option.splits)

lemma first_env_panic: "\<not> panicstr first_env"
  by (simp add: first_env_def env_unlink_def upd_env_def boot_simps split: option.splits)

lemma first_env_space: "space_ok {200, 5} demo_refs [3, 2, 1] first_env"
proof -
  have ab: "\<not> present first_env d i" "table first_env d i = 0" if "i < 955" for d i
    using that by (auto simp: present_def table_def first_env_simps PGNUM_def)
  have sl: "slot first_env (d, i, k) = 0" if "i < 955" for d i k using ab [OF that] by (simp add: slot_def)
  have m: "maps {..<955} {200, 5} first_env q = {}" for q using sl by (auto simp: maps_def)
  have tab: "is_table {..<955} {200, 5} first_env q \<longleftrightarrow> q = 200 \<or> q = 5" for q using ab by (auto simp: is_table_def)
  have pg: "pages first_env q = (if q = 5 then \<lparr>pp_link = None, pp_ref = 1\<rparr> else pages boot q)" for q by (simp add: first_env_simps)
  have "refs_ok {..<955} {200, 5} demo_refs first_env"
    by (auto simp: refs_ok_def m tab pg) (auto simp: boot_def env_init_simps zero_page_def)
  moreover have "tables_ok {..<955} {200, 5} [3, 2, 1] first_env"
    using ab by (auto simp: tables_ok_def first_env_simps)
  moreover have "free_list first_env [3, 2, 1]"
    by (auto simp: free_list_def pglist.on_list_def first_env_simps boot_def env_init_simps zero_page_def)
  ultimately have "vm_ok {..<955} {200, 5} demo_refs [3, 2, 1] first_env" by (simp add: vm_ok_def mem_ok_def first_env_simps)
  moreover have "upper_part first_env 5" using UVPT_pdx by (simp add: upper_part_def first_env_simps)
  ultimately show ?thesis by (simp add: space_ok_def user_data_def tab m first_env_simps)
qed

lemma first_env_list: "env_list first_env [Suc 0..<NENV]"
proof -
  have up: "[0..<NENV] = 0 # [Suc 0..<NENV]" by (rule upt_conv_Cons) (simp add: NENV_eq)
  let ?s = "env_unlink (upd_env 0 (fresh_env 0 0) (upd_env 0 (\<lambda>x. x\<lparr>env_pgdir := Some 5\<rparr>) boot))"
  have "env_list ?s [Suc 0..<NENV]" by (rule env_list_alloc [OF boot_envs(1) [unfolded up] vm_frame_refl])
  moreover have "en_link first_env = en_link ?s" "env_free_list first_env = env_free_list ?s" "envs first_env = envs ?s"
    by (simp_all add: first_env_def)
  ultimately show ?thesis by (simp add: env_list_def envlist.on_list_def)
qed

lemma first_env_inv: "kernel_inv demo_refs first_env" "refs_bound first_env"
proof -
  have "envs_ok boot" using boot_inv by (simp add: kernel_inv_def mem_inv_def)
  moreover have no: "\<not> live boot e" for e using boot_envs(1) by (auto simp: env_list_def)
  moreover have "0 < NENV" by (simp add: NENV_eq)
  moreover have "5 \<notin> insert (kern_pgdir boot) (dirs boot)" using no by (simp add: dirs_def boot_simps)
  ultimately have "dirs first_env = insert 5 (dirs boot)" "envs_ok first_env"
    using fresh_dirs [of boot 0 5 first_env 0] by (simp_all add: first_env_simps boot_simps)
  moreover have "dirs boot = {}" using no by (simp add: dirs_def)
  ultimately show "kernel_inv demo_refs first_env"
    using first_env_space first_env_list by (auto simp: kernel_inv_def mem_inv_def cur_inv_def first_env_simps)
  show "refs_bound first_env" using boot_refs by (simp add: refs_bound_def first_env_simps)
qed

lemma kernel_inv_sched_ready:
  assumes inv: "kernel_inv E s" and l: "has_lock s"
  shows "sched_ready s"
proof -
  obtain xs where sp: "space_ok (all_dirs s) E xs s" using inv by (rule kernel_inv_space)
  have "dir_ok (env_pgdir (envs s e))" if e: "live s e" for e
  proof -
    have "envs_ok s" using inv by (simp add: kernel_inv_def mem_inv_def)
    then obtain d where "env_pgdir (envs s e) = Some d" "d \<in> dirs s" using e by (rule live_dir)
    then show ?thesis using space_dir_bound [OF sp] by (simp add: dir_ok_def)
  qed
  then show ?thesis
    using inv l space_dir_bound [OF sp] by (auto simp: sched_ready_def kernel_inv_def cur_inv_cur_ok)
qed

definition idle_tf :: Trapframe where
  "idle_tf = zero_tf\<lparr>tf_trapno := IRQ_OFFSET + IRQ_TIMER, tf_cs := GD_KT\<rparr>"

lemma first_dispatch:
  "\<exists>m' e. kernel_step \<lparr>kern = first_env, con = quiet_console\<rparr> m' \<and> curenv (kern m') = Some e"
proof -
  let ?m = "\<lparr>kern = first_env, con = quiet_console\<rparr>"
  let ?l = "(kernel_lock first_env)\<lparr>locked := 1, lk_cpu := Some 0, pcs := get_caller_pcs 10 (kstk demo_entry) (kebp demo_entry)\<rparr>"
  let ?s = "(set_cpu_status CPU_STARTED first_env)\<lparr>kernel_lock := ?l\<rparr>"
  have inv: "kernel_inv demo_refs ?s"
    by (rule kernel_inv_other [OF first_env_inv(1)]) (simp_all add: set_cpu_status_def curenv_def)
  have hl: "has_lock ?s" by (simp add: has_lock_def holding_def first_env_simps)
  have ready: "sched_ready ?s" by (rule kernel_inv_sched_ready [OF inv hl])
  moreover have "env_status (envs ?s 0) = ENV_RUNNABLE" "0 < NENV" by (simp_all add: first_env_simps NENV_eq)
  ultimately obtain e where "chosen ?s e" using chosen_exists [of ?s 0] by (auto simp: sched_ready_def)
  note y = sched_yield_runnable [OF ready this]
  have "lock_kernel (kstk demo_entry) (kebp demo_entry) (set_cpu_status CPU_STARTED first_env) = Return () ?s"
    by (simp add: lock_kernel_def spin_lock_def holding_def first_env_simps)
  then have "trap demo_entry idle_tf ?m = Leave (RunEnv e) (?m\<lparr>kern := dispatched e ?s\<rparr>)"
    using y
    by (simp add: trap_def Let_def first_env_simps first_env_panic trap_dispatch_def get_tf_def idle_tf_def demo_entry_def T_BRKPT_def
        T_PGFLT_def T_SYSCALL_def IRQ_OFFSET_def IRQ_TIMER_def IRQ_SPURIOUS_def GD_KT_def)
  then have "kernel_step ?m (?m\<lparr>kern := dispatched e ?s\<rparr>)" 
    using first_env_inv(2) by (intro kernel_step.trap) (simp_all add: null_page_trap_def idle_tf_def T_SYSCALL_def IRQ_OFFSET_def IRQ_TIMER_def)
  then show ?thesis by (intro exI [of _ "?m\<lparr>kern := dispatched e ?s\<rparr>"] exI [of _ e]) (simp add: dispatched_simps)
qed

text \<open>The machine with that environment running.\<close>

definition first_run :: kstate where
  "first_run = (set_curenv (Some 0) first_env)\<lparr>cr3 := page2pa 5\<rparr>"

lemma first_run_simps:
  "curenv first_run = Some 0" "envs first_run = envs first_env" "pages first_run = pages first_env" "kern_pgdir first_run = 200"
  by (simp_all add: first_run_def first_env_simps curenv_def set_curenv_def)

lemma first_run_inv: "kernel_inv demo_refs first_run" "refs_bound first_run"
proof -
  have "mem_inv demo_refs first_env" using first_env_inv(1) by (simp add: kernel_inv_def)
  then have "mem_inv demo_refs first_run"
    by (rule mem_inv_cong) (simp_all add: same_envs_def first_run_def set_curenv_def)
  moreover have "cur_inv first_run"
    by (simp add: cur_inv_def first_run_simps first_env_simps NENV_eq) (simp add: first_run_def)
  ultimately show "kernel_inv demo_refs first_run" by (simp add: kernel_inv_def)
  show "refs_bound first_run" using first_env_inv(2) by (simp add: refs_bound_def first_run_simps)
qed

section \<open>Properties\<close>

text \<open>
  C1. Isolation, on one CPU and under two conditions of \<open>kernel_step\<close> that the code does not
  guarantee: whenever the kernel is entered, no reference count is at its 16 bit limit (user programs can
  reach the limit, see \<open>page_insert_wraps\<close>), and the trap is not a system call that inserts the NULL page (from
  a source address whose table exists and whose entry is empty). Then, whatever the sequence of traps (system
  calls with any other arguments, faults, clock interrupts) and whatever the environments store to their memory
  in between, the kernel invariant is kept, and with it: a page that an environment has mapped
  below \<open>UTOP\<close> is not free, it is no page table and no page directory of any environment or
  of the kernel, and it is no page the kernel holds for itself, except for the VGA page.
\<close>

theorem kernel_isolation:
  assumes "kernel_step\<^sup>*\<^sup>* m m'" "kernel_inv E (kern m)"
  shows "kernel_inv E (kern m') \<and>
    (\<forall>e d va. live (kern m') e \<and> env_pgdir (envs (kern m') e) = Some d \<and> va < UTOP \<and> mapped d va (kern m') \<longrightarrow>
       \<not> free_page (kern m') (mapped_page d va (kern m')) \<and> mapped_page d va (kern m') \<noteq> kern_pgdir (kern m') \<and>
       (\<forall>f d'. live (kern m') f \<and> env_pgdir (envs (kern m') f) = Some d' \<longrightarrow> mapped_page d va (kern m') \<noteq> d' \<and>
          (\<forall>i < 955. present (kern m') d' i \<longrightarrow> table (kern m') d' i \<noteq> mapped_page d va (kern m'))) \<and>
       (E (mapped_page d va (kern m')) = 0 \<or> mapped_page d va (kern m') = 0xb8))"
proof (intro conjI allI impI; (elim conjE)?)
  show inv: "kernel_inv E (kern m')" by (rule kernel_run.run [OF assms])
  fix e d va
  assume e: "e < NENV" "env_status (envs (kern m') e) \<noteq> ENV_FREE" "env_pgdir (envs (kern m') e) = Some d"
    and va: "va < UTOP" "mapped d va (kern m')"
  have "pdx va \<in> {..<955}" using va(1) below_UTOP by (simp add: linorder_not_le)
  note iso = kernel_inv_isolation [OF inv conjI [OF e(1,2)] e(3) this va(2)]
  show "\<not> free_page (kern m') (mapped_page d va (kern m'))" "mapped_page d va (kern m') \<noteq> kern_pgdir (kern m')"
    "E (mapped_page d va (kern m')) = 0 \<or> mapped_page d va (kern m') = 0xb8" by (rule iso(1,2,4))+
  fix f d' assume "f < NENV" "env_status (envs (kern m') f) \<noteq> ENV_FREE" "env_pgdir (envs (kern m') f) = Some d'"
  then have "live (kern m') f" "env_pgdir (envs (kern m') f) = Some d'" by simp_all
  note t = iso(3) [OF this]
  show "mapped_page d va (kern m') \<noteq> d'" using t by blast
  show "table (kern m') d' i \<noteq> mapped_page d va (kern m')" if "i < 955" "present (kern m') d' i" for i
    using t that by blast
qed

theorem kernel_isolation_witness:
  "\<exists>m' e. kernel_step\<^sup>*\<^sup>* \<lparr>kern = first_env, con = quiet_console\<rparr> m' \<and> curenv (kern m') = Some e \<and>
     kernel_inv demo_refs (kern m')"
proof -
  obtain m' e where m: "kernel_step \<lparr>kern = first_env, con = quiet_console\<rparr> m'" "curenv (kern m') = Some e"
    using first_dispatch by blast
  from m(1) have run: "kernel_step\<^sup>*\<^sup>* \<lparr>kern = first_env, con = quiet_console\<rparr> m'" by (rule r_into_rtranclp)
  have "kernel_inv demo_refs (kern m')" using kernel_isolation [OF run, of demo_refs] first_env_inv(1) by simp
  then show ?thesis using run m(2) by blast
qed

text \<open>
  C25. A parent may take a running child out of the scheduler and destroy it: \<open>sys_env_destroy\<close>
  then no longer sees that the child is running on another CPU, frees it at once and gives
  up its page directory, although that CPU still has it as its current environment.
\<close>

theorem destroy_frees_running:
  assumes inv: "kernel_inv E s" and c: "curenv s = Some c" and e: "live s e" "e \<noteq> c" "env_parent_id (envs s e) = env_id (envs s c)"
    and d: "env_pgdir (envs s e) = Some d" "E d = 0"
  shows "\<exists>t u. sys_env_set_status (env_id (envs s e)) status_not_runnable s = Return 0 t \<and>
    sys_env_destroy (env_id (envs s e)) t = Return 0 u \<and> env_status (envs u e) = ENV_FREE \<and> cpus u = cpus s \<and>
    pp_ref (pages u d) = 0"
proof -
  let ?t = "upd_env e (\<lambda>x. x\<lparr>env_status := ENV_NOT_RUNNABLE\<rparr>) s" and ?id = "env_id (envs s e)"
  have id: "?id \<noteq> 0" "ENVX ?id = e" using inv e(1) by (auto simp: kernel_inv_def mem_inv_def envs_ok_def)
  have es: "envid2env ?id True s = Return (0, Some e) s"
    using id c e by (simp add: envid2env_def Let_def)
  then have "sys_env_set_status ?id status_not_runnable s = Return 0 ?t"
    by (simp add: sys_env_set_status_def status_not_runnable_def status_runnable_def)
  moreover have et: "envid2env ?id True ?t = Return (0, Some e) ?t"
    using id c e by (simp add: envid2env_def Let_def)
  have it: "kernel_inv E ?t" using e(1) by (intro kernel_inv_upd_env [OF inv]) simp_all
  have lt: "live ?t e" "env_pgdir (envs ?t e) = Some d" using e(1) d(1) by simp_all
  obtain xs where sp: "space_ok (all_dirs ?t) E xs ?t" using it by (rule kernel_inv_space)
  note dd = kernel_inv_dir [OF it lt]
  obtain u ys where u: "env_free e ?t = Return () u" "vm_ok {..<955} (all_dirs ?t - {d}) E ys u" "cpus u = cpus ?t"
      "this_cpu u = this_cpu ?t" "envs u = (envs ?t)(e := freed_env (env_free_list ?t) (envs ?t e))"
      "slots_kept {..<955} (all_dirs ?t - {d}) (\<lambda>_. False) ?t u"
    using env_free_spec [OF space_okD(1) [OF sp] lt(2) dd(1) space_dir_bound [OF sp dd(1)] space_dir_bound [OF sp insertI1]] by blast
  have "curenv u = Some c" using u(3,4) c by (simp add: curenv_def)
  then have "sys_env_destroy ?id ?t = Return 0 u"
    using et u(1) c e(2) by (simp add: sys_env_destroy_def env_destroy_def)
  moreover have "pp_ref (pages u d) = 0"
  proof -
    have "is_table {..<955} (all_dirs ?t) ?t d" using dd(1) by (simp add: is_table_def)
    then have "maps {..<955} (all_dirs ?t) ?t d = {}" using space_okD(9) [OF sp] by (auto simp: user_data_def)
    then have "maps {..<955} (all_dirs ?t - {d}) u d = {}"
      using maps_mono [of "{..<955}" "all_dirs ?t" "{d}" ?t d] slots_kept_same(1) [OF u(6)] by auto
    moreover have "\<not> is_table {..<955} (all_dirs ?t - {d}) u d"
      unfolding slots_kept_same(2) [OF u(6)]
      using tables_okD(4) [OF vm_okD(5) [OF space_okD(1) [OF sp]]] dd(1) by (auto simp: is_table_def)
    ultimately have "unat (pp_ref (pages u d)) = 0" using vm_okD(6) [OF u(2)] d(2) by (auto simp: refs_ok_def dest: spec [of _ d])
    then show ?thesis by (simp add: unat_eq_zero)
  qed
  ultimately show ?thesis using u(3,5) by (auto simp: freed_env_def)
qed

theorem destroy_frees_running_witness:
  "\<exists>s t u e d. curenv s = Some 0 \<and> live s e \<and> env_pgdir (envs s e) = Some d \<and>
     sys_env_set_status (env_id (envs s e)) status_not_runnable s = Return 0 t \<and>
     sys_env_destroy (env_id (envs s e)) t = Return 0 u \<and> env_status (envs u e) = ENV_FREE \<and> pp_ref (pages u d) = 0"
proof -
  let ?id = "env_id (envs first_run 0)"
  have l: "env_list first_run (1 # [Suc 1..<NENV])"
  proof -
    have "[Suc 0..<NENV] = 1 # [Suc 1..<NENV]" using upt_conv_Cons [of "Suc 0" NENV] by (simp add: NENV_eq)
    then show ?thesis using first_env_list by (simp add: env_list_def envlist.on_list_def first_run_def set_curenv_def)
  qed
  have sp: "space_ok {200, 5} demo_refs [3, 2, 1] first_run"
    by (rule space_ok_cong [OF first_env_space]) (simp_all add: first_run_def set_curenv_def)
  have vr: "unat (pp_ref (pages first_run 0xb8)) < 65535" using first_run_inv(2) by (simp add: refs_bound_def)
  obtain s where s: "env_alloc ?id first_run = Return (0, Some 1) s"
      "envs s = (envs first_run)(1 := fresh_env 1 ?id ((envs first_run 1)\<lparr>env_pgdir := Some 3\<rparr>))"
    using space_env_alloc [OF sp vr _ l, of ?id] by auto
  have inv: "kernel_inv demo_refs s" "curenv s = Some 0" "live s 1"
    using kernel_inv_env_alloc [OF first_run_inv s(1)] by (simp_all add: first_run_simps)
  have "1 \<noteq> (0 :: nat)" "env_parent_id (envs s 1) = env_id (envs s 0)" "env_pgdir (envs s 1) = Some 3" "demo_refs 3 = 0"
    by (simp_all add: s(2))
  from destroy_frees_running [OF inv(1,2,3) this] show ?thesis using inv \<open>env_pgdir (envs s 1) = Some 3\<close> by blast
qed

section \<open>Counts that wrap around\<close>

text \<open>Inserting into an empty slot whose table exists, whatever the count of the page.\<close>

definition inserted :: "nat \<Rightarrow> nat \<Rightarrow> u32 \<Rightarrow> u32 \<Rightarrow> kstate \<Rightarrow> kstate" where
  "inserted d pp va perm s = store_pte (table s d (pdx va), ptx va) (page2pa pp OR perm OR PTE_P)
     (upd_page pp (\<lambda>q. q\<lparr>pp_ref := pp_ref q + 1\<rparr>) s)"

lemma insert_empty_slot:
  assumes ok: "tables_ok I D xs s" "mem_ok s" "free_list s xs" and d: "d \<in> D" "pdx va \<in> I" "present s d (pdx va)"
    and m: "\<not> mapped d va s" and pp: "pp \<notin> set xs"
  shows "page_insert d (Some pp) va perm s = Return 0 (inserted d pp va perm s)"
    and "tables_ok I D xs (inserted d pp va perm s)" "mem_ok (inserted d pp va perm s)" "free_list (inserted d pp va perm s) xs"
    and "\<And>e j l. e \<in> D \<Longrightarrow> j \<in> I \<Longrightarrow> slot (inserted d pp va perm s) (e, j, l) =
      (if (e, j, l) = va_slot d va then page2pa pp OR perm OR PTE_P else slot s (e, j, l))"
    and "\<And>j. present (inserted d pp va perm s) d j = present s d j"
proof -
  let ?s = "upd_page pp (\<lambda>q. q\<lparr>pp_ref := pp_ref q + 1\<rparr>) s" and ?v = "page2pa pp OR perm OR PTE_P"
  have n: "table s d (pdx va) < npages s" by (rule tables_okD(3) [OF ok(1) d(1,2)])
  have "load_pte (table s d (pdx va), ptx va) ?s AND PTE_P = 0"
    using m d(3) by (simp add: load_pte_def mapped_def slot_def va_slot_def)
  then show "page_insert d (Some pp) va perm s = Return 0 (inserted d pp va perm s)"
    by (simp add: page_insert_def walk_present [OF n ok(2) d(3)] inserted_def Let_def)
  have tb: "tables_ok I D xs ?s" by (rule tables_ok_cong [OF _ _ subset_refl ok(1)]) simp_all
  have same: "present ?s d j = present s d j" "table ?s d j = table s d j" for j by (simp_all add: present_def table_def)
  have pr: "present ?s d (pdx va)" using d(3) by (simp add: same)
  have st: "inserted d pp va perm s = store_pte (table ?s d (pdx va), ptx va) ?v ?s" by (simp add: inserted_def same)
  show "tables_ok I D xs (inserted d pp va perm s)" unfolding st by (rule store_tables_ok [OF tb d(1,2) pr])
  show "mem_ok (inserted d pp va perm s)" using ok(2) by (simp add: inserted_def mem_ok_def)
  show "free_list (inserted d pp va perm s) xs"
  proof -
    have "free_list ?s xs" using ok(3) pp by (simp add: free_list_ref)
    then show ?thesis by (simp add: inserted_def free_list_def pglist.on_list_def)
  qed
  have sl: "slot ?s x = slot s x" for x by (rule slot_cong) simp
  show "slot (inserted d pp va perm s) (e, j, l) = (if (e, j, l) = va_slot d va then ?v else slot s (e, j, l))" if "e \<in> D" "j \<in> I" for e j l
    unfolding st using store_slot [OF tb d(1,2) pr that, of "ptx va" ?v l] by (simp add: sl va_slot_def)
  show "present (inserted d pp va perm s) d j = present s d j" for j
    using tables_okD(4) [OF ok(1) d] d(1) by (auto simp: inserted_def present_def)
qed

text \<open>
  C26. The 16 bit reference counts are not checked. A page with 65535 references that is
  mapped once more has the count 0; mapped at yet another address, and unmapped there
  again, it is put on the free list although it is still mapped.
\<close>

theorem page_insert_wraps:
  assumes ok: "tables_ok I D xs s" "mem_ok s" "free_list s xs" and d: "d \<in> D" "va_slot d va \<noteq> va_slot d vb"
    and a: "pdx va \<in> I" "present s d (pdx va)" "\<not> mapped d va s" and b: "pdx vb \<in> I" "present s d (pdx vb)" "\<not> mapped d vb s"
    and pp: "pp < npages s" "pp \<notin> set xs" "pp_ref (pages s pp) = 65535" and perm: "perm < 4096"
  shows "\<exists>t u v. page_insert d (Some pp) va perm s = Return 0 t \<and> pp_ref (pages t pp) = 0 \<and>
    page_insert d (Some pp) vb perm t = Return 0 u \<and> page_remove d vb u = Return () v \<and>
    mapped d va v \<and> mapped_page d va v = pp \<and> page_free_list v = Some pp"
proof -
  let ?t = "inserted d pp va perm s"
  let ?u = "inserted d pp vb perm ?t"
  let ?w = "page2pa pp OR perm OR PTE_P"
  note t = insert_empty_slot [OF ok d(1) a pp(2), where perm = perm]
  have "slot ?t (va_slot d vb) = slot s (va_slot d vb)" using t(5) [OF d(1) b(1)] d(2) by (auto simp: va_slot_def)
  then have mb: "\<not> mapped d vb ?t" "present ?t d (pdx vb)" using b t(6) by (simp_all add: mapped_def)
  note u = insert_empty_slot [OF t(2,3,4) d(1) b(1) mb(2,1) pp(2), where perm = perm]
  have r: "pp_ref (pages ?t pp) = 0" "pp_ref (pages ?u pp) = 1" "npages ?u = npages s" using pp(3) by (simp_all add: inserted_def)
  have pp20: "pp < 2 ^ 20" using pp(1) ok(2) by (simp add: mem_ok_def)
  note e = new_entry [OF pp20 perm]
  have sb: "slot ?u (va_slot d vb) = ?w" using u(5) [OF d(1) b(1)] by (simp add: va_slot_def)
  have sa: "slot ?u (va_slot d va) = ?w"
    using u(5) [OF d(1) a(1)] t(5) [OF d(1) a(1)] d(2) by (auto simp: va_slot_def)
  let ?x = "page_relink pp (upd_page pp (\<lambda>q. q\<lparr>pp_ref := pp_ref q - 1\<rparr>) ?u)"
  let ?v = "tlb_invalidate d vb (store_pte (table ?u d (pdx vb), ptx vb) 0 ?x)"
  have "free_list (upd_page pp (\<lambda>q. q\<lparr>pp_ref := pp_ref q - 1\<rparr>) ?u) xs" using u(4) pp(2) by (simp add: free_list_ref)
  from page_free_Return [OF this pp(2)] have "page_decref pp ?u = Return () ?x" using r(2) by (simp add: page_decref_def)
  moreover have "page_lookup d vb ?u = Return (Some pp, Some (table ?u d (pdx vb), ptx vb)) ?u"
    using page_lookup_gen [OF u(3) tables_okD(3) [OF u(2) d(1) b(1)]] u(6) mb(2) sb e pp(1) r(3) by (simp add: PTE_P_def)
  ultimately have "page_remove d vb ?u = Return () ?v" by (simp add: page_remove_def)
  moreover have "slot ?v (va_slot d va) = ?w"
  proof -
    have "slot ?v (va_slot d va) = slot (store_pte (table ?u d (pdx vb), ptx vb) 0 ?u) (va_slot d va)"
      unfolding slot_tlb by (rule slot_cong) simp
    also have "\<dots> = slot ?u (va_slot d va)"
      using store_slot [OF u(2) d(1) b(1), of d "pdx va" "ptx vb" 0 "ptx va"] u(6) mb(2) d a(1) by (auto simp: va_slot_def)
    finally show ?thesis using sa by simp
  qed
  moreover have "page_free_list ?v = Some pp" by (simp add: tlb_invalidate_def page_relink_def split: option.splits)
  ultimately show ?thesis using t(1) u(1) r(1) e by (auto simp: mapped_def mapped_page_def PTE_P_def)
qed

text \<open>Page 4 with 65535 references, and a directory in page 5 with one table in page 6.\<close>

definition worn :: kstate where
  "worn = bss_state\<lparr>npages := 256, pages := (\<lambda>_. zero_page)(4 := \<lparr>pp_link = None, pp_ref = 65535\<rparr>),
     pmem := (\<lambda>_ _. 0)(5 := (\<lambda>_. 0)(2 := 0x6007))\<rparr>"

theorem page_insert_wraps_witness:
  "\<exists>t u v. page_insert 5 (Some 4) 0x800000 PTE_U worn = Return 0 t \<and> pp_ref (pages t 4) = 0 \<and>
    page_insert 5 (Some 4) 0x801000 PTE_U t = Return 0 u \<and> page_remove 5 0x801000 u = Return () v \<and>
    mapped 5 0x800000 v \<and> mapped_page 5 0x800000 v = 4 \<and> page_free_list v = Some 4"
proof (rule page_insert_wraps [where I = "{2}" and D = "{5}" and xs = "[]"])
  have tb: "present worn 5 2" "table worn 5 2 = 6" by (simp_all add: present_def table_def worn_def PGNUM_def layout_defs)
  have px: "pdx 0x800000 = 2" "pdx 0x801000 = 2" "ptx 0x800000 = 0" "ptx 0x801000 = 1" by (simp_all add: PDX_def PTX_def layout_defs)
  show "tables_ok {2} {5} [] worn" using tb by (auto simp: tables_ok_def) (simp_all add: worn_def)
  show "mem_ok worn" "free_list worn []" by (auto simp: mem_ok_def free_list_def pglist.on_list_def worn_def bss_state_def zero_page_def)
  show "\<not> mapped 5 0x800000 worn" "\<not> mapped 5 0x801000 worn"
    using tb by (simp_all add: mapped_def slot_def va_slot_def px) (simp_all add: worn_def)
  show "va_slot 5 0x800000 \<noteq> va_slot 5 0x801000" by (simp add: va_slot_def px)
  show "pdx 0x800000 \<in> {2}" "pdx 0x801000 \<in> {2}" "present worn 5 (pdx 0x800000)" "present worn 5 (pdx 0x801000)" using px tb by simp_all
qed (simp_all add: worn_def layout_defs)

end
