(* ===== verification/KernelFault.thy ===== *)
theory KernelFault
  imports KernelProps
begin

text \<open>
  Exceptions of user programs: a page fault or an exception the kernel does not handle ends the
  environment that caused it, and nothing else.
\<close>

section \<open>The scheduler always leaves\<close>

text \<open>What dispatching leaves of an environment: everything but its status while it runs, its counter and its CPU.\<close>

definition ready :: "EnvStatus \<Rightarrow> bool" where
  "ready x \<longleftrightarrow> x = ENV_RUNNABLE \<or> x = ENV_RUNNING"

definition same_env :: "Env \<Rightarrow> Env \<Rightarrow> bool" where
  "same_env x y \<longleftrightarrow> env_id y = env_id x \<and> env_parent_id y = env_parent_id x \<and> env_pgdir y = env_pgdir x \<and>
     env_tf y = env_tf x \<and> env_ipc_recving y = env_ipc_recving x \<and>
     (env_status y = env_status x \<or> ready (env_status x) \<and> ready (env_status y))"

lemma same_env_refl [simp]: "same_env x x"
  by (simp add: same_env_def)

lemma dispatched_env:
  assumes "ready (env_status (envs s e))"
  shows "same_env (envs s x) (envs (dispatched e s) x)"
proof -
  have f: "f (envs (dispatched e s) x) = f (envs s x)"
    if "\<And>x v. f (x\<lparr>env_status := v\<rparr>) = f x" "\<And>x v. f (x\<lparr>env_runs := v\<rparr>) = f x" "\<And>x v. f (x\<lparr>env_cpunum := v\<rparr>) = f x"
    for f :: "Env \<Rightarrow> 'a"
    using that by (cases "x = e") (simp_all add: dispatched_def preempt_def split: option.splits)
  have "env_status (envs (dispatched e s) x) = env_status (envs s x) \<or>
      ready (env_status (envs s x)) \<and> ready (env_status (envs (dispatched e s) x))"
    using assms by (auto simp: dispatched_simps preempt_status ready_def split: if_splits)
  then show ?thesis by (simp add: same_env_def f)
qed

lemma sched_yield_leaves:
  assumes r: "sched_ready s"
  shows "\<exists>l t. sched_yield s = Leave l t \<and> (\<forall>x. same_env (envs s x) (envs t x))"
proof (cases "\<exists>k < NENV. env_status (envs s k) = ENV_RUNNABLE")
  case True
  then obtain e where e: "chosen s e" using chosen_exists [of s] r by (auto simp: sched_ready_def)
  then have "env_status (envs s e) = ENV_RUNNABLE" by (simp add: chosen_def)
  then have "ready (env_status (envs s e))" by (simp add: ready_def)
  then show ?thesis using sched_yield_runnable [OF r e] dispatched_env by auto
next
  case False
  then have none: "\<forall>k < NENV. env_status (envs s k) \<noteq> ENV_RUNNABLE" by blast
  have "has_lock s" "kern_pgdir s < 2 ^ 16" using r by (simp_all add: sched_ready_def)
  note halt = sched_halt_ok [OF this]
  have "envs (halted s) = envs s" by (simp add: halted_def)
  then show ?thesis using dispatched_env [of s "the (curenv s)"]
    by (auto simp: ready_def sched_yield_idle [OF r none] halt split: option.splits)
qed

section \<open>Destroying the current environment\<close>

lemma destroy_current:
  assumes inv: "kernel_inv E s" and l: "has_lock s" and c: "curenv s = Some c"
  shows "\<exists>l t. env_destroy c s = Leave l t \<and> env_status (envs t c) = ENV_FREE \<and> env_pgdir (envs t c) = None \<and>
    (\<forall>x. x \<noteq> c \<longrightarrow> same_env (envs s x) (envs t x))"
proof -
  have lc: "live s c" and mi: "mem_inv E s" using inv c by (simp_all add: kernel_inv_def cur_inv_def)
  obtain d where d: "env_pgdir (envs s c) = Some d" using live_dir [of s c] lc mi by (auto simp: mem_inv_def)
  obtain xs where sp: "space_ok (all_dirs s) E xs s" using inv by (rule kernel_inv_space)
  obtain t where t: "env_free c s = Return () t" "mem_inv E t" "kern_pgdir t = kern_pgdir s" "cpus t = cpus s" "this_cpu t = this_cpu s"
      "\<forall>x. x \<noteq> c \<longrightarrow> envs t x = envs s x" "cr3 t = page2pa (kern_pgdir s)"
    using mem_inv_env_free [OF mi lc] c by auto
  have ft: "env_status (envs t c) = ENV_FREE" "env_pgdir (envs t c) = None" "kernel_lock t = kernel_lock s"
    using env_free_spec [OF space_okD(1) [OF sp] d kernel_inv_dir(1) [OF inv lc d]
        space_dir_bound [OF sp kernel_inv_dir(1) [OF inv lc d]] space_dir_bound [OF sp insertI1]] t(1)
    by (auto simp: freed_env_def)
  let ?u = "set_curenv None t"
  have "mem_inv E ?u" by (rule mem_inv_cong [OF t(2)]) (simp_all add: same_envs_def)
  then have "kernel_inv E ?u" using t(3,7) by (simp add: kernel_inv_def cur_inv_def)
  moreover have "has_lock ?u" using l ft(3) t(5) by (simp add: has_lock_def)
  ultimately have "sched_ready ?u" by (rule kernel_inv_sched_ready)
  then obtain l v where v: "sched_yield ?u = Leave l v" "\<forall>x. same_env (envs t x) (envs v x)"
    using sched_yield_leaves [of ?u] by auto
  have "curenv t = Some c" using c t(4,5) by (simp add: curenv_def)
  then have "env_destroy c s = Leave l v" using c t(1) v(1) by (simp add: env_destroy_def)
  moreover have "same_env (envs t c) (envs v c)" using v(2) by blast
  then have "env_status (envs v c) = ENV_FREE" "env_pgdir (envs v c) = None" using ft by (auto simp: same_env_def ready_def)
  moreover have "\<forall>x. x \<noteq> c \<longrightarrow> same_env (envs s x) (envs v x)" using v(2) t(6) by metis
  ultimately show ?thesis by blast
qed

section \<open>Properties\<close>

text \<open>The exceptions without a handler of their own.\<close>

definition unhandled :: "u32 \<Rightarrow> bool" where
  "unhandled n \<longleftrightarrow> n \<notin> {T_BRKPT, T_SYSCALL, IRQ_OFFSET + IRQ_SPURIOUS, IRQ_OFFSET + IRQ_TIMER}"

lemma dispatch_destroys:
  assumes n: "unhandled (tf_trapno (get_tf r (kern m)))" and u: "tf_cs (get_tf r (kern m)) AND 3 = 3"
    and c: "curenv (kern m) = Some c"
  shows "\<exists>m'. kern m' = kern m \<and> trap_dispatch p r m = lift_kern (env_destroy c (kern m)) m'"
proof -
  have "\<exists>m'. kern m' = kern m \<and> trap_dispatch p r m = destroy_env c m'"
  proof -
    have "tf_cs (get_tf r (kern m)) \<noteq> GD_KT" using u by (auto simp: GD_KT_def)
    moreover have "tf_cs (get_tf r (kern m)) AND 3 \<noteq> 0" using u by simp
    ultimately show ?thesis using n c
      by (cases "tf_trapno (get_tf r (kern m)) = T_PGFLT")
         (simp_all add: trap_dispatch_def page_fault_handler_def unhandled_def Let_def T_PGFLT_def T_BRKPT_def,
          (rule exI, rule conjI [OF _ refl], simp)+)
  qed
  then obtain m' where "kern m' = kern m" "trap_dispatch p r m = destroy_env c m'" by blast
  then show ?thesis by (intro exI [of _ "note_destroy c m'"]) (simp add: destroy_env_def)
qed

text \<open>
  C6. A page fault, or an exception without a handler, in user mode ends exactly the environment that
  caused it: \<open>trap\<close> never panics and never returns to it; the environment is free and has given up its
  address space, every other environment keeps its identity, address space and registers, the
  invariant holds, and the kernel leaves to another environment or halts the CPU. A page fault ends the
  environment even when it has set \<open>env_pgfault_upcall\<close>: the comment in \<open>page_fault_handler\<close> describes the call
  of the upcall, and the code does not make it.
\<close>

theorem user_fault_destroys:
  assumes u: "user_entry p tf c m" and inv: "kernel_inv E (kern m)" and n: "unhandled (tf_trapno tf)"
  shows "\<exists>l m'. trap p tf m = Leave l m' \<and> kernel_inv E (kern m') \<and>
    env_status (envs (kern m') c) = ENV_FREE \<and> env_pgdir (envs (kern m') c) = None \<and>
    (\<forall>x. x \<noteq> c \<longrightarrow> same_env (envs (kern m) x) (envs (kern m') x))"
proof -
  let ?m = "entered p tf c m"
  have c: "curenv (kern ?m) = Some c" "tf_cs tf AND 3 = 3" using u by (simp_all add: user_entry_def)
  have ik: "kernel_inv E (kern ?m)"
  proof -
    have "kernel_inv E ((set_cpu_status CPU_STARTED (kern m))\<lparr>kernel_lock := l\<rparr>)" for l
      by (rule kernel_inv_other [OF inv]) (simp_all add: set_cpu_status_def curenv_def)
    from kernel_inv_upd_env [OF this, where f = "\<lambda>x. x\<lparr>env_tf := tf\<rparr>" and e = c] show ?thesis by (simp add: entered_def)
  qed
  have tf: "get_tf (EnvTf c) (kern ?m) = tf" by (simp add: get_tf_def)
  obtain l t where t: "env_destroy c (kern ?m) = Leave l t" "env_status (envs t c) = ENV_FREE" "env_pgdir (envs t c) = None"
      "\<forall>x. x \<noteq> c \<longrightarrow> same_env (envs (kern ?m) x) (envs t x)"
    using destroy_current [OF ik _ c(1)] by auto
  have live: "live (kern ?m) c" using ik c(1) by (simp add: kernel_inv_def cur_inv_def)
  obtain m' where m': "trap_dispatch p (EnvTf c) ?m = lift_kern (env_destroy c (kern ?m)) m'"
    using dispatch_destroys [of "EnvTf c" ?m c p] n c by (auto simp: tf)
  have "trap p tf m = Leave l (m'\<lparr>kern := t\<rparr>)" by (simp add: trap_from_user [OF u] m' t(1))
  moreover have "kernel_inv E t" using kernel_inv_env_destroy [OF ik live] t(1) by simp
  ultimately show ?thesis using t(2-4) by (intro exI [of _ l] exI [of _ "m'\<lparr>kern := t\<rparr>"]) simp
qed

text \<open>The example: the first environment reads from an address that is not mapped.\<close>

definition fault_machine :: machine where
  "fault_machine = \<lparr>kern = (upd_env 0 (\<lambda>x. x\<lparr>env_status := ENV_RUNNING\<rparr>) first_run)
     \<lparr>cpus := (cpus first_run)(0 := (cpus first_run 0)\<lparr>cpu_status := CPU_STARTED\<rparr>)\<rparr>, con = quiet_console\<rparr>"

theorem user_fault_destroys_witness:
  "\<exists>l m'. trap demo_entry (user_tf\<lparr>tf_trapno := T_PGFLT\<rparr>) fault_machine = Leave l m' \<and>
     env_status (envs (kern m') 0) = ENV_FREE"
proof -
  let ?s = "upd_env 0 (\<lambda>x. x\<lparr>env_status := ENV_RUNNING\<rparr>) first_run"
  have "kernel_inv demo_refs ?s"
    by (rule kernel_inv_upd_env [OF first_run_inv(1)]) (simp_all add: first_run_simps first_env_simps)
  then have inv: "kernel_inv demo_refs (kern fault_machine)"
    by (rule kernel_inv_other) (simp_all add: fault_machine_def curenv_def first_run_def set_curenv_def first_env_simps)
  have "user_entry demo_entry (user_tf\<lparr>tf_trapno := T_PGFLT\<rparr>) 0 fault_machine"
    by (simp add: user_entry_def fault_machine_def demo_entry_def first_run_simps first_env_simps first_env_panic dir_ok_def user_tf_def
        curenv_def first_run_def set_curenv_def GD_UT_def upd_env_def)
  moreover have "unhandled T_PGFLT"
    by (simp add: unhandled_def T_PGFLT_def T_BRKPT_def T_SYSCALL_def IRQ_OFFSET_def IRQ_SPURIOUS_def IRQ_TIMER_def)
  ultimately show ?thesis using user_fault_destroys [OF _ inv, of demo_entry "user_tf\<lparr>tf_trapno := T_PGFLT\<rparr>" 0] by auto
qed

end
