(* ===== verification/KernelCalls.thy ===== *)
theory KernelCalls
  imports KernelFault
begin

text \<open>
  System calls keep the invariant and do not go wrong: the only way in which a system call of the
  current environment can dereference a NULL pointer is the NULL page that \<open>sys_page_map\<close> and
  \<open>sys_ipc_try_send\<close> hand to \<open>page_insert\<close>.
\<close>

section \<open>Outcomes without a bad pointer\<close>

definition no_fault :: "('s, 'a) outcome \<Rightarrow> bool" where
  "no_fault m \<longleftrightarrow> (\<forall>e. m \<noteq> Fault e)"

lemma no_fault_simps [simp]:
  "no_fault (Return a s)" "no_fault (Panic e)" "no_fault Diverge" "no_fault (Leave l s)" "\<not> no_fault (Fault e)"
  "no_fault (assert_that b msg s)"
  by (simp_all add: no_fault_def assert_that_def)

lemma no_fault_obind: "no_fault m \<Longrightarrow> (\<And>a s. m = Return a s \<Longrightarrow> no_fault (f a s)) \<Longrightarrow> no_fault (obind m f)"
  by (cases m) simp_all

lemma no_fault_lift [simp]: "no_fault (lift_kern r m) = no_fault r"
  by (cases r) simp_all

lemma no_fault_primitives: "no_fault (KADDR pa s)" "no_fault (PADDR kva s)" "no_fault (pa2page pa s)" "no_fault (page2kva p s)"
  by (simp_all add: KADDR_def PADDR_def pa2page_def page2kva_def)

lemma no_fault_page_alloc: "no_fault (page_alloc fl s)"
  by (auto simp: page_alloc_def page2kva_def Let_def intro!: no_fault_obind no_fault_primitives split: option.split)

lemma no_fault_pgdir_walk: "no_fault (pgdir_walk d va create s)"
  by (auto simp: pgdir_walk_def Let_def intro!: no_fault_obind no_fault_primitives no_fault_page_alloc split: option.split)

lemma no_fault_page_lookup: "no_fault (page_lookup d va s)"
  by (auto simp: page_lookup_def intro!: no_fault_obind no_fault_primitives no_fault_pgdir_walk split: option.split)

lemma no_fault_page_free: "no_fault (page_free p s)" "no_fault (page_decref p s)"
  by (simp_all add: page_free_def page_decref_def Let_def)

lemma no_fault_page_remove: "no_fault (page_remove d va s)"
  by (auto simp: page_remove_def intro!: no_fault_obind no_fault_page_lookup no_fault_page_free split: option.split)

lemma no_fault_page_insert: "no_fault (page_insert d (Some pp) va perm s)"
  by (auto simp: page_insert_def Let_def intro!: no_fault_obind no_fault_pgdir_walk no_fault_page_remove split: option.split)

lemma no_fault_env_alloc: "no_fault (env_alloc parent s)"
  by (auto simp: env_alloc_def env_setup_vm_def Let_def intro!: no_fault_obind no_fault_primitives no_fault_page_alloc
      no_fault_page_insert split: option.split)

lemmas no_fault_rules = no_fault_obind no_fault_primitives no_fault_page_alloc no_fault_page_lookup no_fault_page_free
  no_fault_page_remove no_fault_page_insert no_fault_env_alloc

lemma no_fault_envid2env: "curenv s \<noteq> None \<Longrightarrow> no_fault (envid2env envid chk s)"
  by (auto simp: envid2env_def Let_def)

lemma no_fault_user_mem_loop: "no_fault (user_mem_loop n d va perm s)"
  by (induction n arbitrary: va s) (auto intro!: no_fault_obind no_fault_page_lookup split: option.split)

section \<open>Leaving and destroying\<close>

lemma no_fault_yield:
  assumes "kernel_inv E s" "has_lock s"
  shows "no_fault (sched_yield s)"
proof -
  obtain l t where "sched_yield s = Leave l t" using sched_yield_leaves [OF kernel_inv_sched_ready [OF assms]] by blast
  then show ?thesis by simp
qed

lemma no_fault_destroy:
  assumes inv: "kernel_inv E s" and l: "has_lock s" and e: "live s e"
  shows "no_fault (env_destroy e s)"
proof (cases "curenv s = Some e")
  case True
  then obtain l t where "env_destroy e s = Leave l t" using destroy_current [OF inv l] by blast
  then show ?thesis by simp
next
  case False
  have "mem_inv E s" using inv by (simp add: kernel_inv_def)
  then obtain t where t: "env_free e s = Return () t" "cpus t = cpus s" "this_cpu t = this_cpu s"
    using mem_inv_env_free [OF _ e] by blast
  then have "curenv t \<noteq> Some e" using False by (simp add: curenv_def)
  then show ?thesis using t(1) by (simp add: env_destroy_def)
qed

lemma live_has_dir:
  assumes "kernel_inv E s" "live s e"
  obtains d where "env_pgdir (envs s e) = Some d"
  using live_dir [of s e] assms by (auto simp: kernel_inv_def mem_inv_def)

lemma no_fault_mem_assert:
  assumes inv: "kernel_inv E (kern m)" and l: "has_lock (kern m)" and e: "live (kern m) e"
  shows "no_fault (user_mem_assert e va len perm m)"
  unfolding user_mem_assert_def
proof (rule no_fault_obind, goal_cases)
  case 1
  obtain d where "env_pgdir (envs (kern m) e) = Some d" using live_has_dir [OF inv e] .
  then show ?case by (simp add: user_mem_check_def Let_def no_fault_user_mem_loop)
next
  case (2 r t)
  then obtain s where s: "user_mem_check e va len (perm OR PTE_U) (kern m) = Return r s" "kern t = s" by (auto simp: lift_kern_Return)
  obtain a where t: "s = (kern m)\<lparr>user_mem_check_addr := a\<rparr>" using user_mem_check_state [OF s(1)] by blast
  have "kernel_inv E s" by (rule kernel_inv_other [OF inv]) (simp_all add: t curenv_def)
  moreover have "live s e" "has_lock s" using e l by (simp_all add: t has_lock_def)
  ultimately show ?case by (simp add: destroy_env_def s(2) no_fault_destroy)
qed

lemma no_fault_cputs:
  assumes inv: "kernel_inv E (kern m)" and l: "has_lock (kern m)" and c: "curenv (kern m) = Some c"
  shows "no_fault (sys_cputs str len m)"
proof -
  have "live (kern m) c" using inv c by (simp add: kernel_inv_def cur_inv_def)
  from no_fault_mem_assert [OF inv l this] show ?thesis
    unfolding sys_cputs_def c option.case by (rule no_fault_obind) (auto split: option.split)
qed

section \<open>Calls on environments and memory\<close>

lemma envid2env_code: "envid2env envid chk s = Return (r, None) t \<Longrightarrow> curenv s \<noteq> None \<Longrightarrow> r = - E_BAD_ENV"
  by (auto simp: envid2env_def Let_def split: if_split_asm option.split_asm)

lemma no_fault_on_env:
  assumes inv: "kernel_inv E s" and c: "curenv s \<noteq> None"
    and none: "no_fault (f (- E_BAD_ENV, None) s)"
    and some: "\<And>r e d. envid2env envid chk s = Return (r, Some e) s \<Longrightarrow> live s e \<Longrightarrow> env_pgdir (envs s e) = Some d \<Longrightarrow> no_fault (f (r, Some e) s)"
  shows "no_fault (obind (envid2env envid chk s) f)"
proof (rule no_fault_obind [OF no_fault_envid2env [OF c]])
  fix x t assume t: "envid2env envid chk s = Return x t"
  then have ts: "t = s" by (rule envid2env_state)
  obtain r y where x: "x = (r, y)" by (cases x)
  show "no_fault (f x t)"
  proof (cases y)
    case None
    then show ?thesis using none envid2env_code [OF t [unfolded x None] c] by (simp add: x ts)
  next
    case (Some e)
    note e = t [unfolded x Some ts]
    have l: "live s e" by (rule envid2env_live(2) [OF inv e])
    obtain d where "env_pgdir (envs s e) = Some d" using live_has_dir [OF inv l] .
    then show ?thesis using some [OF e l] by (simp add: x ts Some)
  qed
qed

lemma no_fault_sys_destroy:
  assumes inv: "kernel_inv E s" and l: "has_lock s" and c: "curenv s \<noteq> None"
  shows "no_fault (sys_env_destroy envid s)"
  unfolding sys_env_destroy_def
  by (rule no_fault_on_env [OF inv c])
     (auto simp: E_BAD_ENV_def intro!: no_fault_obind no_fault_destroy [OF inv l])

lemma no_fault_sys_page_alloc:
  assumes inv: "kernel_inv E s" and c: "curenv s \<noteq> None"
  shows "no_fault (sys_page_alloc envid va perm s)"
  unfolding sys_page_alloc_def
proof (rule no_fault_on_env [OF inv c], goal_cases)
  case (2 r e d)
  have "env_pgdir (envs t e) = Some d" if "page_alloc ALLOC_ZERO s = Return x t" for x t
    using Return_frame [OF that frame_page_alloc] 2(3) by (simp add: vm_frame_def)
  then show ?case by (auto intro!: no_fault_rules split: option.split)
qed simp

lemma lookup_page:
  assumes inv: "kernel_inv E s" and e: "live s e" "env_pgdir (envs s e) = Some d" and va: "va < UTOP" "\<not> null_page e va s"
    and lk: "page_lookup d va s = Return (pg, Some p) t"
  shows "pg \<noteq> None"
proof -
  obtain xs where sp: "space_ok (all_dirs s) E xs s" using inv by (rule kernel_inv_space)
  have pv: "pdx va \<in> {..<955}" using va(1) below_UTOP [of va] by (simp add: linorder_not_le)
  have ts: "t = s" by (rule page_lookup_state [OF lk])
  have "present s d (pdx va)"
    using page_lookup_spec [OF space_okD(1) [OF sp] kernel_inv_dir(1) [OF inv e] pv] lk by (auto split: if_splits)
  then have "mapped d va s" using va e(2) by (simp add: null_page_def)
  then show ?thesis
    using lookup_mapped_page(1) [OF space_okD(1) [OF sp] kernel_inv_dir(1) [OF inv e] pv] lk by (auto split: if_splits)
qed

lemma no_fault_sys_page_map:
  assumes inv: "kernel_inv E s" and c: "curenv s \<noteq> None"
    and np: "\<And>r e. envid2env srcid True s = Return (r, Some e) s \<Longrightarrow> \<not> null_page e srcva s"
  shows "no_fault (sys_page_map srcid srcva dstid dstva perm s)"
  unfolding sys_page_map_def
proof (rule no_fault_on_env [OF inv c], goal_cases none some)
  case none
  show ?case unfolding prod.case by (rule no_fault_on_env [OF inv c]) (simp_all split: option.split)
next
  case (some r e sd)
  note src = some
  show ?case unfolding prod.case
  proof (rule no_fault_on_env [OF inv c], goal_cases none some)
    case (some r' f dd)
    have "no_fault (page_insert dd pg dstva perm t)" if "srcva < UTOP" "page_lookup sd srcva s = Return (pg, Some p) t" for pg p t
      using lookup_page [OF inv src(2,3) that(1) np [OF src(1)] that(2)] by (auto intro: no_fault_page_insert)
    moreover have "t = s" if "page_lookup sd srcva s = Return x t" for x t using that by (rule page_lookup_state)
    ultimately show ?case using src(3) some(3)
      by (auto intro!: no_fault_obind no_fault_page_lookup split: option.split simp: linorder_not_le)
  qed simp
qed

lemma no_fault_ipc_page:
  assumes inv: "kernel_inv E s" and c: "live s c" and e: "live s e" and va: "srcva < UTOP" "\<not> null_page c srcva s"
  shows "no_fault (ipc_send_page c e srcva dstva perm s)"
proof -
  obtain cd where cd: "env_pgdir (envs s c) = Some cd" using live_has_dir [OF inv c] .
  obtain td where td: "env_pgdir (envs s e) = Some td" using live_has_dir [OF inv e] .
  have "no_fault (page_insert td pg dstva perm t)" if "page_lookup cd srcva s = Return (pg, Some p) t" for pg p t
    using lookup_page [OF inv c cd va that] by (auto intro: no_fault_page_insert)
  note ins = this
  show ?thesis unfolding ipc_send_page_def cd option.case
  proof (rule no_fault_obind [OF no_fault_page_lookup], goal_cases)
    case (1 x t)
    obtain pg pt where x: "x = (pg, pt)" by (cases x)
    have ts: "t = s" by (rule page_lookup_state [OF 1])
    have "no_fault (obind (page_insert td pg dstva perm s) (\<lambda>r s.
        if r = - E_NO_MEM then Return (- E_NO_MEM) s else Return 0 (upd_env e (\<lambda>x. x\<lparr>env_ipc_perm := perm\<rparr>) s)))" if "pt = Some p" for p
      using ins [of pg p t] 1 that by (intro no_fault_obind) (simp_all add: x ts)
    then show ?case unfolding x prod.case ts
      by (cases pt; cases "dstva mod PGSIZE = 0") (simp_all add: assert_that_def td)
  qed
qed

lemma null_page_upd_env [simp]:
  assumes "\<And>x. env_pgdir (f x) = env_pgdir x"
  shows "null_page c va (upd_env e f s) = null_page c va s"
proof -
  have "env_pgdir (envs (upd_env e f s) c) = env_pgdir (envs s c)" using assms by (simp add: upd_env_def)
  moreover have "slot (upd_env e f s) x = slot s x" for x by (rule slot_cong) simp
  moreover have "present (upd_env e f s) d i = present s d i" for d i by (simp add: present_def)
  ultimately show ?thesis unfolding null_page_def mapped_def by (simp split: option.split)
qed

lemma no_fault_send:
  assumes inv: "kernel_inv E s" and c: "curenv s = Some c" and np: "\<not> null_page c srcva s"
  shows "no_fault (sys_ipc_try_send envid val srcva perm s)"
  unfolding sys_ipc_try_send_def
proof (rule no_fault_on_env [OF inv], goal_cases cur none some)
  case (some r e d)
  let ?s = "upd_env e (\<lambda>x. x\<lparr>env_ipc_perm := 0\<rparr>) s"
  have ki: "kernel_inv E ?s" by (rule kernel_inv_upd_env [OF inv]) simp_all
  have "live ?s c" "live ?s e" "\<not> null_page c srcva ?s" using inv c some(2) np by (auto simp: kernel_inv_def cur_inv_def)
  then have "no_fault (ipc_send_page c e srcva dstva perm ?s)" if "srcva < UTOP" for dstva
    using that by (intro no_fault_ipc_page [OF ki])
  then show ?case using c by (auto simp: Let_def intro!: no_fault_obind)
qed (simp_all add: c)

lemma no_fault_recv:
  assumes inv: "kernel_inv E s" and l: "has_lock s" and c: "curenv s = Some c"
  shows "no_fault (sys_ipc_recv dstva s)"
proof -
  let ?s = "upd_env c (\<lambda>x. x\<lparr>env_ipc_dstva := dstva, env_ipc_recving := True, env_status := ENV_NOT_RUNNABLE\<rparr>) s"
  have "live s c" using inv c by (simp add: kernel_inv_def cur_inv_def)
  then have "kernel_inv E ?s" by (intro kernel_inv_upd_env [OF inv]) simp_all
  moreover have "has_lock ?s" using l by (simp add: has_lock_def)
  ultimately have "no_fault (sched_yield ?s)" by (rule no_fault_yield)
  then show ?thesis using c by (auto simp: sys_ipc_recv_def sys_yield_def Let_def intro!: no_fault_obind)
qed

lemma env_alloc_codes: "env_alloc parent s = Return (r, None) t \<Longrightarrow> r = - E_NO_FREE_ENV \<or> r = - E_NO_MEM"
  by (auto simp: env_alloc_def env_setup_vm_def Let_def elim!: obind_ReturnE split: option.split_asm if_split_asm)

lemma no_fault_syscall:
  assumes inv: "kernel_inv E (kern m)" and l: "has_lock (kern m)" and c: "curenv (kern m) = Some c"
    and np: "\<not> null_page_call n a1 a2 a3 (kern m)"
  shows "no_fault (syscall n a1 a2 a3 a4 a5 m)"
proof -
  have cur: "curenv (kern m) \<noteq> None" using c by simp
  have y: "no_fault (obind (lift_kern (sys_yield (kern m)) m) f)" for f :: "unit \<Rightarrow> machine \<Rightarrow> u32 mres"
    by (rule no_fault_obind) (simp_all add: sys_yield_def no_fault_yield [OF inv l] lift_kern_Return sched_yield_no_return)
  have x: "no_fault (sys_exofork (kern m))"
    using c by (auto simp: sys_exofork_def Let_def dest: env_alloc_codes intro!: no_fault_obind no_fault_env_alloc split: option.split)
  have u: "no_fault (sys_page_unmap a1 a2 (kern m))" unfolding sys_page_unmap_def
    by (rule no_fault_on_env [OF inv cur]) (auto intro!: no_fault_rules)
  have st: "no_fault (sys_env_set_status a1 a2 (kern m))"
    by (auto simp: sys_env_set_status_def intro!: no_fault_on_env [OF inv cur])
  have p: "no_fault (sys_page_map a1 a2 a3 a4 a5 (kern m))" if "n = SYS_page_map"
    using np that by (intro no_fault_sys_page_map [OF inv cur]) (auto simp: null_page_call_def)
  have s: "no_fault (sys_ipc_try_send a1 a2 a3 a4 (kern m))" if "n = SYS_ipc_try_send"
    using np that c by (intro no_fault_send [OF inv c]) (auto simp: null_page_call_def sys_numbers)
  have g: "no_fault (sys_getenvid (kern m))" "no_fault (sys_cgetc m)" using c by (auto simp: sys_getenvid_def sys_cgetc_def split: option.split)
  have o: "no_fault (obind (sys_cputs a1 a2 m) (\<lambda>_ m. Return (0 :: u32) m))"
    by (rule no_fault_obind [OF no_fault_cputs [OF inv l c]]) simp
  show ?thesis
    unfolding syscall_def Let_def
    using p s by (simp add: o y x u st g no_fault_sys_page_alloc [OF inv cur] no_fault_sys_destroy [OF inv l cur]
        no_fault_recv [OF inv l c])
qed

section \<open>Properties\<close>

text \<open>
  C5. A system call of the current environment, made with the kernel lock held, with any number and
  any arguments, keeps the kernel's state well-formed, provided no reference count is at its 16 bit limit at
  the call (\<open>refs_bound\<close>, which the code does not guarantee). This holds whether the call returns, gives the CPU to
  another environment or halts it: exact
  reference counts, page tables of their own for every environment, user space that maps
  data pages only, ids that lead to their environments, the free list of environments, and in
  \<open>cr3\<close> the directory of the current environment or, without one, the kernel's. And the call follows no bad pointer,
  unless it is \<open>sys_page_map\<close> or \<open>sys_ipc_try_send\<close> with a source address whose table exists and whose
  entry is empty, the case in which the code inserts the NULL page.
\<close>

theorem syscall_keeps_invariant:
  assumes "kernel_inv E (kern m)" "refs_bound (kern m)" "has_lock (kern m)" "curenv (kern m) = Some c"
  shows "holds (\<lambda>m. kernel_inv E (kern m)) (syscall n a1 a2 a3 a4 a5 m) \<and>
    ((\<exists>msg. syscall n a1 a2 a3 a4 a5 m = Fault msg) \<longrightarrow> null_page_call n a1 a2 a3 (kern m))"
proof
  show "holds (\<lambda>m. kernel_inv E (kern m)) (syscall n a1 a2 a3 a4 a5 m)" using assms(1,2) by (rule kernel_inv_syscall)
  show "(\<exists>msg. syscall n a1 a2 a3 a4 a5 m = Fault msg) \<longrightarrow> null_page_call n a1 a2 a3 (kern m)"
    using no_fault_syscall [OF assms(1,3,4), of n a1 a2 a3 a4 a5] unfolding no_fault_def by blast
qed

text \<open>The first environment, in the kernel.\<close>

definition locked_run :: kstate where
  "locked_run = first_run\<lparr>kernel_lock := (kernel_lock first_run)\<lparr>locked := 1, lk_cpu := Some (this_cpu first_run)\<rparr>\<rparr>"

lemma locked_run_inv:
  "kernel_inv demo_refs locked_run" "refs_bound locked_run" "has_lock locked_run" "curenv locked_run = Some 0"
proof -
  show "kernel_inv demo_refs locked_run" by (rule kernel_inv_other [OF first_run_inv(1)]) (simp_all add: locked_run_def curenv_def)
  show "refs_bound locked_run" using first_run_inv(2) by (simp add: refs_bound_def locked_run_def)
  show "has_lock locked_run" "curenv locked_run = Some 0"
    using first_run_simps(1) by (simp_all add: locked_run_def has_lock_def holding_def curenv_def)
qed

theorem syscall_keeps_invariant_witness:
  "\<exists>t. syscall SYS_env_set_status 0 status_not_runnable 0 0 0 \<lparr>kern = locked_run, con = quiet_console\<rparr> = Return 0 t \<and>
     env_status (envs (kern t) 0) = ENV_NOT_RUNNABLE \<and> kernel_inv demo_refs (kern t)"
proof -
  let ?m = "\<lparr>kern = locked_run, con = quiet_console\<rparr>"
  let ?t = "?m\<lparr>kern := upd_env 0 (\<lambda>x. x\<lparr>env_status := ENV_NOT_RUNNABLE\<rparr>) locked_run\<rparr>"
  have call: "syscall SYS_env_set_status 0 status_not_runnable 0 0 0 ?m = Return 0 ?t"
    by (simp add: syscall_def Let_def sys_numbers sys_env_set_status_def envid2env_def locked_run_inv
        status_not_runnable_def status_runnable_def)
  have "kernel_inv demo_refs (kern ?t)"
    using syscall_keeps_invariant [of demo_refs ?m 0 SYS_env_set_status 0 status_not_runnable 0 0 0] locked_run_inv
    by (simp add: call)
  then show ?thesis using call by (intro exI [of _ ?t]) simp
qed

end
