(* ===== verification/KernelIso.thy ===== *)
theory KernelIso
  imports KernelCalls
begin

text \<open>
  What a system call of one environment can do to the others: nothing to the address space of an
  environment that the caller may not manipulate, neither to its mappings nor to the contents of the pages it
  has mapped. The routines below write only to frames that are free, and to the directory and the tables of the
  environment they work on.
\<close>

section \<open>An address space that is left alone\<close>

definition untouched :: "nat \<Rightarrow> kstate \<Rightarrow> kstate \<Rightarrow> bool" where
  "untouched d s t \<longleftrightarrow> (\<forall>i < 955. \<forall>k. slot t (d, i, k) = slot s (d, i, k)) \<and>
     (\<forall>va < UTOP. mapped d va s \<longrightarrow> pmem t (mapped_page d va s) = pmem s (mapped_page d va s))"

lemma untouched_same: "pmem t = pmem s \<Longrightarrow> untouched d s t"
  using slot_cong [of t s] by (simp add: untouched_def)

lemma untouched_refl [simp]: "untouched d s s"
  by (simp add: untouched_same)

lemma untouched_trans:
  assumes "untouched d s t" "untouched d t u"
  shows "untouched d s u"
proof -
  have "mapped d va t = mapped d va s" "mapped_page d va t = mapped_page d va s" if "va < UTOP" for va
    using assms(1) below_UTOP [of va] that by (auto simp: untouched_def mapped_def mapped_page_def va_slot_def linorder_not_le)
  then show ?thesis using assms by (simp add: untouched_def)
qed

lemma untouchedI:
  assumes sp: "space_ok D E xs s" and d: "d \<in> D"
    and keep: "\<And>q. q \<notin> set xs \<Longrightarrow> \<not> is_table {..<955} (D - {d}) s q \<Longrightarrow> pmem t q = pmem s q"
  shows "untouched d s t"
proof -
  note tb = vm_okD(5) [OF space_okD(1) [OF sp]]
  have "\<not> is_table {..<955} (D - {d}) s d" using tables_okD(4) [OF tb] d by (auto simp: is_table_def)
  then have pd: "pmem t d = pmem s d" using keep tables_okD(2) [OF tb d] by blast
  have "pmem t (table s d i) = pmem s (table s d i)" if "i < 955" "present s d i" for i
  proof (rule keep)
    show "table s d i \<notin> set xs" using tables_okD(5) [OF tb d] that by simp
    show "\<not> is_table {..<955} (D - {d}) s (table s d i)"
    proof
      assume "is_table {..<955} (D - {d}) s (table s d i)"
      then consider "table s d i \<in> D" | e j where "e \<in> D" "e \<noteq> d" "j < 955" "present s e j" "table s e j = table s d i"
        by (auto simp: is_table_def)
      then show False
      proof cases
        case 1
        then show False using tables_okD(4) [OF tb d] that by simp
      next
        case 2
        then show False using tables_okD(6) [OF tb 2(1) _ d, of j i] that by simp
      qed
    qed
  qed
  then have sl: "slot t (d, i, k) = slot s (d, i, k)" if "i < 955" for i k
    using that pd by (simp add: slot_def present_def table_def)
  have "pmem t (mapped_page d va s) = pmem s (mapped_page d va s)" if va: "va < UTOP" "mapped d va s" for va
  proof (rule keep)
    have "pdx va \<in> {..<955}" using va(1) below_UTOP [of va] by (simp add: linorder_not_le)
    note m = mapped_data [OF sp d this va(2)]
    show "mapped_page d va s \<notin> set xs" by (rule m(2))
    show "\<not> is_table {..<955} (D - {d}) s (mapped_page d va s)" using m(1) by (auto simp: user_data_def is_table_def)
  qed
  then show ?thesis using sl by (simp add: untouched_def)
qed

section \<open>Page routines\<close>

lemma pmem_alloc:
  assumes sp: "space_ok D E xs s" and t: "page_alloc fl s = Return r t" and q: "q \<notin> set xs"
  shows "pmem t q = pmem s q"
proof (cases xs)
  case Nil
  then show ?thesis using t page_alloc_empty vm_okD(2) [OF space_okD(1) [OF sp]] by simp
next
  case (Cons x zs)
  then show ?thesis using t q page_alloc_Cons [OF vm_okD(2,1) [OF space_okD(1) [OF sp], unfolded Cons], of fl]
    by (auto simp: fill_frame_def split: if_splits)
qed

lemma untouched_alloc:
  assumes "space_ok D E xs s" "d \<in> D" "page_alloc fl s = Return r t"
  shows "untouched d s t"
  using pmem_alloc [OF assms(1,3)] by (intro untouchedI [OF assms(1,2)])

lemma untouched_insert:
  assumes sp: "space_ok D E xs s" and d: "d \<in> D" "e \<in> D" "e \<noteq> d" and va: "pdx va \<in> {..<955}"
    and pp: "insertable D E xs s pp" and t: "page_insert e (Some pp) va perm s = Return r t"
  shows "untouched d s t"
proof (rule untouchedI [OF sp d(1)])
  fix q assume q: "q \<notin> set xs" "\<not> is_table {..<955} (D - {d}) s q"
  have p: "pp \<notin> set xs" "unat (pp_ref (pages s pp)) < 65535" using pp by (simp_all add: insertable_def)
  show "pmem t q = pmem s q"
  proof (rule page_insert_pmem [OF space_okD(1) [OF sp] d(2) va p t])
    show "q \<noteq> table s e (pdx va)" if "present s e (pdx va)" using q d va that by (auto simp: is_table_def)
    show "q \<noteq> e" "q \<notin> set xs" using q d by (auto simp: is_table_def)
  qed
qed

lemma pmem_remove:
  assumes ok: "vm_ok I D E xs s" and d: "d \<in> D" "pdx va \<in> I" and t: "page_remove d va s = Return () t"
    and q: "present s d (pdx va) \<Longrightarrow> q \<noteq> table s d (pdx va)"
  shows "pmem t q = pmem s q"
proof (cases "present s d (pdx va)")
  case True
  then show ?thesis using q by (intro page_remove_pmem [OF ok d t])
next
  case False
  then have "\<not> mapped d va s" by (simp add: mapped_def slot_def va_slot_def)
  then have "t = s" using t by (simp add: page_remove_def page_lookup_spec [OF ok d] mapped_def)
  then show ?thesis by simp
qed

lemma untouched_remove:
  assumes sp: "space_ok D E xs s" and d: "d \<in> D" "e \<in> D" "e \<noteq> d" and va: "pdx va \<in> {..<955}"
    and t: "page_remove e va s = Return () t"
  shows "untouched d s t"
  using d va by (intro untouchedI [OF sp d(1)] pmem_remove [OF space_okD(1) [OF sp] d(2) va t]) (auto simp: is_table_def)

section \<open>Freeing and creating environments\<close>

lemma ofold_keeps:
  "ofold f xs s = Return () t \<Longrightarrow> P s \<Longrightarrow> (\<And>x s t. x \<in> set xs \<Longrightarrow> P s \<Longrightarrow> f x s = Return () t \<Longrightarrow> P t) \<Longrightarrow> P t"
proof (induction xs arbitrary: s)
  case (Cons x xs)
  then obtain u where u: "f x s = Return () u" "ofold f xs u = Return () t" by (auto elim!: obind_ReturnE)
  have "P u" by (rule Cons.prems(3) [OF _ Cons.prems(2) u(1)]) simp
  then show ?case by (rule Cons.IH [OF u(2)]) (rule Cons.prems(3), simp_all)
qed simp

lemma pmem_free_ptes:
  assumes ok: "vm_ok I D E xs s" and d: "d \<in> D" "i \<in> I" "present s d i" "i < 1024" and q: "q \<noteq> table s d i"
    and t: "ofold (free_pte d (table s d i) i) [0..<1024] s = Return () t"
  shows "pmem t q = pmem s q"
proof -
  let ?P = "\<lambda>u. (\<exists>ys. vm_ok I D E ys u) \<and> present u d i \<and> table u d i = table s d i \<and> pmem u q = pmem s q"
  have "?P t"
  proof (rule ofold_keeps [OF t])
    show "?P s" using ok d by blast
    fix k u v assume "k \<in> set [0..<1024]" and u: "?P u" and v: "free_pte d (table s d i) i k u = Return () v"
    then have k: "k < 1024" by simp
    obtain ys where ys: "vm_ok I D E ys u" using u by blast
    have pu: "present u d i" "table u d i = table s d i" "pmem u q = pmem s q" using u by simp_all
    have px: "pdx (PGADDR (of_nat i) (of_nat k) 0) = i" using PGADDR_index [OF d(4) k] by simp
    have "pmem v q = pmem u q"
    proof (cases "pmem u (table s d i) k AND PTE_P = 0")
      case False
      then have "page_remove d (PGADDR (of_nat i) (of_nat k) 0) u = Return () v" using v by (simp add: free_pte_def)
      from pmem_remove [OF ys d(1) _ this] show ?thesis using pu(2) q d(2) by (simp only: px) simp
    qed (use v in \<open>simp add: free_pte_def\<close>)
    moreover have "(\<exists>zs. vm_ok I D E zs v) \<and> present v d i \<and> table v d i = table s d i"
      using free_pte_spec [OF ys d(1,2) pu(1) d(4) k] v pu(2) by auto
    ultimately show "?P v" using pu(3) by simp
  qed
  then show ?thesis by blast
qed

lemma pmem_free_table:
  assumes ok: "vm_ok I D E xs s" and d: "d \<in> D" "i \<in> I" "i < 1024" and t: "free_table d i s = Return () t"
    and q: "q \<noteq> d" "present s d i \<Longrightarrow> q \<noteq> table s d i"
  shows "pmem t q = pmem s q"
proof (cases "present s d i")
  case False
  then show ?thesis using t by (simp add: free_table_def present_def)
next
  case True
  let ?q = "table s d i"
  have n: "?q < npages s" by (rule tables_okD(3) [OF vm_okD(5) [OF ok] d(1,2)])
  obtain v where v: "ofold (free_pte d ?q i) [0..<1024] s = Return () v"
    using free_ptes_spec [OF ok d(1,2) True d(3)] by blast
  have k: "unat (PTX (NOT 0)) + 1 = 1024" by (simp add: PTX_def layout_defs mask_eq_exp_minus_1)
  have "obind (pa2page (PTE_ADDR (pmem s d i)) (store_pte (d, i) 0 v)) (\<lambda>pp s. page_decref pp s) = Return () t"
    using t [unfolded free_table_def k] v True kaddr_table [OF n vm_okD(1) [OF ok]]
    by (simp add: present_def Let_def del: upt_Suc)
  then have "pmem t = pmem (store_pte (d, i) 0 v)" by (auto simp: pa2page_def split: if_split_asm dest: pmem_decref)
  then show ?thesis using q(1) pmem_free_ptes [OF ok d(1,2) True d(3) q(2) [OF True] v] by simp
qed

lemma pmem_free_tables:
  assumes ok: "vm_ok {..<955} D E xs s" and d: "d \<in> D" and q: "\<not> is_table {..<955} {d} s q"
    and t: "ofold (free_table d) [0..<955] s = Return () t"
  shows "pmem t q = pmem s q"
proof -
  let ?P = "\<lambda>u. (\<exists>ys. vm_ok {..<955} D E ys u) \<and> (\<forall>j < 955. present u d j \<longrightarrow> table u d j \<noteq> q) \<and> pmem u q = pmem s q"
  have "?P t"
  proof (rule ofold_keeps [OF t])
    show "?P s" using ok q by (auto simp: is_table_def)
    fix i u v assume "i \<in> set [0..<955]" and u: "?P u" and v: "free_table d i u = Return () v"
    then have i: "i \<in> {..<955}" "i < 1024" by simp_all
    obtain ys where ys: "vm_ok {..<955} D E ys u" using u by blast
    obtain zs where z: "vm_ok {..<955} D E zs v" "slots_kept {..<955} D (\<lambda>(e, j, k). (e, j) = (d, i)) u v" "\<not> present v d i"
      using free_table_spec [OF ys d i] v by auto
    have dir: "pmem v d j = pmem u d j" if "j \<noteq> i" for j using z(2) d that by (simp add: slots_kept_def)
    have "q \<noteq> d" using q by (auto simp: is_table_def)
    then have "pmem v q = pmem u q" using u i(1) by (intro pmem_free_table [OF ys d i v]) auto
    moreover have "table v d j \<noteq> q" if "j < 955" "present v d j" for j
    proof -
      have "j \<noteq> i" using z(3) that(2) by blast
      then show ?thesis using u that dir [of j] by (simp add: present_def table_def)
    qed
    ultimately show "?P v" using z(1) u by auto
  qed
  then show ?thesis by blast
qed

lemma untouched_free:
  assumes sp: "space_ok D E xs s" and d: "d \<in> D" "f \<in> D" "f \<noteq> d" and e: "env_pgdir (envs s e) = Some f"
    and t: "env_free e s = Return () t"
  shows "untouched d s t"
proof (rule untouchedI [OF sp d(1)])
  fix q assume "\<not> is_table {..<955} (D - {d}) s q"
  then have q: "\<not> is_table {..<955} {f} s q" using d by (auto simp: is_table_def)
  let ?r = "if curenv s = Some e then lcr3 (page2pa (kern_pgdir s)) s else s"
  have okr: "vm_ok {..<955} D E xs ?r" by (rule vm_ok_cong [OF space_okD(1) [OF sp]]) simp_all
  have qr: "\<not> is_table {..<955} {f} ?r q" using q by (auto simp: is_table_def present_def table_def)
  obtain u where u: "ofold (free_table f) [0..<955] ?r = Return () u" using free_tables_spec [OF okr d(2)] by auto
  have "pmem t = pmem u"
    using t u e PADDR_pgdir [OF space_dir_bound [OF sp space_okD(2) [OF sp]]]
    by (auto simp: env_free_def PDX_UTOP Let_def pa2page_def PADDR_def env_relink_def elim!: obind_ReturnE
        split: if_split_asm option.split_asm dest!: pmem_decref simp del: upt_Suc)
  then show "pmem t q = pmem s q" using pmem_free_tables [OF okr d(2) qr u] by simp
qed

lemma untouched_new:
  assumes inv: "kernel_inv E s" and r: "refs_bound s" and d: "d \<in> all_dirs s" and t: "env_alloc pid s = Return (r', y) t"
  shows "untouched d s t"
proof (cases y)
  case None
  then show ?thesis using kernel_inv_env_alloc(3) [OF inv r t] by auto
next
  case (Some e)
  obtain xs where sp: "space_ok (all_dirs s) E xs s" using inv by (rule kernel_inv_space)
  have vr: "unat (pp_ref (pages s 0xb8)) < 65535" using r by (simp add: refs_bound_def)
  have fl: "env_free_list s = Some e" using t Some by (auto simp: env_alloc_def elim!: obind_ReturnE split: option.split_asm if_split_asm)
  then obtain v w where v: "env_setup_vm e s = Return w v" "pmem t = pmem v"
    using t Some by (auto simp: env_alloc_def elim!: obind_ReturnE split: if_split_asm)
  show ?thesis
  proof (rule untouchedI [OF sp d])
    fix q assume q: "q \<notin> set xs"
    show "pmem t q = pmem s q"
    proof (cases xs)
      case Nil
      then show ?thesis using v page_alloc_empty vm_okD(2) [OF space_okD(1) [OF sp]] by (simp add: env_setup_vm_def)
    next
      case (Cons p zs)
      note vm = space_okD(1) [OF sp, unfolded Cons] and k = space_kern_ok [OF sp [unfolded Cons] vr]
      note s5 = setup_state_ok [OF vm k, where e = e]
      obtain u where u: "page_insert p (Some 0xb8) VGA_USER vga_perm (setup_state e p s) = Return 0 v"
        using v(1) by (auto simp: env_setup_vm_unfold [OF vm k] assert_that_def elim!: obind_ReturnE split: if_split_asm)
      have "0xb8 \<notin> set zs" "q \<noteq> p" "q \<notin> set zs" using k q Cons by (auto simp: kern_ok_def)
      moreover have "pdx VGA_USER \<in> {..<955}" using UVPT_pdx by simp
      moreover have "\<not> present (setup_state e p s) p (pdx VGA_USER)"
        using s5(4) k UVPT_pdx by (simp add: present_def kern_ok_def)
      ultimately have "pmem v q = pmem (setup_state e p s) q"
        using page_insert_pmem [OF s5(1) insertI1 _ _ s5(5) u] by blast
      then show ?thesis using v(2) \<open>q \<noteq> p\<close> by (simp add: setup_state_def fill_frame_def Let_def)
    qed
  qed
qed

section \<open>The scheduler\<close>

lemma untouched_run: "holds (untouched d s) (env_run e s)"
  by (auto simp: env_run_def Let_def preempt_def assert_that_def PADDR_def unlock_kernel_def spin_unlock_def env_pop_tf_def lcr3_def
      set_curenv_def holds_def split: option.split intro!: untouched_same)

lemma untouched_yield: "holds (untouched d s) (sched_yield s)"
  by (auto simp: sched_yield_def sched_halt_def Let_def PADDR_def unlock_kernel_def spin_unlock_def lcr3_def set_cpu_status_def
      set_curenv_def untouched_run split: option.split intro!: untouched_same)

section \<open>System calls\<close>

lemma other_dir:
  assumes inv: "kernel_inv E s" and x: "live s x" "env_pgdir (envs s x) = Some d" and e: "live s e" "e \<noteq> x"
  obtains f where "env_pgdir (envs s e) = Some f" "f \<in> all_dirs s" "f \<noteq> d"
proof -
  obtain f where f: "env_pgdir (envs s e) = Some f" using live_has_dir [OF inv e(1)] .
  moreover have "f \<in> all_dirs s" by (rule kernel_inv_dir(1) [OF inv e(1) f])
  moreover have "f \<noteq> d" using inv x e f by (auto simp: kernel_inv_def mem_inv_def envs_ok_def)
  ultimately show thesis by (rule that)
qed

lemma untouched_destroy:
  assumes inv: "kernel_inv E s" and x: "live s x" "env_pgdir (envs s x) = Some d" and e: "live s e" "e \<noteq> x"
  shows "holds (untouched d s) (env_destroy e s)"
proof -
  obtain f where f: "env_pgdir (envs s e) = Some f" "f \<in> all_dirs s" "f \<noteq> d" using other_dir [OF inv x e] .
  obtain xs where sp: "space_ok (all_dirs s) E xs s" using inv by (rule kernel_inv_space)
  have "mem_inv E s" using inv by (simp add: kernel_inv_def)
  then obtain t where t: "env_free e s = Return () t" using mem_inv_env_free [OF _ e(1)] by blast
  have u: "untouched d s t" by (rule untouched_free [OF sp kernel_inv_dir(1) [OF inv x] f(2,3,1) t])
  have "untouched d s (set_curenv None t)" using u by (rule untouched_trans) (simp add: untouched_same)
  then have "holds (untouched d s) (sched_yield (set_curenv None t))"
    using untouched_yield [of d "set_curenv None t"] by (auto simp: holds_def intro: untouched_trans split: option.splits)
  then show ?thesis using t u by (simp add: env_destroy_def untouched_same)
qed

abbreviation muntouched :: "nat \<Rightarrow> machine \<Rightarrow> machine \<Rightarrow> bool" where
  "muntouched d m m' \<equiv> untouched d (kern m) (kern m')"

lemma untouched_mem_assert:
  assumes inv: "kernel_inv E (kern m)" and x: "live (kern m) x" "env_pgdir (envs (kern m) x) = Some d"
    and e: "live (kern m) e" "e \<noteq> x"
  shows "holds (muntouched d m) (user_mem_assert e va len perm m)"
  unfolding user_mem_assert_def
proof (rule holds_bind, goal_cases)
  case 1
  have "stays (user_mem_check e va len (perm OR PTE_U) (kern m))"
    by (simp add: user_mem_check_def Let_def stays_user_mem_loop split: option.split)
  then show ?case by (cases "user_mem_check e va len (perm OR PTE_U) (kern m)") simp_all
next
  case (2 r t)
  then obtain s where s: "user_mem_check e va len (perm OR PTE_U) (kern m) = Return r s" "kern t = s" by (auto simp: lift_kern_Return)
  obtain a where t: "s = (kern m)\<lparr>user_mem_check_addr := a\<rparr>" using user_mem_check_state [OF s(1)] by blast
  have ks: "kernel_inv E s" by (rule kernel_inv_other [OF inv]) (simp_all add: t curenv_def)
  have us: "untouched d (kern m) s" by (rule untouched_same) (simp add: t)
  have "holds (untouched d s) (env_destroy e s)" using x e by (intro untouched_destroy [OF ks]) (simp_all add: t)
  then have "holds (untouched d (kern m)) (env_destroy e s)" using us by (auto simp: holds_def intro: untouched_trans split: option.splits)
  then show ?case using us by (simp add: s(2) destroy_env_def holds_lift_kern [of "untouched d (kern m)"])
qed

lemma untouched_cputs:
  assumes inv: "kernel_inv E (kern m)" and x: "live (kern m) x" "env_pgdir (envs (kern m) x) = Some d"
    and c: "curenv (kern m) = Some c" "c \<noteq> x"
  shows "holds (muntouched d m) (sys_cputs str len m)"
proof -
  have "live (kern m) c" using inv c by (simp add: kernel_inv_def cur_inv_def)
  from untouched_mem_assert [OF inv x this c(2)] show ?thesis
    unfolding sys_cputs_def c option.case by (rule holds_obind) (auto split: option.split)
qed

lemma holds_checked:
  assumes inv: "kernel_inv E s" and c: "curenv s = Some c" and x: "live s x" "env_pgdir (envs s x) = Some d" "\<not> may_change s c x"
    and none: "\<And>r. holds P (f (r, None) s)"
    and some: "\<And>r e dd. live s e \<Longrightarrow> e \<noteq> x \<Longrightarrow> env_pgdir (envs s e) = Some dd \<Longrightarrow> dd \<in> all_dirs s \<Longrightarrow> dd \<noteq> d \<Longrightarrow> holds P (f (r, Some e) s)"
  shows "holds P (obind (envid2env envid True s) f)"
proof (rule holds_bind [OF stays_envid2env])
  fix y t assume t: "envid2env envid True s = Return y t"
  obtain r z where y: "y = (r, z)" by (cases y)
  have ts: "t = s" by (rule envid2env_state [OF t])
  show "holds P (f y t)"
  proof (cases z)
    case (Some e)
    note e = t [unfolded y Some]
    have l: "live s e" "e \<noteq> x" using envid2env_live(2) [OF inv e] envid2env_check(3) [OF e c] x(3) by auto
    obtain dd where "env_pgdir (envs s e) = Some dd" "dd \<in> all_dirs s" "dd \<noteq> d" using other_dir [OF inv x(1,2) l] .
    then show ?thesis using some l by (simp add: y ts Some)
  qed (use none in \<open>simp add: y ts\<close>)
qed

lemma untouched_page_unmap:
  assumes inv: "kernel_inv E s" and c: "curenv s = Some c" and x: "live s x" "env_pgdir (envs s x) = Some d" "\<not> may_change s c x"
  shows "holds (untouched d s) (sys_page_unmap envid va s)"
  unfolding sys_page_unmap_def
proof (rule holds_checked [OF inv c x], goal_cases none some)
  case (some r e dd)
  obtain xs where sp: "space_ok (all_dirs s) E xs s" using inv by (rule kernel_inv_space)
  have "holds (untouched d s) (obind (page_remove dd va s) (\<lambda>_ s. Return (0 :: u32) s))" if "pdx va \<in> {..<955}"
    by (rule holds_bind [OF stays_page_remove])
       (simp add: untouched_remove [OF sp kernel_inv_dir(1) [OF inv x(1,2)] some(4,5) that])
  then show ?case using some(3) below_UTOP [of va] by simp
qed simp

lemma untouched_page_alloc:
  assumes inv: "kernel_inv E s" and c: "curenv s = Some c" and x: "live s x" "env_pgdir (envs s x) = Some d" "\<not> may_change s c x"
  shows "holds (untouched d s) (sys_page_alloc envid va perm s)"
  unfolding sys_page_alloc_def
proof (rule holds_checked [OF inv c x], goal_cases none some)
  case (some r e dd)
  note dx = kernel_inv_dir(1) [OF inv x(1,2)]
  obtain xs where sp: "space_ok (all_dirs s) E xs s" using inv by (rule kernel_inv_space)
  have main: "holds (untouched d s) (case page of None \<Rightarrow> Return (- E_NO_MEM) u
      | Some pag \<Rightarrow> (case env_pgdir (envs u e) of None \<Rightarrow> Fault ''sys_page_alloc: NULL pgdir''
          | Some dd \<Rightarrow> obind (page_insert dd (Some pag) va perm u) (\<lambda>r s.
              if r = - E_NO_MEM then obind (page_free pag s) (\<lambda>_ s. Return (- E_NO_MEM) s) else Return 0 s)))"
    if al: "page_alloc ALLOC_ZERO s = Return page u" and va: "pdx va \<in> {..<955}" for page u
  proof (cases page)
    case None
    then show ?thesis using untouched_alloc [OF sp dx al] by simp
  next
    case (Some p)
    have us: "untouched d s u" by (rule untouched_alloc [OF sp dx al])
    have "env_pgdir (envs u e) = Some dd" using Return_frame [OF al frame_page_alloc] some(3) by (simp add: vm_frame_def)
    moreover obtain ys where ys: "space_ok (all_dirs s) E ys u" "insertable (all_dirs s) E ys u p"
      using space_alloc [OF sp al] Some by blast
    have "holds (untouched d s) (obind (page_insert dd (Some p) va perm u) (\<lambda>r s.
        if r = - E_NO_MEM then obind (page_free p s) (\<lambda>_ s. Return (- E_NO_MEM) s) else Return 0 s))"
    proof (rule holds_bind [OF stays_page_insert])
      fix r t assume t: "page_insert dd (Some p) va perm u = Return r t"
      have ut: "untouched d s t" by (rule untouched_trans [OF us untouched_insert [OF ys(1) dx some(4,5) va ys(2) t]])
      have "holds (untouched d s) (obind (page_free p t) (\<lambda>_ s. Return (- E_NO_MEM) s))"
        using ut untouched_trans [OF ut untouched_same [of "page_relink p t"]] by (simp add: page_free_def Let_def)
      then show "holds (untouched d s) (if r = - E_NO_MEM then obind (page_free p t) (\<lambda>_ s. Return (- E_NO_MEM) s) else Return 0 t)"
        using ut by simp
    qed
    ultimately show ?thesis using Some by simp
  qed
  show ?case
    using below_UTOP [of va] by (auto intro!: holds_bind [OF stays_page_alloc] main)
qed simp

text \<open>Sharing a page: only the directory of the receiver is written.\<close>

lemma untouched_share:
  assumes inv: "kernel_inv E s" and r: "refs_bound s" and e: "live s e" "env_pgdir (envs s e) = Some sd"
    and d: "dd \<in> all_dirs s" "d \<in> all_dirs s" "dd \<noteq> d" and va: "pdx srcva \<in> {..<955}" "pdx dstva \<in> {..<955}"
    and lk: "page_lookup sd srcva s = Return (pg, p) s" and t: "page_insert dd pg dstva perm s = Return c t"
  shows "untouched d s t"
proof -
  obtain xs where sp: "space_ok (all_dirs s) E xs s" using inv by (rule kernel_inv_space)
  note sd = kernel_inv_dir(1) [OF inv e] and vm = space_okD(1) [OF sp]
  have pg: "pg = (if mapped sd srcva s then Some (mapped_page sd srcva s) else None)"
    using lookup_mapped_page(1) [OF vm sd va(1)] lk by simp
  show ?thesis
  proof (cases "mapped sd srcva s")
    case True
    then show ?thesis
      using untouched_insert [OF sp d(2,1,3) va(2) mapped_insertable [OF sp r sd va(1) True]] pg t by simp
  next
    case False
    then have n: "pg = None" using pg by simp
    have p0: "page_insert dd None dstva perm s = page_insert dd None dstva 0 s" unfolding page_insert_def option.case ..
    have "t = s"
    proof (cases "present s dd (pdx dstva) \<or> xs \<noteq> []")
      case True
      then show ?thesis using t insert_shared(2) [OF vm sd va(1) d(1) va(2) _ True, of 0] by (simp add: n p0)
    next
      case False
      then show ?thesis using t page_insert_no_table [of "{..<955}" "all_dirs s" E s dd dstva pg perm] vm d(1) va(2) by simp
    qed
    then show ?thesis by simp
  qed
qed

lemma untouched_page_map:
  assumes inv: "kernel_inv E s" and rb: "refs_bound s" and c: "curenv s = Some c"
    and x: "live s x" "env_pgdir (envs s x) = Some d" "\<not> may_change s c x"
  shows "holds (untouched d s) (sys_page_map srcid srcva dstid dstva perm s)"
  unfolding sys_page_map_def
proof (rule holds_envid2env [OF inv], goal_cases none some)
  case (none r)
  show ?case unfolding prod.case by (rule holds_envid2env [OF inv]) (simp_all split: option.split)
next
  case (some r e)
  note dx = kernel_inv_dir(1) [OF inv x(1,2)]
  obtain sd where sd: "env_pgdir (envs s e) = Some sd" using live_has_dir [OF inv some] .
  show ?case unfolding prod.case
  proof (rule holds_checked [OF inv c x], goal_cases none some)
    case (some r' f dd)
    have ins: "holds (untouched d s) (obind (page_insert dd pg dstva perm s) (\<lambda>r s. if r = - E_NO_MEM then Return (- E_NO_MEM) s else Return 0 s))"
      if va: "pdx srcva \<in> {..<955}" "pdx dstva \<in> {..<955}" and lk: "page_lookup sd srcva s = Return (pg, p) s" for pg p
      by (rule holds_bind [OF stays_page_insert])
         (simp add: untouched_share [OF inv rb \<open>live s e\<close> sd some(4) dx some(5) va lk])
    have "holds (untouched d s) (obind (page_lookup sd srcva s) (\<lambda>(src_page, pte_ptr) s.
        case pte_ptr of None \<Rightarrow> Return (- E_INVAL) s
        | Some p \<Rightarrow> if perm AND PTE_W \<noteq> 0 \<and> load_pte p s AND PTE_W = 0 then Return (- E_INVAL) s
            else (case env_pgdir (envs s f) of None \<Rightarrow> Fault ''sys_page_map: NULL pgdir''
              | Some dd \<Rightarrow> obind (page_insert dd src_page dstva perm s) (\<lambda>r s.
                  if r = - E_NO_MEM then Return (- E_NO_MEM) s else Return 0 s))))"
      if va: "pdx srcva \<in> {..<955}" "pdx dstva \<in> {..<955}"
    proof (rule holds_bind [OF stays_page_lookup], goal_cases)
      case (1 y t)
      moreover from this have "t = s" by (rule page_lookup_state)
      ultimately show ?case using ins [OF va] some(3) by (cases y) (auto split: option.split)
    qed
    then show ?case using sd below_UTOP [of srcva] below_UTOP [of dstva] by simp
  qed (simp_all split: option.split)
qed

lemma untouched_send:
  assumes inv: "kernel_inv E s" and rb: "refs_bound s" and c: "curenv s = Some c" "c \<noteq> x"
    and x: "live s x" "env_pgdir (envs s x) = Some d" "\<not> env_ipc_recving (envs s x)"
  shows "holds (untouched d s) (sys_ipc_try_send envid val srcva perm s)"
  unfolding sys_ipc_try_send_def
proof (rule holds_envid2env [OF inv], goal_cases none some)
  case (some r e)
  show ?case
  proof (cases "e = x \<or> \<not> env_ipc_recving (envs s e)")
    case True
    then show ?thesis using x(3) by auto
  next
    case False
    let ?s = "upd_env e (\<lambda>x. x\<lparr>env_ipc_perm := 0\<rparr>) s" and ?dst = "env_ipc_dstva (envs s e)"
    have ki: "kernel_inv E ?s" by (rule kernel_inv_upd_env [OF inv]) simp_all
    have lv: "live ?s c" "live ?s e" "live ?s x" "env_pgdir (envs ?s x) = Some d" "refs_bound ?s" "e \<noteq> x"
      using inv c some x rb False by (auto simp: kernel_inv_def cur_inv_def refs_bound_def)
    note dx = kernel_inv_dir(1) [OF ki lv(3,4)]
    obtain cd where cd: "env_pgdir (envs ?s c) = Some cd" using live_has_dir [OF ki lv(1)] .
    obtain td where td: "env_pgdir (envs ?s e) = Some td" "td \<in> all_dirs ?s" "td \<noteq> d" using other_dir [OF ki lv(3,4,2,6)] .
    have us: "untouched d s ?s" by (rule untouched_same) simp
    have page: "holds (untouched d s) (ipc_send_page c e srcva ?dst perm ?s)" if va: "srcva < UTOP" "?dst < UTOP"
      unfolding ipc_send_page_def cd option.case
    proof (rule holds_bind [OF stays_page_lookup], goal_cases)
      case (1 y t)
      have ts: "t = ?s" by (rule page_lookup_state [OF 1])
      obtain pg pt where y: "y = (pg, pt)" by (cases y)
      have vs: "pdx srcva \<in> {..<955}" "pdx ?dst \<in> {..<955}" using va below_UTOP by (simp_all add: linorder_not_le)
      have "holds (untouched d s) (obind (page_insert td pg ?dst perm ?s) (\<lambda>r s.
          if r = - E_NO_MEM then Return (- E_NO_MEM) s else Return 0 (upd_env e (\<lambda>x. x\<lparr>env_ipc_perm := perm\<rparr>) s)))"
      proof (rule holds_bind [OF stays_page_insert])
        fix r u assume u: "page_insert td pg ?dst perm ?s = Return r u"
        have "untouched d ?s u"
          by (rule untouched_share [OF ki lv(5) lv(1) cd td(2) dx td(3) vs 1 [unfolded ts y] u])
        then have su: "untouched d s u" by (rule untouched_trans [OF us])
        then show "holds (untouched d s) (if r = - E_NO_MEM then Return (- E_NO_MEM) u else Return 0 (upd_env e (\<lambda>x. x\<lparr>env_ipc_perm := perm\<rparr>) u))"
          using untouched_trans [OF su untouched_same [of "upd_env e (\<lambda>x. x\<lparr>env_ipc_perm := perm\<rparr>) u"]] by simp
      qed
      then show ?case unfolding y prod.case ts
        using us td(1) by (cases pt; cases "?dst mod PGSIZE = 0") (simp_all add: assert_that_def)
    qed
    have st: "stays (ipc_send_page c e srcva ?dst perm ?s)"
      by (auto simp: ipc_send_page_def intro!: stays_obind stays_rules split: option.split)
    have main: "holds (untouched d s) (obind (if srcva < UTOP \<and> ?dst < UTOP then ipc_send_page c e srcva ?dst perm ?s else Return 0 ?s)
      (\<lambda>r s. if r \<noteq> 0 then Return r s else Return 0 (ipc_deliver e (env_id (envs s c)) val s)))"
    proof (rule holds_bind)
      show "stays (if srcva < UTOP \<and> ?dst < UTOP then ipc_send_page c e srcva ?dst perm ?s else Return 0 ?s)" using st by simp
      fix a t assume "(if srcva < UTOP \<and> ?dst < UTOP then ipc_send_page c e srcva ?dst perm ?s else Return 0 ?s) = Return a t"
      then have ut: "untouched d s t" using page us by (auto split: if_splits)
      have "untouched d s (ipc_deliver e (env_id (envs t c)) val t)"
        by (rule untouched_trans [OF ut untouched_same]) (simp add: ipc_deliver_def)
      then show "holds (untouched d s) (if a \<noteq> 0 then Return a t else Return 0 (ipc_deliver e (env_id (envs t c)) val t))"
        using ut by simp
    qed
    have eq: "env_ipc_dstva (envs ?s e) = ?dst" "curenv ?s = Some c" using c(1) by simp_all
    show ?thesis using False main 
      by (simp only: prod.case option.case Let_def eq if_False if_True holds_simps untouched_refl not_True_eq_False de_Morgan_disj not_not
          simp_thms split: if_split)
  qed
qed simp

lemma untouched_exofork:
  assumes inv: "kernel_inv E s" and r: "refs_bound s" and d: "d \<in> all_dirs s"
  shows "holds (untouched d s) (sys_exofork s)"
proof (cases "curenv s")
  case (Some c)
  have same: "untouched d s (upd_env e h (upd_env e g (upd_env e f t)))" if "untouched d s t" for e f g h t
    by (rule untouched_trans [OF that untouched_same]) simp
  show ?thesis unfolding sys_exofork_def Some option.case
  proof (rule holds_bind, goal_cases)
    case 1
    show ?case by (auto simp: env_alloc_def env_setup_vm_def Let_def intro!: stays_obind stays_rules stays_primitives split: option.split)
  next
    case (2 y t)
    obtain r' z where y: "y = (r', z)" by (cases y)
    have "untouched d s t" by (rule untouched_new [OF inv r d 2 [unfolded y]])
    then show ?case using same by (auto simp: y Let_def split: option.split)
  qed
qed (simp add: sys_exofork_def)

lemma untouched_set_status: "holds (untouched d s) (sys_env_set_status envid status s)"
proof -
  have "stays (envid2env envid True s)" by (rule stays_envid2env)
  then have "holds (untouched d s) (obind (envid2env envid True s) (\<lambda>(code, e) s. case e of None \<Rightarrow> Return (- E_BAD_ENV) s
      | Some e \<Rightarrow> Return 0 (upd_env e (\<lambda>x. x\<lparr>env_status := (if status = status_runnable then ENV_RUNNABLE else ENV_NOT_RUNNABLE)\<rparr>) s)))"
    by (rule holds_bind) (auto dest: envid2env_state simp: untouched_same split: prod.split option.split)
  then show ?thesis by (simp add: sys_env_set_status_def)
qed

lemma untouched_recv: "holds (untouched d s) (sys_ipc_recv dstva s)"
proof -
  have "holds (untouched d s) (obind (sched_yield t) (\<lambda>_ s. Return (0 :: u32) s))" if "pmem t = pmem s" for t
  proof -
    have "holds (untouched d s) (sched_yield t)"
      using untouched_yield [of d t] untouched_trans [OF untouched_same [OF that]] by (auto simp: holds_def split: option.splits)
    then show ?thesis by (rule holds_return)
  qed
  then show ?thesis by (simp add: sys_ipc_recv_def sys_yield_def Let_def split: option.split)
qed

lemma untouched_syscall:
  assumes inv: "kernel_inv E (kern m)" and r: "refs_bound (kern m)" and c: "curenv (kern m) = Some c"
    and x: "live (kern m) x" "env_pgdir (envs (kern m) x) = Some d" "\<not> may_change (kern m) c x"
    and ipc: "n = SYS_ipc_try_send \<Longrightarrow> \<not> env_ipc_recving (envs (kern m) x)"
  shows "holds (muntouched d m) (syscall n a1 a2 a3 a4 a5 m)"
proof -
  note lift = holds_lift_kern [of "untouched d (kern m)"] and dx = kernel_inv_dir(1) [OF inv x(1,2)]
  have cx: "c \<noteq> x" using x(3) by (auto simp: may_change_def)
  have y: "holds (muntouched d m) (obind (lift_kern (sys_yield (kern m)) m) f)" for f :: "unit \<Rightarrow> machine \<Rightarrow> u32 mres"
    by (rule holds_obind) (simp_all add: lift sys_yield_def untouched_yield lift_kern_Return sched_yield_no_return)
  have g: "holds (untouched d (kern m)) (sys_getenvid (kern m))" by (simp add: sys_getenvid_def split: option.split)
  have gc: "holds (muntouched d m) (sys_cgetc m)" by (auto simp: sys_cgetc_def split: option.split)
  have k: "holds (untouched d (kern m)) (sys_env_destroy a1 (kern m))"
    unfolding sys_env_destroy_def
  proof (rule holds_checked [OF inv c x], goal_cases none some)
    case (some r e dd)
    have "holds (untouched d (kern m)) (obind (env_destroy e (kern m)) (\<lambda>_ s. Return (0 :: u32) s))"
      by (rule holds_return [OF untouched_destroy [OF inv x(1,2) some(1,2)]])
    then show ?case by simp
  qed simp
  have o: "holds (muntouched d m) (obind (sys_cputs a1 a2 m) (\<lambda>_ m. Return (0 :: u32) m))"
    by (rule holds_return [OF untouched_cputs [OF inv x(1,2) c cx]])
  have s: "holds (untouched d (kern m)) (sys_ipc_try_send a1 a2 a3 a4 (kern m))" if "n = SYS_ipc_try_send"
    by (rule untouched_send [OF inv r c cx x(1,2) ipc [OF that]])
  show ?thesis
    unfolding syscall_def Let_def
    using s by (simp add: lift y g gc k o untouched_exofork [OF inv r dx] untouched_set_status untouched_recv
        untouched_page_alloc [OF inv c x] untouched_page_map [OF inv r c x] untouched_page_unmap [OF inv c x])
qed

section \<open>Properties\<close>

text \<open>
  C4. Environments are isolated from each other's system calls. Let \<open>x\<close> be an environment in use that is neither the
  caller nor a child of the caller nor, for \<open>sys_ipc_try_send\<close>, waiting for a message. Whatever the number
  and the arguments of the system call, and whether it returns or leaves to another environment, the address space of
  \<open>x\<close> is left alone: every entry of its page tables below \<open>UTOP\<close> and the contents of every page it has mapped
  there are the same as before. When the call returns, the record of \<open>x\<close> (its registers, its status,
  its message fields) is the same too. The hypotheses are the kernel invariant and that no reference count is at its 16 bit
  limit; a call that stops at the NULL page of \<open>sys_page_map\<close> or \<open>sys_ipc_try_send\<close> has no state after it.
\<close>

theorem syscall_env_isolation:
  assumes inv: "kernel_inv E (kern m)" and r: "refs_bound (kern m)" and c: "curenv (kern m) = Some c"
    and x: "live (kern m) x" "env_pgdir (envs (kern m) x) = Some d" "\<not> may_change (kern m) c x"
    and ipc: "n = SYS_ipc_try_send \<Longrightarrow> \<not> env_ipc_recving (envs (kern m) x)"
  shows "holds (\<lambda>m'. untouched d (kern m) (kern m')) (syscall n a1 a2 a3 a4 a5 m) \<and>
    (\<forall>r m'. syscall n a1 a2 a3 a4 a5 m = Return r m' \<longrightarrow> envs (kern m') x = envs (kern m) x)"
proof (intro conjI allI impI)
  show "holds (\<lambda>m'. untouched d (kern m) (kern m')) (syscall n a1 a2 a3 a4 a5 m)"
    by (rule untouched_syscall [OF inv r c x ipc])
  obtain es where l: "env_list (kern m) es" using inv by (auto simp: kernel_inv_def mem_inv_def)
  fix v m' assume "syscall n a1 a2 a3 a4 a5 m = Return v m'"
  then show "envs (kern m') x = envs (kern m) x" using x by (intro syscall_records [OF _ c l _ x(3) ipc]) simp_all
qed

text \<open>The example: environment 0 runs, and environment 1 has been created by the kernel.\<close>

lemma two_envs:
  "\<exists>s. kernel_inv demo_refs s \<and> refs_bound s \<and> curenv s = Some 0 \<and> live s 1 \<and> env_pgdir (envs s 1) = Some 3 \<and>
     env_parent_id (envs s 1) = 0 \<and> env_id (envs s 0) \<noteq> 0"
proof -
  have l: "env_list first_run (1 # [Suc 1..<NENV])"
  proof -
    have "[Suc 0..<NENV] = 1 # [Suc 1..<NENV]" using upt_conv_Cons [of "Suc 0" NENV] by (simp add: NENV_eq)
    then show ?thesis using first_env_list by (simp add: env_list_def envlist.on_list_def first_run_def set_curenv_def)
  qed
  have sp: "space_ok {200, 5} demo_refs [3, 2, 1] first_run"
    by (rule space_ok_cong [OF first_env_space]) (simp_all add: first_run_def set_curenv_def)
  have vr: "unat (pp_ref (pages first_run 0xb8)) < 65535" using first_run_inv(2) by (simp add: refs_bound_def)
  obtain s ys where s: "env_alloc 0 first_run = Return (0, Some 1) s" "vm_ok {..<955} {3, 200, 5} demo_refs ys s"
      "slots_kept {..<955} {200, 5} (\<lambda>_. False) first_run s"
      "\<forall>i < 955. \<forall>l. slot s (3, i, l) = (if (3, i, l) = va_slot 3 VGA_USER then vga_entry else 0)"
      "envs s = (envs first_run)(1 := fresh_env 1 0 ((envs first_run 1)\<lparr>env_pgdir := Some 3\<rparr>))"
    using env_alloc_spec [OF space_okD(1) [OF sp] space_kern_ok [OF sp vr] _ l, of 0] by auto
  have z: "slot first_run (d, i, k) = 0" if "i < 955" "d = 200 \<or> d = 5" for d i k
    using that by (auto simp: slot_def present_def table_def first_run_def set_curenv_def first_env_simps PGNUM_def)
  have "maps {..<955} {3, 200, 5} s q \<subseteq> {va_slot 3 VGA_USER}" for q
  proof
    fix y assume "y \<in> maps {..<955} {3, 200, 5} s q"
    then obtain d i k where y: "y = (d, i, k)" "d \<in> {3, 200, 5}" "i < 955" "slot s (d, i, k) AND PTE_P \<noteq> 0" by (auto simp: maps_def)
    then have "slot s (d, i, k) \<noteq> 0" by auto
    moreover have "slot s (d, i, k) = 0" if "d \<noteq> 3" using y(2,3) that s(3) z [of i d k] by (auto simp: slots_kept_def)
    ultimately show "y \<in> {va_slot 3 VGA_USER}" using s(4) y(1,3) by (metis singletonI)
  qed
  then have c1: "card (maps {..<955} {3, 200, 5} s q) \<le> 1" for q using card_mono [of "{va_slot 3 VGA_USER}"] by simp
  have "unat (pp_ref (pages s q)) \<le> 3" for q
  proof -
    have "unat (pp_ref (pages s q)) = card (maps {..<955} {3, 200, 5} s q) + (if is_table {..<955} {3, 200, 5} s q then 1 else 0) + demo_refs q"
      using vm_okD(6) [OF s(2)] by (simp add: refs_ok_def)
    moreover have "demo_refs q \<le> 1" by simp
    ultimately show ?thesis using c1 [of q] by (simp split: if_splits)
  qed
  then have "unat (pp_ref (pages s q)) < 65535" for q by (rule le_less_trans) simp
  then have "refs_bound s" by (simp add: refs_bound_def)
  moreover have ki: "kernel_inv demo_refs s" "curenv s = Some 0" "live s 1" "env_pgdir (envs s 1) = Some 3"
    using kernel_inv_env_alloc [OF first_run_inv s(1)] s(5) by (simp_all add: first_run_simps)
  moreover have "env_parent_id (envs s 1) = 0" by (simp add: s(5))
  moreover have "live s 0" "envs_ok s" using ki(1,2) by (simp_all add: kernel_inv_def cur_inv_def mem_inv_def)
  then have "env_id (envs s 0) \<noteq> 0" unfolding envs_ok_def by blast
  ultimately show ?thesis by blast
qed

text \<open>Environment 0 asks for a page in environment 1, which is not its child.\<close>

theorem syscall_env_isolation_witness:
  "\<exists>m m' d. curenv (kern m) = Some 0 \<and> live (kern m) 1 \<and> env_pgdir (envs (kern m) 1) = Some d \<and>
     syscall SYS_page_alloc (env_id (envs (kern m) 1)) 0x800000 (PTE_P OR PTE_U OR PTE_W) 0 0 m = Return (- E_BAD_ENV) m' \<and>
     envs (kern m') 1 = envs (kern m) 1 \<and> untouched d (kern m) (kern m')"
proof -
  obtain s where s: "kernel_inv demo_refs s" "refs_bound s" "curenv s = Some 0" "live s 1" "env_pgdir (envs s 1) = Some 3"
      "env_parent_id (envs s 1) = 0" "env_id (envs s 0) \<noteq> 0" using two_envs by blast
  let ?m = "\<lparr>kern = s, con = quiet_console\<rparr>" and ?id = "env_id (envs s 1)"
  have "?id \<noteq> 0" "ENVX ?id = 1" using s(1,4) by (auto simp: kernel_inv_def mem_inv_def envs_ok_def)
  then have "envid2env ?id True s = Return (- E_BAD_ENV, None) s" using s(3-7) by (simp add: envid2env_def Let_def)
  then have call: "syscall SYS_page_alloc ?id 0x800000 (PTE_P OR PTE_U OR PTE_W) 0 0 ?m = Return (- E_BAD_ENV) ?m"
    by (simp add: syscall_def Let_def sys_numbers sys_page_alloc_def)
  have nc: "\<not> may_change s 0 1" using s(6,7) by (simp add: may_change_def)
  have "SYS_page_alloc \<noteq> SYS_ipc_try_send" by (simp add: sys_numbers)
  then have "envs (kern ?m) 1 = envs (kern ?m) 1 \<and> untouched 3 (kern ?m) (kern ?m)"
    using syscall_env_isolation [where E = demo_refs and m = ?m and c = 0 and x = 1 and d = 3 and n = SYS_page_alloc and ?a1.0 = ?id
        and ?a2.0 = "0x800000" and ?a3.0 = "PTE_P OR PTE_U OR PTE_W" and ?a4.0 = 0 and ?a5.0 = 0] s(1-5) nc
    by (simp add: call)
  then show ?thesis using call s(3-5) by (intro exI [of _ ?m] exI [of _ 3]) simp
qed

end
