(* ===== verification/UserLib.thy ===== *)
theory UserLib
  imports Trap
begin

text \<open>
  The library user programs are linked with: system call stubs, messages, \<^verbatim>\<open>fork\<close>, console and start-up
  (\<^verbatim>\<open>lib/syscall.c\<close>, \<^verbatim>\<open>lib/ipc.c\<close>, \<^verbatim>\<open>lib/fork.c\<close>, \<^verbatim>\<open>lib/console.c\<close>, \<^verbatim>\<open>lib/libmain.c\<close>, \<^verbatim>\<open>lib/exit.c\<close>,
  \<^verbatim>\<open>lib/panic.c\<close>, \<^verbatim>\<open>lib/pgfault.c\<close>). A library routine runs in the current environment of a machine. A
  system call runs the kernel's handler on it. When the kernel does not return at once but runs
  something else, the argument \<open>res\<close> says what the rest of the system does until the
  environment runs again: the content of its \<^verbatim>\<open>%eax\<close> and the machine, or \<open>None\<close> when it never runs again.
  Local variables are not kept in the memory of the machine, and \<open>envs\<close>, which is mapped
  read-only at \<open>UENVS\<close>, is read directly.
\<close>

section \<open>User processes\<close>

record uproc =
  um :: machine
  thisenv :: "nat option"
  binaryname :: string
  pgfault_handler :: u32

type_synonym resume = "leave \<Rightarrow> machine \<Rightarrow> (u32 \<times> machine) option"

text \<open>
  A routine returns, panics (prints a message and enters the monitor), touches memory it may
  not touch (the kernel destroys the environment; the address is one of the page), or the kernel does not come back.
\<close>

datatype 'a ures = UReturn 'a uproc | UPanic string uproc | UFault u32 uproc | UKernel "unit mres"

fun ubind :: "'a ures \<Rightarrow> ('a \<Rightarrow> uproc \<Rightarrow> 'b ures) \<Rightarrow> 'b ures" where
  "ubind (UReturn a p) f = f a p"
| "ubind (UPanic e p) f = UPanic e p"
| "ubind (UFault va p) f = UFault va p"
| "ubind (UKernel r) f = UKernel r"

primrec ufold :: "('a \<Rightarrow> uproc \<Rightarrow> unit ures) \<Rightarrow> 'a list \<Rightarrow> uproc \<Rightarrow> unit ures" where
  "ufold f [] p = UReturn () p"
| "ufold f (x # xs) p = ubind (f x p) (\<lambda>_ p. ufold f xs p)"

text \<open>Loops: a step either goes on or gives the result of the loop; \<open>None\<close> when it never does.\<close>

partial_function (option) uloop :: "(uproc \<Rightarrow> uproc + 'a ures) \<Rightarrow> uproc \<Rightarrow> 'a ures option" where
  "uloop step p = (case step p of Inl p \<Rightarrow> uloop step p | Inr r \<Rightarrow> Some r)"

section \<open>Memory\<close>

text \<open>What the processor does with an address in user mode: frame and offset, if all bits \<open>need\<close> are set in both entries.\<close>

definition user_frame :: "u32 \<Rightarrow> u32 \<Rightarrow> kstate \<Rightarrow> nat option" where
  "user_frame need va s =
     (let pde = pmem s (unat (PGNUM (cr3 s))) (pdx va); pte = pmem s (unat (PGNUM pde)) (ptx va) in
      if pde AND need = need \<and> pte AND need = need then Some (unat (PGNUM pte)) else None)"

definition user_word :: "u32 \<Rightarrow> uproc \<Rightarrow> u32 ures" where
  "user_word va p =
     (case user_frame (PTE_P OR PTE_U) va (kern (um p)) of None \<Rightarrow> UFault va p
      | Some f \<Rightarrow> UReturn (pmem (kern (um p)) f (unat (PGOFF va) div 4)) p)"

definition user_store :: "u32 \<Rightarrow> u8 \<Rightarrow> uproc \<Rightarrow> unit ures" where
  "user_store va b p =
     (case user_frame (PTE_P OR PTE_U OR PTE_W) va (kern (um p)) of None \<Rightarrow> UFault va p
      | Some f \<Rightarrow>
          let s = kern (um p); off = unat (PGOFF va)
          in UReturn () (p\<lparr>um := (um p)\<lparr>kern := store_pte (f, off div 4) (set_byte (pmem s f (off div 4)) (off mod 4) b) s\<rparr>\<rparr>))"

text \<open>\<open>memmove\<close> of a page to a page: the result of the routine of \<open>CString\<close> on the memory the process sees.\<close>

definition move_page :: "u32 \<Rightarrow> u32 \<Rightarrow> uproc \<Rightarrow> unit ures" where
  "move_page dst src p =
     (let s = kern (um p) in
      case (user_frame (PTE_P OR PTE_U) src s, user_frame (PTE_P OR PTE_U OR PTE_W) dst s) of
        (None, _) \<Rightarrow> UFault src p
      | (_, None) \<Rightarrow> UFault dst p
      | (Some _, Some f) \<Rightarrow>
          let m = memmove dst src PGSIZE (load_mem s)
          in UReturn () (p\<lparr>um := (um p)\<lparr>kern := s\<lparr>pmem := (pmem s)(f := (\<lambda>k. if k < 1024 then read32 m (dst + of_nat (4 * k)) else pmem s f k))\<rparr>\<rparr>\<rparr>))"

section \<open>System call stubs\<close>

definition int_syscall :: "resume \<Rightarrow> u32 \<Rightarrow> u32 \<Rightarrow> u32 \<Rightarrow> u32 \<Rightarrow> u32 \<Rightarrow> u32 \<Rightarrow> uproc \<Rightarrow> u32 ures" where
  "int_syscall res num a1 a2 a3 a4 a5 p =
     (case syscall num a1 a2 a3 a4 a5 (um p) of
        Return r m \<Rightarrow> UReturn r (p\<lparr>um := m\<rparr>)
      | Leave l m \<Rightarrow> (case res l m of None \<Rightarrow> UKernel (Leave l m) | Some (r, m) \<Rightarrow> UReturn r (p\<lparr>um := m\<rparr>))
      | Panic e \<Rightarrow> UKernel (Panic e)
      | Fault e \<Rightarrow> UKernel (Fault e)
      | Diverge \<Rightarrow> UKernel Diverge)"

definition usyscall :: "resume \<Rightarrow> u32 \<Rightarrow> bool \<Rightarrow> u32 \<Rightarrow> u32 \<Rightarrow> u32 \<Rightarrow> u32 \<Rightarrow> u32 \<Rightarrow> uproc \<Rightarrow> u32 ures" where
  "usyscall res num chk a1 a2 a3 a4 a5 p =
     ubind (int_syscall res num a1 a2 a3 a4 a5 p) (\<lambda>ret p.
       if chk \<and> sint ret > 0 then UPanic ''syscall %d returned %d (> 0)'' p else UReturn ret p)"

definition usys_cputs :: "resume \<Rightarrow> u32 \<Rightarrow> u32 \<Rightarrow> uproc \<Rightarrow> unit ures" where
  "usys_cputs res s len p = ubind (usyscall res SYS_cputs False s len 0 0 0 p) (\<lambda>_ p. UReturn () p)"

definition usys_cgetc :: "resume \<Rightarrow> uproc \<Rightarrow> u32 ures" where
  "usys_cgetc res p = usyscall res SYS_cgetc False 0 0 0 0 0 p"

definition usys_env_destroy :: "resume \<Rightarrow> u32 \<Rightarrow> uproc \<Rightarrow> u32 ures" where
  "usys_env_destroy res envid p = usyscall res SYS_env_destroy True envid 0 0 0 0 p"

definition usys_getenvid :: "resume \<Rightarrow> uproc \<Rightarrow> u32 ures" where
  "usys_getenvid res p = usyscall res SYS_getenvid False 0 0 0 0 0 p"

definition usys_yield :: "resume \<Rightarrow> uproc \<Rightarrow> unit ures" where
  "usys_yield res p = ubind (usyscall res SYS_yield False 0 0 0 0 0 p) (\<lambda>_ p. UReturn () p)"

definition usys_page_alloc :: "resume \<Rightarrow> u32 \<Rightarrow> u32 \<Rightarrow> u32 \<Rightarrow> uproc \<Rightarrow> u32 ures" where
  "usys_page_alloc res envid va perm p = usyscall res SYS_page_alloc True envid va perm 0 0 p"

definition usys_page_map :: "resume \<Rightarrow> u32 \<Rightarrow> u32 \<Rightarrow> u32 \<Rightarrow> u32 \<Rightarrow> u32 \<Rightarrow> uproc \<Rightarrow> u32 ures" where
  "usys_page_map res srcenv srcva dstenv dstva perm p = usyscall res SYS_page_map True srcenv srcva dstenv dstva perm p"

definition usys_page_unmap :: "resume \<Rightarrow> u32 \<Rightarrow> u32 \<Rightarrow> uproc \<Rightarrow> u32 ures" where
  "usys_page_unmap res envid va p = usyscall res SYS_page_unmap True envid va 0 0 0 p"

text \<open>\<open>sys_exofork\<close> is inlined: no check, and \<open>int\<close> with the other registers as they happen to be.\<close>

definition usys_exofork :: "resume \<Rightarrow> uproc \<Rightarrow> u32 ures" where
  "usys_exofork res p = int_syscall res SYS_exofork 0 0 0 0 0 p"

definition usys_env_set_status :: "resume \<Rightarrow> u32 \<Rightarrow> u32 \<Rightarrow> uproc \<Rightarrow> u32 ures" where
  "usys_env_set_status res envid status p = usyscall res SYS_env_set_status True envid status 0 0 0 p"

definition usys_env_set_pgfault_upcall :: "resume \<Rightarrow> u32 \<Rightarrow> u32 \<Rightarrow> uproc \<Rightarrow> u32 ures" where
  "usys_env_set_pgfault_upcall res envid upcall p = usyscall res SYS_env_set_pgfault_upcall True envid upcall 0 0 0 p"

definition usys_ipc_try_send :: "resume \<Rightarrow> u32 \<Rightarrow> u32 \<Rightarrow> u32 \<Rightarrow> u32 \<Rightarrow> uproc \<Rightarrow> u32 ures" where
  "usys_ipc_try_send res envid val srcva perm p = usyscall res SYS_ipc_try_send False envid val srcva perm 0 p"

definition usys_ipc_recv :: "resume \<Rightarrow> u32 \<Rightarrow> uproc \<Rightarrow> u32 ures" where
  "usys_ipc_recv res dstva p = usyscall res SYS_ipc_recv True dstva 0 0 0 0 p"

section \<open>Console\<close>

text \<open>The character is passed in a local variable at \<open>at\<close>.\<close>

definition ucputchar :: "resume \<Rightarrow> u32 \<Rightarrow> u32 \<Rightarrow> uproc \<Rightarrow> unit ures" where
  "ucputchar res at ch p = ubind (user_store at (ucast ch) p) (\<lambda>_ p. usys_cputs res at 1 p)"

fun go_on :: "'a ures \<Rightarrow> ('a \<Rightarrow> uproc \<Rightarrow> uproc + 'b ures) \<Rightarrow> uproc + 'b ures" where
  "go_on (UReturn a p) f = f a p"
| "go_on (UPanic e p) f = Inr (UPanic e p)"
| "go_on (UFault va p) f = Inr (UFault va p)"
| "go_on (UKernel r) f = Inr (UKernel r)"

definition getchar_step :: "resume \<Rightarrow> uproc \<Rightarrow> uproc + u32 ures" where
  "getchar_step res p =
     go_on (usys_cgetc res p) (\<lambda>r p. if r = 0 then go_on (usys_yield res p) (\<lambda>_ p. Inl p) else Inr (UReturn r p))"

definition ugetchar :: "resume \<Rightarrow> uproc \<Rightarrow> u32 ures option" where
  "ugetchar res p = uloop (getchar_step res) p"

section \<open>Messages\<close>

text \<open>The value \<open>ipc_recv\<close> returns, and what it stores for non-null pointers: sender and permission.\<close>

definition ipc_recv :: "resume \<Rightarrow> u32 \<Rightarrow> uproc \<Rightarrow> (u32 \<times> u32 \<times> u32) ures" where
  "ipc_recv res pg p =
     (let pg = (if pg = 0 then UTOP else pg) in
      ubind (usys_ipc_recv res pg p) (\<lambda>errcode p.
        if errcode \<noteq> 0 then UReturn (errcode, 0, 0) p
        else case thisenv p of None \<Rightarrow> UFault 0 p
             | Some e \<Rightarrow> let x = envs (kern (um p)) e
                         in UReturn (env_ipc_value x, env_ipc_from x, env_ipc_perm x) p))"

definition ipc_send_step :: "resume \<Rightarrow> u32 \<Rightarrow> u32 \<Rightarrow> u32 \<Rightarrow> u32 \<Rightarrow> uproc \<Rightarrow> uproc + unit ures" where
  "ipc_send_step res to_env val pg perm p =
     go_on (usys_ipc_try_send res to_env val pg perm p) (\<lambda>errcode p.
       if errcode = - E_IPC_NOT_RECV then go_on (usys_yield res p) (\<lambda>_ p. Inl p)
       else if errcode = 0 then Inr (UReturn () p)
       else Inr (UPanic ''ipc_send: error other than -E_IPC_NOT_RECV'' p))"

definition ipc_send :: "resume \<Rightarrow> u32 \<Rightarrow> u32 \<Rightarrow> u32 \<Rightarrow> u32 \<Rightarrow> uproc \<Rightarrow> unit ures option" where
  "ipc_send res to_env val pg perm p = uloop (ipc_send_step res to_env val (if pg = 0 then UTOP else pg) perm) p"

definition ipc_find_env :: "EnvType \<Rightarrow> uproc \<Rightarrow> u32" where
  "ipc_find_env ty p =
     (case find (\<lambda>i. env_type (envs (kern (um p)) i) = ty) [0..<NENV] of None \<Rightarrow> 0 | Some i \<Rightarrow> env_id (envs (kern (um p)) i))"

section \<open>Fork\<close>

definition uassert :: "bool \<Rightarrow> string \<Rightarrow> uproc \<Rightarrow> unit ures" where
  "uassert b msg p = (if b then UReturn () p else UPanic msg p)"

definition or_panic :: "string \<Rightarrow> u32 ures \<Rightarrow> u32 ures" where
  "or_panic msg r = ubind r (\<lambda>r p. if sint r < 0 then UPanic msg p else UReturn r p)"

definition dup_or_share :: "resume \<Rightarrow> u32 \<Rightarrow> u32 \<Rightarrow> u32 \<Rightarrow> uproc \<Rightarrow> unit ures" where
  "dup_or_share res dstenv va perm p =
     ubind (uassert (perm AND PTE_P \<noteq> 0) ''assertion failed: perm & PTE_P'' p) (\<lambda>_ p.
       if perm AND PTE_W = 0 \<or> perm AND PTE_MAPPED \<noteq> 0
       then ubind (or_panic ''sys_page_map: %e'' (usys_page_map res 0 va dstenv va perm p)) (\<lambda>_ p. UReturn () p)
       else
         ubind (or_panic ''sys_page_alloc: %e'' (usys_page_alloc res dstenv va perm p)) (\<lambda>_ p.
         ubind (or_panic ''sys_page_map: %e'' (usys_page_map res dstenv va 0 UTEMP perm p)) (\<lambda>_ p.
         ubind (move_page UTEMP va p) (\<lambda>_ p.
         ubind (or_panic ''sys_page_unmap: %e'' (usys_page_unmap res 0 UTEMP p)) (\<lambda>_ p. UReturn () p)))))"

definition uvpt :: u32 where "uvpt = UVPT"
definition uvpd :: u32 where "uvpd = UVPT + drop_bit 12 UVPT * 4"

text \<open>One iteration of the loop of \<open>fork_v0\<close>, for the page with number \<open>n\<close>.\<close>

definition fork_page :: "resume \<Rightarrow> u32 \<Rightarrow> nat \<Rightarrow> uproc \<Rightarrow> unit ures" where
  "fork_page res pid n p =
     (let va = of_nat n * PGSIZE; pn = PGNUM va; pd = ROUNDDOWN pn NPDENTRIES div NPDENTRIES in
      ubind (user_word (uvpd + 4 * pd) p) (\<lambda>pde p.
        if pde AND PTE_P \<noteq> PTE_P then UReturn () p
        else ubind (user_word (uvpt + 4 * pn) p) (\<lambda>pte p.
          if pte AND PTE_P \<noteq> PTE_P then UReturn () p
          else dup_or_share res pid va (pte AND PTE_SYSCALL) p)))"

text \<open>After \<open>sys_exofork\<close>: the child continues with 0, the parent with the child's id. \<open>at\<close> is the address of the variable \<open>va\<close>.\<close>

definition fork_after :: "resume \<Rightarrow> u32 \<Rightarrow> u32 \<Rightarrow> uproc \<Rightarrow> u32 ures" where
  "fork_after res at pid p =
     (if sint pid < 0 then UPanic ''sys_exofork: %e'' p
      else if pid = 0 then
        ubind (usys_getenvid res p) (\<lambda>id p. UReturn 0 (p\<lparr>thisenv := Some (ENVX id)\<rparr>))
      else
        ubind (ufold (fork_page res pid) [0..<unat (UTOP div PGSIZE)] p) (\<lambda>_ p.
        ubind (dup_or_share res pid (ROUNDDOWN at PGSIZE) (PTE_P OR PTE_U OR PTE_W) p) (\<lambda>_ p.
        ubind (or_panic ''sys_env_set_status: %e'' (usys_env_set_status res pid status_runnable p)) (\<lambda>_ p. UReturn pid p))))"

definition fork_v0 :: "resume \<Rightarrow> u32 \<Rightarrow> uproc \<Rightarrow> u32 ures" where
  "fork_v0 res at p = ubind (usys_exofork res p) (\<lambda>pid p. fork_after res at pid p)"

definition fork :: "resume \<Rightarrow> u32 \<Rightarrow> uproc \<Rightarrow> u32 ures" where
  "fork res at p = fork_v0 res at p"

definition sfork :: "uproc \<Rightarrow> u32 ures" where "sfork p = UPanic ''sfork not implemented'' p"
definition pgfault :: "uproc \<Rightarrow> unit ures" where "pgfault p = UPanic ''pgfault not implemented'' p"
definition duppage :: "u32 \<Rightarrow> u32 \<Rightarrow> uproc \<Rightarrow> u32 ures" where "duppage envid pn p = UPanic ''duppage not implemented'' p"

section \<open>Start and end\<close>

definition set_pgfault_handler :: "u32 \<Rightarrow> uproc \<Rightarrow> unit ures" where
  "set_pgfault_handler handler p =
     (if pgfault_handler p = 0 then UPanic ''set_pgfault_handler not implemented'' p
      else UReturn () (p\<lparr>pgfault_handler := handler\<rparr>))"

definition uexit :: "resume \<Rightarrow> uproc \<Rightarrow> unit ures" where
  "uexit res p = ubind (usys_env_destroy res 0 p) (\<lambda>_ p. UReturn () p)"

text \<open>\<open>umain\<close> is the program, \<open>argv\<close> its arguments.\<close>

definition libmain :: "resume \<Rightarrow> (string list \<Rightarrow> uproc \<Rightarrow> unit ures) \<Rightarrow> string list \<Rightarrow> uproc \<Rightarrow> unit ures" where
  "libmain res umain argv p =
     ubind (usys_getenvid res p) (\<lambda>id p.
       let p = (if sint id \<ge> 0 then p\<lparr>thisenv := Some (ENVX id)\<rparr> else p);
           p = (case argv of [] \<Rightarrow> p | a # _ \<Rightarrow> p\<lparr>binaryname := a\<rparr>) in
       ubind (umain argv p) (\<lambda>_ p. uexit res p))"

end
