(* ===== verification/UserProgs.thy ===== *)
theory UserProgs
  imports UserLib
begin

text \<open>
  The programs under \<^verbatim>\<open>user\<close>, as clients of the library of \<open>UserLib\<close>: \<^verbatim>\<open>umain\<close> of each program with the
  routines it calls. Besides the rest of the system \<open>res\<close> they take the addresses that the compiler
  chooses: \<open>at\<close> is the print buffer of \<^verbatim>\<open>cprintf\<close> on the stack, \<open>va\<close> the variable of \<^verbatim>\<open>fork\<close>. The text of a message is
  written out in place of its format. After a \<^verbatim>\<open>fork\<close> the parent goes on with the id of the
  child and the child with 0; both run the same definition from there. Busy waiting has no effect. A program
  that may run forever is an option, \<open>None\<close> when it does. A panic of a program is the outcome \<open>UPanic\<close> with its
  format; what \<^verbatim>\<open>_panic\<close> prints before it stops is \<open>upanic\<close>.
\<close>

section \<open>Output\<close>

definition print_chunk :: "resume \<Rightarrow> u32 \<Rightarrow> u8 list \<Rightarrow> uproc \<Rightarrow> unit ures" where
  "print_chunk res at cs p =
     ubind (ufold (\<lambda>i. user_store (at + of_nat i) (cs ! i)) [0..<length cs] p) (\<lambda>_ p. usys_cputs res at (of_nat (length cs)) p)"

definition ucprintf :: "resume \<Rightarrow> u32 \<Rightarrow> string \<Rightarrow> uproc \<Rightarrow> unit ures" where
  "ucprintf res at msg p =
     (let b = fold uputch (map ucast (bytes_of msg)) \<lparr>idx = 0, pcnt = 0, pbuf = replicate 256 0, calls = []\<rparr>
      in ufold (print_chunk res at) (calls b @ [take (idx b) (pbuf b)]) p)"

text \<open>\<open>%d\<close> of a signed number.\<close>

definition sdec_text :: "u32 \<Rightarrow> string" where
  "sdec_text w = (if sint w < 0 then ''-'' @ dec_text (- w) else dec_text w)"

definition upanic :: "resume \<Rightarrow> u32 \<Rightarrow> string \<Rightarrow> u32 \<Rightarrow> string \<Rightarrow> uproc \<Rightarrow> unit ures" where
  "upanic res at file line msg p =
     ubind (usys_getenvid res p) (\<lambda>id p.
     ubind (ucprintf res at (''['' @ hex_text 8 id @ ''] user panic in '' @ binaryname p @ '' at '' @ file @ '':'' @ sdec_text line @ '': '') p) (\<lambda>_ p.
     ubind (ucprintf res at msg p) (\<lambda>_ p.
     ubind (ucprintf res at nl p) (\<lambda>_ p. UPanic msg p))))"

text \<open>The environment \<open>thisenv\<close> points to.\<close>

definition this_env :: "(Env \<Rightarrow> uproc \<Rightarrow> 'a ures) \<Rightarrow> uproc \<Rightarrow> 'a ures" where
  "this_env f p = (case thisenv p of None \<Rightarrow> UFault 0 p | Some e \<Rightarrow> f (envs (kern (um p)) e) p)"

section \<open>Programs that may not end\<close>

fun andthen :: "'a ures option \<Rightarrow> ('a \<Rightarrow> uproc \<Rightarrow> 'b ures option) \<Rightarrow> 'b ures option" where
  "andthen None f = None"
| "andthen (Some (UReturn a p)) f = f a p"
| "andthen (Some (UPanic e p)) f = Some (UPanic e p)"
| "andthen (Some (UFault va p)) f = Some (UFault va p)"
| "andthen (Some (UKernel r)) f = Some (UKernel r)"

text \<open>Repeat as long as the body returns \<open>True\<close>.\<close>

partial_function (option) wloop :: "(uproc \<Rightarrow> bool ures option) \<Rightarrow> uproc \<Rightarrow> unit ures option" where
  "wloop body p =
     (case body p of None \<Rightarrow> None
      | Some r \<Rightarrow> (case r of UReturn b p \<Rightarrow> if b then wloop body p else Some (UReturn () p)
                  | UPanic e p \<Rightarrow> Some (UPanic e p) | UFault va p \<Rightarrow> Some (UFault va p) | UKernel k \<Rightarrow> Some (UKernel k)))"

section \<open>Memory and exceptions\<close>

definition user_byte :: "u32 \<Rightarrow> uproc \<Rightarrow> u8 ures" where
  "user_byte va p = ubind (user_word va p) (\<lambda>w p. UReturn (get_byte w (unat va mod 4)) p)"

definition user_store_word :: "u32 \<Rightarrow> u32 \<Rightarrow> uproc \<Rightarrow> unit ures" where
  "user_store_word va v p = ufold (\<lambda>k. user_store (va + of_nat k) (get_byte v k)) [0..<4] p"

text \<open>The bytes of a string at \<open>va\<close>, up to its end.\<close>

partial_function (option) user_cstr :: "u32 \<Rightarrow> u8 list \<Rightarrow> uproc \<Rightarrow> u8 list ures option" where
  "user_cstr va acc p =
     (case user_byte va p of UReturn c p \<Rightarrow> if c = 0 then Some (UReturn (rev acc) p) else user_cstr (va + 1) (c # acc) p
      | UPanic e p \<Rightarrow> Some (UPanic e p) | UFault a p \<Rightarrow> Some (UFault a p) | UKernel k \<Rightarrow> Some (UKernel k))"

text \<open>
  An exception raised by an instruction: the trap handler of the kernel is entered with the
  registers \<open>tf\<close>, on a processor with the state \<open>cpu\<close>.
\<close>

definition uexception :: "cpu_entry \<Rightarrow> Trapframe \<Rightarrow> u32 \<Rightarrow> uproc \<Rightarrow> 'a ures" where
  "uexception cpu tf n p = UKernel (trap cpu (tf\<lparr>tf_trapno := n\<rparr>) (um p))"

definition T_DIVIDE :: u32 where "T_DIVIDE = 0"
definition T_GPFLT :: u32 where "T_GPFLT = 13"

section \<open>Greetings\<close>

definition hello_umain :: "resume \<Rightarrow> u32 \<Rightarrow> uproc \<Rightarrow> unit ures" where
  "hello_umain res at p =
     ubind (ucprintf res at (''hello, world'' @ nl) p) (\<lambda>_ p.
     ubind (usys_getenvid res p) (\<lambda>id p. ucprintf res at (''i am environment '' @ hex_text 8 id @ nl) p))"

definition buggyhello_umain :: "resume \<Rightarrow> uproc \<Rightarrow> unit ures" where
  "buggyhello_umain res p = usys_cputs res 1 1 p"

text \<open>\<open>hello\<close> is the address of the string.\<close>

definition buggyhello2_umain :: "resume \<Rightarrow> u32 \<Rightarrow> uproc \<Rightarrow> unit ures" where
  "buggyhello2_umain res hello p = usys_cputs res hello (1024 * 1024) p"

definition evilhello_umain :: "resume \<Rightarrow> uproc \<Rightarrow> unit ures" where
  "evilhello_umain res p = usys_cputs res 0xf010000c 100 p"

section \<open>Exceptions\<close>

definition divzero_umain :: "cpu_entry \<Rightarrow> Trapframe \<Rightarrow> u32 \<Rightarrow> uproc \<Rightarrow> unit ures" where
  "divzero_umain cpu tf zero p = ubind (user_store_word zero 0 p) (\<lambda>_ p. uexception cpu tf T_DIVIDE p)"

definition badsegment_umain :: "cpu_entry \<Rightarrow> Trapframe \<Rightarrow> uproc \<Rightarrow> unit ures" where
  "badsegment_umain cpu tf p = uexception cpu tf T_GPFLT p"

definition breakpoint_umain :: "cpu_entry \<Rightarrow> Trapframe \<Rightarrow> uproc \<Rightarrow> unit ures" where
  "breakpoint_umain cpu tf p = uexception cpu tf T_BRKPT p"

text \<open>The gate of vector 14 is closed to users: \<open>int $14\<close> is a general protection fault.\<close>

definition softint_umain :: "cpu_entry \<Rightarrow> Trapframe \<Rightarrow> uproc \<Rightarrow> unit ures" where
  "softint_umain cpu tf p = uexception cpu tf T_GPFLT p"

definition faultread_umain :: "resume \<Rightarrow> u32 \<Rightarrow> uproc \<Rightarrow> unit ures" where
  "faultread_umain res at p =
     ubind (user_word 0 p) (\<lambda>w p. ucprintf res at (''I read '' @ hex_text 8 w @ '' from location 0!'' @ nl) p)"

definition faultreadkernel_umain :: "resume \<Rightarrow> u32 \<Rightarrow> uproc \<Rightarrow> unit ures" where
  "faultreadkernel_umain res at p =
     ubind (user_word 0xf0100000 p) (\<lambda>w p. ucprintf res at (''I read '' @ hex_text 8 w @ '' from location 0xf0100000!'' @ nl) p)"

definition faultwrite_umain :: "uproc \<Rightarrow> unit ures" where
  "faultwrite_umain p = user_store_word 0 0 p"

definition faultwritekernel_umain :: "uproc \<Rightarrow> unit ures" where
  "faultwritekernel_umain p = user_store_word 0xf0100000 0 p"

section \<open>Page fault handlers\<close>

definition faultdie_handler :: "resume \<Rightarrow> u32 \<Rightarrow> u32 \<Rightarrow> u32 \<Rightarrow> uproc \<Rightarrow> unit ures" where
  "faultdie_handler res at addr err p =
     ubind (ucprintf res at (''i faulted at va '' @ hex_text 0 addr @ '', err '' @ hex_text 0 (err AND 7) @ nl) p) (\<lambda>_ p.
     ubind (usys_getenvid res p) (\<lambda>id p. ubind (usys_env_destroy res id p) (\<lambda>_ p. UReturn () p)))"

definition faultdie_umain :: "u32 \<Rightarrow> uproc \<Rightarrow> unit ures" where
  "faultdie_umain handler p = ubind (set_pgfault_handler handler p) (\<lambda>_ p. user_store_word 0xDeadBeef 0 p)"

text \<open>The string \<open>snprintf\<close> writes at the faulting address, at most 99 characters of it.\<close>

definition faultalloc_handler :: "resume \<Rightarrow> u32 \<Rightarrow> u32 \<Rightarrow> uproc \<Rightarrow> unit ures" where
  "faultalloc_handler res at addr p =
     ubind (ucprintf res at (''fault '' @ hex_text 0 addr @ nl) p) (\<lambda>_ p.
     ubind (usys_page_alloc res 0 (ROUNDDOWN addr PGSIZE) (PTE_P OR PTE_U OR PTE_W) p) (\<lambda>r p.
       if sint r < 0 then UPanic ''allocating at %x in page fault handler: %e'' p
       else let cs = take 99 (bytes_of (''this string was faulted in at '' @ hex_text 0 addr)) @ [0]
            in ufold (\<lambda>i. user_store (addr + of_nat i) (cs ! i)) [0..<length cs] p))"

definition faultallocbad_umain :: "resume \<Rightarrow> u32 \<Rightarrow> uproc \<Rightarrow> unit ures" where
  "faultallocbad_umain res handler p =
     ubind (set_pgfault_handler handler p) (\<lambda>_ p. usys_cputs res 0xDEADBEEF 4 p)"

definition faultbadhandler_umain :: "resume \<Rightarrow> uproc \<Rightarrow> unit ures" where
  "faultbadhandler_umain res p =
     ubind (usys_page_alloc res 0 (UXSTACKTOP - PGSIZE) (PTE_P OR PTE_U OR PTE_W) p) (\<lambda>_ p.
     ubind (usys_env_set_pgfault_upcall res 0 0xDeadBeef p) (\<lambda>_ p. user_store_word 0 0 p))"

definition faultevilhandler_umain :: "resume \<Rightarrow> uproc \<Rightarrow> unit ures" where
  "faultevilhandler_umain res p =
     ubind (usys_page_alloc res 0 (UXSTACKTOP - PGSIZE) (PTE_P OR PTE_U OR PTE_W) p) (\<lambda>_ p.
     ubind (usys_env_set_pgfault_upcall res 0 0xF0100020 p) (\<lambda>_ p. user_store_word 0 0 p))"

definition faultnostack_umain :: "resume \<Rightarrow> u32 \<Rightarrow> uproc \<Rightarrow> unit ures" where
  "faultnostack_umain res upcall p =
     ubind (usys_env_set_pgfault_upcall res 0 upcall p) (\<lambda>_ p. user_store_word 0 0 p)"

section \<open>Yielding\<close>

definition yield_umain :: "resume \<Rightarrow> u32 \<Rightarrow> uproc \<Rightarrow> unit ures" where
  "yield_umain res at p =
     ubind (this_env (\<lambda>x. ucprintf res at (''Hello, I am environment '' @ hex_text 8 (env_id x) @ '', cpu '' @ dec_text (of_nat (env_cpunum x)) @ nl)) p) (\<lambda>_ p.
     ubind (ufold (\<lambda>i p.
         ubind (usys_yield res p) (\<lambda>_.
           this_env (\<lambda>x. ucprintf res at (''Back in environment '' @ hex_text 8 (env_id x) @ '', iteration '' @ dec_text (of_nat i) @
             '', cpu '' @ dec_text (of_nat (env_cpunum x)) @ nl)))) [0..<5] p) (\<lambda>_.
     this_env (\<lambda>x. ucprintf res at (''All done in environment '' @ hex_text 8 (env_id x) @ ''.'' @ nl))))"

definition idle_umain :: "resume \<Rightarrow> uproc \<Rightarrow> unit ures option" where
  "idle_umain res p = wloop (\<lambda>p. Some (ubind (usys_yield res p) (\<lambda>_ p. UReturn True p))) (p\<lparr>binaryname := ''idle''\<rparr>)"

text \<open>One iteration of the loop of \<^verbatim>\<open>spin0\<close>; \<open>n\<close> has been incremented.\<close>

definition spin0_round :: "resume \<Rightarrow> u32 \<Rightarrow> u32 \<Rightarrow> bool \<Rightarrow> u32 \<Rightarrow> uproc \<Rightarrow> unit ures" where
  "spin0_round res at me yield n p =
     (if yield
      then ubind (ucprintf res at (''I am '' @ hex_text 8 me @ '' and I like my interrupt #'' @ dec_text n @ nl) p) (\<lambda>_ p. usys_yield res p)
      else ucprintf res at (''I am '' @ hex_text 8 me @ '' and my spin will go on #'' @ dec_text n @ nl) p)"

partial_function (option) spin0_loop :: "resume \<Rightarrow> u32 \<Rightarrow> u32 \<Rightarrow> bool \<Rightarrow> u32 \<Rightarrow> uproc \<Rightarrow> unit ures option" where
  "spin0_loop res at me yield n p =
     (if n < 5 \<or> \<not> yield
      then (case spin0_round res at me yield (n + 1) p of UReturn _ p \<Rightarrow> spin0_loop res at me yield (n + 1) p
            | UPanic e p \<Rightarrow> Some (UPanic e p) | UFault va p \<Rightarrow> Some (UFault va p) | UKernel k \<Rightarrow> Some (UKernel k))
      else Some (UReturn () p))"

definition spin0_umain :: "resume \<Rightarrow> u32 \<Rightarrow> uproc \<Rightarrow> unit ures option" where
  "spin0_umain res at p = andthen (Some (usys_getenvid res p)) (\<lambda>me p. spin0_loop res at me (me AND 1 \<noteq> 0) 0 p)"

definition fairness_umain :: "resume \<Rightarrow> u32 \<Rightarrow> uproc \<Rightarrow> unit ures option" where
  "fairness_umain res at p =
     andthen (Some (usys_getenvid res p)) (\<lambda>id p.
       if thisenv p = Some 1
       then wloop (\<lambda>p. Some (ubind (ipc_recv res 0 p) (\<lambda>(_, who, _) p.
              ubind (ucprintf res at (hex_text 0 id @ '' recv from '' @ hex_text 0 who @ nl) p) (\<lambda>_ p. UReturn True p)))) p
       else andthen (Some (ucprintf res at (hex_text 0 id @ '' loop sending to '' @ hex_text 0 (env_id (envs (kern (um p)) 1)) @ nl) p)) (\<lambda>_.
              wloop (\<lambda>p. andthen (ipc_send res (env_id (envs (kern (um p)) 1)) 0 0 0 p) (\<lambda>_ p. Some (UReturn True p)))))"

section \<open>Memory\<close>

text \<open>\<open>bigarray\<close> is the address of the array.\<close>

definition testbss_umain :: "resume \<Rightarrow> u32 \<Rightarrow> u32 \<Rightarrow> uproc \<Rightarrow> unit ures" where
  "testbss_umain res at bigarray p =
     ubind (ucprintf res at (''Making sure bss works right...'' @ nl) p) (\<lambda>_ p.
     ubind (ufold (\<lambda>i p. ubind (user_word (bigarray + 4 * of_nat i) p) (\<lambda>w p. uassert (w = 0) (''bigarray[%d] isn'' @ [CHR 0x27] @ ''t cleared!'' @ nl) p)) [0..<1024 * 1024] p) (\<lambda>_ p.
     ubind (ufold (\<lambda>i. user_store_word (bigarray + 4 * of_nat i) (of_nat i)) [0..<1024 * 1024] p) (\<lambda>_ p.
     ubind (ufold (\<lambda>i p. ubind (user_word (bigarray + 4 * of_nat i) p) (\<lambda>w p. uassert (w = of_nat i) (''bigarray[%d] didn'' @ [CHR 0x27] @ ''t hold its value!'' @ nl) p)) [0..<1024 * 1024] p) (\<lambda>_ p.
     ubind (ucprintf res at (''Yes, good.  Now doing a wild write off the end...'' @ nl) p) (\<lambda>_ p.
     ubind (user_store_word (bigarray + 4 * (1024 * 1024 + 1024)) 0 p) (\<lambda>_ p.
     UPanic ''SHOULD HAVE TRAPPED!!!'' p))))))"

section \<open>Forking\<close>

definition dumb_duppage :: "resume \<Rightarrow> u32 \<Rightarrow> u32 \<Rightarrow> uproc \<Rightarrow> unit ures" where
  "dumb_duppage res dstenv addr p =
     ubind (or_panic ''sys_page_alloc: %e'' (usys_page_alloc res dstenv addr (PTE_P OR PTE_U OR PTE_W) p)) (\<lambda>_ p.
     ubind (or_panic ''sys_page_map: %e'' (usys_page_map res dstenv addr 0 UTEMP (PTE_P OR PTE_U OR PTE_W) p)) (\<lambda>_ p.
     ubind (move_page UTEMP addr p) (\<lambda>_ p.
     ubind (or_panic ''sys_page_unmap: %e'' (usys_page_unmap res 0 UTEMP p)) (\<lambda>_ p. UReturn () p))))"

text \<open>\<open>end_at\<close> is the linker's symbol \<open>end\<close>: the loop copies the pages from \<open>UTEXT\<close> to there.\<close>

definition dumbfork_after :: "resume \<Rightarrow> u32 \<Rightarrow> u32 \<Rightarrow> u32 \<Rightarrow> uproc \<Rightarrow> u32 ures" where
  "dumbfork_after res end_at va envid p =
     (if sint envid < 0 then UPanic ''sys_exofork: %e'' p
      else if envid = 0 then ubind (usys_getenvid res p) (\<lambda>id p. UReturn 0 (p\<lparr>thisenv := Some (ENVX id)\<rparr>))
      else
        ubind (ufold (\<lambda>i. dumb_duppage res envid (UTEXT + of_nat i * PGSIZE))
                 [0..<(if UTEXT < end_at then unat ((end_at - UTEXT - 1) div PGSIZE) + 1 else 0)] p) (\<lambda>_ p.
        ubind (dumb_duppage res envid (ROUNDDOWN va PGSIZE) p) (\<lambda>_ p.
        ubind (or_panic ''sys_env_set_status: %e'' (usys_env_set_status res envid status_runnable p)) (\<lambda>_ p. UReturn envid p))))"

definition dumbfork :: "resume \<Rightarrow> u32 \<Rightarrow> u32 \<Rightarrow> uproc \<Rightarrow> u32 ures" where
  "dumbfork res end_at va p = ubind (usys_exofork res p) (\<lambda>envid p. dumbfork_after res end_at va envid p)"

definition dumbfork_umain :: "resume \<Rightarrow> u32 \<Rightarrow> u32 \<Rightarrow> u32 \<Rightarrow> uproc \<Rightarrow> unit ures" where
  "dumbfork_umain res at end_at va p =
     ubind (dumbfork res end_at va p) (\<lambda>who p.
       ufold (\<lambda>i p. ubind (ucprintf res at (dec_text (of_nat i) @ '': I am the '' @ (if who \<noteq> 0 then ''parent'' else ''child'') @ ''!'' @ nl) p)
                 (\<lambda>_ p. usys_yield res p)) [0..<(if who \<noteq> 0 then 10 else 20)] p)"

definition spin_after :: "resume \<Rightarrow> u32 \<Rightarrow> u32 \<Rightarrow> uproc \<Rightarrow> unit ures option" where
  "spin_after res at env p =
     (if env = 0 then andthen (Some (ucprintf res at (''I am the child.  Spinning...'' @ nl) p)) (\<lambda>_ p. None)
      else Some (
        ubind (ucprintf res at (''I am the parent.  Running the child...'' @ nl) p) (\<lambda>_ p.
        ubind (ufold (\<lambda>_. usys_yield res) [0..<8] p) (\<lambda>_ p.
        ubind (ucprintf res at (''I am the parent.  Killing the child...'' @ nl) p) (\<lambda>_ p.
        ubind (usys_env_destroy res env p) (\<lambda>_ p. UReturn () p))))))"

definition spin_umain :: "resume \<Rightarrow> u32 \<Rightarrow> u32 \<Rightarrow> uproc \<Rightarrow> unit ures option" where
  "spin_umain res at va p =
     andthen (Some (ucprintf res at (''I am the parent.  Forking the child...'' @ nl) p)) (\<lambda>_ p.
     andthen (Some (fork res va p)) (\<lambda>env p. spin_after res at env p))"

text \<open>
  The tree of processes; \<open>ft\<close> is \<^verbatim>\<open>forktree\<close> for the names that are one longer. The first argument of
  \<open>forktree\<close> bounds its depth: names have at most \<open>DEPTH\<close> characters, so \<open>DEPTH + 1\<close> is enough.
\<close>

definition DEPTH :: nat where "DEPTH = 3"

definition forkchild :: "(string \<Rightarrow> uproc \<Rightarrow> unit ures) \<Rightarrow> resume \<Rightarrow> u32 \<Rightarrow> string \<Rightarrow> char \<Rightarrow> uproc \<Rightarrow> unit ures" where
  "forkchild ft res va cur branch p =
     (if DEPTH \<le> length cur then UReturn () p
      else let nxt = take DEPTH (cur @ [branch]) in
        ubind (fork res va p) (\<lambda>pid p.
          if pid = 0 then ubind (ft nxt p) (\<lambda>_ p. uexit res p) else UReturn () p))"

primrec forktree :: "nat \<Rightarrow> resume \<Rightarrow> u32 \<Rightarrow> u32 \<Rightarrow> string \<Rightarrow> uproc \<Rightarrow> unit ures" where
  "forktree 0 res at va cur p = UKernel Diverge"
| "forktree (Suc n) res at va cur p =
     ubind (usys_getenvid res p) (\<lambda>id p.
     ubind (ucprintf res at (hex_text 4 id @ '': I am '' @ [CHR 0x27] @ cur @ [CHR 0x27] @ nl) p) (\<lambda>_ p.
     ubind (forkchild (forktree n res at va) res va cur (CHR ''0'') p) (\<lambda>_ p.
     forkchild (forktree n res at va) res va cur (CHR ''1'') p)))"

definition forktree_umain :: "resume \<Rightarrow> u32 \<Rightarrow> u32 \<Rightarrow> uproc \<Rightarrow> unit ures" where
  "forktree_umain res at va p = forktree (DEPTH + 1) res at va [] p"

section \<open>Messages\<close>

text \<open>One turn of the game; \<open>False\<close> when it is over.\<close>

definition pingpong_turn :: "resume \<Rightarrow> u32 \<Rightarrow> uproc \<Rightarrow> bool ures option" where
  "pingpong_turn res at p =
     andthen (Some (ipc_recv res 0 p)) (\<lambda>(i, who, _) p.
     andthen (Some (usys_getenvid res p)) (\<lambda>id p.
     andthen (Some (ucprintf res at (hex_text 0 id @ '' got '' @ sdec_text i @ '' from '' @ hex_text 0 who @ nl) p)) (\<lambda>_ p.
       if i = 10 then Some (UReturn False p)
       else andthen (ipc_send res who (i + 1) 0 0 p) (\<lambda>_ p. Some (UReturn (i + 1 \<noteq> 10) p)))))"

definition pingpong_after :: "resume \<Rightarrow> u32 \<Rightarrow> u32 \<Rightarrow> uproc \<Rightarrow> unit ures option" where
  "pingpong_after res at who p =
     andthen (if who \<noteq> 0
              then andthen (Some (usys_getenvid res p)) (\<lambda>id p.
                   andthen (Some (ucprintf res at (''send 0 from '' @ hex_text 0 id @ '' to '' @ hex_text 0 who @ nl) p)) (\<lambda>_ p.
                   ipc_send res who 0 0 0 p))
              else Some (UReturn () p)) (\<lambda>_ p.
     wloop (pingpong_turn res at) p)"

definition pingpong_umain :: "resume \<Rightarrow> u32 \<Rightarrow> u32 \<Rightarrow> uproc \<Rightarrow> unit ures option" where
  "pingpong_umain res at va p = andthen (Some (fork res va p)) (\<lambda>who p. pingpong_after res at who p)"

text \<open>
  The prime sieve. A process receives a prime, forks its right neighbour, which does the same, and passes
  on the numbers that are no multiples; the division traps for 0 and on overflow.
\<close>

definition primes_filter :: "resume \<Rightarrow> cpu_entry \<Rightarrow> Trapframe \<Rightarrow> u32 \<Rightarrow> u32 \<Rightarrow> uproc \<Rightarrow> bool ures option" where
  "primes_filter res cpu tf prime kid p =
     andthen (Some (ipc_recv res 0 p)) (\<lambda>(i, _, _) p.
       if prime = 0 \<or> (i = 0x80000000 \<and> prime = - 1) then Some (uexception cpu tf T_DIVIDE p)
       else if sint i mod sint prime \<noteq> 0 then andthen (ipc_send res kid i 0 0 p) (\<lambda>_ p. Some (UReturn True p))
       else Some (UReturn True p))"

text \<open>From the label \<open>top\<close>; \<open>True\<close> for \<open>goto top\<close>, in the child.\<close>

definition primeproc_top :: "resume \<Rightarrow> cpu_entry \<Rightarrow> Trapframe \<Rightarrow> u32 \<Rightarrow> u32 \<Rightarrow> uproc \<Rightarrow> bool ures option" where
  "primeproc_top res cpu tf at va p =
     andthen (Some (ipc_recv res 0 p)) (\<lambda>(prime, _, _) p.
     andthen (Some (this_env (\<lambda>x. ucprintf res at (''CPU '' @ dec_text (of_nat (env_cpunum x)) @ '': '' @ sdec_text prime @ '' '')) p)) (\<lambda>_ p.
     andthen (Some (fork res va p)) (\<lambda>kid p.
       if sint kid < 0 then Some (UPanic ''fork: %e'' p)
       else if kid = 0 then Some (UReturn True p)
       else andthen (wloop (primes_filter res cpu tf prime kid) p) (\<lambda>_ p. Some (UReturn False p)))))"

definition primeproc :: "resume \<Rightarrow> cpu_entry \<Rightarrow> Trapframe \<Rightarrow> u32 \<Rightarrow> u32 \<Rightarrow> uproc \<Rightarrow> unit ures option" where
  "primeproc res cpu tf at va p = wloop (primeproc_top res cpu tf at va) p"

partial_function (option) primes_feed :: "resume \<Rightarrow> u32 \<Rightarrow> u32 \<Rightarrow> uproc \<Rightarrow> unit ures option" where
  "primes_feed res kid i p =
     (case ipc_send res kid i 0 0 p of None \<Rightarrow> None
      | Some r \<Rightarrow> (case r of UReturn _ p \<Rightarrow> primes_feed res kid (i + 1) p
                  | UPanic e p \<Rightarrow> Some (UPanic e p) | UFault va p \<Rightarrow> Some (UFault va p) | UKernel k \<Rightarrow> Some (UKernel k)))"

definition primes_umain :: "resume \<Rightarrow> cpu_entry \<Rightarrow> Trapframe \<Rightarrow> u32 \<Rightarrow> u32 \<Rightarrow> uproc \<Rightarrow> unit ures option" where
  "primes_umain res cpu tf at va p =
     andthen (Some (fork res va p)) (\<lambda>kid p.
       if sint kid < 0 then Some (UPanic ''fork: %e'' p)
       else andthen (if kid = 0 then primeproc res cpu tf at va p else Some (UReturn () p)) (\<lambda>_ p. primes_feed res kid 2 p))"

text \<open>
  A page passed to the child and back; the strings are the global variables \<open>str1\<close> and \<open>str2\<close>.
  \<^verbatim>\<open>strncmp\<close> with the length of a string without zero bytes compares the beginning of the buffer with it.
\<close>

definition TEMP_ADDR :: u32 where "TEMP_ADDR = 0xa00000"
definition TEMP_ADDR_CHILD :: u32 where "TEMP_ADDR_CHILD = 0xb00000"

definition str1 :: string where "str1 = ''hello child environment! how are you?''"
definition str2 :: string where "str2 = ''hello parent environment! I'' @ [CHR 0x27] @ ''m good.''"

definition user_put_string :: "u32 \<Rightarrow> string \<Rightarrow> uproc \<Rightarrow> unit ures" where
  "user_put_string va msg p = (let cs = bytes_of msg @ [0] in ufold (\<lambda>i. user_store (va + of_nat i) (cs ! i)) [0..<length cs] p)"

definition sendpage_got :: "resume \<Rightarrow> u32 \<Rightarrow> u32 \<Rightarrow> u32 \<Rightarrow> string \<Rightarrow> string \<Rightarrow> uproc \<Rightarrow> unit ures option" where
  "sendpage_got res at who addr want note p =
     andthen (user_cstr addr [] p) (\<lambda>cs p.
     andthen (Some (this_env (\<lambda>x. ucprintf res at (hex_text 0 (env_id x) @ '' got message from '' @ hex_text 0 who @ '': '' @
       map (\<lambda>c. char_of (unat c)) cs @ nl)) p)) (\<lambda>_ p.
     andthen (user_cstr addr [] p) (\<lambda>cs p.
       Some (if take (length want) cs = bytes_of want then ucprintf res at (note @ nl) p else UReturn () p))))"

definition sendpage_child :: "resume \<Rightarrow> u32 \<Rightarrow> uproc \<Rightarrow> unit ures option" where
  "sendpage_child res at p =
     andthen (Some (ipc_recv res TEMP_ADDR_CHILD p)) (\<lambda>(_, who, _) p.
     andthen (sendpage_got res at who TEMP_ADDR_CHILD str1 ''child received correct message'' p) (\<lambda>_ p.
     andthen (Some (user_put_string TEMP_ADDR_CHILD str2 p)) (\<lambda>_ p.
     ipc_send res who 0 TEMP_ADDR_CHILD (PTE_P OR PTE_W OR PTE_U) p)))"

definition sendpage_parent :: "resume \<Rightarrow> u32 \<Rightarrow> u32 \<Rightarrow> uproc \<Rightarrow> unit ures option" where
  "sendpage_parent res at who p =
     andthen (Some (this_env (\<lambda>x. usys_page_alloc res (env_id x) TEMP_ADDR (PTE_P OR PTE_W OR PTE_U)) p)) (\<lambda>_ p.
     andthen (Some (user_put_string TEMP_ADDR str1 p)) (\<lambda>_ p.
     andthen (ipc_send res who 0 TEMP_ADDR (PTE_P OR PTE_W OR PTE_U) p) (\<lambda>_ p.
     andthen (Some (ipc_recv res TEMP_ADDR p)) (\<lambda>(_, who, _) p.
     sendpage_got res at who TEMP_ADDR str2 ''parent received correct message'' p))))"

definition sendpage_umain :: "resume \<Rightarrow> u32 \<Rightarrow> u32 \<Rightarrow> uproc \<Rightarrow> unit ures option" where
  "sendpage_umain res at va p =
     andthen (Some (fork res va p)) (\<lambda>who p. if who = 0 then sendpage_child res at p else sendpage_parent res at who p)"

definition faultalloc_umain :: "resume \<Rightarrow> u32 \<Rightarrow> u32 \<Rightarrow> uproc \<Rightarrow> unit ures option" where
  "faultalloc_umain res at handler p =
     andthen (Some (set_pgfault_handler handler p)) (\<lambda>_ p.
     andthen (user_cstr 0xDeadBeef [] p) (\<lambda>cs p.
     andthen (Some (ucprintf res at (map (\<lambda>c. char_of (unat c)) cs @ nl) p)) (\<lambda>_ p.
     andthen (user_cstr 0xCafeBffe [] p) (\<lambda>cs p.
     Some (ucprintf res at (map (\<lambda>c. char_of (unat c)) cs @ nl) p)))))"

section \<open>Registers around a page fault\<close>

record fregs =
  fr_regs :: PushRegs
  fr_eip :: u32
  fr_eflags :: u32
  fr_esp :: u32

text \<open>\<open>%-6s\<close>: spaces after the string.\<close>

definition pad_right :: "nat \<Rightarrow> string \<Rightarrow> string" where
  "pad_right n cs = cs @ replicate (n - length cs) (CHR '' '')"

definition fregs_fields :: "fregs \<Rightarrow> (string \<times> u32) list" where
  "fregs_fields a =
     [(''edi'', reg_edi (fr_regs a)), (''esi'', reg_esi (fr_regs a)), (''ebp'', reg_ebp (fr_regs a)), (''ebx'', reg_ebx (fr_regs a)),
      (''edx'', reg_edx (fr_regs a)), (''ecx'', reg_ecx (fr_regs a)), (''eax'', reg_eax (fr_regs a)), (''eip'', fr_eip a),
      (''eflags'', fr_eflags a), (''esp'', fr_esp a)]"

definition ok_text :: "bool \<Rightarrow> string" where
  "ok_text b = (if b then ''OK'' else ''MISMATCH'') @ nl"

definition check_regs :: "resume \<Rightarrow> u32 \<Rightarrow> fregs \<Rightarrow> string \<Rightarrow> fregs \<Rightarrow> string \<Rightarrow> string \<Rightarrow> uproc \<Rightarrow> unit ures" where
  "check_regs res at a an b bn testname p =
     (let fs = zip (fregs_fields a) (map snd (fregs_fields b)) in
      ubind (ucprintf res at (pad_right 6 [] @ '' '' @ pad_right 8 an @ '' '' @ pad_right 8 bn @ nl) p) (\<lambda>_ p.
      ubind (ufold (\<lambda>((name, x), y) p.
          ubind (ucprintf res at (pad_right 6 name @ '' '' @ hex_text 8 x @ '' '' @ hex_text 8 y @ '' '') p)
            (\<lambda>_ p. ucprintf res at (ok_text (x = y)) p)) fs p) (\<lambda>_ p.
      ubind (ucprintf res at (''Registers '' @ testname @ '' '') p) (\<lambda>_ p.
      ucprintf res at (ok_text (\<forall>((_, x), y) \<in> set fs. x = y)) p))))"

text \<open>\<open>utf\<close> is the register part of the \<^verbatim>\<open>UTrapframe\<close>; \<open>during\<close> is the result.\<close>

definition FL_RF :: u32 where "FL_RF = 0x00010000"

definition faultregs_pgfault :: "resume \<Rightarrow> u32 \<Rightarrow> fregs \<Rightarrow> u32 \<Rightarrow> fregs \<Rightarrow> uproc \<Rightarrow> fregs ures" where
  "faultregs_pgfault res at before fault_va utf p =
     (if fault_va \<noteq> UTEMP then UPanic ''pgfault expected at UTEMP, got 0x%08x (eip %08x)'' p
      else let during = utf\<lparr>fr_eflags := fr_eflags utf AND NOT FL_RF\<rparr> in
        ubind (check_regs res at before ''before'' during ''during'' ''in UTrapframe'' p) (\<lambda>_ p.
        ubind (or_panic ''sys_page_alloc: %e'' (usys_page_alloc res 0 UTEMP (PTE_U OR PTE_P OR PTE_W) p)) (\<lambda>_ p.
        UReturn during p)))"

section \<open>A counter on the screen\<close>

text \<open>The array \<open>counter\<close>: decimal digits, the last one first, then zero bytes.\<close>

definition counter_init :: "u8 list" where "counter_init = 0x30 # replicate 39 0"

text \<open>The carry: the nines at the beginning become zeros. \<open>None\<close> when it runs past the end of the array.\<close>

function carry :: "nat \<Rightarrow> u8 list \<Rightarrow> (nat \<times> u8 list) option" where
  "carry p cs =
     (if length cs \<le> p then None
      else if cs ! p = 0x39 then carry (p + 1) (cs[p := 0x30])
      else Some (p, cs))"
  by pat_completeness auto
termination by (relation "measure (\<lambda>(p, cs). length cs - p)") auto

definition count_up :: "u8 list \<Rightarrow> u8 list option" where
  "count_up cs =
     (case carry 0 cs of None \<Rightarrow> None
      | Some (p, cs) \<Rightarrow> Some (if cs ! p = 0 then cs[p := 0x31] else cs[p := cs ! p + 1]))"

definition show_counter :: "u32 \<Rightarrow> u8 \<Rightarrow> u8 list \<Rightarrow> uproc \<Rightarrow> unit ures" where
  "show_counter linea color cs p =
     ufold (\<lambda>i p. ubind (user_store (VGA_USER + linea * 160 + of_nat (2 * i)) (cs ! (39 - i)) p)
       (\<lambda>_ p. user_store (VGA_USER + linea * 160 + of_nat (2 * i + 1)) color p)) [0..<40] p"

text \<open>The first \<open>n\<close> rounds of the endless loop of \<^verbatim>\<open>contador\<close>; its delay loop has no effect.\<close>

primrec contador_rounds :: "nat \<Rightarrow> u32 \<Rightarrow> u8 \<Rightarrow> u8 list \<Rightarrow> uproc \<Rightarrow> u8 list ures option" where
  "contador_rounds 0 linea color cs p = Some (UReturn cs p)"
| "contador_rounds (Suc n) linea color cs p =
     (case count_up cs of None \<Rightarrow> None
      | Some cs \<Rightarrow> andthen (Some (show_counter linea color cs p)) (\<lambda>_ p. contador_rounds n linea color cs p))"

definition contador :: "nat \<Rightarrow> u32 \<Rightarrow> u8 \<Rightarrow> uproc \<Rightarrow> u8 list ures option" where
  "contador n linea color p = contador_rounds n linea color counter_init p"

definition contador_umain :: "nat \<Rightarrow> resume \<Rightarrow> u32 \<Rightarrow> uproc \<Rightarrow> u8 list ures option" where
  "contador_umain n res va p =
     andthen (Some (fork res va p)) (\<lambda>r p.
       if r \<noteq> 0 then contador n 0 0x2f p
       else andthen (Some (fork res va p)) (\<lambda>r p.
         if r \<noteq> 0 then contador n 3 0x6f p else contador n 7 0x4f p))"

end
