(* ===== verification/UserFaults.thy ===== *)
theory UserFaults
  imports KernelFault UserProgs
begin

text \<open>
  Programs that hand bad pointers to the kernel (\<^verbatim>\<open>user/buggyhello.c\<close>, \<^verbatim>\<open>user/buggyhello2.c\<close>,
  \<^verbatim>\<open>user/evilhello.c\<close>): the library, the system call, the check of the range and the
  end of the environment taken together.
\<close>

section \<open>Bad ranges\<close>







section \<open>Properties\<close>




end
