(* ===== verification/UserProps.thy ===== *)
theory UserProps
  imports UserLib SyscallMem
begin

text \<open>
  Properties of the user library: copying and sharing of pages by \<^verbatim>\<open>fork\<close>, on top of the
  specifications of the system calls it makes.
\<close>

section \<open>Addresses within a page\<close>

lemma PGOFF_unat: "unat (PGOFF a) = unat a mod 4096"
proof -
  have "PGOFF a = take_bit 12 a" by (rule bit_eqI) (auto simp: macro_bits bit_take_bit_iff)
  then show ?thesis by (simp add: take_bit_eq_mod unat_mod)
qed

lemma page_aligned:
  assumes "va mod PGSIZE = 0"
  obtains k where "unat va = 4096 * k" "k < 1048576"
proof -
  have "unat va mod 4096 = 0" using arg_cong [OF assms, of unat] by (simp add: unat_mod PGSIZE_def)
  then obtain k where k: "unat va = 4096 * k" by (auto simp: mod_eq_0_iff_dvd)
  moreover have "unat va < 4294967296" using unat_u32 [of va] by simp
  ultimately have "k < 1048576" by linarith
  with k show thesis by (rule that)
qed

lemma page_add:
  assumes "va mod PGSIZE = 0" "off < 4096"
  shows "unat (va + of_nat off) = unat va + off"
proof -
  obtain k where "unat va = 4096 * k" "k < 1048576" using page_aligned [OF assms(1)] .
  then have "unat va + off < 4294967296" using assms(2) by linarith
  then show ?thesis using assms(2) by (simp add: unat_word_ariths unat_of_nat)
qed

lemma page_parts:
  assumes "va mod PGSIZE = 0" "off < 4096"
  shows "PDX (va + of_nat off) = PDX va" "PTX (va + of_nat off) = PTX va" "unat (PGOFF (va + of_nat off)) = off"
proof -
  obtain k where k: "unat va = 4096 * k" using page_aligned [OF assms(1)] .
  have "unat (PGNUM (va + of_nat off)) = unat (PGNUM va)"
    unfolding PGNUM_unat page_add [OF assms] k using assms(2) by simp
  then have "PGNUM (va + of_nat off) = PGNUM va" by (simp only: word_unat_eq_iff)
  then show "PDX (va + of_nat off) = PDX va" "PTX (va + of_nat off) = PTX va" by (simp_all only: PGNUM_eq_iff)
  show "unat (PGOFF (va + of_nat off)) = off" unfolding PGOFF_unat page_add [OF assms] k using assms(2) by simp
qed

lemma bit_get_byte: "j < 8 \<Longrightarrow> bit (get_byte w k) j = bit w (8 * k + j)"
  by (simp add: get_byte_def bit_ucast_iff bit_drop_bit_eq)

lemma read32_bytes:
  assumes "\<And>j. j < 4 \<Longrightarrow> b (a + of_nat j) = get_byte w j"
  shows "read32 b a = w"
proof (rule bit_word_eqI)
  fix n assume "n < LENGTH(32)"
  then have n: "n div 8 < 4" "n mod 8 < 8" by auto
  have "bit (get_byte (read32 b a) (n div 8)) (n mod 8) = bit (get_byte w (n div 8)) (n mod 8)"
    by (simp only: read32_byte [OF n(1)] assms [OF n(1)])
  then show "bit (read32 b a) n = bit w n" by (simp only: bit_get_byte [OF n(2)] mult_div_mod_eq)
qed

section \<open>What a process sees\<close>

text \<open>
  All tables of a directory are open to user code (\<open>pgdir_walk\<close> creates them so), and the
  directory is its own table at \<open>UVPT\<close> (\<open>env_setup_vm\<close> enters it).
\<close>

definition user_tables :: "nat \<Rightarrow> kstate \<Rightarrow> bool" where
  "user_tables d s \<longleftrightarrow> (\<forall>i < 955. present s d i \<longrightarrow> pmem s d i AND 7 = 7) \<and>
     pmem s d (pdx UVPT) = page2pa d OR PTE_P OR PTE_U"

lemma user_frame_slot:
  assumes d: "unat (PGNUM (cr3 s)) = d" and u: "user_tables d s" and i: "pdx va < 955"
    and need: "need AND 7 = need" "need AND PTE_P \<noteq> 0" and sl: "slot s (va_slot d va) AND need = need"
  shows "user_frame need va s = Some (mapped_page d va s)"
proof -
  have "slot s (va_slot d va) \<noteq> 0" using sl need(2) by auto
  then have pr: "present s d (pdx va)" by (auto simp: slot_def va_slot_def split: if_splits)
  then have "pmem s d (pdx va) AND 7 = 7" using u i by (simp add: user_tables_def)
  then have "pmem s d (pdx va) AND (7 AND need) = 7 AND need" by (simp only: and.assoc [symmetric])
  then have "pmem s d (pdx va) AND need = need" using need(1) by (simp only: and.commute)
  then show ?thesis using pr sl d by (simp add: user_frame_def Let_def slot_def va_slot_def mapped_page_def table_def)
qed

lemma load_mem_slot:
  assumes d: "unat (PGNUM (cr3 s)) = d" and pr: "present s d (pdx va)" and va: "va mod PGSIZE = 0" and off: "off < 4096"
  shows "load_mem s (va + of_nat off) = get_byte (pmem s (mapped_page d va s) (off div 4)) (off mod 4)"
  using pr by (simp add: load_mem_def Let_def page_parts [OF va off] d slot_def va_slot_def mapped_page_def table_def)

lemma copied_word:
  assumes d: "unat (PGNUM (cr3 s)) = d" and pr: "present s d (pdx src)" and al: "src mod PGSIZE = 0" and k: "k < 1024"
  shows "read32 (copied dst src 4096 (load_mem s)) (dst + of_nat (4 * k)) = pmem s (mapped_page d src s) k"
proof (rule read32_bytes)
  fix j :: nat assume j: "j < 4"
  have o: "4 * k + j < 4096" "(4 * k + j) div 4 = k" "(4 * k + j) mod 4 = j" using j k by auto
  have e: "dst + of_nat (4 * k) + of_nat j = dst + of_nat (4 * k + j)" by simp
  have "unat (dst + of_nat (4 * k) + of_nat j - dst) = 4 * k + j" unfolding e using o(1) by (simp add: unat_of_nat del: of_nat_add of_nat_mult)
  then have "copied dst src 4096 (load_mem s) (dst + of_nat (4 * k) + of_nat j) = load_mem s (src + of_nat (4 * k + j))"
    unfolding e copied_def using o(1) by (simp del: of_nat_add of_nat_mult)
  also have "\<dots> = get_byte (pmem s (mapped_page d src s) k) j"
    using load_mem_slot [OF d pr al o(1)] by (simp only: o)
  finally show "copied dst src 4096 (load_mem s) (dst + of_nat (4 * k) + of_nat j) = get_byte (pmem s (mapped_page d src s) k) j" .
qed

text \<open>\<open>memmove\<close> between two mapped pages copies the frame.\<close>

definition page_copy :: "nat \<Rightarrow> nat \<Rightarrow> kstate \<Rightarrow> kstate" where
  "page_copy q x s = s\<lparr>pmem := (pmem s)(q := (\<lambda>k. if k < 1024 then pmem s x k else pmem s q k))\<rparr>"

lemma aligned_end:
  assumes "va mod PGSIZE = 0"
  shows "unat va + unat PGSIZE \<le> 2 ^ 32"
proof -
  obtain k where "unat va = 4096 * k" "k < 1048576" using page_aligned [OF assms] .
  then show ?thesis by (simp add: PGSIZE_def)
qed

lemma move_page_ok:
  assumes d: "unat (PGNUM (cr3 (kern (um p)))) = d" and u: "user_tables d (kern (um p))"
    and va: "user_page va" "user_page dst"
    and sl: "slot (kern (um p)) (va_slot d va) AND 5 = 5" "slot (kern (um p)) (va_slot d dst) AND 7 = 7"
  shows "move_page dst va p = UReturn () (p\<lparr>um := (um p)\<lparr>kern :=
    page_copy (mapped_page d dst (kern (um p))) (mapped_page d va (kern (um p))) (kern (um p))\<rparr>\<rparr>)"
proof -
  let ?s = "kern (um p)"
  have need: "PTE_P OR PTE_U = 5" "PTE_P OR PTE_U OR PTE_W = 7" by (simp_all add: layout_defs)
  have i: "pdx va < 955" "pdx dst < 955" using user_page_pdx va by simp_all
  have f: "user_frame 5 va ?s = Some (mapped_page d va ?s)" "user_frame 7 dst ?s = Some (mapped_page d dst ?s)"
    using user_frame_slot [OF d u i(1), of 5] user_frame_slot [OF d u i(2), of 7] sl by (simp_all add: layout_defs)
  have "slot ?s (va_slot d va) \<noteq> 0" using sl(1) by auto
  then have pr: "present ?s d (pdx va)" by (auto simp: slot_def va_slot_def split: if_splits)
  have al: "va mod PGSIZE = 0" "dst mod PGSIZE = 0" using va by (simp_all add: user_page_def)
  have "memmove dst va PGSIZE (load_mem ?s) = copied dst va 4096 (load_mem ?s)"
    using memmove_copied [OF aligned_end [OF al(1)] aligned_end [OF al(2)]] by (simp add: PGSIZE_def)
  then show ?thesis
    unfolding move_page_def Let_def need f page_copy_def
    using copied_word [OF d pr al(1), of _ dst] by (simp cong: if_cong)
qed

section \<open>User tables and data pages\<close>

lemma user_tables_cong: "pmem t d = pmem s d \<Longrightarrow> user_tables d t = user_tables d s"
  by (simp add: user_tables_def present_def)

lemma insert_user_tables:
  assumes ok: "vm_ok {..<955} D E xs s" and d: "d \<in> D" "pdx va \<in> {..<955}"
    and pp: "pp \<notin> set xs" "unat (pp_ref (pages s pp)) < 65535"
    and t: "page_insert d (Some pp) va perm s = Return r t" and u: "user_tables d s"
  shows "user_tables d t"
proof (cases "present s d (pdx va)")
  case True
  have "d \<noteq> table s d (pdx va)" using tables_okD(4) [OF vm_okD(5) [OF ok] d True] d(1) by auto
  then have "pmem t d = pmem s d" by (rule page_insert_pmem_present [OF ok d True pp t])
  then show ?thesis using u user_tables_cong by blast
next
  case False
  show ?thesis
  proof (cases xs)
    case Nil
    then show ?thesis using t u page_insert_no_table [OF ok [unfolded Nil] d False] by simp
  next
    case (Cons x ys)
    let ?u = "with_table d (pdx va) x s"
    note w = page_insert_with_table [OF ok [unfolded Cons] d False]
    have dx: "d \<noteq> x" using tables_okD(2) [OF vm_okD(5) [OF ok] d(1)] Cons by simp
    have "d \<noteq> table ?u d (pdx va)" using dx by (simp add: w(3))
    moreover have "pp \<notin> set ys" "unat (pp_ref (pages ?u pp)) < 65535" using pp Cons by auto
    ultimately have eq: "pmem t d = pmem ?u d"
      using page_insert_pmem_present [OF w(1) d w(2), of pp perm r t d] t w(4) by simp
    have "user_tables d ?u"
      using u dx d(2) UVPT_pdx
      by (auto simp: user_tables_def present_def with_table_def or.assoc) (simp add: layout_defs)
    then show ?thesis using eq user_tables_cong by blast
  qed
qed

text \<open>Writing to a page that is no table.\<close>

lemma data_page_slot:
  assumes "\<not> is_table I D s q" "d \<in> D" "i \<in> I" "pmem t = (pmem s)(q := f)"
  shows "present t d i = present s d i" "table t d i = table s d i" "slot t (d, i, k) = slot s (d, i, k)"
  using assms by (auto simp: is_table_def present_def table_def slot_def)

lemma vm_ok_data:
  assumes ok: "vm_ok I D E xs s" and q: "\<not> is_table I D s q"
  shows "vm_ok I D E xs (s\<lparr>pmem := (pmem s)(q := f)\<rparr>)"
proof -
  let ?t = "s\<lparr>pmem := (pmem s)(q := f)\<rparr>"
  note eq = data_page_slot [OF q, of _ _ ?t f]
  have "maps I D ?t x = maps I D s x" for x by (rule maps_cong) (simp add: eq)
  moreover have "is_table I D ?t x = is_table I D s x" for x by (auto simp: is_table_def eq)
  ultimately have "refs_ok I D E ?t" using vm_okD(6) [OF ok] by (simp add: refs_ok_def)
  moreover have "table ?t d i = table s d i" if "d \<in> D" for d i
    using that q by (auto simp: is_table_def table_def)
  then have "tables_ok I D xs ?t"
    using vm_okD(5) [OF ok] unfolding tables_ok_def by (simp add: eq)
  ultimately show ?thesis using ok by (simp add: vm_ok_def mem_ok_def free_list_def pglist.on_list_def)
qed

lemma refs_bound:
  assumes ok: "vm_ok I D E xs s" and S: "S \<subseteq> maps I D s q"
  shows "card S + (if is_table I D s q then 1 else 0) \<le> unat (pp_ref (pages s q))"
proof -
  have "card S \<le> card (maps I D s q)" using finite_maps [OF vm_okD(3,4) [OF ok]] S by (rule card_mono)
  moreover have "card (maps I D s q) + (if is_table I D s q then 1 else 0) + E q = unat (pp_ref (pages s q))"
    using vm_okD(6) [OF ok] by (auto simp: refs_ok_def dest: spec [of _ q])
  ultimately show ?thesis by linarith
qed

lemma va_slot_maps: "d \<in> D \<Longrightarrow> pdx va \<in> I \<Longrightarrow> mapped d va s \<Longrightarrow> va_slot d va \<in> maps I D s (mapped_page d va s)"
  using PTX_bound [of va] by (simp add: maps_def mapped_def mapped_page_def va_slot_def)

lemma user_page_slot_eq:
  assumes "user_page a" "user_page b" "va_slot d a = va_slot d b"
  shows "a = b"
proof -
  obtain k l where "unat a = 4096 * k" "unat b = 4096 * l"
    using page_aligned assms(1,2) unfolding user_page_def by metis
  moreover have "unat a div 4096 = unat b div 4096" using assms(3) va_slot_eq PGNUM_unat by metis
  ultimately show ?thesis by (simp add: word_unat_eq_iff)
qed

lemma user_page_UTEMP: "user_page UTEMP"
  by (simp add: user_page_def layout_defs)

section \<open>Copying and sharing of pages\<close>

text \<open>
  The running environment has the directory \<open>d\<close>, loaded by the processor, and \<open>dst\<close> names a
  child of it with the directory \<open>dd\<close>; since \<open>b\<close> only memory has changed.
\<close>

definition forking :: "kstate \<Rightarrow> nat set \<Rightarrow> (nat \<Rightarrow> nat) \<Rightarrow> nat list \<Rightarrow> nat \<Rightarrow> u32 \<Rightarrow> nat \<Rightarrow> kstate \<Rightarrow> bool" where
  "forking b D E xs d dst dd s \<longleftrightarrow>
     vm_frame b s \<and> vm_ok {..<955} D E xs s \<and> d \<in> D \<and> dd \<in> D \<and> d \<noteq> dd \<and> cr3 s = page2pa d \<and> user_tables d s \<and>
     (\<exists>c. curenv s = Some c \<and> env_pgdir (envs s c) = Some d) \<and>
     (\<exists>e. envid2env dst True s = Return (0, Some e) s \<and> env_pgdir (envs s e) = Some dd)"

lemma envid2env_frame:
  assumes "curenv t = curenv s" "envs t = envs s" "envid2env i c s = Return x s"
  shows "envid2env i c t = Return x t"
  using assms by (auto simp: envid2env_def Let_def split: if_split_asm option.split_asm)

lemma forking_frame:
  assumes f: "forking b D E xs d dst dd s" and t: "vm_frame s t" "vm_ok {..<955} D E ys t" "user_tables d t"
  shows "forking b D E ys d dst dd t"
proof -
  obtain c e where ce: "curenv s = Some c" "env_pgdir (envs s c) = Some d"
      "envid2env dst True s = Return (0, Some e) s" "env_pgdir (envs s e) = Some dd"
    using f unfolding forking_def by blast
  have eq: "curenv t = curenv s" "envs t = envs s" "cr3 t = cr3 s"
    using vm_frame_curenv [OF t(1)] t(1) by (simp_all add: vm_frame_def)
  have "envid2env dst True t = Return (0, Some e) t" by (rule envid2env_frame [OF eq(1,2) ce(3)])
  then show ?thesis using f t(2,3) ce eq vm_frame_trans [OF _ t(1)] unfolding forking_def by simp
qed

lemma forking_cr3:
  assumes "forking b D E xs d dst dd s"
  shows "unat (PGNUM (cr3 s)) = d"
proof -
  have "vm_ok {..<955} D E xs s" "d \<in> D" "cr3 s = page2pa d" using assms by (simp_all add: forking_def)
  moreover from this have "d < 2 ^ 20"
    using tables_okD(1) [OF vm_okD(5), of "{..<955}" D E xs s d] vm_okD(1) [of "{..<955}" D E xs s] by (simp add: mem_ok_def)
  ultimately show ?thesis by simp
qed

text \<open>The stubs, when the kernel returns 0.\<close>

lemma usys_ok:
  "sys_page_alloc e va perm (kern (um p)) = Return 0 t \<Longrightarrow>
     or_panic msg (usys_page_alloc res e va perm p) = UReturn 0 (p\<lparr>um := (um p)\<lparr>kern := t\<rparr>\<rparr>)"
  "sys_page_map e va e' va' perm (kern (um p)) = Return 0 t \<Longrightarrow>
     or_panic msg (usys_page_map res e va e' va' perm p) = UReturn 0 (p\<lparr>um := (um p)\<lparr>kern := t\<rparr>\<rparr>)"
  "sys_page_unmap e va (kern (um p)) = Return 0 t \<Longrightarrow>
     or_panic msg (usys_page_unmap res e va p) = UReturn 0 (p\<lparr>um := (um p)\<lparr>kern := t\<rparr>\<rparr>)"
  by (simp_all add: usys_page_alloc_def usys_page_map_def usys_page_unmap_def usyscall_def int_syscall_def
      syscall_def Let_def sys_numbers or_panic_def)

text \<open>
  What a step leaves alone: data pages that are mapped by a slot outside of \<open>C\<close>, the slots that
  may change, stay data pages and keep their contents.
\<close>

definition kept :: "nat set \<Rightarrow> slot set \<Rightarrow> kstate \<Rightarrow> kstate \<Rightarrow> bool" where
  "kept D C s t \<longleftrightarrow> (\<forall>y z. \<not> is_table {..<955} D s y \<and> z \<in> maps {..<955} D s y \<and> z \<notin> C \<longrightarrow>
     \<not> is_table {..<955} D t y \<and> pmem t y = pmem s y)"

lemma kept_trans:
  assumes k: "kept D C s t" "kept D C t u"
    and sl: "\<And>e j l. e \<in> D \<Longrightarrow> j < 955 \<Longrightarrow> (e, j, l) \<notin> C \<Longrightarrow> slot t (e, j, l) = slot s (e, j, l)"
  shows "kept D C s u"
  unfolding kept_def
proof (intro allI impI, elim conjE)
  fix y z assume y: "\<not> is_table {..<955} D s y" "z \<in> maps {..<955} D s y" "z \<notin> C"
  then have "z \<in> maps {..<955} D t y" using sl by (cases z) (auto simp: maps_def)
  moreover have "\<not> is_table {..<955} D t y" "pmem t y = pmem s y" using k(1) y unfolding kept_def by blast+
  ultimately show "\<not> is_table {..<955} D u y \<and> pmem u y = pmem s y" using k(2) y(3) unfolding kept_def by metis
qed

lemma maps_changed:
  assumes "\<And>e j l. e \<in> D \<Longrightarrow> j < 955 \<Longrightarrow> (e, j, l) \<notin> C \<Longrightarrow> slot t (e, j, l) = slot s (e, j, l)"
  shows "maps {..<955} D t q - C = maps {..<955} D s q - C"
  using assms by (auto simp: maps_def)

lemma insert_kept:
  assumes ok: "vm_ok {..<955} D E xs s" and d: "d \<in> D" "pdx va \<in> {..<955}"
    and pp: "pp \<notin> set xs" "unat (pp_ref (pages s pp)) < 65535"
    and t: "page_insert d (Some pp) va perm s = Return r t"
  shows "kept D C s t"
  unfolding kept_def
proof (intro allI impI, elim conjE)
  fix y z assume y: "\<not> is_table {..<955} D s y" "z \<in> maps {..<955} D s y"
  have yx: "y \<notin> set xs" using free_page_unused(1) [OF ok] y(2) by blast
  then have "\<not> is_table {..<955} D t y" using page_insert_is_table [OF ok d pp t] y(1) by blast
  moreover have "pmem t y = pmem s y"
    using y(1) d yx by (intro page_insert_pmem [OF ok d pp t]) (auto simp: is_table_def)
  ultimately show "\<not> is_table {..<955} D t y \<and> pmem t y = pmem s y" by blast
qed

lemma share_page:
  assumes f: "forking b D E xs d dst dd s" and va: "user_page va" "valid_perm perm" "mapped d va s"
    and esc: "\<not> escalates perm d va s" and n: "unat (pp_ref (pages s (mapped_page d va s))) < 65535"
    and mem: "present s dd (pdx va) \<or> xs \<noteq> []"
  shows "\<exists>t ys. sys_page_map 0 va dst va perm s = Return 0 t \<and> forking b D E ys d dst dd t \<and>
    kept D C s t \<and> length xs \<le> Suc (length ys) \<and>
    slot_effect {..<955} D dd va (page2pa (mapped_page d va s) OR perm OR PTE_P) s t"
proof -
  obtain c e where ce: "curenv s = Some c" "env_pgdir (envs s c) = Some d"
      "envid2env dst True s = Return (0, Some e) s" "env_pgdir (envs s e) = Some dd"
    and ok: "vm_ok {..<955} D E xs s" and D: "d \<in> D" "dd \<in> D" "d \<noteq> dd" and u: "user_tables d s"
    using f unfolding forking_def by blast
  have self: "envid2env 0 True s = Return (0, Some c) s" by (simp add: envid2env_def ce)
  obtain t ys where t: "sys_page_map 0 va dst va perm s = Return 0 t" "vm_ok {..<955} D E ys t" "vm_frame s t"
      "slot_effect {..<955} D dd va (page2pa (mapped_page d va s) OR perm OR PTE_P) s t"
      "page_insert dd (Some (mapped_page d va s)) va perm s = Return 0 t"
    using sys_page_map_ok [OF ok self ce(2) D(1) ce(3,4) D(2) va(1) va(1-3) esc n mem] by blast
  have "pmem t d = pmem s d" using t(4) D by (auto simp: slot_effect_def)
  then have "user_tables d t" using u user_tables_cong by blast
  then have "forking b D E ys d dst dd t" by (rule forking_frame [OF f t(3,2)])
  moreover note i = user_page_pdx [OF va(1)]
  note x = mapped_not_free(2) [OF ok D(1) i va(3)]
  have "kept D C s t" by (rule insert_kept [OF ok D(2) i x n t(5)])
  moreover have "length xs \<le> Suc (length ys)" using page_insert_free [OF ok D(2) i x n t(5)] free_list_unique [OF vm_okD(2) [OF t(2)]] by blast
  ultimately show ?thesis using t(1,4) by blast
qed

lemma new_entry_W: "(page2pa q OR perm OR PTE_P) AND PTE_W = perm AND PTE_W"
  by (simp add: or.assoc layout_defs) (simp add: bit.conj_disj_distrib2)

lemma new_entry_7:
  assumes "valid_perm perm" "perm AND PTE_W \<noteq> 0"
  shows "(page2pa q OR perm OR PTE_P) AND 7 = 7"
proof -
  have b: "bit perm 0" "bit perm 1" "bit perm 2"
    using assms by (auto simp: valid_perm_def bit_iff_and_push_bit_not_eq_0 layout_defs)
  have p: "bit perm n" if "n < 3" for n
  proof -
    have "n = 0 \<or> n = 1 \<or> n = 2" using that by auto
    then show ?thesis using b by auto
  qed
  have m: "(7 :: u32) = mask 3" by (simp add: mask_eq_exp_minus_1)
  show ?thesis unfolding m by (rule bit_word_eqI) (auto simp: bit_and_iff bit_or_iff bit_mask_iff p)
qed

lemma and_5_P:
  assumes "(w :: u32) AND 5 = 5"
  shows "w AND PTE_P \<noteq> 0"
proof -
  have "w AND (5 AND PTE_P) = 5 AND PTE_P" by (simp only: and.assoc [symmetric] assms)
  then show ?thesis by (simp add: layout_defs)
qed

text \<open>
  The first call of a copy: the child gets a new page \<open>q\<close> at \<open>va\<close>. Memory that is not in the
  child's tables and not free keeps its contents.
\<close>

lemma copy_alloc:
  assumes f: "forking b D E (q # ys) d dst dd s" and va: "user_page va" "valid_perm perm" and ys: "2 \<le> length ys"
  shows "\<exists>t zs. sys_page_alloc dst va perm s = Return 0 t \<and> forking b D E zs d dst dd t \<and> zs \<noteq> [] \<and>
    slot_effect {..<955} D dd va (page2pa q OR perm OR PTE_P) s t \<and> pp_ref (pages t q) = 1 \<and>
    kept D C s t \<and> length ys \<le> Suc (length zs)"
proof -
  obtain e where e: "envid2env dst True s = Return (0, Some e) s" "env_pgdir (envs s e) = Some dd"
    and ok: "vm_ok {..<955} D E (q # ys) s" and D: "d \<in> D" "dd \<in> D" "d \<noteq> dd" and u: "user_tables d s"
    using f unfolding forking_def by blast
  note i = user_page_pdx [OF va(1)]
  have "present s dd (pdx va) \<or> ys \<noteq> []" using ys by auto
  then obtain t zs where t: "sys_page_alloc dst va perm s = Return 0 t" "vm_ok {..<955} D E zs t"
      "slot_effect {..<955} D dd va (page2pa q OR perm OR PTE_P) s t" "vm_frame s t" "pp_ref (pages t q) = 1"
      "length ys \<le> Suc (length zs)" "\<And>r. is_table {..<955} D t r \<Longrightarrow> is_table {..<955} D s r \<or> r \<in> set ys"
      "\<And>r. r \<noteq> dd \<Longrightarrow> r \<notin> set (q # ys) \<Longrightarrow> (present s dd (pdx va) \<longrightarrow> r \<noteq> table s dd (pdx va)) \<Longrightarrow> pmem t r = pmem s r"
    using sys_page_alloc_ok [OF ok e D(2) va] by blast
  have dir: "pmem t d = pmem s d" using t(3) D by (auto simp: slot_effect_def)
  have "kept D C s t"
    unfolding kept_def
  proof (intro allI impI, elim conjE)
    fix y z assume y: "\<not> is_table {..<955} D s y" "z \<in> maps {..<955} D s y"
    have yx: "y \<notin> set (q # ys)" using free_page_unused(1) [OF ok] y(2) by blast
    then have "pmem t y = pmem s y" using y(1) D(2) i by (intro t(8)) (auto simp: is_table_def)
    then show "\<not> is_table {..<955} D t y \<and> pmem t y = pmem s y" using t(7) y(1) yx by auto
  qed
  moreover have "zs \<noteq> []" using t(6) ys by auto
  moreover have "forking b D E zs d dst dd t" using forking_frame [OF f t(4,2)] u dir user_tables_cong by blast
  ultimately show ?thesis using t(1,3,5,6) by blast
qed

lemma sole_mappings:
  assumes ok: "vm_ok I D E xs s" and D: "d \<in> D" "d' \<in> D" "d \<noteq> d'" and i: "pdx a \<in> I" "pdx b \<in> I"
    and m: "mapped d a s" "mapped_page d a s = q" "mapped d' b s" "mapped_page d' b s = q"
  shows "2 \<le> unat (pp_ref (pages s q))" "pp_ref (pages s q) = 2 \<Longrightarrow> \<not> is_table I D s q"
proof -
  have "{va_slot d a, va_slot d' b} \<subseteq> maps I D s q"
    using va_slot_maps [OF D(1) i(1) m(1)] va_slot_maps [OF D(2) i(2) m(3)] m(2,4) by simp
  moreover have "card {va_slot d a, va_slot d' b} = 2" using D(3) by (simp add: va_slot_def)
  ultimately have "2 + (if is_table I D s q then 1 else 0) \<le> unat (pp_ref (pages s q))"
    using refs_bound [OF ok] by metis
  then show "2 \<le> unat (pp_ref (pages s q))" "pp_ref (pages s q) = 2 \<Longrightarrow> \<not> is_table I D s q"
    by (auto split: if_splits)
qed

text \<open>The second call: the parent sees the page at \<open>UTEMP\<close>, and nothing else uses it.\<close>

lemma copy_map:
  assumes f: "forking b D E zs d dst dd s" and zs: "zs \<noteq> []" and va: "user_page va" "valid_perm perm"
    and q: "slot s (va_slot dd va) = page2pa q OR perm OR PTE_P" "pp_ref (pages s q) = 1" "q < 2 ^ 20"
  shows "\<exists>t ws. sys_page_map dst va 0 UTEMP perm s = Return 0 t \<and> forking b D E ws d dst dd t \<and>
    slot_effect {..<955} D d UTEMP (page2pa q OR perm OR PTE_P) s t \<and> \<not> is_table {..<955} D t q \<and>
    kept D C s t \<and> length zs \<le> Suc (length ws)"
proof -
  obtain c e where ce: "curenv s = Some c" "env_pgdir (envs s c) = Some d"
      "envid2env dst True s = Return (0, Some e) s" "env_pgdir (envs s e) = Some dd"
    and ok: "vm_ok {..<955} D E zs s" and D: "d \<in> D" "dd \<in> D" "d \<noteq> dd" and u: "user_tables d s"
    using f unfolding forking_def by blast
  note i = user_page_pdx [OF va(1)] user_page_pdx [OF user_page_UTEMP]
  note entry = new_entry [OF q(3) valid_perm_bound [OF va(2)]]
  have self: "envid2env 0 True s = Return (0, Some c) s" by (simp add: envid2env_def ce)
  have m: "mapped dd va s" "mapped_page dd va s = q" "\<not> escalates perm dd va s"
    unfolding mapped_def mapped_page_def escalates_def q(1) entry new_entry_W by (simp_all add: layout_defs)
  have n: "unat (pp_ref (pages s q)) < 65535" by (simp add: q(2))
  obtain t ws where t: "sys_page_map dst va 0 UTEMP perm s = Return 0 t"
      "page_insert d (Some q) UTEMP perm s = Return 0 t" "vm_ok {..<955} D E ws t"
      "slot_effect {..<955} D d UTEMP (page2pa q OR perm OR PTE_P) s t" "refs_effect (Some q) d UTEMP zs s t" "vm_frame s t"
    using sys_page_map_ok [OF ok ce(3,4) D(2) self ce(2) D(1) va(1) user_page_UTEMP va(2) m(1,3)] zs n
    unfolding m(2) by auto
  have qz: "q \<notin> set zs" using mapped_not_free(2) [OF ok D(2) i(1) m(1)] m(2) by simp
  have "user_tables d t" by (rule insert_user_tables [OF ok D(1) i(2) qz n t(2) u])
  then have f2: "forking b D E ws d dst dd t" by (rule forking_frame [OF f t(6,3)])
  have "\<not> (mapped d UTEMP s \<and> q = mapped_page d UTEMP s)"
    using sole_mappings(1) [OF ok D(2,1) D(3) [symmetric] i m(1,2)] q(2) by auto
  then have "pp_ref (pages t q) = 2" using t(5) qz q(2) by (auto simp: refs_effect_def)
  moreover have sl: "slot t (va_slot dd va) = page2pa q OR perm OR PTE_P" "slot t (va_slot d UTEMP) = page2pa q OR perm OR PTE_P"
    using t(4) D i q(1) by (auto simp: slot_effect_def va_slot_def)
  have "mapped dd va t" "mapped_page dd va t = q" "mapped d UTEMP t" "mapped_page d UTEMP t = q"
    unfolding mapped_def mapped_page_def sl entry by (simp_all add: layout_defs)
  ultimately have "\<not> is_table {..<955} D t q"
    using sole_mappings(2) [OF t(3) D(2,1) D(3) [symmetric] i] by blast
  moreover have "length zs \<le> Suc (length ws)"
    using page_insert_free [OF ok D(1) i(2) qz n t(2)] free_list_unique [OF vm_okD(2) [OF t(3)]] by blast
  ultimately show ?thesis using t(1,4) f2 insert_kept [OF ok D(1) i(2) qz n t(2)] by blast
qed

text \<open>The last two steps: the page is filled through \<open>UTEMP\<close> and \<open>UTEMP\<close> is unmapped.\<close>

lemma copy_unmap:
  assumes f: "forking b D E xs d dst dd s" and q: "\<not> is_table {..<955} D s q" "mapped d UTEMP s"
    and C: "maps {..<955} D s q \<subseteq> C"
  shows "\<exists>t ys. sys_page_unmap 0 UTEMP (page_copy q x s) = Return 0 t \<and> forking b D E ys d dst dd t \<and>
    slot_effect {..<955} D d UTEMP 0 s t \<and> (\<forall>k < 1024. pmem t q k = pmem s x k) \<and> \<not> is_table {..<955} D t q \<and>
    kept D C s t \<and> length xs \<le> length ys"
proof -
  let ?s = "page_copy q x s"
  obtain c where c: "curenv s = Some c" "env_pgdir (envs s c) = Some d"
    and ok: "vm_ok {..<955} D E xs s" and D: "d \<in> D" and u: "user_tables d s"
    using f unfolding forking_def by blast
  note i = user_page_pdx [OF user_page_UTEMP]
  have same: "pmem ?s = (pmem s)(q := (\<lambda>k. if k < 1024 then pmem s x k else pmem s q k))"
    "curenv ?s = curenv s" "envs ?s = envs s" "npages ?s = npages s" "vm_frame s ?s"
    by (simp_all add: page_copy_def vm_frame_def curenv_def)
  have sl: "slot ?s (e, j, l) = slot s (e, j, l)" "table ?s e j = table s e j" "present ?s e j = present s e j"
    if "e \<in> D" "j \<in> {..<955}" for e j l
    using data_page_slot [OF q(1) that same(1)] by simp_all
  have dirs: "pmem ?s e = pmem s e" if "e \<in> D" for e using that q(1) by (auto simp: same(1) is_table_def)
  have ok': "vm_ok {..<955} D E xs ?s" using vm_ok_data [OF ok q(1)] by (simp add: page_copy_def)
  have m: "mapped d UTEMP ?s" using q(2) sl(1) [OF D i] by (simp add: mapped_def va_slot_def)
  obtain t ys where t: "page_remove d UTEMP ?s = Return () t" "vm_ok {..<955} D E ys t"
      "slot_effect {..<955} D d UTEMP 0 ?s t" "\<forall>e \<in> D. pmem t e = pmem ?s e"
    using page_remove_spec [OF ok' D i] m by auto
  have "sys_page_unmap 0 UTEMP ?s = Return 0 t"
    using user_page_UTEMP t(1) c by (auto simp: sys_page_unmap_def envid2env_def same(2,3) user_page_def)
  moreover have "slot_effect {..<955} D d UTEMP 0 s t"
    using t(3) sl(1) dirs same(2-4) by (simp add: slot_effect_def)
  moreover have "vm_frame s t" by (rule vm_frame_trans [OF same(5) Return_frame [OF t(1) frame_page_remove]])
  then have "forking b D E ys d dst dd t"
    using forking_frame [OF f _ t(2)] t(4) dirs D u user_tables_cong [of t d s] by simp
  moreover have pr: "present s d (pdx UTEMP)" using q(2) by (auto simp: mapped_def slot_def va_slot_def split: if_splits)
  have data: "pmem t y = pmem ?s y" if "\<not> is_table {..<955} D s y" for y
  proof (rule page_remove_pmem [OF ok' D i t(1)])
    show "y \<noteq> table ?s d (pdx UTEMP)" using that pr D i sl(2) [OF D i] by (auto simp: is_table_def)
  qed
  have tab: "is_table {..<955} D t y = is_table {..<955} D s y" for y using t(4) dirs by (intro dirs_is_table) simp
  have "kept D C s t" using data C by (auto simp: kept_def tab same(1))
  moreover have "length xs \<le> length ys"
    using page_remove_free [OF ok' D i t(1)] free_list_unique [OF vm_okD(2) [OF t(2)]] by blast
  ultimately show ?thesis using data [OF q(1)] q(1) by (auto simp: same(1) tab)
qed

lemma slot_effect_slot:
  assumes "slot_effect I D d va v s t" "e \<in> D" "j \<in> I"
  shows "slot t (e, j, l) = (if (e, j, l) = va_slot d va then v else slot s (e, j, l))"
  using assms unfolding slot_effect_def by blast

lemma copy_prepare:
  assumes f: "forking b D E (q # ys) d dst dd s" and va: "user_page va" "valid_perm perm" and ys: "2 \<le> length ys"
    and C: "C = {va_slot dd va, va_slot d UTEMP}"
  shows "\<exists>s1 t ws. sys_page_alloc dst va perm s = Return 0 s1 \<and> sys_page_map dst va 0 UTEMP perm s1 = Return 0 t \<and>
    forking b D E ws d dst dd t \<and> \<not> is_table {..<955} D t q \<and> maps {..<955} D t q \<subseteq> C \<and> kept D C s t \<and>
    length ys \<le> length ws + 2 \<and>
    (\<forall>e \<in> D. \<forall>j < 955. \<forall>l. slot t (e, j, l) = (if (e, j, l) \<in> C then page2pa q OR perm OR PTE_P else slot s (e, j, l)))"
proof -
  let ?v = "page2pa q OR perm OR PTE_P"
  have ok: "vm_ok {..<955} D E (q # ys) s" and D: "d \<in> D" "dd \<in> D" using f by (simp_all add: forking_def)
  have q20: "q < 2 ^ 20" using vm_okD(1,2) [OF ok] by (simp add: free_list_def mem_ok_def)
  obtain s1 zs where s1: "sys_page_alloc dst va perm s = Return 0 s1" "forking b D E zs d dst dd s1" "zs \<noteq> []"
      "slot_effect {..<955} D dd va ?v s s1" "pp_ref (pages s1 q) = 1" "kept D C s s1" "length ys \<le> Suc (length zs)"
    using copy_alloc [OF f va ys, of C] by blast
  have sl1: "slot s1 (va_slot dd va) = ?v"
    using slot_effect_slot [OF s1(4) D(2) user_page_pdx [OF va(1)]] by (simp add: va_slot_def)
  obtain t ws where t: "sys_page_map dst va 0 UTEMP perm s1 = Return 0 t" "forking b D E ws d dst dd t"
      "slot_effect {..<955} D d UTEMP ?v s1 t" "\<not> is_table {..<955} D t q" "kept D C s1 t" "length zs \<le> Suc (length ws)"
    using copy_map [OF s1(2,3) va sl1(1) s1(5) q20, of C] by blast
  have sl: "slot t (e, j, l) = (if (e, j, l) \<in> C then ?v else slot s (e, j, l))" if "e \<in> D" "j < 955" for e j l
    using slot_effect_slot [OF s1(4)] slot_effect_slot [OF t(3)] that by (simp add: C sl1)
  have "kept D C s t" by (rule kept_trans [OF s1(6) t(5)]) (simp add: slot_effect_slot [OF s1(4)] C)
  moreover have "maps {..<955} D t q \<subseteq> C"
    using free_page_unused(1) [OF ok, of q] maps_changed [of D C t s q] sl by simp
  moreover have "length ys \<le> length ws + 2" using s1(7) t(6) by simp
  ultimately show ?thesis using s1(1) t(1,2,4) sl by blast
qed

lemma copy_page:
  assumes f: "forking b D E xs d dst dd (kern (um p))" and va: "user_page va" "va \<noteq> UTEMP" "valid_perm perm"
    and w: "perm AND PTE_W \<noteq> 0" "perm AND PTE_MAPPED = 0" and sl: "slot (kern (um p)) (va_slot d va) AND 5 = 5"
    and x: "x = mapped_page d va (kern (um p))" "\<not> is_table {..<955} D (kern (um p)) x" and xs: "xs = q # ys" "2 \<le> length ys"
    and C: "C = {va_slot dd va, va_slot d UTEMP}"
  shows "\<exists>t ws. dup_or_share res dst va perm p = UReturn () (p\<lparr>um := (um p)\<lparr>kern := t\<rparr>\<rparr>) \<and> forking b D E ws d dst dd t \<and>
    (\<forall>k < 1024. pmem t q k = pmem (kern (um p)) x k) \<and> \<not> is_table {..<955} D t q \<and> kept D C (kern (um p)) t \<and>
    length xs \<le> length ws + 3 \<and>
    (\<forall>e \<in> D. \<forall>j < 955. \<forall>l. slot t (e, j, l) = (if (e, j, l) = va_slot dd va then page2pa q OR perm OR PTE_P
       else if (e, j, l) = va_slot d UTEMP then 0 else slot (kern (um p)) (e, j, l)))"
proof -
  let ?s = "kern (um p)" and ?v = "page2pa q OR perm OR PTE_P"
  have ok: "vm_ok {..<955} D E xs ?s" and D: "d \<in> D" "d \<noteq> dd" using f by (simp_all add: forking_def)
  note i = user_page_pdx [OF va(1)] user_page_pdx [OF user_page_UTEMP]
  have q20: "q < 2 ^ 20" using vm_okD(1,2) [OF ok] xs(1) by (simp add: free_list_def mem_ok_def)
  note entry = new_entry [OF q20 valid_perm_bound [OF va(3)]]
  have m: "mapped d va ?s" unfolding mapped_def by (rule and_5_P [OF sl])
  obtain s1 s2 ws where s2: "sys_page_alloc dst va perm ?s = Return 0 s1" "sys_page_map dst va 0 UTEMP perm s1 = Return 0 s2"
      "forking b D E ws d dst dd s2" "\<not> is_table {..<955} D s2 q" "maps {..<955} D s2 q \<subseteq> C" "kept D C ?s s2" "length ys \<le> length ws + 2"
      "\<And>e j l. e \<in> D \<Longrightarrow> j < 955 \<Longrightarrow> slot s2 (e, j, l) = (if (e, j, l) \<in> C then ?v else slot ?s (e, j, l))"
    using copy_prepare [OF f [unfolded xs(1)] va(1,3) xs(2) C] by blast
  have dva: "va_slot d va \<notin> C" using D(2) user_page_slot_eq [OF va(1) user_page_UTEMP] va(2) by (auto simp: C va_slot_def)
  have p2: "slot s2 (va_slot d UTEMP) = ?v" "slot s2 (va_slot d va) = slot ?s (va_slot d va)"
    using s2(8) [of d "pdx UTEMP" "ptx UTEMP"] s2(8) [of d "pdx va" "ptx va"] dva D i by (auto simp: va_slot_def C)
  have q2: "mapped d UTEMP s2" "mapped_page d UTEMP s2 = q" "mapped_page d va s2 = x" "slot s2 (va_slot d UTEMP) AND 7 = 7"
    unfolding mapped_def mapped_page_def p2 entry x(1) new_entry_7 [OF va(3) w(1)] by (simp_all add: layout_defs)
  have x2: "pmem s2 x = pmem ?s x"
    using s2(6) x(2) va_slot_maps [OF D(1) i(1) m] dva x(1) unfolding kept_def by blast
  obtain t ts where t: "sys_page_unmap 0 UTEMP (page_copy q x s2) = Return 0 t" "forking b D E ts d dst dd t"
      "slot_effect {..<955} D d UTEMP 0 s2 t" "\<forall>k < 1024. pmem t q k = pmem s2 x k" "\<not> is_table {..<955} D t q"
      "kept D C s2 t" "length ws \<le> length ts"
    using copy_unmap [OF s2(3,4) q2(1) s2(5)] by blast
  let ?p2 = "p\<lparr>um := (um p)\<lparr>kern := s2\<rparr>\<rparr>"
  have "move_page UTEMP va ?p2 = UReturn () (p\<lparr>um := (um p)\<lparr>kern := page_copy q x s2\<rparr>\<rparr>)"
    using move_page_ok [of ?p2 d va UTEMP] forking_cr3 [OF s2(3)] s2(3) va(1) user_page_UTEMP sl q2
    by (simp add: p2(2) forking_def)
  then have "dup_or_share res dst va perm p = UReturn () (p\<lparr>um := (um p)\<lparr>kern := t\<rparr>\<rparr>)"
    using w va(3) usys_ok(1) [OF s2(1)] usys_ok(2) [of _ _ _ _ _ "p\<lparr>um := (um p)\<lparr>kern := s1\<rparr>\<rparr>" s2] s2(2)
      usys_ok(3) [of _ _ "p\<lparr>um := (um p)\<lparr>kern := page_copy q x s2\<rparr>\<rparr>" t] t(1)
    by (simp add: dup_or_share_def uassert_def valid_perm_def)
  moreover have "slot t (e, j, l) = (if (e, j, l) = va_slot dd va then ?v
      else if (e, j, l) = va_slot d UTEMP then 0 else slot ?s (e, j, l))" if "e \<in> D" "j < 955" for e j l
    using slot_effect_slot [OF t(3)] s2(8) that D(2) by (auto simp: C va_slot_def)
  moreover have "kept D C ?s t" using s2(6) t(6) by (rule kept_trans) (simp add: s2(8))
  moreover have "length xs \<le> length ts + 3" using xs(1) s2(7) t(7) by simp
  ultimately show ?thesis using t(2,4,5) x2 by (intro exI [of _ t] exI [of _ ts]) simp
qed

text \<open>
  What the child has in \<open>t\<close> for the page the parent had at \<open>va\<close> in \<open>s\<close>: the page itself if
  it is read-only or shared, otherwise a data page with the same contents that nothing
  else maps.
\<close>

definition child_page :: "nat set \<Rightarrow> nat \<Rightarrow> nat \<Rightarrow> u32 \<Rightarrow> u32 \<Rightarrow> kstate \<Rightarrow> kstate \<Rightarrow> bool" where
  "child_page D d dd va perm s t \<longleftrightarrow>
     (if perm AND PTE_W = 0 \<or> perm AND PTE_MAPPED \<noteq> 0
      then slot t (va_slot dd va) = page2pa (mapped_page d va s) OR perm OR PTE_P
      else \<exists>q. slot t (va_slot dd va) = page2pa q OR perm OR PTE_P \<and> maps {..<955} D t q = {va_slot dd va} \<and>
             \<not> is_table {..<955} D t q \<and> (\<forall>k < 1024. pmem t q k = pmem s (mapped_page d va s) k))"

text \<open>The parent's page at \<open>va\<close> can be handed on with the permissions \<open>perm\<close>.\<close>

definition forkable :: "nat set \<Rightarrow> nat \<Rightarrow> u32 \<Rightarrow> u32 \<Rightarrow> kstate \<Rightarrow> bool" where
  "forkable D d va perm s \<longleftrightarrow>
     user_page va \<and> va \<noteq> UTEMP \<and> valid_perm perm \<and> slot s (va_slot d va) AND 5 = 5 \<and>
     (perm AND PTE_MAPPED \<noteq> 0 \<longrightarrow> \<not> escalates perm d va s) \<and> \<not> is_table {..<955} D s (mapped_page d va s) \<and>
     unat (pp_ref (pages s (mapped_page d va s))) < 65535"

lemma dup_step:
  assumes f: "forking b D E xs d dst dd (kern (um p))" and a: "forkable D d va perm (kern (um p))"
    and tmp: "slot (kern (um p)) (va_slot d UTEMP) = 0" and n: "3 \<le> length xs"
  shows "\<exists>t ys. dup_or_share res dst va perm p = UReturn () (p\<lparr>um := (um p)\<lparr>kern := t\<rparr>\<rparr>) \<and> forking b D E ys d dst dd t \<and>
    child_page D d dd va perm (kern (um p)) t \<and> kept D {va_slot dd va} (kern (um p)) t \<and> length xs \<le> length ys + 3 \<and>
    (\<forall>e \<in> D. \<forall>j < 955. \<forall>l. (e, j, l) \<noteq> va_slot dd va \<longrightarrow> slot t (e, j, l) = slot (kern (um p)) (e, j, l))"
proof (cases "perm AND PTE_W = 0 \<or> perm AND PTE_MAPPED \<noteq> 0")
  case True
  have va: "user_page va" "valid_perm perm" and n': "unat (pp_ref (pages (kern (um p)) (mapped_page d va (kern (um p))))) < 65535"
    and esc: "\<not> escalates perm d va (kern (um p))" and m: "mapped d va (kern (um p))"
    using a True and_5_P by (auto simp: forkable_def escalates_def mapped_def)
  have "xs \<noteq> []" using n by auto
  then obtain t ys where t: "sys_page_map 0 va dst va perm (kern (um p)) = Return 0 t" "forking b D E ys d dst dd t"
      "kept D {va_slot dd va} (kern (um p)) t" "length xs \<le> Suc (length ys)"
      "slot_effect {..<955} D dd va (page2pa (mapped_page d va (kern (um p))) OR perm OR PTE_P) (kern (um p)) t"
    using share_page [OF f va m esc n'] by blast
  have sl: "slot t (e, j, l) = (if (e, j, l) = va_slot dd va then page2pa (mapped_page d va (kern (um p))) OR perm OR PTE_P
      else slot (kern (um p)) (e, j, l))" if "e \<in> D" "j < 955" for e j l
    using slot_effect_slot [OF t(5)] that by simp
  have "dup_or_share res dst va perm p = UReturn () (p\<lparr>um := (um p)\<lparr>kern := t\<rparr>\<rparr>)"
    using True va(2) usys_ok(2) [OF t(1)] by (auto simp: dup_or_share_def uassert_def valid_perm_def)
  moreover have "child_page D d dd va perm (kern (um p)) t"
    using True sl [of dd "pdx va" "ptx va"] f user_page_pdx [OF va(1)] by (simp add: child_page_def forking_def va_slot_def)
  ultimately show ?thesis using t sl by (intro exI [of _ t] exI [of _ ys]) simp
next
  case False
  obtain q ys where xs: "xs = q # ys" using n by (cases xs) auto
  have ok: "vm_ok {..<955} D E (q # ys) (kern (um p))" and D: "d \<in> D" "dd \<in> D" "d \<noteq> dd" using f xs by (simp_all add: forking_def)
  have va: "user_page va" "va \<noteq> UTEMP" "valid_perm perm" "slot (kern (um p)) (va_slot d va) AND 5 = 5"
    "\<not> is_table {..<955} D (kern (um p)) (mapped_page d va (kern (um p)))" using a by (simp_all add: forkable_def)
  have w: "perm AND PTE_W \<noteq> 0" "perm AND PTE_MAPPED = 0" "2 \<le> length ys" using False n xs by auto
  obtain t ws where t: "dup_or_share res dst va perm p = UReturn () (p\<lparr>um := (um p)\<lparr>kern := t\<rparr>\<rparr>)" "forking b D E ws d dst dd t"
      "\<forall>k < 1024. pmem t q k = pmem (kern (um p)) (mapped_page d va (kern (um p))) k" "\<not> is_table {..<955} D t q"
      "kept D {va_slot dd va, va_slot d UTEMP} (kern (um p)) t" "length xs \<le> length ws + 3"
      "\<And>e j l. e \<in> D \<Longrightarrow> j < 955 \<Longrightarrow> slot t (e, j, l) = (if (e, j, l) = va_slot dd va then page2pa q OR perm OR PTE_P
       else if (e, j, l) = va_slot d UTEMP then 0 else slot (kern (um p)) (e, j, l))"
    using copy_page [OF f va(1-3) w(1,2) va(4) refl va(5) xs w(3) refl] by blast
  have other: "slot t (e, j, l) = slot (kern (um p)) (e, j, l)" if "e \<in> D" "j < 955" "(e, j, l) \<noteq> va_slot dd va" for e j l
    using that t(7) tmp by auto
  have v: "slot t (va_slot dd va) = page2pa q OR perm OR PTE_P"
    using t(7) [of dd "pdx va" "ptx va"] D user_page_pdx [OF va(1)] by (simp add: va_slot_def)
  have q20: "q < 2 ^ 20" using vm_okD(1,2) [OF ok] by (simp add: free_list_def mem_ok_def)
  have "va_slot dd va \<in> maps {..<955} D t q"
    using va_slot_maps [OF D(2) user_page_pdx [OF va(1)], of t] new_entry [OF q20 valid_perm_bound [OF va(3)]]
    unfolding mapped_def mapped_page_def v by (simp add: layout_defs)
  moreover have "maps {..<955} D t q \<subseteq> {va_slot dd va}"
    using free_page_unused(1) [OF ok, of q] maps_changed [of D "{va_slot dd va}" t "kern (um p)" q] other by simp
  ultimately have "child_page D d dd va perm (kern (um p)) t"
    using False v t(3,4) by (auto simp: child_page_def)
  moreover have "kept D {va_slot dd va} (kern (um p)) t"
  proof -
    have "va_slot d UTEMP \<notin> maps {..<955} D (kern (um p)) y" for y using tmp by (auto simp: maps_def)
    then show ?thesis using t(5) unfolding kept_def by blast
  qed
  ultimately show ?thesis using t(1,2,6) other by blast
qed

end
