(* ===== verification/UserFork.thy ===== *)
theory UserFork
  imports UserProps
begin

text \<open>
  \<^verbatim>\<open>fork\<close>: the loop of \<^verbatim>\<open>fork_v0\<close> over all user pages gives the child a copy of the parent's
  address space.
\<close>

section \<open>Reading the page tables through UVPT\<close>

abbreviation upage :: "nat \<Rightarrow> u32" where "upage n \<equiv> of_nat n * PGSIZE"

lemma PTX_unat: "unat (PTX a) = unat a div 4096 mod 1024"
proof -
  have "PTX a = take_bit 10 (PGNUM a)" by (rule bit_word_eqI) (auto simp: macro_bits bit_take_bit_iff)
  then have "unat (PTX a) = unat (PGNUM a) mod 1024" by (simp add: take_bit_eq_mod unat_mod)
  then show ?thesis by (simp add: PGNUM_unat)
qed

lemma upage_unat: "n < 977920 \<Longrightarrow> unat (upage n) = 4096 * n"
  by (simp add: PGSIZE_def unat_word_ariths unat_of_nat)

lemma upage_parts:
  assumes "n < 977920"
  shows "user_page (upage n)" "pdx (upage n) = n div 1024" "ptx (upage n) = n mod 1024" "unat (PGNUM (upage n)) = n"
proof -
  note u = upage_unat [OF assms]
  show p: "pdx (upage n) = n div 1024" by (simp add: PDX_unat u div_mult2_eq [of "4096 * n" 4096 1024, simplified])
  have "unat (upage n mod PGSIZE) = 0" by (simp only: unat_mod u) (simp add: PGSIZE_def)
  then have "upage n mod PGSIZE = 0" by (simp only: unat_eq_zero)
  moreover have "upage n < UTOP" using assms p by (simp add: UTOP_PDX)
  ultimately show "user_page (upage n)" by (simp add: user_page_def)
  show "ptx (upage n) = n mod 1024" by (simp add: PTX_unat u)
  show "unat (PGNUM (upage n)) = n" by (simp add: PGNUM_unat u)
qed

lemma upage_inj: "m < 977920 \<Longrightarrow> n < 977920 \<Longrightarrow> va_slot d (upage m) = va_slot d (upage n) \<longleftrightarrow> m = n"
  using upage_parts(4) va_slot_eq by metis

lemma user_page_upage:
  assumes "user_page va"
  obtains n where "n < 977920" "va = upage n"
proof -
  have "va mod PGSIZE = 0" using assms by (simp add: user_page_def)
  then obtain k where k: "unat va = 4096 * k" "k < 1048576" by (rule page_aligned)
  have "unat va < unat UTOP" using assms by (simp add: user_page_def word_less_nat_alt)
  then have "k < 977920" unfolding k(1) by (simp add: layout_defs)
  moreover from this have "va = upage k" by (simp only: word_unat_eq_iff k(1) upage_unat)
  ultimately show thesis by (rule that)
qed

text \<open>The directory seen as a table: the word at \<open>uvpd + 4 i\<close> is entry \<open>i\<close>, at \<open>uvpt + 4 n\<close> the entry of page \<open>n\<close>.\<close>

lemma uvpt_parts:
  assumes "i < 1024"
  shows "(UVPT + of_nat (4096 * i)) mod PGSIZE = 0" "pdx (UVPT + of_nat (4096 * i)) = pdx UVPT"
    "ptx (UVPT + of_nat (4096 * i)) = i"
proof -
  have u: "unat (UVPT + of_nat (4096 * i)) = 4013948928 + 4096 * i"
    using assms by (simp add: layout_defs unat_word_ariths unat_of_nat)
  have "unat ((UVPT + of_nat (4096 * i)) mod PGSIZE) = 0" by (simp only: unat_mod u) (simp add: PGSIZE_def)
  then show "(UVPT + of_nat (4096 * i)) mod PGSIZE = 0" by (simp only: unat_eq_zero)
  show "pdx (UVPT + of_nat (4096 * i)) = pdx UVPT" unfolding UVPT_pdx(1) [unfolded PDX_unat] PDX_unat u
    by (rule div_nat_eqI) (use assms in simp_all)
  show "ptx (UVPT + of_nat (4096 * i)) = i" unfolding PTX_unat u using assms mod_mult_self3 [of 957 1024 i] by simp
qed

lemma read_uvpt:
  assumes f: "forking b D E xs d dst dd (kern (um p))" and i: "i < 1024" "k < 1024"
    and pde: "pmem (kern (um p)) d i AND 5 = 5"
  shows "user_word (UVPT + of_nat (4096 * i) + of_nat (4 * k)) p = UReturn (pmem (kern (um p)) (table (kern (um p)) d i) k) p"
proof -
  let ?s = "kern (um p)"
  have self: "pmem ?s d (pdx UVPT) = page2pa d OR PTE_P OR PTE_U" using f by (simp add: forking_def user_tables_def)
  have "d < 2 ^ 20"
    using f tables_okD(1) [OF vm_okD(5), of "{..<955}" D E xs ?s d] vm_okD(1) [of "{..<955}" D E xs ?s]
    by (simp add: forking_def mem_ok_def)
  then have d: "unat (PGNUM (page2pa d OR PTE_P OR PTE_U)) = d" "(page2pa d OR PTE_P OR PTE_U) AND 5 = 5"
    by (simp_all add: or.assoc layout_defs PGNUM_or_perm)
  have k: "4 * k < 4096" using i(2) by simp
  note pp = page_parts [OF uvpt_parts(1) [OF i(1)] k]
  have "user_frame 5 (UVPT + of_nat (4096 * i) + of_nat (4 * k)) ?s = Some (table ?s d i)"
    unfolding user_frame_def Let_def forking_cr3 [OF f] pp(1,2) uvpt_parts(2,3) [OF i(1)] self d pde table_def by simp
  moreover have "unat (PGOFF (UVPT + of_nat (4096 * i) + of_nat (4 * k))) div 4 = k" unfolding pp(3) by simp
  moreover have "PTE_P OR PTE_U = 5" by (simp add: layout_defs)
  ultimately show ?thesis by (simp only: user_word_def option.case)
qed

lemma P_or_not: "(w :: u32) AND PTE_P = PTE_P \<longleftrightarrow> w AND PTE_P \<noteq> 0"
  by (simp add: PTE_P_def and_one_eq odd_iff_mod_2_eq_one)

lemma table_index:
  assumes "n < 977920"
  shows "ROUNDDOWN (of_nat n) NPDENTRIES div NPDENTRIES = of_nat (n div 1024)"
proof -
  have u: "unat (of_nat n :: u32) = n" "unat (of_nat (n div 1024) :: u32) = n div 1024"
    using assms by (simp_all add: unat_of_nat)
  have "unat (ROUNDDOWN (of_nat n) NPDENTRIES) = n - n mod 1024"
    by (simp add: ROUNDDOWN_def unat_diff32 unat_mod u NPDENTRIES_def)
  then have "unat (ROUNDDOWN (of_nat n) NPDENTRIES div NPDENTRIES) = n div 1024"
    by (simp add: unat_div NPDENTRIES_def minus_mod_eq_mult_div)
  then show ?thesis by (simp only: word_unat_eq_iff u)
qed

lemma read_pde:
  assumes f: "forking b D E xs d dst dd (kern (um p))" and i: "i < 1024"
  shows "user_word (uvpd + 4 * of_nat i) p = UReturn (pmem (kern (um p)) d i) p"
proof -
  have self: "pmem (kern (um p)) d 957 = page2pa d OR PTE_P OR PTE_U"
    using f UVPT_pdx(1) by (simp add: forking_def user_tables_def)
  have "d < 2 ^ 20"
    using f tables_okD(1) [OF vm_okD(5), of "{..<955}" D E xs "kern (um p)" d] vm_okD(1) [of "{..<955}" D E xs "kern (um p)"]
    by (simp add: forking_def mem_ok_def)
  then have d: "table (kern (um p)) d 957 = d" "pmem (kern (um p)) d 957 AND 5 = 5"
    unfolding table_def self by (simp_all add: or.assoc layout_defs PGNUM_or_perm)
  have "uvpd + 4 * of_nat i = UVPT + of_nat (4096 * 957) + of_nat (4 * i)" by (simp add: uvpd_def layout_defs)
  then show ?thesis using read_uvpt [OF f _ i d(2)] by (simp add: d(1))
qed

lemma fork_page_cases:
  assumes f: "forking b D E xs d pid dd (kern (um p))" and n: "n < 977920"
  shows "fork_page res pid n p = (if mapped d (upage n) (kern (um p))
    then dup_or_share res pid (upage n) (slot (kern (um p)) (va_slot d (upage n)) AND PTE_SYSCALL) p else UReturn () p)"
proof -
  let ?s = "kern (um p)" and ?i = "n div 1024"
  note up = upage_parts [OF n]
  have i: "?i < 955" using n by (simp add: less_mult_imp_div_less)
  have pn: "PGNUM (upage n) = of_nat n" using up(4) n by (simp add: word_unat_eq_iff unat_of_nat)
  have pde: "user_word (uvpd + 4 * of_nat ?i) p = UReturn (pmem ?s d ?i) p" using read_pde [OF f] i by simp
  have sl: "slot ?s (va_slot d (upage n)) = (if present ?s d ?i then pmem ?s (table ?s d ?i) (n mod 1024) else 0)"
    by (simp add: slot_def va_slot_def up)
  show ?thesis
  proof (cases "present ?s d ?i")
    case True
    then have "pmem ?s d ?i AND 7 = 7" using f i by (simp add: forking_def user_tables_def)
    then have "pmem ?s d ?i AND (7 AND 5) = 7 AND 5" by (simp only: and.assoc [symmetric])
    then have five: "pmem ?s d ?i AND 5 = 5" by simp
    have "4 * n = 4096 * ?i + 4 * (n mod 1024)" using div_mult_mod_eq [of n 1024] by linarith
    then have "uvpt + 4 * of_nat n = UVPT + of_nat (4096 * ?i) + of_nat (4 * (n mod 1024))"
      by (metis (mono_tags, lifting) uvpt_def add.assoc of_nat_add of_nat_mult of_nat_numeral)
    then have "user_word (uvpt + 4 * of_nat n) p = UReturn (slot ?s (va_slot d (upage n))) p"
      using read_uvpt [OF f _ _ five, of "n mod 1024"] i True by (simp add: sl)
    then show ?thesis
      using True pde by (simp add: fork_page_def Let_def pn table_index [OF n] P_or_not present_def mapped_def)
  next
    case False
    then show ?thesis
      using pde by (simp add: fork_page_def Let_def pn table_index [OF n] P_or_not present_def mapped_def sl)
  qed
qed

section \<open>The loop invariant\<close>

text \<open>
  \<open>given m\<close> are the permissions with which page \<open>m\<close> has been handed to the child since \<open>s\<close>, if it
  has been: the child then has the page or a copy of it. The entries of all other address
  spaces and the parent's pages are as in \<open>s\<close>.
\<close>

definition fork_inv :: "nat set \<Rightarrow> nat \<Rightarrow> nat \<Rightarrow> kstate \<Rightarrow> (nat \<rightharpoonup> u32) \<Rightarrow> kstate \<Rightarrow> bool" where
  "fork_inv D d dd s given t \<longleftrightarrow>
     (\<forall>e \<in> D. \<forall>j < 955. \<forall>l. e \<noteq> dd \<longrightarrow> slot t (e, j, l) = slot s (e, j, l)) \<and>
     (\<forall>m < 977920. case given m of None \<Rightarrow> slot t (va_slot dd (upage m)) = slot s (va_slot dd (upage m))
        | Some perm \<Rightarrow> mapped d (upage m) s \<and> valid_perm perm \<and> child_page D d dd (upage m) perm s t) \<and>
     (\<forall>m < 977920. mapped d (upage m) s \<longrightarrow> \<not> is_table {..<955} D t (mapped_page d (upage m) s) \<and>
        pmem t (mapped_page d (upage m) s) = pmem s (mapped_page d (upage m) s)) \<and>
     (\<forall>e \<in> D. \<forall>m < 977920. e \<noteq> dd \<and> mapped e (upage m) s \<and> \<not> is_table {..<955} D s (mapped_page e (upage m) s) \<longrightarrow>
        \<not> is_table {..<955} D t (mapped_page e (upage m) s) \<and> pmem t (mapped_page e (upage m) s) = pmem s (mapped_page e (upage m) s))"

lemma fork_invD:
  assumes "fork_inv D d dd s given t"
  shows "e \<in> D \<Longrightarrow> j < 955 \<Longrightarrow> e \<noteq> dd \<Longrightarrow> slot t (e, j, l) = slot s (e, j, l)"
    "m < 977920 \<Longrightarrow> given m = None \<Longrightarrow> slot t (va_slot dd (upage m)) = slot s (va_slot dd (upage m))"
    "m < 977920 \<Longrightarrow> given m = Some perm \<Longrightarrow> mapped d (upage m) s \<and> valid_perm perm \<and> child_page D d dd (upage m) perm s t"
    "m < 977920 \<Longrightarrow> mapped d (upage m) s \<Longrightarrow> \<not> is_table {..<955} D t (mapped_page d (upage m) s) \<and>
        pmem t (mapped_page d (upage m) s) = pmem s (mapped_page d (upage m) s)"
    "e \<in> D \<Longrightarrow> m < 977920 \<Longrightarrow> e \<noteq> dd \<Longrightarrow> mapped e (upage m) s \<Longrightarrow> \<not> is_table {..<955} D s (mapped_page e (upage m) s) \<Longrightarrow>
        \<not> is_table {..<955} D t (mapped_page e (upage m) s) \<and> pmem t (mapped_page e (upage m) s) = pmem s (mapped_page e (upage m) s)"
  using assms by (auto simp: fork_inv_def split: option.splits)

lemma parent_slot:
  assumes "fork_inv D d' dd s given t" "d \<in> D" "d \<noteq> dd" "m < 977920"
  shows "slot t (va_slot d (upage m)) = slot s (va_slot d (upage m))"
    "mapped d (upage m) t = mapped d (upage m) s" "mapped_page d (upage m) t = mapped_page d (upage m) s"
proof -
  have "pdx (upage m) < 955" using user_page_pdx [OF upage_parts(1) [OF assms(4)]] by simp
  then show s: "slot t (va_slot d (upage m)) = slot s (va_slot d (upage m))"
    using fork_invD(1) [OF assms(1,2)] assms(3) by (simp add: va_slot_def)
  show "mapped d (upage m) t = mapped d (upage m) s" "mapped_page d (upage m) t = mapped_page d (upage m) s"
    by (simp_all add: mapped_def mapped_page_def s)
qed

lemma slot_upage:
  assumes "j < 955" "l < 1024"
  obtains m where "m < 977920" "\<And>d. (d, j, l) = va_slot d (upage m)"
proof -
  have m: "1024 * j + l < 977920" using assms by linarith
  then have "(d, j, l) = va_slot d (upage (1024 * j + l))" for d
    using upage_parts(2,3) [OF m] assms by (simp add: va_slot_def)
  then show thesis by (rule that [OF m])
qed

lemma maps_upage:
  assumes "e \<in> D" "m < 977920"
  shows "va_slot e (upage m) \<in> maps {..<955} D s q \<longleftrightarrow>
    slot s (va_slot e (upage m)) AND PTE_P \<noteq> 0 \<and> unat (PGNUM (slot s (va_slot e (upage m)))) = q"
  using assms(1) user_page_pdx [OF upage_parts(1) [OF assms(2)]] PTX_bound [of "upage m"]
  by (simp add: maps_def va_slot_def)

text \<open>A page the child has and that somebody else maps too is the parent's.\<close>

lemma child_page_shared:
  assumes c: "child_page D d dd va perm s t" and perm: "valid_perm perm"
    and x: "va_slot dd va \<in> maps {..<955} D t x" "z \<in> maps {..<955} D t x" "z \<noteq> va_slot dd va"
  shows "mapped_page d va s = x"
proof -
  have m: "unat (PGNUM (slot t (va_slot dd va))) = x" using x(1) by (simp add: maps_def va_slot_def)
  have "q \<noteq> x" if "maps {..<955} D t q = {va_slot dd va}" for q using that x(2,3) by auto
  moreover have "q = x" if "va_slot dd va \<in> maps {..<955} D t q" for q using that m by (simp add: maps_def va_slot_def)
  ultimately have "slot t (va_slot dd va) = page2pa (mapped_page d va s) OR perm OR PTE_P"
    using c unfolding child_page_def by (auto split: if_splits)
  moreover have "mapped_page d va s < 2 ^ 20" unfolding mapped_page_def by (rule PGNUM_bound)
  ultimately show ?thesis using m new_entry(2) [OF _ valid_perm_bound [OF perm]] by simp
qed

text \<open>Handing pages to the child at most doubles their references.\<close>

lemma fork_refs:
  assumes s: "vm_ok {..<955} D E xs s" and t: "vm_ok {..<955} D E ys t" and i: "fork_inv D d dd s given t"
    and D: "d \<in> D" "dd \<in> D" "d \<noteq> dd" and n: "n < 977920" "mapped d (upage n) s" and x: "x = mapped_page d (upage n) s"
  shows "unat (pp_ref (pages t x)) \<le> 2 * unat (pp_ref (pages s x))"
proof -
  let ?f = "\<lambda>(e :: nat, j :: nat, l :: nat). (dd, j, l)"
  note ps = parent_slot [OF i D(1,3)]
  have dx: "va_slot d (upage n) \<in> maps {..<955} D t x"
    using va_slot_maps [OF D(1) user_page_pdx [OF upage_parts(1) [OF n(1)]], of t] n ps by (simp add: x)
  have sub: "maps {..<955} D t x \<subseteq> maps {..<955} D s x \<union> ?f ` maps {..<955} D s x"
  proof
    fix z assume z: "z \<in> maps {..<955} D t x"
    obtain e j l where e: "z = (e, j, l)" "e \<in> D" "j < 955" "l < 1024" using z by (auto simp: maps_def)
    show "z \<in> maps {..<955} D s x \<union> ?f ` maps {..<955} D s x"
    proof (cases "e = dd")
      case False
      then show ?thesis using z e fork_invD(1) [OF i e(2,3)] by (simp add: maps_def)
    next
      case True
      obtain m where m: "m < 977920" "\<And>d. (d, j, l) = va_slot d (upage m)" using slot_upage [OF e(3,4)] by blast
      show ?thesis
      proof (cases "given m")
        case None
        then show ?thesis using z e(1) True fork_invD(2) [OF i m(1)] m(2) by (simp add: maps_upage [OF D(2) m(1)])
      next
        case (Some perm)
        note g = fork_invD(3) [OF i m(1) Some]
        have "va_slot d (upage n) \<noteq> va_slot dd (upage m)" using D(3) by (simp add: va_slot_def)
        moreover have "va_slot dd (upage m) \<in> maps {..<955} D t x" using z e(1) True m(2) by simp
        ultimately have "mapped_page d (upage m) s = x" using child_page_shared [OF _ _ _ dx] g by blast
        then have "(d, j, l) \<in> maps {..<955} D s x"
          using va_slot_maps [OF D(1) user_page_pdx [OF upage_parts(1) [OF m(1)]], of s] g by (simp add: m(2))
        then show ?thesis using True e(1) by force
      qed
    qed
  qed
  have "finite (maps {..<955} D s x)" by (rule finite_maps [OF vm_okD(3,4) [OF s]])
  then have "card (maps {..<955} D t x) \<le> 2 * card (maps {..<955} D s x)"
    using card_mono [OF _ sub] card_Un_le [of "maps {..<955} D s x" "?f ` maps {..<955} D s x"] card_image_le [of "maps {..<955} D s x" ?f]
    by fastforce
  moreover have "card (maps {..<955} D s x) + (if is_table {..<955} D s x then 1 else 0) + E x = unat (pp_ref (pages s x))"
    "card (maps {..<955} D t x) + (if is_table {..<955} D t x then 1 else 0) + E x = unat (pp_ref (pages t x))"
    using vm_okD(6) [OF s] vm_okD(6) [OF t] by (auto simp: refs_ok_def dest: spec [of _ x])
  moreover have "\<not> is_table {..<955} D t x" using fork_invD(4) [OF i n] by (simp add: x)
  ultimately show ?thesis by simp
qed

text \<open>Handing out one page preserves what the child has of the others.\<close>

lemma child_page_step:
  assumes c: "child_page D d dd va perm s t" "user_page va" and D: "d \<in> D" "dd \<in> D" "d \<noteq> dd"
    and new: "child_page D d dd vb pb t u" "valid_perm pb" "mapped d vb t" "user_page vb" "vb \<noteq> va"
    and k: "kept D {va_slot dd vb} t u"
    and sl: "\<And>e j l. e \<in> D \<Longrightarrow> j < 955 \<Longrightarrow> (e, j, l) \<noteq> va_slot dd vb \<Longrightarrow> slot u (e, j, l) = slot t (e, j, l)"
  shows "child_page D d dd va perm s u"
proof -
  have ne: "va_slot dd vb \<noteq> va_slot dd va" using user_page_slot_eq [OF new(4) c(2)] new(5) by blast
  have same: "slot u (va_slot dd va) = slot t (va_slot dd va)"
    using sl [of dd "pdx va" "ptx va"] D(2) user_page_pdx [OF c(2)] ne by (auto simp: va_slot_def)
  have keep: "maps {..<955} D u q = {va_slot dd va} \<and> \<not> is_table {..<955} D u q \<and> pmem u q = pmem t q"
    if q: "maps {..<955} D t q = {va_slot dd va}" "\<not> is_table {..<955} D t q" for q
  proof -
    have m: "maps {..<955} D u q - {va_slot dd vb} = {va_slot dd va}"
      using maps_changed [of D "{va_slot dd vb}" u t q] sl q(1) ne by auto
    have "va_slot dd vb \<notin> maps {..<955} D u q"
    proof
      assume z: "va_slot dd vb \<in> maps {..<955} D u q"
      have "va_slot dd va \<in> maps {..<955} D u q" using m by blast
      then have "mapped_page d vb t = q" by (rule child_page_shared [OF new(1,2) z]) (use ne in simp)
      then have "va_slot d vb \<in> maps {..<955} D t q" using va_slot_maps [OF D(1) user_page_pdx [OF new(4)] new(3)] by simp
      then show False using q(1) D(3) by (simp add: va_slot_def)
    qed
    then have "maps {..<955} D u q = {va_slot dd va}" using m by auto
    moreover have "va_slot dd va \<in> maps {..<955} D t q" "va_slot dd va \<notin> {va_slot dd vb}" using q(1) ne by auto
    ultimately show ?thesis using k q(2) unfolding kept_def by blast
  qed
  show ?thesis
  proof (cases "perm AND PTE_W = 0 \<or> perm AND PTE_MAPPED \<noteq> 0")
    case True
    then show ?thesis using c(1) unfolding child_page_def same by simp
  next
    case False
    then obtain q where q: "slot t (va_slot dd va) = page2pa q OR perm OR PTE_P" "maps {..<955} D t q = {va_slot dd va}"
        "\<not> is_table {..<955} D t q" "\<forall>k < 1024. pmem t q k = pmem s (mapped_page d va s) k"
      using c(1) unfolding child_page_def by auto
    then show ?thesis using keep [OF q(2,3)] False unfolding child_page_def same by auto
  qed
qed

lemma fork_give:
  assumes f: "forking b D E ys d dst dd (kern (um p))" and s: "vm_ok {..<955} D E xs s" "slot s (va_slot d UTEMP) = 0"
    and i: "fork_inv D d dd s given (kern (um p))" and n: "n < 977920" "slot s (va_slot d (upage n)) AND 5 = 5"
    and perm: "valid_perm perm" "perm AND PTE_MAPPED \<noteq> 0 \<longrightarrow> \<not> escalates perm d (upage n) s"
    and ref: "2 * unat (pp_ref (pages s (mapped_page d (upage n) s))) < 65535" and len: "3 \<le> length ys"
  shows "\<exists>u zs. dup_or_share res dst (upage n) perm p = UReturn () (p\<lparr>um := (um p)\<lparr>kern := u\<rparr>\<rparr>) \<and>
    forking b D E zs d dst dd u \<and> length ys \<le> length zs + 3 \<and> fork_inv D d dd s (given(n \<mapsto> perm)) u"
proof -
  let ?t = "kern (um p)"
  have t: "vm_ok {..<955} D E ys ?t" and D: "d \<in> D" "dd \<in> D" "d \<noteq> dd" using f by (simp_all add: forking_def)
  note up = upage_parts(1) [OF n(1)] and ps = parent_slot [OF i D(1,3)]
  have m: "mapped d (upage n) s" unfolding mapped_def by (rule and_5_P [OF n(2)])
  have tmp: "slot ?t (va_slot d UTEMP) = 0"
    using fork_invD(1) [OF i D(1) _ D(3)] user_page_pdx [OF user_page_UTEMP] s(2) by (simp add: va_slot_def)
  have "upage n \<noteq> UTEMP" using m s(2) by (auto simp: mapped_def)
  moreover have "unat (pp_ref (pages ?t (mapped_page d (upage n) s))) < 65535"
    using fork_refs [OF s(1) t i D n(1) m refl] ref by simp
  ultimately have "forkable D d (upage n) perm ?t"
    using up perm n fork_invD(4) [OF i n(1) m] by (simp add: forkable_def ps [OF n(1)] escalates_def)
  then obtain u zs where u: "dup_or_share res dst (upage n) perm p = UReturn () (p\<lparr>um := (um p)\<lparr>kern := u\<rparr>\<rparr>)"
      "forking b D E zs d dst dd u" "child_page D d dd (upage n) perm ?t u" "kept D {va_slot dd (upage n)} ?t u" "length ys \<le> length zs + 3"
      "\<And>e j l. e \<in> D \<Longrightarrow> j < 955 \<Longrightarrow> (e, j, l) \<noteq> va_slot dd (upage n) \<Longrightarrow> slot u (e, j, l) = slot ?t (e, j, l)"
    using dup_step [OF f _ tmp len] by blast
  have other: "slot u (va_slot e (upage k)) = slot ?t (va_slot e (upage k))" if "e \<in> D" "k < 977920" "(e, k) \<noteq> (dd, n)" for e k
    using that u(6) user_page_pdx [OF upage_parts(1) [OF that(2)]] upage_inj [OF that(2) n(1), of dd] by (auto simp: va_slot_def)
  have own: "child_page D d dd (upage n) perm s u"
    using u(3) unfolding child_page_def ps [OF n(1)] conjunct2 [OF fork_invD(4) [OF i n(1) m]] .
  have "fork_inv D d dd s (given(n \<mapsto> perm)) u"
    unfolding fork_inv_def
  proof (intro conjI ballI allI impI)
    fix e j l :: nat assume "e \<in> D" "j < 955" "e \<noteq> dd"
    then show "slot u (e, j, l) = slot s (e, j, l)" using u(6) fork_invD(1) [OF i] by (simp add: va_slot_def)
  next
    fix k :: nat assume k: "k < 977920"
    show "case (given(n \<mapsto> perm)) k of None \<Rightarrow> slot u (va_slot dd (upage k)) = slot s (va_slot dd (upage k))
        | Some perm \<Rightarrow> mapped d (upage k) s \<and> valid_perm perm \<and> child_page D d dd (upage k) perm s u"
    proof (cases "k = n")
      case True
      then show ?thesis using own m perm(1) by simp
    next
      case False
      have "upage n \<noteq> upage k" using False upage_inj [OF k n(1), of d] by metis
      then show ?thesis
        using False other [OF D(2) k] fork_invD(2,3) [OF i k] m
          child_page_step [OF _ upage_parts(1) [OF k] D u(3) perm(1) _ up _ u(4,6)]
        by (simp add: ps [OF n(1)] split: option.split)
    qed
  next
    fix k :: nat assume k: "k < 977920" "mapped d (upage k) s"
    have "va_slot d (upage k) \<in> maps {..<955} D ?t (mapped_page d (upage k) s)"
      using va_slot_maps [OF D(1) user_page_pdx [OF upage_parts(1) [OF k(1)]], of ?t] k by (simp add: ps [OF k(1)])
    moreover have "va_slot d (upage k) \<notin> {va_slot dd (upage n)}" using D(3) by (simp add: va_slot_def)
    ultimately show "\<not> is_table {..<955} D u (mapped_page d (upage k) s)"
      "pmem u (mapped_page d (upage k) s) = pmem s (mapped_page d (upage k) s)"
      using u(4) fork_invD(4) [OF i k] unfolding kept_def by metis+
  next
    fix e k :: nat assume e: "e \<in> D" and k: "k < 977920"
      and m: "e \<noteq> dd \<and> mapped e (upage k) s \<and> \<not> is_table {..<955} D s (mapped_page e (upage k) s)"
    then have ed: "e \<noteq> dd" and old: "\<not> is_table {..<955} D ?t (mapped_page e (upage k) s) \<and>
        pmem ?t (mapped_page e (upage k) s) = pmem s (mapped_page e (upage k) s)" using fork_invD(5) [OF i e k] by simp_all
    note pe = parent_slot [OF i e ed k]
    have "va_slot e (upage k) \<in> maps {..<955} D ?t (mapped_page e (upage k) s)"
      using va_slot_maps [OF e user_page_pdx [OF upage_parts(1) [OF k]], of ?t] m by (simp add: pe)
    moreover have "va_slot e (upage k) \<notin> {va_slot dd (upage n)}" using ed by (simp add: va_slot_def)
    ultimately show "\<not> is_table {..<955} D u (mapped_page e (upage k) s)"
      "pmem u (mapped_page e (upage k) s) = pmem s (mapped_page e (upage k) s)"
      using u(4) old unfolding kept_def by metis+
  qed
  then show ?thesis using u(1,2,5) by blast
qed

section \<open>The loop\<close>

text \<open>
  The address space \<open>d\<close> can be copied: nothing is mapped at \<open>UTEMP\<close>, all pages are user pages
  other than tables, and their reference counts leave room for the child's mappings.
\<close>

definition forkable_space :: "nat set \<Rightarrow> nat \<Rightarrow> kstate \<Rightarrow> bool" where
  "forkable_space D d s \<longleftrightarrow> slot s (va_slot d UTEMP) = 0 \<and>
     (\<forall>n < 977920. mapped d (upage n) s \<longrightarrow> slot s (va_slot d (upage n)) AND 5 = 5 \<and>
        \<not> is_table {..<955} D s (mapped_page d (upage n) s) \<and>
        2 * unat (pp_ref (pages s (mapped_page d (upage n) s))) < 65535)"

definition mapped_pages :: "nat \<Rightarrow> kstate \<Rightarrow> nat \<Rightarrow> nat set" where
  "mapped_pages d s n = {m. m < n \<and> mapped d (upage m) s}"

definition handed :: "nat \<Rightarrow> kstate \<Rightarrow> nat \<Rightarrow> nat \<rightharpoonup> u32" where
  "handed d s n m = (if m \<in> mapped_pages d s n then Some (slot s (va_slot d (upage m)) AND PTE_SYSCALL) else None)"

lemma mapped_pages_Suc: "mapped_pages d s (Suc n) = (if mapped d (upage n) s then insert n (mapped_pages d s n) else mapped_pages d s n)"
  by (auto simp: mapped_pages_def less_Suc_eq)

lemma mapped_pages_card: "n \<notin> mapped_pages d s n" "finite (mapped_pages d s n)"
  by (auto simp: mapped_pages_def)

lemma ufold_append: "ufold f (as @ bs) p = ubind (ufold f as p) (\<lambda>_ p. ufold f bs p)"
proof (induction as arbitrary: p)
  case (Cons a as)
  then show ?case by (cases "f a p") simp_all
qed simp

lemma fork_perm:
  assumes "w AND 5 = 5"
  shows "valid_perm (w AND PTE_SYSCALL)" "(w AND PTE_SYSCALL) AND PTE_W = w AND PTE_W"
proof -
  have "w AND (5 AND PTE_U) = 5 AND PTE_U" "w AND (5 AND PTE_P) = 5 AND PTE_P"
    by (simp_all only: and.assoc [symmetric] assms)
  moreover have "PTE_SYSCALL AND PTE_U = PTE_U" "PTE_SYSCALL AND PTE_P = PTE_P" "PTE_SYSCALL AND PTE_W = PTE_W"
    by (simp_all add: layout_defs)
  moreover have "PTE_SYSCALL AND NOT PTE_SYSCALL = 0" by simp
  ultimately show "valid_perm (w AND PTE_SYSCALL)" "(w AND PTE_SYSCALL) AND PTE_W = w AND PTE_W"
    by (simp_all only: valid_perm_def and.assoc) (simp_all add: layout_defs)
qed

lemma fork_loop:
  assumes f: "forking b D E xs d pid dd (kern (um p))" and sp: "forkable_space D d (kern (um p))"
  shows "n \<le> 977920 \<Longrightarrow> 3 * card (mapped_pages d (kern (um p)) n) \<le> length xs \<Longrightarrow>
    \<exists>t ys. ufold (fork_page res pid) [0..<n] p = UReturn () (p\<lparr>um := (um p)\<lparr>kern := t\<rparr>\<rparr>) \<and> forking b D E ys d pid dd t \<and>
      length xs \<le> length ys + 3 * card (mapped_pages d (kern (um p)) n) \<and>
      fork_inv D d dd (kern (um p)) (handed d (kern (um p)) n) t"
proof (induction n)
  case 0
  have "fork_inv D d dd (kern (um p)) (handed d (kern (um p)) 0) (kern (um p))"
    using sp by (auto simp: fork_inv_def handed_def mapped_pages_def forkable_space_def)
  then show ?case using f by (intro exI [of _ "kern (um p)"] exI [of _ xs]) simp
next
  case (Suc n)
  let ?s = "kern (um p)" and ?w = "slot (kern (um p)) (va_slot d (upage n))"
  have n: "n < 977920" using Suc.prems(1) by simp
  have s: "vm_ok {..<955} D E xs ?s" and D: "d \<in> D" "d \<noteq> dd" using f by (simp_all add: forking_def)
  have sub: "3 * card (mapped_pages d ?s n) \<le> length xs"
    using Suc.prems(2) mapped_pages_card [where n = n and d = d and s = ?s] by (simp add: mapped_pages_Suc split: if_splits)
  obtain t ys where t: "ufold (fork_page res pid) [0..<n] p = UReturn () (p\<lparr>um := (um p)\<lparr>kern := t\<rparr>\<rparr>)"
      "forking b D E ys d pid dd t" "length xs \<le> length ys + 3 * card (mapped_pages d ?s n)"
      "fork_inv D d dd ?s (handed d ?s n) t"
    using Suc.IH n sub by auto
  let ?p = "p\<lparr>um := (um p)\<lparr>kern := t\<rparr>\<rparr>"
  note ps = parent_slot [OF t(4) D n]
  have fp: "fork_page res pid n ?p = (if mapped d (upage n) ?s then dup_or_share res pid (upage n) (?w AND PTE_SYSCALL) ?p else UReturn () ?p)"
    using fork_page_cases [of b D E ys d pid dd ?p n res] t(2) n by (simp add: ps)
  show ?case
  proof (cases "mapped d (upage n) ?s")
    case False
    then have "handed d ?s (Suc n) = handed d ?s n" by (auto simp: handed_def mapped_pages_Suc)
    then show ?thesis using False t fp by (intro exI [of _ t] exI [of _ ys]) (simp add: ufold_append mapped_pages_Suc)
  next
    case True
    have w: "?w AND 5 = 5" "2 * unat (pp_ref (pages ?s (mapped_page d (upage n) ?s))) < 65535" "slot ?s (va_slot d UTEMP) = 0"
      using sp n True by (simp_all add: forkable_space_def)
    have len: "3 \<le> length ys"
      using Suc.prems(2) t(3) True mapped_pages_card [where n = n and d = d and s = ?s] by (simp add: mapped_pages_Suc)
    have esc: "(?w AND PTE_SYSCALL) AND PTE_MAPPED \<noteq> 0 \<longrightarrow> \<not> escalates (?w AND PTE_SYSCALL) d (upage n) ?s"
      by (simp add: escalates_def fork_perm(2) [OF w(1)])
    have t': "forking b D E ys d pid dd (kern (um ?p))" "fork_inv D d dd ?s (handed d ?s n) (kern (um ?p))" using t(2,4) by simp_all
    obtain u zs where u: "dup_or_share res pid (upage n) (?w AND PTE_SYSCALL) ?p = UReturn () (p\<lparr>um := (um p)\<lparr>kern := u\<rparr>\<rparr>)"
        "forking b D E zs d pid dd u" "length ys \<le> length zs + 3"
        "fork_inv D d dd ?s ((handed d ?s n)(n \<mapsto> ?w AND PTE_SYSCALL)) u"
      using fork_give [OF t'(1) s w(3) t'(2) n w(1) fork_perm(1) [OF w(1)] esc w(2) len, of res] by auto
    have "(handed d ?s n)(n \<mapsto> ?w AND PTE_SYSCALL) = handed d ?s (Suc n)"
      using True by (auto simp: handed_def mapped_pages_Suc)
    moreover have "length xs \<le> length zs + 3 * card (mapped_pages d ?s (Suc n))"
      using t(3) u(3) True mapped_pages_card [where n = n and d = d and s = ?s] by (simp add: mapped_pages_Suc)
    ultimately show ?thesis
      using t(1) fp u(1,2,4) True by (intro exI [of _ u] exI [of _ zs]) (simp add: ufold_append)
  qed
qed

section \<open>Fork\<close>

lemma child_page_cong: "pmem t = pmem u \<Longrightarrow> child_page D d dd va perm s t = child_page D d dd va perm s u"
  unfolding child_page_def by (simp only: slot_cong [of t u] maps_pmem [of t u] is_table_cong [of t u])

lemma usys_set_status_ok:
  assumes "envid2env pid True (kern (um p)) = Return (0, Some e) (kern (um p))"
  shows "or_panic msg (usys_env_set_status res pid status_runnable p) =
    UReturn 0 (p\<lparr>um := (um p)\<lparr>kern := upd_env e (\<lambda>x. x\<lparr>env_status := ENV_RUNNABLE\<rparr>) (kern (um p))\<rparr>\<rparr>)"
  using assms by (simp add: usys_env_set_status_def usyscall_def int_syscall_def syscall_def Let_def sys_numbers or_panic_def
      sys_env_set_status_def)

text \<open>
  C16. What \<open>fork_v0\<close> does in the parent, once \<open>sys_exofork\<close> has returned the identifier of the child
  (\<open>fork_after\<close>). If
  the address space can be copied and there is enough memory (at most three pages for every
  mapped page), it returns the identifier, and the child is runnable. For every page the parent
  has mapped below \<open>UTOP\<close>, the child has at the same address the same page, if it is read-only or
  \<open>PTE_MAPPED\<close>, and otherwise a private page with the same contents, with the same
  permissions; the stack page is always a private writable copy. The child has nothing
  else that it did not have before. The mappings of the parent and of every other address space of \<open>D\<close> are
  unchanged, so are the contents of their pages, and the records of all environments but the child's are the same. The
  model of \<open>fork_after\<close> keeps the locals of the function in registers (the stores of the running
  function to its own stack page are not part of it), its system calls enter the dispatcher directly, and no other environment
  runs in between.
\<close>

theorem fork_copies_address_space:
  assumes f: "forking (kern (um p)) D E xs d pid dd (kern (um p))" and pid: "0 < sint pid"
    and sp: "forkable_space D d (kern (um p))"
    and stk: "k < 977920" "ROUNDDOWN at PGSIZE = upage k" "mapped d (upage k) (kern (um p))"
    and len: "3 * card (mapped_pages d (kern (um p)) 977920) + 3 \<le> length xs"
  shows "\<exists>t e ys. fork_after res at pid p = UReturn pid (p\<lparr>um := (um p)\<lparr>kern := t\<rparr>\<rparr>) \<and>
    envid2env pid True (kern (um p)) = Return (0, Some e) (kern (um p)) \<and>
    envs t = (envs (kern (um p)))(e := (envs (kern (um p)) e)\<lparr>env_status := ENV_RUNNABLE\<rparr>) \<and> vm_ok {..<955} D E ys t \<and>
    (\<forall>n < 977920. slot t (va_slot d (upage n)) = slot (kern (um p)) (va_slot d (upage n))) \<and>
    (\<forall>n < 977920. \<not> mapped d (upage n) (kern (um p)) \<longrightarrow>
       slot t (va_slot dd (upage n)) = slot (kern (um p)) (va_slot dd (upage n))) \<and>
    (\<forall>n < 977920. mapped d (upage n) (kern (um p)) \<longrightarrow>
       child_page D d dd (upage n) (if n = k then 7 else slot (kern (um p)) (va_slot d (upage n)) AND PTE_SYSCALL) (kern (um p)) t \<and>
       pmem t (mapped_page d (upage n) (kern (um p))) = pmem (kern (um p)) (mapped_page d (upage n) (kern (um p)))) \<and>
    (\<forall>a \<in> D - {d, dd}. \<forall>n < 977920. slot t (va_slot a (upage n)) = slot (kern (um p)) (va_slot a (upage n)) \<and>
       (mapped a (upage n) (kern (um p)) \<and> \<not> is_table {..<955} D (kern (um p)) (mapped_page a (upage n) (kern (um p))) \<longrightarrow>
        pmem t (mapped_page a (upage n) (kern (um p))) = pmem (kern (um p)) (mapped_page a (upage n) (kern (um p)))))"
proof -
  let ?s = "kern (um p)" and ?h = "(handed d (kern (um p)) 977920)(k \<mapsto> 7)"
  have s: "vm_ok {..<955} D E xs ?s" and D: "d \<in> D" "d \<noteq> dd" using f by (simp_all add: forking_def)
  obtain t ys where t: "ufold (fork_page res pid) [0..<977920] p = UReturn () (p\<lparr>um := (um p)\<lparr>kern := t\<rparr>\<rparr>)"
      "forking ?s D E ys d pid dd t" "length xs \<le> length ys + 3 * card (mapped_pages d ?s 977920)"
      "fork_inv D d dd ?s (handed d ?s 977920) t"
    using fork_loop [OF f sp, of 977920 res] len by auto
  let ?p = "p\<lparr>um := (um p)\<lparr>kern := t\<rparr>\<rparr>"
  have t': "forking ?s D E ys d pid dd (kern (um ?p))" "fork_inv D d dd ?s (handed d ?s 977920) (kern (um ?p))" using t(2,4) by simp_all
  have w: "slot ?s (va_slot d (upage k)) AND 5 = 5" "2 * unat (pp_ref (pages ?s (mapped_page d (upage k) ?s))) < 65535"
      "slot ?s (va_slot d UTEMP) = 0" using sp stk by (simp_all add: forkable_space_def)
  have seven: "valid_perm 7" "7 AND PTE_MAPPED \<noteq> 0 \<longrightarrow> \<not> escalates 7 d (upage k) ?s"
    by (simp_all add: valid_perm_def layout_defs)
  have "3 \<le> length ys" using len t(3) by simp
  then obtain u zs where u: "dup_or_share res pid (upage k) 7 ?p = UReturn () (p\<lparr>um := (um p)\<lparr>kern := u\<rparr>\<rparr>)"
      "forking ?s D E zs d pid dd u" "fork_inv D d dd ?s ?h u"
    using fork_give [OF t'(1) s w(3) t'(2) stk(1) w(1) seven w(2), of res] by auto
  obtain e where e: "envid2env pid True u = Return (0, Some e) u" using u(2) unfolding forking_def by blast
  let ?u = "upd_env e (\<lambda>x. x\<lparr>env_status := ENV_RUNNABLE\<rparr>) u"
  have fr: "vm_frame ?s u" and ok: "vm_ok {..<955} D E zs u" using u(2) by (simp_all add: forking_def)
  have "curenv ?s = curenv u" "envs ?s = envs u" using vm_frame_curenv [OF fr] fr by (simp_all add: vm_frame_def)
  note es = envid2env_frame [OF this e]
  have pm: "pmem ?u = pmem u" by simp
  have "vm_ok {..<955} D E zs ?u" by (rule vm_ok_cong [OF ok]) simp_all
  moreover have "UTOP div PGSIZE = 977920" "PTE_P OR PTE_U OR PTE_W = 7" by (simp_all add: layout_defs)
  then have "fork_after res at pid p = UReturn pid (p\<lparr>um := (um p)\<lparr>kern := ?u\<rparr>\<rparr>)"
    using pid t(1) u(1) stk(2) usys_set_status_ok [of pid "p\<lparr>um := (um p)\<lparr>kern := u\<rparr>\<rparr>" e] e by (auto simp: fork_after_def)
  moreover have "child_page D d dd (upage n) (if n = k then 7 else slot ?s (va_slot d (upage n)) AND PTE_SYSCALL) ?s ?u \<and>
      pmem ?u (mapped_page d (upage n) ?s) = pmem ?s (mapped_page d (upage n) ?s)"
    if n: "n < 977920" "mapped d (upage n) ?s" for n
    using fork_invD(3) [OF u(3) n(1)] fork_invD(4) [OF u(3) n] n
    by (auto simp: child_page_cong [OF pm] handed_def mapped_pages_def)
  moreover have "slot ?u (va_slot dd (upage n)) = slot ?s (va_slot dd (upage n))" if n: "n < 977920" "\<not> mapped d (upage n) ?s" for n
  proof -
    have "n \<noteq> k" using n(2) stk(3) by auto
    then show ?thesis using fork_invD(2) [OF u(3) n(1)] n(2) by (simp add: slot_cong [OF pm] handed_def mapped_pages_def)
  qed
  moreover have "slot ?u (va_slot d (upage n)) = slot ?s (va_slot d (upage n))" if "n < 977920" for n
    using parent_slot(1) [OF u(3) D that] by (simp add: slot_cong [OF pm])
  moreover have "slot ?u (va_slot a (upage n)) = slot ?s (va_slot a (upage n)) \<and>
      (mapped a (upage n) ?s \<and> \<not> is_table {..<955} D ?s (mapped_page a (upage n) ?s) \<longrightarrow>
       pmem ?u (mapped_page a (upage n) ?s) = pmem ?s (mapped_page a (upage n) ?s))"
    if "a \<in> D - {d, dd}" "n < 977920" for a n
    using that parent_slot(1) [OF u(3), of a n] fork_invD(5) [OF u(3), of a n] by (simp add: slot_cong [OF pm])
  moreover have "envs ?u = (envs ?s)(e := (envs ?s e)\<lparr>env_status := ENV_RUNNABLE\<rparr>)"
    using fr by (simp add: vm_frame_def upd_env_def)
  ultimately show ?thesis using es by (intro exI [of _ ?u] exI [of _ e] exI [of _ zs]) blast
qed

text \<open>
  An example: environment 4 with the directory 5 has page 9 mapped writable at \<open>0x800000\<close>
  (through the table in page 10); environment 6 with the empty directory 8 is its child; the
  pages 20 to 25 are free.
\<close>

definition fork_demo :: kstate where
  "fork_demo = set_curenv (Some 4) (bss_state\<lparr>npages := 256, cr3 := 0x5000, page_free_list := Some 20,
     pages := (\<lambda>p. if 20 \<le> p \<and> p < 25 then \<lparr>pp_link = Some (p + 1), pp_ref = 0\<rparr>
       else if p \<in> {5, 8, 9, 10} then \<lparr>pp_link = None, pp_ref = 1\<rparr> else zero_page),
     envs := (\<lambda>_. zero_env)(4 := zero_env\<lparr>env_id := 0x1004, env_status := ENV_RUNNING, env_pgdir := Some 5\<rparr>,
       6 := zero_env\<lparr>env_id := 0x1006, env_parent_id := 0x1004, env_status := ENV_NOT_RUNNABLE, env_pgdir := Some 8\<rparr>),
     pmem := (\<lambda>_ _. 0)(5 := (\<lambda>_. 0)(2 := 0xA007, 957 := 0x5005), 10 := (\<lambda>_. 0)(0 := 0x9007), 9 := (\<lambda>_. 0)(3 := 42))\<rparr>)"

lemma fork_demo_simps:
  "npages fork_demo = 256" "cr3 fork_demo = 0x5000" "curenv fork_demo = Some 4" "page_free_list fork_demo = Some 20"
  "pmem fork_demo = (\<lambda>_ _. 0)(5 := (\<lambda>_. 0)(2 := 0xA007, 957 := 0x5005), 10 := (\<lambda>_. 0)(0 := 0x9007), 9 := (\<lambda>_. 0)(3 := 42))"
  "pages fork_demo = (\<lambda>p. if 20 \<le> p \<and> p < 25 then \<lparr>pp_link = Some (p + 1), pp_ref = 0\<rparr>
       else if p \<in> {5, 8, 9, 10} then \<lparr>pp_link = None, pp_ref = 1\<rparr> else zero_page)"
  by (simp_all add: fork_demo_def bss_state_def set_curenv_def curenv_def)

lemma fork_demo_tables:
  "d \<in> {5, 8} \<Longrightarrow> i < 955 \<Longrightarrow> present fork_demo d i \<longleftrightarrow> d = 5 \<and> i = 2"
  "d \<in> {5, 8} \<Longrightarrow> i < 955 \<Longrightarrow> table fork_demo d i = (if d = 5 \<and> i = 2 then 10 else 0)"
  "d \<in> {5, 8} \<Longrightarrow> i < 955 \<Longrightarrow> slot fork_demo (d, i, k) = (if (d, i, k) = (5, 2, 0) then 0x9007 else 0)"
  by (auto simp: present_def table_def slot_def fork_demo_simps PTE_P_def PGNUM_def layout_defs)

lemma fork_demo_maps: "maps {..<955} {5, 8} fork_demo q = (if q = 9 then {(5, 2, 0)} else {})"
  by (auto simp: maps_def fork_demo_tables layout_defs PGNUM_def split: if_splits)

lemma fork_demo_is_table: "is_table {..<955} {5, 8} fork_demo q \<longleftrightarrow> q \<in> {5, 8, 10}"
  by (auto simp: is_table_def fork_demo_tables)

lemma fork_demo_ok: "vm_ok {..<955} {5, 8} (\<lambda>_. 0) [20, 21, 22, 23, 24, 25] fork_demo"
proof -
  have "refs_ok {..<955} {5, 8} (\<lambda>_. 0) fork_demo"
    unfolding refs_ok_def fork_demo_maps fork_demo_is_table by (auto simp: fork_demo_simps zero_page_def)
  moreover have "tables_ok {..<955} {5, 8} [20, 21, 22, 23, 24, 25] fork_demo"
    by (auto simp: tables_ok_def fork_demo_tables fork_demo_simps)
  moreover have "free_list fork_demo [20, 21, 22, 23, 24, 25]"
    by (auto simp: free_list_def pglist.on_list_def fork_demo_simps zero_page_def)
  ultimately show ?thesis by (simp add: vm_ok_def mem_ok_def fork_demo_simps)
qed

lemma fork_demo_mapped: "n < 977920 \<Longrightarrow> mapped 5 (upage n) fork_demo \<longleftrightarrow> n = 2048"
proof -
  assume n: "n < 977920"
  have "n div 1024 = 2 \<and> n mod 1024 = 0 \<longleftrightarrow> n = 2048" using div_mult_mod_eq [of n 1024] by auto
  moreover have "n div 1024 < 955" using n by (simp add: less_mult_imp_div_less)
  ultimately have s: "slot fork_demo (va_slot 5 (upage n)) = (if n = 2048 then 0x9007 else 0)"
    unfolding va_slot_def upage_parts(2,3) [OF n] using fork_demo_tables(3) [of 5 "n div 1024" "n mod 1024"] by auto
  show ?thesis unfolding mapped_def s by (simp add: PTE_P_def)
qed

lemma fork_demo_page: "slot fork_demo (va_slot 5 (upage 2048)) = 0x9007" "mapped_page 5 (upage 2048) fork_demo = 9"
proof -
  show s: "slot fork_demo (va_slot 5 (upage 2048)) = 0x9007"
    using upage_parts [of 2048] by (simp add: va_slot_def fork_demo_tables)
  show "mapped_page 5 (upage 2048) fork_demo = 9" unfolding mapped_page_def s by (simp add: PGNUM_def layout_defs)
qed

lemma fork_demo_child: "envid2env 0x1006 True fork_demo = Return (0, Some 6) fork_demo"
proof -
  have "ENVX 0x1006 = 6" by code_simp
  then show ?thesis by (simp add: envid2env_def fork_demo_simps) (simp add: fork_demo_def set_curenv_def)
qed

lemma fork_demo_forking:
  "forking fork_demo {5, 8} (\<lambda>_. 0) [20, 21, 22, 23, 24, 25] 5 0x1006 8 fork_demo"
  "forkable_space {5, 8} 5 fork_demo" "mapped_pages 5 fork_demo 977920 = {2048}"
proof -
  have e: "envs fork_demo 4 = zero_env\<lparr>env_id := 0x1004, env_status := ENV_RUNNING, env_pgdir := Some 5\<rparr>"
    "envs fork_demo 6 = zero_env\<lparr>env_id := 0x1006, env_parent_id := 0x1004, env_status := ENV_NOT_RUNNABLE, env_pgdir := Some 8\<rparr>"
    by (simp_all add: fork_demo_def set_curenv_def)
  have "user_tables 5 fork_demo"
    by (simp add: user_tables_def fork_demo_tables UVPT_pdx) (simp add: fork_demo_simps page2pa_def layout_defs)
  then show "forking fork_demo {5, 8} (\<lambda>_. 0) [20, 21, 22, 23, 24, 25] 5 0x1006 8 fork_demo"
    using fork_demo_ok fork_demo_child by (simp add: forking_def fork_demo_simps e page2pa_def layout_defs)
  have "slot fork_demo (va_slot 5 UTEMP) = 0"
    using user_page_pdx [OF user_page_UTEMP] by (simp add: va_slot_def fork_demo_tables) (simp add: PDX_def PTX_def layout_defs)
  then show "forkable_space {5, 8} 5 fork_demo"
    using fork_demo_page by (simp add: forkable_space_def fork_demo_mapped fork_demo_is_table) (simp add: fork_demo_simps)
  show "mapped_pages 5 fork_demo 977920 = {2048}"
  proof (rule set_eqI)
    fix m
    show "m \<in> mapped_pages 5 fork_demo 977920 \<longleftrightarrow> m \<in> {2048}"
    proof (cases "m < 977920")
      case True
      then show ?thesis using fork_demo_mapped [OF True] unfolding mapped_pages_def by blast
    qed (auto simp: mapped_pages_def)
  qed
qed

definition fork_proc :: uproc where
  "fork_proc = \<lparr>um = \<lparr>kern = fork_demo, con = quiet_console\<rparr>, thisenv = Some 4, binaryname = ''forktree'', pgfault_handler = 0\<rparr>"

theorem fork_copies_address_space_witness:
  "\<exists>t q. fork_after (\<lambda>_ _. None) 0x800010 0x1006 fork_proc = UReturn 0x1006 (fork_proc\<lparr>um := (um fork_proc)\<lparr>kern := t\<rparr>\<rparr>) \<and>
     env_status (envs t 6) = ENV_RUNNABLE \<and> slot t (va_slot 8 0x800000) = page2pa q OR 7 OR PTE_P \<and> q \<noteq> 9 \<and>
     pmem t q 3 = 42 \<and> slot t (va_slot 5 0x800000) = 0x9007"
proof -
  have um: "kern (um fork_proc) = fork_demo" by (simp add: fork_proc_def)
  define k :: nat where "k = 2048"
  have up: "upage k = 0x800000" "k < 977920" "ROUNDDOWN 0x800010 PGSIZE = upage k" by (simp_all add: k_def PGSIZE_def ROUNDDOWN_def)
  have m: "mapped 5 (upage k) fork_demo" using fork_demo_mapped [OF up(2)] k_def by blast
  have len: "3 * card (mapped_pages 5 fork_demo 977920) + 3 \<le> length [20 :: nat, 21, 22, 23, 24, 25]"
    by (simp add: fork_demo_forking(3))
  have "0 < sint (0x1006 :: u32)" by simp
  note fork = fork_copies_address_space [where p = fork_proc, unfolded um,
      OF fork_demo_forking(1) this fork_demo_forking(2) up(2,3) m len, of "\<lambda>_ _. None"]
  obtain t e where t: "fork_after (\<lambda>_ _. None) 0x800010 0x1006 fork_proc = UReturn 0x1006 (fork_proc\<lparr>um := (um fork_proc)\<lparr>kern := t\<rparr>\<rparr>)"
      "envid2env 0x1006 True fork_demo = Return (0, Some e) fork_demo"
      "envs t = (envs fork_demo)(e := (envs fork_demo e)\<lparr>env_status := ENV_RUNNABLE\<rparr>)"
      "slot t (va_slot 5 (upage k)) = slot fork_demo (va_slot 5 (upage k))"
      "child_page {5, 8} 5 8 (upage k) (if k = k then 7 else slot fork_demo (va_slot 5 (upage k)) AND PTE_SYSCALL) fork_demo t"
    using fork up(2) m by blast
  have x: "mapped_page 5 (upage k) fork_demo = 9" "slot fork_demo (va_slot 5 (upage k)) = 0x9007"
    using fork_demo_page by (simp_all add: k_def)
  obtain q where q: "slot t (va_slot 8 (upage k)) = page2pa q OR 7 OR PTE_P" "maps {..<955} {5, 8} t q = {va_slot 8 (upage k)}"
      "\<forall>i < 1024. pmem t q i = pmem fork_demo 9 i"
    using t(5) unfolding child_page_def x by (auto simp: layout_defs)
  have "e = 6" using t(2) fork_demo_child by simp
  moreover have "q \<noteq> 9"
  proof
    assume "q = 9"
    have "va_slot 5 (upage k) \<in> maps {..<955} {5, 8} t 9"
      unfolding maps_upage [OF insertI1 up(2)] t(4) x by (simp add: PTE_P_def PGNUM_def layout_defs)
    then show False using q(2) \<open>q = 9\<close> by (simp add: va_slot_def)
  qed
  ultimately show ?thesis
    using t(1,3,4) q(1,3) unfolding up(1) x(2) [unfolded up(1)] by (intro exI [of _ t] exI [of _ q]) (simp add: fork_demo_simps)
qed

end
