(* ===== verification/UserProgProps.thy ===== *)
theory UserProgProps
  imports UserProgs UserFork
begin

text \<open>
  The counter of \<^verbatim>\<open>user/contador.c\<close>: its increment is addition of one on decimal digits, and what it leaves on
  the screen are the digits of the number of rounds.
\<close>

section \<open>Counting\<close>

text \<open>The increment as a recursion over the digits.\<close>

fun inc_digits :: "u8 list \<Rightarrow> u8 list option" where
  "inc_digits [] = None"
| "inc_digits (c # cs) =
     (if c = 0x39 then map_option (Cons 0x30) (inc_digits cs) else Some ((if c = 0 then 0x31 else c + 1) # cs))"

lemma carry_inc:
  "(case carry (length as) (as @ cs) of None \<Rightarrow> None
    | Some (p, ds) \<Rightarrow> Some (if ds ! p = 0 then ds[p := 0x31] else ds[p := ds ! p + 1])) = map_option ((@) as) (inc_digits cs)"
proof (induction cs arbitrary: as)
  case (Cons c cs)
  have "(as @ c # cs)[length as := 0x30] = (as @ [0x30]) @ cs" by simp
  moreover have "length as + 1 = length (as @ [0x30 :: u8])" by simp
  ultimately show ?case using Cons.IH [of "as @ [0x30]"]
    by (subst carry.simps) (simp add: option.map_comp comp_def del: carry.simps)
qed simp

lemma count_up_inc: "count_up cs = inc_digits cs"
  using carry_inc [of "[]" cs] by (cases "inc_digits cs") (simp_all add: count_up_def del: carry.simps)

text \<open>The last \<open>k\<close> digits of a number, the last one first, without leading zeros.\<close>

primrec low_digits :: "nat \<Rightarrow> nat \<Rightarrow> u8 list" where
  "low_digits 0 n = []"
| "low_digits (Suc k) n = (if n = 0 then 0 else 0x30 + of_nat (n mod 10)) # low_digits k (n div 10)"

lemma digit_char:
  assumes "d < 10"
  shows "(0x30 + of_nat d :: u8) = 0x39 \<longleftrightarrow> d = 9" "(0x30 + of_nat d :: u8) \<noteq> 0"
proof -
  have "d \<in> {0,1,2,3,4,5,6,7,8,9}" using assms by auto
  then show "(0x30 + of_nat d :: u8) = 0x39 \<longleftrightarrow> d = 9" "(0x30 + of_nat d :: u8) \<noteq> 0" by auto
qed

lemma mod10_Suc: "n mod 10 \<noteq> 9 \<Longrightarrow> Suc n mod 10 = Suc (n mod 10) \<and> Suc n div 10 = n div (10 :: nat)"
  "n mod 10 = 9 \<Longrightarrow> Suc n mod 10 = 0 \<and> Suc n div 10 = Suc (n div (10 :: nat))"
  by (auto simp: mod_Suc div_Suc)

lemma carry_bound: "n mod 10 = 9 \<Longrightarrow> Suc n < 10 ^ Suc k \<Longrightarrow> Suc (n div 10) < 10 ^ k"
  using mod10_Suc(2) [of n] less_mult_imp_div_less [of "Suc n" "10 ^ k" 10] by (simp add: mult.commute)

lemma inc_low_digits: "Suc n < 10 ^ k \<Longrightarrow> inc_digits (low_digits k n) = Some (low_digits k (Suc n))"
proof (induction k arbitrary: n)
  case (Suc k)
  have d: "n mod 10 < 10" by simp
  show ?case
  proof (cases "n mod 10 = 9")
    case True
    then have "n \<noteq> 0" "Suc (n div 10) < 10 ^ k" using carry_bound [OF _ Suc.prems] by auto
    then show ?thesis using Suc.IH [of "n div 10"] True mod10_Suc(2) [OF True] by simp
  next
    case False
    then show ?thesis using mod10_Suc(1) [OF False] digit_char [OF d] by simp
  qed
qed simp

text \<open>The array after \<open>n\<close> increments.\<close>

definition counter_of :: "nat \<Rightarrow> u8 list" where
  "counter_of n = map (\<lambda>i. if i = 0 \<or> 10 ^ i \<le> n then 0x30 + of_nat (n div 10 ^ i mod 10) else 0) [0..<40]"

lemma low_digits_map:
  "low_digits k n = map (\<lambda>i. if 10 ^ i \<le> n then 0x30 + of_nat (n div 10 ^ i mod 10) else 0) [0..<k]"
proof (induction k arbitrary: n)
  case (Suc k)
  have "(10 ^ i \<le> n div 10) = (10 ^ Suc i \<le> n)" for i
    by (simp add: less_eq_div_iff_mult_less_eq mult.commute)
  moreover have "n div 10 div 10 ^ i = n div 10 ^ Suc i" for i by (simp add: div_mult2_eq)
  ultimately have "low_digits k (n div 10) = map (\<lambda>i. if 10 ^ i \<le> n then 0x30 + of_nat (n div 10 ^ i mod 10) else 0) (map Suc [0..<k])"
    unfolding Suc.IH by simp
  then show ?case by (simp only: low_digits.simps map_Suc_upt upt_conv_Cons [OF zero_less_Suc] list.map) simp
qed simp

lemma counter_of_low: "counter_of n = (0x30 + of_nat (n mod 10)) # low_digits 39 (n div 10)"
proof -
  have u: "[0..<40] = 0 # [1..<40]" "(40 :: nat) = Suc 39" by (simp_all add: upt_conv_Cons)
  have "low_digits 39 (n div 10) = map (\<lambda>i. if 10 ^ i \<le> n then 0x30 + of_nat (n div 10 ^ i mod 10) else 0) [1..<40]"
    using low_digits_map [of "Suc 39" n] unfolding u(2) [symmetric] u(1) unfolding u(2) low_digits.simps by simp
  then show ?thesis unfolding counter_of_def u(1) by simp
qed

lemma counter_of_0: "counter_of 0 = counter_init"
proof -
  have "low_digits k 0 = replicate k 0" for k by (induction k) simp_all
  then show ?thesis by (simp add: counter_of_low counter_init_def)
qed

lemma count_up_counter:
  assumes "Suc n < 10 ^ 40"
  shows "count_up (counter_of n) = Some (counter_of (Suc n))"
proof -
  have d: "n mod 10 < 10" by simp
  show ?thesis
  proof (cases "n mod 10 = 9")
    case True
    then have "Suc (n div 10) < 10 ^ 39" using assms by (intro carry_bound) simp_all
    then show ?thesis unfolding count_up_inc counter_of_low
      using inc_low_digits [of "n div 10" 39] True mod10_Suc(2) [OF True] by simp
  next
    case False
    then show ?thesis unfolding count_up_inc counter_of_low using mod10_Suc(1) [OF False] digit_char [OF d] by simp
  qed
qed

section \<open>The screen\<close>

definition vga_byte :: "nat \<Rightarrow> uproc \<Rightarrow> nat \<Rightarrow> u8" where
  "vga_byte f p k = get_byte (pmem (kern (um p)) f (k div 4)) (k mod 4)"

text \<open>The page of the screen is mapped writable on frame \<open>f\<close>, which is none of the tables that map it.\<close>

definition vga_ready :: "nat \<Rightarrow> uproc \<Rightarrow> bool" where
  "vga_ready f p =
     (let s = kern (um p); d = unat (PGNUM (cr3 s)) in
      user_frame 7 VGA_USER s = Some f \<and> f \<noteq> d \<and> f \<noteq> unat (PGNUM (pmem s d (pdx VGA_USER))))"

definition poke :: "nat \<Rightarrow> nat \<Rightarrow> u8 \<Rightarrow> uproc \<Rightarrow> uproc" where
  "poke f k b p = (let s = kern (um p) in
     p\<lparr>um := (um p)\<lparr>kern := store_pte (f, k div 4) (set_byte (pmem s f (k div 4)) (k mod 4) b) s\<rparr>\<rparr>)"

lemma bit_set_byte:
  "bit (set_byte w k b) n = (if 8 * k \<le> n \<and> n < 8 * k + 8 \<and> n < 32 then bit b (n - 8 * k) else bit w n)"
proof (cases "n < 32")
  case True
  have ff: "bit (0xFF :: u32) j = (j < 8)" for j using bit_mask_iff [of 8 j, where 'a = u32] by (auto simp: mask_eq_exp_minus_1)
  have "bit (set_byte w k b) n = ((bit w n \<and> \<not> (8 * k \<le> n \<and> n - 8 * k < 8)) \<or> (8 * k \<le> n \<and> bit b (n - 8 * k)))"
    using True ff [of "n - 8 * k"] by (auto simp: set_byte_def bit_or_iff bit_and_iff bit_not_iff bit_push_bit_iff bit_ucast_iff)
  moreover have "bit b (n - 8 * k) \<Longrightarrow> n - 8 * k < 8" using bit_imp_le_length [of b "n - 8 * k"] by simp
  ultimately show ?thesis using True by (cases "n - 8 * k < 8") auto
qed (auto dest: bit_imp_le_length)

lemma get_set_byte: "k < 4 \<Longrightarrow> get_byte (set_byte w k b) j = (if j = k then b else get_byte w j)" if "j < 4"
proof (rule bit_word_eqI)
  fix n assume "k < 4" "n < LENGTH(8)"
  then show "bit (get_byte (set_byte w k b) j) n = bit (if j = k then b else get_byte w j) n"
    using that by (auto simp: bit_get_byte bit_set_byte)
qed

lemma vga_byte_poke: "vga_byte f (poke f k b p) j = (if j = k then b else vga_byte f p j)"
proof -
  have "j = k \<longleftrightarrow> j div 4 = k div 4 \<and> j mod 4 = k mod 4" by (metis div_mult_mod_eq)
  then show ?thesis by (auto simp: vga_byte_def poke_def Let_def store_pte_def get_set_byte)
qed

lemma vga_ready_poke: "vga_ready f p \<Longrightarrow> vga_ready f (poke f k b p)"
  by (auto simp: vga_ready_def poke_def Let_def store_pte_def user_frame_def split: if_splits)

lemma user_store_vga:
  assumes "vga_ready f p" "k < 4096"
  shows "user_store (VGA_USER + of_nat k) b p = UReturn () (poke f k b p)"
proof -
  have a: "VGA_USER mod PGSIZE = 0" by (simp add: layout_defs)
  have "user_frame 7 (VGA_USER + of_nat k) (kern (um p)) = Some f"
    using assms(1) by (simp add: vga_ready_def Let_def user_frame_def page_parts [OF a assms(2)])
  moreover have "PTE_P OR PTE_U OR PTE_W = 7" by (simp add: layout_defs)
  ultimately show ?thesis by (simp add: user_store_def poke_def Let_def page_parts(3) [OF a assms(2)])
qed

text \<open>What a round leaves in the cells of its line.\<close>

definition shows_counter :: "nat \<Rightarrow> nat \<Rightarrow> u8 \<Rightarrow> u8 list \<Rightarrow> nat \<Rightarrow> uproc \<Rightarrow> bool" where
  "shows_counter f linea color cs m p =
     (\<forall>i < m. vga_byte f p (160 * linea + 2 * i) = cs ! (39 - i) \<and> vga_byte f p (160 * linea + 2 * i + 1) = color)"

lemma show_counter_prefix:
  fixes color :: u8 and cs :: "u8 list"
  assumes r: "vga_ready f p" and l: "linea \<le> 24" and m: "m \<le> 40"
  defines "F \<equiv> \<lambda>i p. ubind (user_store (VGA_USER + of_nat linea * 160 + of_nat (2 * i)) (cs ! (39 - i)) p)
       (\<lambda>_ p. user_store (VGA_USER + of_nat linea * 160 + of_nat (2 * i + 1)) color p)"
  shows "\<exists>q. ufold F [0..<m] p = UReturn () q \<and> vga_ready f q \<and> shows_counter f linea color cs m q \<and>
    (\<forall>k. k \<notin> {160 * linea ..< 160 * linea + 80} \<longrightarrow> vga_byte f q k = vga_byte f p k)"
  using m
proof (induction m)
  case 0
  then show ?case using r by (simp add: shows_counter_def)
next
  case (Suc m)
  then obtain q where q: "ufold F [0..<m] p = UReturn () q" "vga_ready f q" "shows_counter f linea color cs m q"
      "\<forall>k. k \<notin> {160 * linea ..< 160 * linea + 80} \<longrightarrow> vga_byte f q k = vga_byte f p k" by auto
  let ?q = "poke f (160 * linea + 2 * m) (cs ! (39 - m)) q"
  have a: "VGA_USER + of_nat linea * 160 + of_nat j = VGA_USER + of_nat (160 * linea + j)" for j by simp
  have k: "160 * linea + 2 * m < 4096" "160 * linea + (2 * m + 1) < 4096" using l Suc.prems by linarith+
  have "F m q = UReturn () (poke f (160 * linea + (2 * m + 1)) color ?q)"
    unfolding F_def a user_store_vga [OF q(2) k(1)] ubind.simps by (rule user_store_vga [OF vga_ready_poke [OF q(2)] k(2)])
  then have "ufold F [0..<Suc m] p = UReturn () (poke f (160 * linea + (2 * m + 1)) color ?q)"
    by (simp add: ufold_append q(1))
  moreover have "shows_counter f linea color cs (Suc m) (poke f (160 * linea + (2 * m + 1)) color ?q)"
    using q(3) unfolding shows_counter_def less_Suc_eq by (auto simp: vga_byte_poke)
  moreover have "\<forall>k. k \<notin> {160 * linea ..< 160 * linea + 80} \<longrightarrow> vga_byte f (poke f (160 * linea + (2 * m + 1)) color ?q) k = vga_byte f p k"
    using q(4) Suc.prems by (auto simp: vga_byte_poke)
  ultimately show ?case using vga_ready_poke [OF vga_ready_poke [OF q(2)]] by blast
qed

lemma show_counter_shows:
  assumes "vga_ready f p" "linea \<le> 24"
  shows "\<exists>q. show_counter (of_nat linea) color cs p = UReturn () q \<and> vga_ready f q \<and> shows_counter f linea color cs 40 q \<and>
    (\<forall>k. k \<notin> {160 * linea ..< 160 * linea + 80} \<longrightarrow> vga_byte f q k = vga_byte f p k)"
  unfolding show_counter_def by (rule show_counter_prefix [OF assms order_refl])

lemma contador_rounds_counter:
  assumes "vga_ready f p" "linea \<le> 24" "n + m < 10 ^ 40" "0 < m \<Longrightarrow> shows_counter f linea color (counter_of m) 40 p"
  shows "\<exists>q. contador_rounds n (of_nat linea) color (counter_of m) p = Some (UReturn (counter_of (n + m)) q) \<and> vga_ready f q \<and>
    (0 < n + m \<longrightarrow> shows_counter f linea color (counter_of (n + m)) 40 q) \<and>
    (\<forall>k. k \<notin> {160 * linea ..< 160 * linea + 80} \<longrightarrow> vga_byte f q k = vga_byte f p k)"
  using assms
proof (induction n arbitrary: m p)
  case (Suc n)
  obtain q where q: "show_counter (of_nat linea) color (counter_of (Suc m)) p = UReturn () q" "vga_ready f q"
      "shows_counter f linea color (counter_of (Suc m)) 40 q"
      "\<forall>k. k \<notin> {160 * linea ..< 160 * linea + 80} \<longrightarrow> vga_byte f q k = vga_byte f p k"
    using show_counter_shows [OF Suc.prems(1,2)] by blast
  have "Suc m < 10 ^ 40" using Suc.prems(3) by simp
  note up = count_up_counter [OF this]
  have "n + Suc m < 10 ^ 40" using Suc.prems(3) by simp
  from Suc.IH [OF q(2) Suc.prems(2) this q(3)] show ?case using q(1,4) up by auto
qed auto

text \<open>
  C28. The counter counts: after \<open>n\<close> rounds (fewer than 10 to the 40) \<open>contador\<close> has
  not run out of its array, holds the decimal digits of \<open>n\<close>, and shows them from right to left in
  the first 40 cells of its line with its colour; every other byte of the screen is untouched, so that
  the processes with different lines do not disturb each other.
\<close>

theorem contador_counts:
  assumes "vga_ready f p" "linea \<le> 24" "n < 10 ^ 40"
  shows "\<exists>q. contador n (of_nat linea) color p = Some (UReturn (counter_of n) q) \<and>
    (0 < n \<longrightarrow> (\<forall>i < 40. vga_byte f q (160 * linea + 2 * i) = counter_of n ! (39 - i) \<and>
                        vga_byte f q (160 * linea + 2 * i + 1) = color)) \<and>
    (\<forall>k. k \<notin> {160 * linea ..< 160 * linea + 80} \<longrightarrow> vga_byte f q k = vga_byte f p k)"
proof -
  have "n + 0 < 10 ^ 40" using assms(3) by simp
  from contador_rounds_counter [OF assms(1,2) this, of color] show ?thesis
    by (auto simp: contador_def counter_of_0 shows_counter_def)
qed

text \<open>The example: a page directory that maps the page of the screen on frame \<open>0xb8\<close>.\<close>

definition vga_proc :: uproc where
  "vga_proc = fork_proc\<lparr>um := (um fork_proc)\<lparr>kern := fork_demo\<lparr>pmem := (pmem fork_demo)
     (5 := (\<lambda>_. 0x30007), 0x30 := (\<lambda>_. 0xb8007), 0xb8 := (\<lambda>_. 0))\<rparr>\<rparr>\<rparr>"

lemma vga_proc_ready: "vga_ready 0xb8 vga_proc"
  by (simp add: vga_ready_def vga_proc_def Let_def user_frame_def fork_demo_simps page2pa_def PGNUM_def layout_defs)

theorem contador_counts_witness:
  "\<exists>q. contador 120 3 0x6f vga_proc = Some (UReturn (counter_of 120) q) \<and>
     vga_byte 0xb8 q 554 = 0x31 \<and> vga_byte 0xb8 q 556 = 0x32 \<and> vga_byte 0xb8 q 558 = 0x30 \<and> vga_byte 0xb8 q 559 = 0x6f"
proof -
  obtain q where q: "contador 120 3 0x6f vga_proc = Some (UReturn (counter_of 120) q)"
      "\<forall>i < 40. vga_byte 0xb8 q (160 * 3 + 2 * i) = counter_of 120 ! (39 - i) \<and> vga_byte 0xb8 q (160 * 3 + 2 * i + 1) = 0x6f"
    using contador_counts [OF vga_proc_ready, of 3 120 "0x6f"] by auto
  show ?thesis using q(1) q(2) [rule_format, of 37] q(2) [rule_format, of 38] q(2) [rule_format, of 39]
    by (intro exI [of _ q]) (simp add: counter_of_def)
qed

end
