(* ===== verification/Spec2Isabelle.thy ===== *)
theory Spec2Isabelle
  imports VmSafety EnvProps UserMem ConsoleProps KDebugProps MonitorProps MemInit BootProps SmpProps KernelIso UserFaults UserProgProps
begin

text \<open>
  A verification library for the JOS kernel in \<^verbatim>\<open>src/jos\<close>: a small multiprocessor kernel for the
  32 bit x86 that boots from disk, manages physical and virtual memory, runs environments
  (processes) in address spaces of their own, schedules them on several processors under one
  big lock, and offers system calls for memory, process creation and messages.

  \<^bold>\<open>How the parts work together.\<close> The boot loader (\<^verbatim>\<open>boot/main.c\<close>) loads the kernel and jumps to it;
  \<^verbatim>\<open>i386_init\<close> (\<^verbatim>\<open>kern/init.c\<close>) sets up the console, memory (\<^verbatim>\<open>mem_init\<close>), environments, traps, the
  other processors and the interrupt controllers, creates the first environments and enters the
  scheduler. From then on everything starts in \<^verbatim>\<open>trap\<close> (\<^verbatim>\<open>kern/trap.c\<close>): it takes the lock, saves
  the registers of the environment, and dispatches to a system call, to the page fault
  handler or to the scheduler, which leave the kernel through \<^verbatim>\<open>env_run\<close>. System calls work on
  environments (\<^verbatim>\<open>kern/env.c\<close>) and their page tables (\<^verbatim>\<open>kern/pmap.c\<close>), which take pages from the
  page allocator.

  \<^bold>\<open>State.\<close> All global variables of the kernel and the memory it manages are the record \<open>kstate\<close> of
  \<open>KState\<close>: \<open>pages\<close>, \<open>page_free_list\<close>, \<open>envs\<close>, \<open>env_free_list\<close>, \<open>cpus\<close>, \<open>kernel_lock\<close> and so on
  have the names of the source. Pages and environments are named by their index in the array,
  a NULL pointer is \<open>None\<close>. Physical memory is \<open>pmem\<close>, the word \<open>k\<close> of frame \<open>f\<close> being \<open>pmem s f k\<close>, so that
  page directories and tables are ordinary frames, and the TLB is a map that \<^verbatim>\<open>invlpg\<close> and
  \<^verbatim>\<open>lcr3\<close> clear. The console devices are the record \<open>console\<close>; both together are a \<open>machine\<close>. The byte memory
  of the string library and of formatted printing is \<open>mem\<close>, a map of 32 bit addresses to bytes.
  Machine integers are words of their width throughout.

  \<^bold>\<open>Outcomes.\<close> A kernel routine yields an \<open>outcome\<close> (\<open>Prelude\<close>): \<open>Return\<close> with a value and a
  state; \<open>Panic\<close> for \<^verbatim>\<open>panic\<close> and failing assertions; \<open>Leave\<close> when control leaves the kernel for
  good (\<open>RunEnv\<close>, \<open>HaltCpu\<close>, \<open>MonitorForever\<close>); \<open>Fault\<close> for a dereferenced NULL pointer or an index
  out of bounds; \<open>Diverge\<close> for a loop that never ends. Loops that may not end are
  \<open>partial_function (option)\<close> with \<open>None\<close> for divergence, and theorems about them state that they
  return. Bounded loops are structural recursions over their number of iterations: \<open>boot_map_pages\<close>
  over \<^verbatim>\<open>size / PGSIZE\<close>, \<open>user_mem_loop\<close> over the bytes of the range, \<open>region_pages\<close> over the pages of the
  region (rounded up, so that the last iteration is included), \<open>mp_entries\<close> over the entry
  count of the table. Fuel is used in \<open>mon_backtrace\<close> (\<open>max_frames\<close>), whose walk over the stack
  may be cyclic, in \<open>forktree\<close>, whose depth is \<^verbatim>\<open>DEPTH\<close>, and in \<open>contador\<close>, as the number of rounds of its endless loop.

  \<^bold>\<open>Theories.\<close>
  \<^item> \<open>Prelude\<close>: outcomes, the locales \<open>list_allocator\<close> of linked lists threaded through an array and
    \<open>kept_by_steps\<close> of invariants of state machines, word lemmas.
    \<open>Layout\<close>: constants and macros of \<^verbatim>\<open>inc/mmu.h\<close> and \<^verbatim>\<open>inc/memlayout.h\<close>. \<open>KState\<close>: the state.
  \<^item> \<open>PageAlloc\<close>: \<^verbatim>\<open>i386_detect_memory\<close>, \<^verbatim>\<open>boot_alloc\<close>, \<^verbatim>\<open>page_init\<close>, \<^verbatim>\<open>page_alloc\<close>, \<^verbatim>\<open>page_free\<close>, \<^verbatim>\<open>page_decref\<close> and
    \<^verbatim>\<open>check_page_alloc\<close> of \<^verbatim>\<open>kern/pmap.c\<close>; the free list holds exactly the allocatable pages, the
    self-test passes, round trips and double frees.
  \<^item> \<open>PageTable\<close>: \<^verbatim>\<open>pgdir_walk\<close>, \<^verbatim>\<open>page_lookup\<close>, \<^verbatim>\<open>page_insert\<close>, \<^verbatim>\<open>page_remove\<close>, \<^verbatim>\<open>boot_map_region\<close>,
    \<^verbatim>\<open>mmio_map_region\<close>. A slot \<open>(d, i, k)\<close> is entry \<open>k\<close> of table \<open>i\<close> of directory \<open>d\<close>. \<open>VmInv\<close>: the invariant
    \<open>vm_ok I D E xs s\<close> (the tables of the directories \<open>D\<close> at the indices \<open>I\<close> are frames of their own,
    \<open>xs\<close> is the free list, and every reference count is exactly the number of mappings and tables plus
    the outside references \<open>E\<close>) and the specification of every routine. \<open>VmSafety\<close>: the state machine of
    all sequences of these operations, with the coherence of the TLB.
  \<^item> \<open>Spinlock\<close>: \<^verbatim>\<open>kern/spinlock.c\<close>, once for a single processor and once as an interleaving step relation of
    any number of processors. \<open>Sched\<close>: \<^verbatim>\<open>env_run\<close>, \<^verbatim>\<open>sched_yield\<close>, \<^verbatim>\<open>sched_halt\<close>; decision, fairness, exclusion.
  \<^item> \<open>EnvMgr\<close>, \<open>EnvInv\<close>, \<open>EnvProps\<close>: \<^verbatim>\<open>kern/env.c\<close>; address spaces are built and torn down with exact
    reference counts, identifiers are fresh. \<open>UserMem\<close>: \<^verbatim>\<open>user_mem_check\<close> against its specification.
  \<^item> \<open>CString\<close>, \<open>Printf\<close>: \<^verbatim>\<open>lib/string.c\<close>, \<^verbatim>\<open>lib/printfmt.c\<close>, \<^verbatim>\<open>kern/printf.c\<close>, \<^verbatim>\<open>lib/printf.c\<close>; equivalence
    with byte-wise reference definitions, bounds, round trip of printing and reading numbers.
  \<^item> \<open>Console\<close>, \<open>ConsoleProps\<close>: \<^verbatim>\<open>kern/console.c\<close>, \<^verbatim>\<open>kern/picirq.c\<close>, \<^verbatim>\<open>lib/readline.c\<close>; the input buffer refines
    a bounded queue (locales \<open>bounded_queue\<close> and \<open>ring_device\<close>, interpreted on the ring buffer and on both
    devices), the display refines a scrolling terminal.
  \<^item> \<open>KDebug\<close>, \<open>KDebugProps\<close>, \<open>Monitor\<close>, \<open>MonitorProps\<close>: \<^verbatim>\<open>kern/kdebug.c\<close> and \<^verbatim>\<open>kern/monitor.c\<close>; binary search in
    the symbol table, splitting of command lines.
  \<^item> \<open>Syscall\<close>: every handler of \<^verbatim>\<open>kern/syscall.c\<close> and the dispatcher. \<open>SyscallProps\<close>: the records of the environments under every call.
    \<open>SyscallMem\<close>, \<open>IpcProps\<close>: the memory calls and messages on every branch. \<open>Trap\<close>: \<^verbatim>\<open>kern/trap.c\<close>, descriptor tables
    and messages. \<open>TrapProps\<close>: forking, and a system call on its way through \<^verbatim>\<open>trap\<close> and back.
  \<^item> \<open>KernelInv\<close>: the invariant \<open>kernel_inv\<close> of the whole kernel (the directories of all environments and the kernel's own
    satisfy \<open>vm_ok\<close> together, user space maps data pages only, address spaces agree above \<^verbatim>\<open>UTOP\<close>, ids,
    free list and \<open>cr3\<close> are right) under the page table and environment routines. \<open>KernelSys\<close>: under the
    scheduler and every system call. \<open>KernelTrap\<close>: under \<^verbatim>\<open>trap\<close>; the kernel as a state machine \<open>kernel_step\<close> of traps
    and user stores on one processor, an instance of the locale \<open>kept_by_steps\<close>. \<open>KernelProps\<close>: isolation over
    the runs of \<open>kernel_step\<close>, whose traps have two conditions that the code does not guarantee (reference counts below
    their 16 bit limit, no system call with the NULL page); and what happens without such conditions: a count that wraps around,
    an environment that is freed while another processor runs it.
    \<open>KernelFault\<close>: an exception in user mode ends the environment that caused it and nothing else, even if it has set a page
    fault upcall, which the code never calls. \<open>KernelCalls\<close>: every system call keeps the invariant, and the NULL page is the only
    bad pointer a system call can follow. \<open>KernelIso\<close>: no system call touches the address space of an environment
    that its caller may not manipulate; the routines write only to free frames and to the tables of their target.
  \<^item> \<open>MemInit\<close>: \<^verbatim>\<open>mem_init\<close> and all its self-tests. \<open>Smp\<close>, \<open>SmpProps\<close>: \<^verbatim>\<open>kern/mpconfig.c\<close>, \<^verbatim>\<open>kern/lapic.c\<close>,
    \<^verbatim>\<open>kern/kclock.c\<close>, \<^verbatim>\<open>kern/init.c\<close>. \<open>Boot\<close>, \<open>BootProps\<close>: \<^verbatim>\<open>boot/main.c\<close> and \<^verbatim>\<open>kern/entrypgdir.c\<close>.
  \<^item> \<open>UserLib\<close>: the library of user programs in \<^verbatim>\<open>lib\<close>: system call stubs, messages, \<^verbatim>\<open>fork\<close>, start and exit.
    What the rest of the system does while a process does not run is an argument. \<open>UserProps\<close>, \<open>UserFork\<close>:
    \<^verbatim>\<open>dup_or_share\<close> composed of its system calls, the loop of \<^verbatim>\<open>fork_v0\<close> by an invariant over the pages
    handed to the child; the child gets a copy of the address space, and no other address space changes. The locals of
    user functions are not in memory, and the stubs enter the dispatcher of system calls directly.
  \<^item> \<open>UserProgs\<close>: the programs under \<^verbatim>\<open>user\<close>, as clients of that library. \<open>UserFaults\<close>: a program that passes a bad pointer
    to \<^verbatim>\<open>sys_cputs\<close>, from the library down to the scheduler, is ended; the console shows the two messages of the kernel and nothing of the range. \<open>UserProgProps\<close>: the counter
    of \<^verbatim>\<open>user/contador.c\<close> counts, and shows its digits in its own line of the screen only.

  \<^bold>\<open>Bounds.\<close> Directories \<open>D\<close> are considered below \<^verbatim>\<open>UTOP\<close>, that is at the indices \<open>{..<955}\<close>; the entries above
    are the kernel's own, shared by all environments and never changed after boot. Frames of
    directories are below \<open>2 ^ 16\<close> where the kernel reaches them through \<^verbatim>\<open>KADDR\<close>, the 256 MB above \<^verbatim>\<open>KERNBASE\<close>.
    Mapping a page needs its 16 bit reference count below 65535, which the code does not check.

  \<^bold>\<open>Not modelled.\<close> The assembler files (mode switches, trap stubs) and the segment register
  loads of \<^verbatim>\<open>env_init_percpu\<close>; the flags of \<open>cr0\<close>; the acknowledgement of timer interrupts inside \<^verbatim>\<open>trap\<close>;
  the messages of the boot sequence, of the self-tests, of \<^verbatim>\<open>mp_init\<close> and of \<^verbatim>\<open>sched_halt\<close> (the messages of traps, of
  \<^verbatim>\<open>user_mem_assert\<close>, \<^verbatim>\<open>sys_env_destroy\<close>, \<^verbatim>\<open>env_free\<close> and \<^verbatim>\<open>env_alloc\<close> are modelled where system calls and traps reach them); what
  the kernel does after it has dereferenced a NULL pointer at an address that a user program has mapped; the user programs \<^verbatim>\<open>pingpongs\<close> (which stops at the panic
  of \<^verbatim>\<open>sfork\<close>) and \<^verbatim>\<open>stresssched\<close> (which waits for other processors to change the table of
  environments), and the inline assembler of \<^verbatim>\<open>faultregs\<close>. Handlers of the
  kernel run under the big lock and are therefore sequential in the model; the lock itself
  is modelled with all interleavings.
\<close>

end
